(* ===== verification/Prelude.thy ===== *)
theory Prelude
  imports Main "HOL-Library.Word" "HOL-Library.List_Lexorder" "HOL-Library.Sublist"
    "HOL-Library.Monad_Syntax"
begin

text \<open>
  Shared vocabulary of the development: the machine integers of the 64-bit little-endian
  target, the flat byte memory that the firmware's C code reads and writes, byte strings
  held in that memory, and the little-endian encoding of multi-byte accesses.

  \<^item> \<open>mem\<close> maps every 64-bit address to a byte; address arithmetic wraps, as pointers do
    on the target.  An address \<open>a\<close> lies in the region of \<open>n\<close> bytes at \<open>b\<close> when
    \<open>unat (a - b) < n\<close> (\<open>in_region\<close>), a test that is also right for a region that
    wraps around.
  \<^item> \<open>mread\<close> and \<open>mwrite\<close> are the list view of a region, \<open>cstr m a s\<close> says that the
    NUL-terminated C string at \<open>a\<close> is \<open>s\<close>.
  \<^item> \<open>le_val\<close> and \<open>le_bytes\<close> are the two directions of the little-endian encoding.

  Three collections of simplification rules are filled by the component theories:
  \<open>mem_simps\<close> (regions and strings), \<open>bit_list_simps\<close> (words as lists of bits) and
  \<open>soc_consts\<close> (register addresses and masks of the system-on-chip).
\<close>

unbundle bit_operations_syntax

named_theorems mem_simps \<open>reading and writing regions of memory\<close>
named_theorems bit_list_simps \<open>words as lists of bits\<close>
named_theorems soc_consts \<open>numeric constants of the system-on-chip\<close>

type_synonym byte = "8 word"
type_synonym u16 = "16 word"
type_synonym u32 = "32 word"
type_synonym u64 = "64 word"
type_synonym addr = "64 word"
type_synonym mem = "addr \<Rightarrow> byte"

text \<open>The bytes of a string literal of the source (without the terminating NUL).\<close>

abbreviation ascii :: "string \<Rightarrow> byte list" where
  "ascii s \<equiv> map of_char s"

abbreviation chr :: "char \<Rightarrow> byte" where
  "chr c \<equiv> of_char c"

text \<open>The largest value of the C type \<open>int\<close>.\<close>

definition INT_MAX :: int where
  "INT_MAX = 2147483647"

text \<open>The value of a C expression whose evaluation may be undefined behaviour (a signed overflow,
  an access past the end of an array).\<close>

datatype 'a c_val = Undefined | Defined 'a

section \<open>Word arithmetic\<close>

lemma unat_pred: "(n :: 'a::len word) \<noteq> 0 \<Longrightarrow> unat (n - 1) = unat n - 1"
  by (metis One_nat_def Suc_pred diff_Suc_1 unat_gt_0 unat_minus_one)

lemma unat_pred_less [simp]: "(n :: 'a::len word) \<noteq> 0 \<Longrightarrow> unat (n - 1) < unat n"
  by (simp add: unat_pred unat_gt_0)

lemma unat_minus_of_nat:
  "k \<le> unat (n :: 'a::len word) \<Longrightarrow> unat (n - of_nat k) = unat n - k"
  by (metis le_unat_uoi unat_sub word_le_nat_alt)

lemma unat_add_of_nat:
  "unat a + k < 2 ^ LENGTH('a) \<Longrightarrow> unat (a + of_nat k) = unat a + k" for a :: "'a::len word"
  by (simp add: unat_word_ariths unsigned_of_nat take_bit_eq_mod)

lemma unat_lt_64 [simp]: "unat n < 18446744073709551616" "unat n \<le> 18446744073709551616" for n :: u64
  using unsigned_less [of n, where ?'a = nat] by simp_all

lemma unat_minus_1_64 [simp]: "unat (- 1 :: u64) = 18446744073709551615"
  by (simp add: unsigned_minus_1_eq_mask mask_eq_exp_minus_1)

lemma uint_diff_eq_0: "uint x - uint y = 0 \<longleftrightarrow> x = y" for x y :: "'a::len word"
  by (simp add: word_uint_eq_iff)

lemma uint_diff_less_0: "uint x - uint y < 0 \<longleftrightarrow> x < y" for x y :: "'a::len word"
  by (simp add: word_less_def)

lemma uint_pos_iff: "0 < uint x \<longleftrightarrow> x \<noteq> 0" for x :: "'a::len word"
  by (metis word_less_def uint_0_eq word_neq_0_conv)

lemma unat_ucast_up:
  "LENGTH('a) \<le> LENGTH('b) \<Longrightarrow> unat (ucast w :: 'b::len word) = unat w" for w :: "'a::len word"
  by (simp add: unsigned_ucast_eq take_bit_nat_eq_self_iff)
    (meson less_le_trans one_le_numeral power_increasing unsigned_less)

lemma word_not_gt_0 [simp]: "\<not> 0 < n \<longleftrightarrow> n = 0" for n :: "'a::len word"
  using word_neq_0_conv [of n] by auto

lemma unat_pred_pred_less: "0 < n - 1 \<Longrightarrow> unat (n - 2) < unat (n - 1)" for n :: "'a::len word"
proof -
  assume "0 < n - 1"
  then have "unat (n - 1 - 1) < unat (n - 1)"
    by (intro unat_pred_less) auto
  moreover have "n - 1 - 1 = n - 2" by simp
  ultimately show ?thesis by (simp only:)
qed

lemma unat_succ_less: "p < e \<Longrightarrow> unat (p + 1) = Suc (unat p)" for p :: "'a::len word"
proof -
  assume "p < e"
  then have "unat p + 1 < 2 ^ LENGTH('a)"
    using unsigned_less [of e, where ?'a = nat] unfolding word_less_nat_alt by linarith
  then show ?thesis using unat_add_of_nat [of p 1] by simp
qed

lemma unat_gt_0_Suc: "0 < n \<Longrightarrow> unat n = Suc (unat (n - 1))" for n :: "'a::len word"
  by (simp add: unat_pred unat_gt_0 word_neq_0_conv)

lemma take_bit_64 [simp]: "take_bit 64 v = v" for v :: u64
  by (rule bit_word_eqI) (simp add: bit_simps)

section \<open>Regions of memory\<close>

text \<open>An updated memory is kept in the form \<open>m(a := b)\<close>: reading it is decided by comparing
  the addresses, and the update is never unfolded into a conditional.\<close>

declare fun_upd_apply [simp del]
declare fun_upd_same [simp] fun_upd_other [simp]

definition in_region :: "addr \<Rightarrow> addr \<Rightarrow> nat \<Rightarrow> bool" where
  "in_region a b n \<longleftrightarrow> unat (a - b) < n"

fun mread :: "mem \<Rightarrow> addr \<Rightarrow> nat \<Rightarrow> byte list" where
  "mread m a 0 = []"
| "mread m a (Suc n) = m a # mread m (a + 1) n"

fun mwrite :: "mem \<Rightarrow> addr \<Rightarrow> byte list \<Rightarrow> mem" where
  "mwrite m a [] = m"
| "mwrite m a (b # bs) = mwrite (m(a := b)) (a + 1) bs"

lemma length_mread [simp, mem_simps]: "length (mread m a n) = n"
  by (induction n arbitrary: a) auto

lemma mread_numeral [simp]:
  "mread m a (numeral k) = m a # mread m (a + 1) (pred_numeral k)"
  by (simp add: numeral_eq_Suc)

lemma replicate_numeral [simp]: "replicate (numeral k) x = x # replicate (pred_numeral k) x"
  by (simp add: numeral_eq_Suc)

lemma mread_nth: "i < n \<Longrightarrow> mread m a n ! i = m (a + of_nat i)"
proof (induction n arbitrary: a i)
  case 0
  then show ?case by simp
next
  case (Suc n)
  then show ?case by (cases i) (auto simp: algebra_simps)
qed

lemma mread_add: "mread m a (i + j) = mread m a i @ mread m (a + of_nat i) j"
  by (induction i arbitrary: a) (auto simp: algebra_simps)

lemma mwrite_append: "mwrite m a (xs @ ys) = mwrite (mwrite m a xs) (a + of_nat (length xs)) ys"
  by (induction xs arbitrary: m a) (auto simp: algebra_simps)

lemma in_region_Suc:
  "in_region x a (Suc n) \<longleftrightarrow> x = a \<or> (x \<noteq> a \<and> in_region x (a + 1) n)"
proof (cases "x = a")
  case True
  then show ?thesis by (simp add: in_region_def)
next
  case False
  then have "x - a \<noteq> 0" by simp
  then have "unat (x - a - 1) = unat (x - a) - 1" and "0 < unat (x - a)"
    by (rule unat_pred, simp add: unat_gt_0)
  moreover have "x - (a + 1) = x - a - 1" by simp
  ultimately have "unat (x - (a + 1)) = unat (x - a) - 1" and "0 < unat (x - a)"
    by (simp_all only:)
  then show ?thesis
    using False by (auto simp: in_region_def)
qed

lemma in_region_0 [simp]: "\<not> in_region x a 0"
  by (simp add: in_region_def)

lemma mread_cong:
  "(\<And>x. in_region x a n \<Longrightarrow> m x = m' x) \<Longrightarrow> mread m a n = mread m' a n"
proof (induction n arbitrary: a)
  case 0
  then show ?case by simp
next
  case (Suc n)
  have "m x = m' x" if "in_region x (a + 1) n" for x
    using Suc.prems [of x] that by (auto simp: in_region_Suc)
  moreover have "m a = m' a"
    using Suc.prems [of a] by (simp add: in_region_Suc)
  ultimately show ?case using Suc.IH by simp
qed

lemma mwrite_other [mem_simps]:
  "\<not> in_region x a (length bs) \<Longrightarrow> mwrite m a bs x = m x"
proof (induction bs arbitrary: m a)
  case Nil
  then show ?case by simp
next
  case (Cons b bs)
  then have "x \<noteq> a" and "\<not> in_region x (a + 1) (length bs)"
    by (auto simp: in_region_Suc)
  with Cons.IH show ?case by simp
qed

lemma not_in_region_next: "n < 2 ^ 64 \<Longrightarrow> \<not> in_region a (a + 1) n"
  by (simp add: in_region_def unsigned_minus_1_eq_mask mask_eq_exp_minus_1)

lemma mwrite_same:
  "i < length bs \<Longrightarrow> length bs \<le> 2 ^ 64 \<Longrightarrow> mwrite m a bs (a + of_nat i) = bs ! i"
proof (induction bs arbitrary: m a i)
  case Nil
  then show ?case by simp
next
  case (Cons b bs)
  show ?case
  proof (cases i)
    case 0
    with Cons.prems have "\<not> in_region a (a + 1) (length bs)"
      by (intro not_in_region_next) auto
    with 0 show ?thesis by (simp add: mwrite_other)
  next
    case (Suc j)
    have "mwrite (m(a := b)) (a + 1) bs (a + 1 + of_nat j) = bs ! j"
      using Cons.prems Suc by (intro Cons.IH) auto
    with Suc show ?thesis by (simp add: add.assoc)
  qed
qed

lemma not_in_region_end: "n < 2 ^ 64 \<Longrightarrow> \<not> in_region (a + of_nat n) a n"
  by (simp add: in_region_def unat_of_nat take_bit_nat_eq_self)

lemma region_split:
  "in_region x (a + of_nat k) n \<Longrightarrow> k + n \<le> 2 ^ 64 \<Longrightarrow> \<not> in_region x a k"
proof
  assume n: "in_region x (a + of_nat k) n" and k: "k + n \<le> 2 ^ 64" and "in_region x a k"
  then have lt: "unat (x - a) < k" by (simp add: in_region_def)
  have "0 < n" using n by (cases n) auto
  with k have "unat (of_nat k :: addr) = k"
    by (simp add: unsigned_of_nat take_bit_nat_eq_self)
  then have "unat (x - a - of_nat k) = unat (x - a) + 2 ^ 64 - k"
    using lt by (simp add: unat_sub_if')
  then have "unat (x - (a + of_nat k)) = unat (x - a) + 2 ^ 64 - k"
    by (simp add: diff_diff_add)
  with n k show False by (simp add: in_region_def)
qed

lemma in_region_add:
  "in_region x (a + of_nat k) n \<Longrightarrow> in_region x a (k + n)"
  by (induction k arbitrary: a) (auto simp: in_region_Suc algebra_simps)

lemma mwrite_upd_other:
  "\<not> in_region x a (length bs) \<Longrightarrow> mwrite (m(x := v)) a bs = (mwrite m a bs)(x := v)"
proof (induction bs arbitrary: m a)
  case Nil
  then show ?case by simp
next
  case (Cons b bs)
  then have "x \<noteq> a" and "\<not> in_region x (a + 1) (length bs)"
    by (auto simp: in_region_Suc)
  with Cons.IH [of "a + 1" "m(a := b)"] show ?case by (simp add: fun_upd_twist)
qed

lemma mread_mwrite:
  "length bs \<le> 2 ^ 64 \<Longrightarrow> mread (mwrite m a bs) a (length bs) = bs"
  by (rule nth_equalityI) (auto simp: mread_nth mwrite_same)

lemma mwrite_mread_id: "mwrite m a (mread m a n) = m"
  by (induction n arbitrary: a) auto

text \<open>A forward byte copy is undisturbed by its own writes when the destination does not start
  inside the source.\<close>

lemma mread_upd_other [mem_simps]:
  "\<not> in_region x a n \<Longrightarrow> mread (m(x := v)) a n = mread m a n"
  by (rule mread_cong) (auto simp: fun_upd_apply)

lemma mread_mwrite_other:
  "(\<And>x. in_region x a n \<Longrightarrow> \<not> in_region x b (length bs)) \<Longrightarrow>
   mread (mwrite m b bs) a n = mread m a n"
  by (rule mread_cong) (auto simp: mwrite_other)

section \<open>C strings in memory\<close>

fun cstr :: "mem \<Rightarrow> addr \<Rightarrow> byte list \<Rightarrow> bool" where
  "cstr m a [] \<longleftrightarrow> m a = 0"
| "cstr m a (c # cs) \<longleftrightarrow> m a = c \<and> c \<noteq> 0 \<and> cstr m (a + 1) cs"

lemma cstr_no_nul: "cstr m a s \<Longrightarrow> 0 \<notin> set s"
  by (induction s arbitrary: a) auto

lemma cstr_unique: "cstr m a s \<Longrightarrow> cstr m a t \<Longrightarrow> s = t"
proof (induction s arbitrary: a t)
  case Nil
  then show ?case by (cases t) auto
next
  case (Cons c s)
  then show ?case by (cases t) auto
qed

lemma cstr_cong:
  "(\<And>x. in_region x a (Suc (length s)) \<Longrightarrow> m x = m' x) \<Longrightarrow> cstr m a s \<longleftrightarrow> cstr m' a s"
proof (induction s arbitrary: a)
  case Nil
  then show ?case by (simp add: in_region_Suc)
next
  case (Cons c s)
  have "m x = m' x" if "in_region x (a + 1) (Suc (length s))" for x
    using Cons.prems [of x] that by (auto simp: in_region_Suc [of x a])
  moreover have "m a = m' a"
    using Cons.prems [of a] by (simp add: in_region_Suc)
  ultimately show ?case using Cons.IH by simp
qed

lemma cstr_mread_iff:
  "cstr m a s \<longleftrightarrow> mread m a (Suc (length s)) = s @ [0] \<and> 0 \<notin> set s"
proof (induction s arbitrary: a)
  case Nil
  then show ?case by simp
next
  case (Cons c s)
  then show ?case using Cons.IH [of "a + 1"] by auto
qed

lemma cstr_mread: "cstr m a s \<Longrightarrow> mread m a (Suc (length s)) = s @ [0]"
  by (simp only: cstr_mread_iff)

lemma cstr_drop: "cstr m a s \<Longrightarrow> i \<le> length s \<Longrightarrow> cstr m (a + of_nat i) (drop i s)"
proof (induction i arbitrary: a s)
  case 0
  then show ?case by simp
next
  case (Suc i)
  then obtain c t where s: "s = c # t" by (cases s) auto
  with Suc have "cstr m (a + 1 + of_nat i) (drop i t)" by simp
  with s show ?case by (simp add: algebra_simps)
qed

lemma cstr_nth: "cstr m a s \<Longrightarrow> i < length s \<Longrightarrow> m (a + of_nat i) = s ! i"
  using cstr_drop [of m a s i] by (simp add: Cons_nth_drop_Suc [symmetric])

lemma cstr_end: "cstr m a s \<Longrightarrow> m (a + of_nat (length s)) = 0"
  using cstr_drop [of m a s "length s"] by simp

section \<open>Little-endian encoding\<close>

fun le_bytes :: "nat \<Rightarrow> u64 \<Rightarrow> byte list" where
  "le_bytes 0 v = []"
| "le_bytes (Suc n) v = ucast v # le_bytes n (drop_bit 8 v)"

fun le_val :: "byte list \<Rightarrow> u64" where
  "le_val [] = 0"
| "le_val (b # bs) = ucast b OR push_bit 8 (le_val bs)"

lemma le_bytes_numeral [simp]:
  "le_bytes (numeral k) v = ucast v # le_bytes (pred_numeral k) (drop_bit 8 v)"
  by (simp add: numeral_eq_Suc)

lemma length_le_bytes [simp]: "length (le_bytes n v) = n"
  by (induction n arbitrary: v) auto

lemma le_val_le_bytes: "n \<le> 8 \<Longrightarrow> le_val (le_bytes n v) = take_bit (8 * n) v"
proof (induction n arbitrary: v)
  case 0
  then show ?case by simp
next
  case (Suc n)
  then have IH: "le_val (le_bytes n (drop_bit 8 v)) = take_bit (8 * n) (drop_bit 8 v)"
    by simp
  show ?case
    by (rule bit_word_eqI)
      (auto simp: IH bit_simps)
qed

lemma bit_le_val:
  "length bs \<le> 8 \<Longrightarrow> bit (le_val bs) i \<longleftrightarrow> i < 8 * length bs \<and> bit (bs ! (i div 8)) (i mod 8)"
proof (induction bs arbitrary: i)
  case Nil
  then show ?case by simp
next
  case (Cons b bs)
  show ?case
  proof (cases "i < 8")
    case True
    then show ?thesis by (simp add: bit_simps)
  next
    case False
    then obtain j where i: "i = j + 8" by (metis add.commute le_Suc_ex not_less)
    have "\<not> bit b i" using False by (auto dest: bit_imp_le_length)
    moreover have "(j + 8) div 8 = Suc (j div 8)" by simp
    ultimately show ?thesis
      using Cons.IH [of j] Cons.prems
      by (auto simp: i bit_simps dest: bit_imp_le_length)
  qed
qed

lemma le_bytes_le_val: "length bs \<le> 8 \<Longrightarrow> le_bytes (length bs) (le_val bs) = bs"
proof (induction bs)
  case Nil
  then show ?case by simp
next
  case (Cons b bs)
  have "drop_bit 8 (le_val (b # bs)) = le_val bs"
  proof (rule bit_word_eqI)
    fix i :: nat
    have "(8 + i) div 8 = Suc (i div 8)" by simp
    then show "bit (drop_bit 8 (le_val (b # bs))) i = bit (le_val bs) i"
      using Cons.prems bit_le_val [of bs i] bit_le_val [of "b # bs" "8 + i"]
      by (auto simp: bit_drop_bit_eq simp del: le_val.simps)
  qed
  moreover have "ucast (le_val (b # bs)) = b"
    by (rule bit_word_eqI) (auto simp: bit_simps)
  ultimately show ?case using Cons by simp
qed

end
