(* ===== verification/Soc_Io.thy ===== *)
theory Soc_Io
  imports Prelude
begin

text \<open>
  The memory map and the register accesses of the system-on-chip
  (\<open>include/microwatt_soc.h\<close>, \<open>include/io.h\<close>).

  The hardware behind the bus is not C code: it is a parameter of every operation, a record of
  two functions on an arbitrary device state.  An access of \<open>n\<close> bytes (1, 2, 4 or 8) at an
  address delivers a value or takes one, and may change the device; the cache-inhibited loads and
  stores of \<open>io.h\<close> are these accesses at their width.
\<close>

record 'd bus =
  bus_read :: "nat \<Rightarrow> addr \<Rightarrow> 'd \<Rightarrow> u64 \<times> 'd"
  bus_write :: "nat \<Rightarrow> addr \<Rightarrow> u64 \<Rightarrow> 'd \<Rightarrow> 'd"

section \<open>Memory map\<close>

definition DRAM_BASE :: u64 where [soc_consts]: "DRAM_BASE = 0x40000000"
definition SYSCON_BASE :: u64 where [soc_consts]: "SYSCON_BASE = 0xc0000000"
definition UART_BASE :: u64 where [soc_consts]: "UART_BASE = 0xc0002000"
definition SPI_FCTRL_BASE :: u64 where [soc_consts]: "SPI_FCTRL_BASE = 0xc0006000"
definition SPI_FLASH_BASE :: u32 where [soc_consts]: "SPI_FLASH_BASE = 0xf0000000"
definition DRAM_INIT_BASE :: u64 where [soc_consts]: "DRAM_INIT_BASE = 0xff000000"

section \<open>System control registers\<close>

definition SYS_REG_SIGNATURE :: u64 where [soc_consts]: "SYS_REG_SIGNATURE = 0x00"
definition SYS_REG_INFO :: u64 where [soc_consts]: "SYS_REG_INFO = 0x08"
definition SYS_REG_INFO_HAS_UART :: u64 where [soc_consts]: "SYS_REG_INFO_HAS_UART = push_bit 0 1"
definition SYS_REG_INFO_HAS_DRAM :: u64 where [soc_consts]: "SYS_REG_INFO_HAS_DRAM = push_bit 1 1"
definition SYS_REG_INFO_HAS_BRAM :: u64 where [soc_consts]: "SYS_REG_INFO_HAS_BRAM = push_bit 2 1"
definition SYS_REG_INFO_HAS_SPI_FLASH :: u64 where
  [soc_consts]: "SYS_REG_INFO_HAS_SPI_FLASH = push_bit 3 1"
definition SYS_REG_INFO_HAS_LITEETH :: u64 where [soc_consts]: "SYS_REG_INFO_HAS_LITEETH = push_bit 4 1"
definition SYS_REG_INFO_HAS_LARGE_SYSCON :: u64 where
  [soc_consts]: "SYS_REG_INFO_HAS_LARGE_SYSCON = push_bit 5 1"
definition SYS_REG_INFO_HAS_LITESDCARD :: u64 where
  [soc_consts]: "SYS_REG_INFO_HAS_LITESDCARD = push_bit 8 1"
definition SYS_REG_BRAMINFO :: u64 where [soc_consts]: "SYS_REG_BRAMINFO = 0x10"
definition SYS_REG_BRAMINFO_SIZE_MASK :: u64 where
  [soc_consts]: "SYS_REG_BRAMINFO_SIZE_MASK = 0xfffffffffffff"
definition SYS_REG_DRAMINFO :: u64 where [soc_consts]: "SYS_REG_DRAMINFO = 0x18"
definition SYS_REG_DRAMINFO_SIZE_MASK :: u64 where
  [soc_consts]: "SYS_REG_DRAMINFO_SIZE_MASK = 0xfffffffffffff"
definition SYS_REG_CLKINFO :: u64 where [soc_consts]: "SYS_REG_CLKINFO = 0x20"
definition SYS_REG_CLKINFO_FREQ_MASK :: u64 where [soc_consts]: "SYS_REG_CLKINFO_FREQ_MASK = 0xffffffffff"
definition SYS_REG_CTRL :: u64 where [soc_consts]: "SYS_REG_CTRL = 0x28"
definition SYS_REG_CTRL_ALT_RESET :: u64 where [soc_consts]: "SYS_REG_CTRL_ALT_RESET = push_bit 3 1"
definition SYS_REG_DRAMINITINFO :: u64 where [soc_consts]: "SYS_REG_DRAMINITINFO = 0x30"
definition SYS_REG_SPI_INFO :: u64 where [soc_consts]: "SYS_REG_SPI_INFO = 0x38"
definition SYS_REG_SPI_INFO_FLASH_OFF_MASK :: u64 where
  [soc_consts]: "SYS_REG_SPI_INFO_FLASH_OFF_MASK = 0xffffffff"
definition SYS_REG_UART0_INFO :: u64 where [soc_consts]: "SYS_REG_UART0_INFO = 0x40"
definition SYS_REG_GIT_INFO :: u64 where [soc_consts]: "SYS_REG_GIT_INFO = 0x50"
definition SYS_REG_UART_IS_16550 :: u64 where [soc_consts]: "SYS_REG_UART_IS_16550 = push_bit 32 1"

section \<open>UART registers\<close>

definition POTATO_CONSOLE_TX :: u64 where [soc_consts]: "POTATO_CONSOLE_TX = 0x00"
definition POTATO_CONSOLE_RX :: u64 where [soc_consts]: "POTATO_CONSOLE_RX = 0x08"
definition POTATO_CONSOLE_STATUS :: u64 where [soc_consts]: "POTATO_CONSOLE_STATUS = 0x10"
definition POTATO_CONSOLE_STATUS_RX_EMPTY :: u64 where
  [soc_consts]: "POTATO_CONSOLE_STATUS_RX_EMPTY = 0x01"
definition POTATO_CONSOLE_STATUS_TX_FULL :: u64 where [soc_consts]: "POTATO_CONSOLE_STATUS_TX_FULL = 0x08"
definition POTATO_CONSOLE_CLOCK_DIV :: u64 where [soc_consts]: "POTATO_CONSOLE_CLOCK_DIV = 0x18"
definition POTATO_CONSOLE_IRQ_EN :: u64 where [soc_consts]: "POTATO_CONSOLE_IRQ_EN = 0x20"
definition POTATO_CONSOLE_IRQ_RX :: u64 where [soc_consts]: "POTATO_CONSOLE_IRQ_RX = 0x01"
definition POTATO_CONSOLE_IRQ_TX :: u64 where [soc_consts]: "POTATO_CONSOLE_IRQ_TX = 0x02"

definition UART_REG_RX :: u64 where [soc_consts]: "UART_REG_RX = 0x00"
definition UART_REG_TX :: u64 where [soc_consts]: "UART_REG_TX = 0x00"
definition UART_REG_DLL :: u64 where [soc_consts]: "UART_REG_DLL = 0x00"
definition UART_REG_IER :: u64 where [soc_consts]: "UART_REG_IER = 0x04"
definition UART_REG_IER_RDI :: byte where [soc_consts]: "UART_REG_IER_RDI = 0x01"
definition UART_REG_IER_THRI :: byte where [soc_consts]: "UART_REG_IER_THRI = 0x02"
definition UART_REG_DLM :: u64 where [soc_consts]: "UART_REG_DLM = 0x04"
definition UART_REG_FCR :: u64 where [soc_consts]: "UART_REG_FCR = 0x08"
definition UART_REG_FCR_EN_FIFO :: byte where [soc_consts]: "UART_REG_FCR_EN_FIFO = 0x01"
definition UART_REG_FCR_CLR_RCVR :: byte where [soc_consts]: "UART_REG_FCR_CLR_RCVR = 0x02"
definition UART_REG_FCR_CLR_XMIT :: byte where [soc_consts]: "UART_REG_FCR_CLR_XMIT = 0x04"
definition UART_REG_LCR :: u64 where [soc_consts]: "UART_REG_LCR = 0x0c"
definition UART_REG_LCR_8BIT :: byte where [soc_consts]: "UART_REG_LCR_8BIT = 0x03"
definition UART_REG_LCR_DLAB :: byte where [soc_consts]: "UART_REG_LCR_DLAB = 0x80"
definition UART_REG_MCR :: u64 where [soc_consts]: "UART_REG_MCR = 0x10"
definition UART_REG_MCR_DTR :: byte where [soc_consts]: "UART_REG_MCR_DTR = 0x01"
definition UART_REG_MCR_RTS :: byte where [soc_consts]: "UART_REG_MCR_RTS = 0x02"
definition UART_REG_LSR :: u64 where [soc_consts]: "UART_REG_LSR = 0x14"
definition UART_REG_LSR_DR :: byte where [soc_consts]: "UART_REG_LSR_DR = 0x01"
definition UART_REG_LSR_THRE :: byte where [soc_consts]: "UART_REG_LSR_THRE = 0x20"

section \<open>SPI flash controller registers\<close>

definition SPI_REG_DATA :: u64 where [soc_consts]: "SPI_REG_DATA = 0x00"
definition SPI_REG_CTRL :: u64 where [soc_consts]: "SPI_REG_CTRL = 0x04"
definition SPI_REG_CTRL_MANUAL_CS :: byte where [soc_consts]: "SPI_REG_CTRL_MANUAL_CS = 0x02"
definition SPI_REG_AUTO_CFG :: u64 where [soc_consts]: "SPI_REG_AUTO_CFG = 0x08"
definition SPI_REG_AUTO_CFG_DUMMIES_SHIFT :: nat where [soc_consts]: "SPI_REG_AUTO_CFG_DUMMIES_SHIFT = 8"
definition SPI_REG_AUT_CFG_MODE_QUAD :: u32 where [soc_consts]: "SPI_REG_AUT_CFG_MODE_QUAD = push_bit 11 3"
definition SPI_REG_AUTO_CFG_ADDR4 :: u32 where [soc_consts]: "SPI_REG_AUTO_CFG_ADDR4 = push_bit 13 1"
definition SPI_REG_AUTO_CFG_CKDIV_SHIFT :: nat where [soc_consts]: "SPI_REG_AUTO_CFG_CKDIV_SHIFT = 16"
definition SPI_REG_AUTO_CFG_CKDIV_MASK :: u32 where
  [soc_consts]: "SPI_REG_AUTO_CFG_CKDIV_MASK = push_bit SPI_REG_AUTO_CFG_CKDIV_SHIFT 0xff"
definition SPI_REG_AUTO_CFG_CSTOUT_SHIFT :: nat where [soc_consts]: "SPI_REG_AUTO_CFG_CSTOUT_SHIFT = 24"

section \<open>Register accesses\<close>

definition readb :: "'d bus \<Rightarrow> addr \<Rightarrow> 'd \<Rightarrow> byte \<times> 'd" where
  "readb io addr d = (let (v, d') = bus_read io 1 addr d in (ucast v, d'))"

definition readw :: "'d bus \<Rightarrow> addr \<Rightarrow> 'd \<Rightarrow> u16 \<times> 'd" where
  "readw io addr d = (let (v, d') = bus_read io 2 addr d in (ucast v, d'))"

definition readl :: "'d bus \<Rightarrow> addr \<Rightarrow> 'd \<Rightarrow> u32 \<times> 'd" where
  "readl io addr d = (let (v, d') = bus_read io 4 addr d in (ucast v, d'))"

definition readq :: "'d bus \<Rightarrow> addr \<Rightarrow> 'd \<Rightarrow> u64 \<times> 'd" where
  "readq io addr d = bus_read io 8 addr d"

definition writeb :: "'d bus \<Rightarrow> byte \<Rightarrow> addr \<Rightarrow> 'd \<Rightarrow> 'd" where
  "writeb io val addr d = bus_write io 1 addr (ucast val) d"

definition writew :: "'d bus \<Rightarrow> u16 \<Rightarrow> addr \<Rightarrow> 'd \<Rightarrow> 'd" where
  "writew io val addr d = bus_write io 2 addr (ucast val) d"

definition writel :: "'d bus \<Rightarrow> u32 \<Rightarrow> addr \<Rightarrow> 'd \<Rightarrow> 'd" where
  "writel io val addr d = bus_write io 4 addr (ucast val) d"

definition writeq :: "'d bus \<Rightarrow> u64 \<Rightarrow> addr \<Rightarrow> 'd \<Rightarrow> 'd" where
  "writeq io val addr d = bus_write io 8 addr val d"

lemmas io_defs = readb_def readw_def readl_def readq_def writeb_def writew_def writel_def writeq_def

text \<open>A busy-wait loop with an empty body: \<open>while (busy ());\<close>.  It returns the state after the last
  test, or nothing when the test never fails.\<close>

partial_function (option) wait_while :: "('s \<Rightarrow> bool \<times> 's) \<Rightarrow> 's \<Rightarrow> 's option" where
  "wait_while busy s = (if fst (busy s) then wait_while busy (snd (busy s)) else Some (snd (busy s)))"

text \<open>A device that records the accesses: it answers a read from a table of register values and
  keeps the list of writes, the oldest first.\<close>

type_synonym write_log = "(nat \<times> addr \<times> u64) list"

definition log_bus :: "(addr \<Rightarrow> u64) \<Rightarrow> write_log bus" where
  "log_bus regs = \<lparr>bus_read = (\<lambda>n a d. (regs a, d)), bus_write = (\<lambda>n a v d. d @ [(n, a, v)])\<rparr>"

lemma log_bus_simps [simp]:
  "bus_read (log_bus regs) n a d = (regs a, d)"
  "bus_write (log_bus regs) n a v d = d @ [(n, a, v)]"
  by (simp_all add: log_bus_def)


end
