(* ===== verification/Soc_Map.thy ===== *)
theory Soc_Map
  imports Soc_Io
begin

text \<open>
  The memory map of the system-on-chip.  The first part has the constants of \<open>include/microwatt_soc.h\<close> that no driver uses.  The second has
  the address decoders of the design (\<open>soc.vhdl\<close>), and shows that the header names the addresses that they select: every base with the
  size of its region reaches its device, as the comment in the design asks for.

  The numbers of registers and flags have the type that an access with them has; the constants of interrupts and shifts are numbers.
\<close>

named_theorems soc_map \<open>constants of the memory map and of registers\<close>

section \<open>Bases of the memory map\<close>

definition MEMORY_BASE :: u64 where [soc_map]: "MEMORY_BASE = 0x00000000"
definition BRAM_BASE :: u64 where [soc_map]: "BRAM_BASE = 0x80000000"
definition XICS_ICP_BASE :: u64 where [soc_map]: "XICS_ICP_BASE = 0xc0004000"
definition XICS_ICS_BASE :: u64 where [soc_map]: "XICS_ICS_BASE = 0xc0005000"
definition GPIO_BASE :: u64 where [soc_map]: "GPIO_BASE = 0xc0007000"
definition DRAM_CTRL_BASE :: u64 where [soc_map]: "DRAM_CTRL_BASE = 0xc8000000"
definition LETH_CSR_BASE :: u64 where [soc_map]: "LETH_CSR_BASE = 0xc8020000"
definition LETH_SRAM_BASE :: u64 where [soc_map]: "LETH_SRAM_BASE = 0xc8030000"
definition LSDC_CSR_BASE :: u64 where [soc_map]: "LSDC_CSR_BASE = 0xc8040000"

section \<open>Interrupt numbers\<close>

definition IRQ_UART0 :: nat where [soc_map]: "IRQ_UART0 = 0"
definition IRQ_ETHERNET :: nat where [soc_map]: "IRQ_ETHERNET = 1"
definition IRQ_UART1 :: nat where [soc_map]: "IRQ_UART1 = 2"
definition IRQ_SDCARD :: nat where [soc_map]: "IRQ_SDCARD = 3"
definition IRQ_GPIO :: nat where [soc_map]: "IRQ_GPIO = 4"

section \<open>System controller\<close>

definition SYS_REG_INFO_HAS_UART1 :: u64 where [soc_map]: "SYS_REG_INFO_HAS_UART1 = push_bit 6 1"
definition SYS_REG_INFO_HAS_ARTB :: u64 where [soc_map]: "SYS_REG_INFO_HAS_ARTB = push_bit 7 1"
definition SYS_REG_CTRL_DRAM_AT_0 :: u64 where [soc_map]: "SYS_REG_CTRL_DRAM_AT_0 = push_bit 0 1"
definition SYS_REG_CTRL_CORE_RESET :: u64 where [soc_map]: "SYS_REG_CTRL_CORE_RESET = push_bit 1 1"
definition SYS_REG_CTRL_SOC_RESET :: u64 where [soc_map]: "SYS_REG_CTRL_SOC_RESET = push_bit 2 1"
definition SYS_REG_UART1_INFO :: u64 where [soc_map]: "SYS_REG_UART1_INFO = 0x48"
definition SYS_REG_GIT_IS_DIRTY :: u64 where [soc_map]: "SYS_REG_GIT_IS_DIRTY = push_bit 63 1"
definition SYS_REG_CPU_CTRL :: u64 where [soc_map]: "SYS_REG_CPU_CTRL = 0x58"
definition SYS_REG_CPU_CTRL_ENABLE :: u64 where [soc_map]: "SYS_REG_CPU_CTRL_ENABLE = 0xff"
definition SYS_REG_TB_CTRL :: u64 where [soc_map]: "SYS_REG_TB_CTRL = 0x60"
definition SYS_REG_TB_CTRL_FREEZE :: u64 where [soc_map]: "SYS_REG_TB_CTRL_FREEZE = 0x01"
definition SYS_REG_TB_CTRL_RD_PROTECT :: u64 where [soc_map]: "SYS_REG_TB_CTRL_RD_PROTECT = 0x02"

section \<open>UARTs\<close>

definition POTATO_CONSOLE_STATUS_TX_EMPTY :: u64 where [soc_map]: "POTATO_CONSOLE_STATUS_TX_EMPTY = 0x02"
definition POTATO_CONSOLE_STATUS_RX_FULL :: u64 where [soc_map]: "POTATO_CONSOLE_STATUS_RX_FULL = 0x04"
definition UART_REG_IER_RLSI :: byte where [soc_map]: "UART_REG_IER_RLSI = 0x04"
definition UART_REG_IER_MSI :: byte where [soc_map]: "UART_REG_IER_MSI = 0x08"
definition UART_REG_IIR :: u64 where [soc_map]: "UART_REG_IIR = 0x08"
definition UART_REG_FCR_TRIG1 :: byte where [soc_map]: "UART_REG_FCR_TRIG1 = 0x00"
definition UART_REG_FCR_TRIG4 :: byte where [soc_map]: "UART_REG_FCR_TRIG4 = 0x40"
definition UART_REG_FCR_TRIG8 :: byte where [soc_map]: "UART_REG_FCR_TRIG8 = 0x80"
definition UART_REG_FCR_TRIG14 :: byte where [soc_map]: "UART_REG_FCR_TRIG14 = 0xc0"
definition UART_REG_LCR_5BIT :: byte where [soc_map]: "UART_REG_LCR_5BIT = 0x00"
definition UART_REG_LCR_6BIT :: byte where [soc_map]: "UART_REG_LCR_6BIT = 0x01"
definition UART_REG_LCR_7BIT :: byte where [soc_map]: "UART_REG_LCR_7BIT = 0x02"
definition UART_REG_LCR_STOP :: byte where [soc_map]: "UART_REG_LCR_STOP = 0x04"
definition UART_REG_LCR_PAR :: byte where [soc_map]: "UART_REG_LCR_PAR = 0x08"
definition UART_REG_LCR_EVEN_PAR :: byte where [soc_map]: "UART_REG_LCR_EVEN_PAR = 0x10"
definition UART_REG_LCR_STIC_PAR :: byte where [soc_map]: "UART_REG_LCR_STIC_PAR = 0x20"
definition UART_REG_LCR_BREAK :: byte where [soc_map]: "UART_REG_LCR_BREAK = 0x40"
definition UART_REG_MCR_OUT1 :: byte where [soc_map]: "UART_REG_MCR_OUT1 = 0x04"
definition UART_REG_MCR_OUT2 :: byte where [soc_map]: "UART_REG_MCR_OUT2 = 0x08"
definition UART_REG_MCR_LOOP :: byte where [soc_map]: "UART_REG_MCR_LOOP = 0x10"
definition UART_REG_LSR_OE :: byte where [soc_map]: "UART_REG_LSR_OE = 0x02"
definition UART_REG_LSR_PE :: byte where [soc_map]: "UART_REG_LSR_PE = 0x04"
definition UART_REG_LSR_FE :: byte where [soc_map]: "UART_REG_LSR_FE = 0x08"
definition UART_REG_LSR_BI :: byte where [soc_map]: "UART_REG_LSR_BI = 0x10"
definition UART_REG_LSR_TEMT :: byte where [soc_map]: "UART_REG_LSR_TEMT = 0x40"
definition UART_REG_LSR_FIFOE :: byte where [soc_map]: "UART_REG_LSR_FIFOE = 0x80"
definition UART_REG_MSR :: u64 where [soc_map]: "UART_REG_MSR = 0x18"
definition UART_REG_SCR :: u64 where [soc_map]: "UART_REG_SCR = 0x1c"

section \<open>Flash controller\<close>

definition SPI_REG_DATA_DUAL :: u64 where [soc_map]: "SPI_REG_DATA_DUAL = 0x01"
definition SPI_REG_DATA_QUAD :: u64 where [soc_map]: "SPI_REG_DATA_QUAD = 0x02"
definition SPI_REG_CTRL_RESET :: byte where [soc_map]: "SPI_REG_CTRL_RESET = 0x01"
definition SPI_REG_CTRL_CKDIV_SHIFT :: nat where [soc_map]: "SPI_REG_CTRL_CKDIV_SHIFT = 8"
definition SPI_REG_CTRL_CKDIV_MASK :: u32 where [soc_map]: "SPI_REG_CTRL_CKDIV_MASK = push_bit SPI_REG_CTRL_CKDIV_SHIFT 0xff"
definition SPI_REG_AUTO_CFG_CMD_SHIFT :: nat where [soc_map]: "SPI_REG_AUTO_CFG_CMD_SHIFT = 0"
definition SPI_REG_AUTO_CFG_CMD_MASK :: u32 where [soc_map]: "SPI_REG_AUTO_CFG_CMD_MASK = push_bit SPI_REG_AUTO_CFG_CMD_SHIFT 0xff"
definition SPI_REG_AUTO_CFG_DUMMIES_MASK :: u32 where [soc_map]: "SPI_REG_AUTO_CFG_DUMMIES_MASK = push_bit SPI_REG_AUTO_CFG_DUMMIES_SHIFT 0x7"
definition SPI_REG_AUTO_CFG_MODE_SHIFT :: nat where [soc_map]: "SPI_REG_AUTO_CFG_MODE_SHIFT = 11"
definition SPI_REG_AUTO_CFG_MODE_MASK :: u32 where [soc_map]: "SPI_REG_AUTO_CFG_MODE_MASK = push_bit SPI_REG_AUTO_CFG_MODE_SHIFT 0x3"
definition SPI_REG_AUT_CFG_MODE_SINGLE :: u32 where [soc_map]: "SPI_REG_AUT_CFG_MODE_SINGLE = push_bit 11 0"
definition SPI_REG_AUT_CFG_MODE_DUAL :: u32 where [soc_map]: "SPI_REG_AUT_CFG_MODE_DUAL = push_bit 11 2"
definition SPI_REG_AUTO_CFG_CSTOUT_MASK :: u32 where [soc_map]: "SPI_REG_AUTO_CFG_CSTOUT_MASK = push_bit SPI_REG_AUTO_CFG_CSTOUT_SHIFT 0x3f"

section \<open>General input and output\<close>

definition GPIO_REG_DATA_OUT :: u64 where [soc_map]: "GPIO_REG_DATA_OUT = 0x00"
definition GPIO_REG_DATA_IN :: u64 where [soc_map]: "GPIO_REG_DATA_IN = 0x04"
definition GPIO_REG_DIR :: u64 where [soc_map]: "GPIO_REG_DIR = 0x08"
definition GPIO_REG_DATA_SET :: u64 where [soc_map]: "GPIO_REG_DATA_SET = 0x10"
definition GPIO_REG_DATA_CLR :: u64 where [soc_map]: "GPIO_REG_DATA_CLR = 0x14"
definition GPIO_REG_INT_EN :: u64 where [soc_map]: "GPIO_REG_INT_EN = 0x20"
definition GPIO_REG_INT_STAT :: u64 where [soc_map]: "GPIO_REG_INT_STAT = 0x24"
definition GPIO_REG_INT_CLR :: u64 where [soc_map]: "GPIO_REG_INT_CLR = 0x30"
definition GPIO_REG_INT_TYPE :: u64 where [soc_map]: "GPIO_REG_INT_TYPE = 0x34"
definition GPIO_REG_INT_BOTH_EDGE :: u64 where [soc_map]: "GPIO_REG_INT_BOTH_EDGE = 0x38"
definition GPIO_REG_INT_LEVEL :: u64 where [soc_map]: "GPIO_REG_INT_LEVEL = 0x3C"

section \<open>Accesses of the memory controller\<close>

text \<open>The accessors that the firmware gives to the LiteX code (\<open>sdram_init/include/system.h\<close>): values of 64 bits, registers of 32.\<close>

definition CSR_BASE :: u64 where [soc_map]: "CSR_BASE = DRAM_CTRL_BASE"

definition csr_write_simple :: "'d bus \<Rightarrow> u64 \<Rightarrow> u64 \<Rightarrow> 'd \<Rightarrow> 'd" where
  "csr_write_simple io v a d = writel io (ucast v) a d"

definition csr_read_simple :: "'d bus \<Rightarrow> u64 \<Rightarrow> 'd \<Rightarrow> u64 \<times> 'd" where
  "csr_read_simple io a d = (let (v, d') = readl io a d in (ucast v, d'))"

lemma csr_write_low: "csr_write_simple io v a d = bus_write io 4 a (take_bit 32 v) d"
proof -
  have "(ucast (ucast v :: u32) :: u64) = take_bit 32 v" by (rule bit_word_eqI) (simp add: bit_simps)
  then show ?thesis by (simp add: csr_write_simple_def writel_def)
qed

lemma csr_read_low: "bus_read io 4 a d = (v, d') \<Longrightarrow> csr_read_simple io a d = (take_bit 32 v, d')"
proof -
  have "(ucast (ucast v :: u32) :: u64) = take_bit 32 v" by (rule bit_word_eqI) (simp add: bit_simps)
  then show "bus_read io 4 a d = (v, d') \<Longrightarrow> csr_read_simple io a d = (take_bit 32 v, d')" by (simp add: csr_read_simple_def readl_def)
qed

section \<open>Fields\<close>

text \<open>The fields of the configuration of automatic reads tile the register except for the two reserved bits, and each is where the design
  has it: \<open>field hi lo\<close> is the slice of a vector from bit \<open>hi\<close> down to bit \<open>lo\<close>.\<close>

definition field :: "nat \<Rightarrow> nat \<Rightarrow> u32" where
  "field hi lo = push_bit lo (mask (Suc hi - lo))"

lemma autocfg_fields:
  "SPI_REG_AUTO_CFG_CMD_MASK = field 7 0" "SPI_REG_AUTO_CFG_DUMMIES_MASK = field 10 8" "SPI_REG_AUTO_CFG_MODE_MASK = field 12 11"
  "SPI_REG_AUTO_CFG_ADDR4 = field 13 13" "SPI_REG_AUTO_CFG_CKDIV_MASK = field 23 16" "SPI_REG_AUTO_CFG_CSTOUT_MASK = field 29 24"
  "SPI_REG_CTRL_CKDIV_MASK = field 15 8"
  by (simp_all add: soc_map soc_consts field_def mask_eq_exp_minus_1)

definition autocfg_masks :: "u32 list" where
  "autocfg_masks = [SPI_REG_AUTO_CFG_CMD_MASK, SPI_REG_AUTO_CFG_DUMMIES_MASK, SPI_REG_AUTO_CFG_MODE_MASK, SPI_REG_AUTO_CFG_ADDR4,
     SPI_REG_AUTO_CFG_CKDIV_MASK, SPI_REG_AUTO_CFG_CSTOUT_MASK]"

lemma autocfg_tiles: "sum_list autocfg_masks = mask 30 - field 15 14" "fold (OR) autocfg_masks 0 = mask 30 - field 15 14"
  by (simp_all add: autocfg_masks_def soc_map soc_consts field_def mask_eq_exp_minus_1)

text \<open>The flags of the line status are its eight bits, in order.\<close>

lemma lsr_flags:
  "[UART_REG_LSR_DR, UART_REG_LSR_OE, UART_REG_LSR_PE, UART_REG_LSR_FE, UART_REG_LSR_BI, UART_REG_LSR_THRE, UART_REG_LSR_TEMT,
    UART_REG_LSR_FIFOE] = map (\<lambda>i. push_bit i 1) [0..<8]"
  by (simp add: soc_map soc_consts upt_conv_Cons)

text \<open>The registers of the design's input and output block, which it numbers by words (\<open>gpio.vhdl\<close>).\<close>

lemma gpio_registers:
  "[GPIO_REG_DATA_OUT, GPIO_REG_DATA_IN, GPIO_REG_DIR, GPIO_REG_DATA_SET, GPIO_REG_DATA_CLR, GPIO_REG_INT_EN, GPIO_REG_INT_STAT,
    GPIO_REG_INT_CLR, GPIO_REG_INT_TYPE, GPIO_REG_INT_BOTH_EDGE, GPIO_REG_INT_LEVEL] =
   map (push_bit 2) [0b00000, 0b00001, 0b00010, 0b00100, 0b00101, 0b01000, 0b01001, 0b01100, 0b01101, 0b01110, 0b01111]"
  by (simp add: soc_map)

section \<open>The address decoders of the design\<close>

text \<open>The configuration of a system, from the generics of \<open>soc.vhdl\<close>, which passes them on to \<open>syscon.vhdl\<close>.  A UART is always there.\<close>

record soc_gen =
  NCPUS :: nat
  SIG_VALUE :: u64
  CLK_FREQ :: nat
  HAS_DRAM :: bool
  BRAM_SIZE :: nat
  DRAM_SIZE :: nat
  DRAM_INIT_SIZE :: nat
  HAS_SPI_FLASH :: bool
  SPI_FLASH_OFFSET :: nat
  HAS_LITEETH :: bool
  HAS_SD_CARD :: bool
  UART0_IS_16550 :: bool
  HAS_UART1 :: bool

text \<open>What an access reaches.  \<open>No_Slave\<close> is answered with ones.\<close>

datatype slave = Bram | Dram | Syscon | Uart0 | Uart1 | Icp | Ics | Spi_Reg | Spi_Map | Gpio | Dram_Csr | Dram_Init | Eth | Sdcard | No_Slave

text \<open>The top-level decoder looks at bits 31 to 29 of the address and the signal \<open>dram_at_0\<close>, the one for devices at the pages of 4 KB.
  A pattern of hexadecimal digits, in which dashes match everything, is a comparison of a quotient.\<close>

definition io_decode :: "soc_gen \<Rightarrow> nat \<Rightarrow> slave" where
  "io_decode g m =
     (if m div 0x1000 = 0xff \<and> HAS_DRAM g then Dram_Init
      else if m div 0x10000 = 0xf then Spi_Map
      else if m div 0x1000 = 0xc8 then
        (if m div 0x10 mod 0x100 = 0x00 \<and> HAS_DRAM g then Dram_Csr
         else if (m div 0x10 mod 0x100 = 0x02 \<or> m div 0x10 mod 0x100 = 0x03) \<and> HAS_LITEETH g then Eth
         else if m div 0x10 mod 0x100 = 0x04 \<and> HAS_SD_CARD g then Sdcard
         else No_Slave)
      else if m = 0xc0000 then Syscon
      else if m = 0xc0002 then Uart0
      else if m = 0xc0003 then Uart1
      else if m = 0xc0004 then Icp
      else if m = 0xc0005 then Ics
      else if m = 0xc0006 then Spi_Reg
      else if m = 0xc0007 then Gpio
      else No_Slave)"

definition soc_decode :: "soc_gen \<Rightarrow> bool \<Rightarrow> addr \<Rightarrow> slave" where
  "soc_decode g dram_at_0 addr =
     (let a = unat addr; top = a div 0x20000000 mod 8; dram = (if HAS_DRAM g then Dram else No_Slave)
      in if top = 0 \<and> \<not> dram_at_0 then Bram
         else if top = 0 \<and> dram_at_0 then dram
         else if top = 1 then dram
         else if top div 2 = 1 then dram
         else if top div 2 = 2 then Bram
         else io_decode g (0xc0000 + a div 0x1000 mod 0x40000))"


section \<open>Addresses as intervals\<close>

lemma quot_iff: "0 < c \<Longrightarrow> (x :: nat) div c = k \<longleftrightarrow> k * c \<le> x \<and> x < Suc k * c"
  by (metis Suc_eq_plus1 div_nat_eqI dividend_less_div_times mult.commute times_div_less_eq_dividend add.commute mult_Suc)

lemma ext_page: "m div 0x1000 = 0xc8 \<Longrightarrow> (m :: nat) div 0x10 mod 0x100 = r \<longleftrightarrow> m div 0x10 = 0xc800 + r"
proof -
  assume a: "m div 0x1000 = 0xc8"
  have "m div 0x10 div 0x100 = 0xc8" using a by (simp add: div_mult2_eq [symmetric])
  then have "m div 0x10 = 0xc800 + m div 0x10 mod 0x100" using div_mult_mod_eq [where a = "m div 0x10" and b = "0x100 :: nat"] by simp
  then show ?thesis by linarith
qed

text \<open>The decoder of devices in terms of the address.\<close>

lemma io_decode_ranges:
  fixes a :: nat
  assumes "0xc0000000 \<le> a" and "a < 0x100000000"
  shows "io_decode g (a div 0x1000) =
    (if 0xff000000 \<le> a \<and> HAS_DRAM g then Dram_Init
     else if 0xf0000000 \<le> a then Spi_Map
     else if 0xc8000000 \<le> a \<and> a < 0xc8010000 then (if HAS_DRAM g then Dram_Csr else No_Slave)
     else if 0xc8020000 \<le> a \<and> a < 0xc8040000 then (if HAS_LITEETH g then Eth else No_Slave)
     else if 0xc8040000 \<le> a \<and> a < 0xc8050000 then (if HAS_SD_CARD g then Sdcard else No_Slave)
     else if a < 0xc0001000 then Syscon
     else if 0xc0002000 \<le> a \<and> a < 0xc0003000 then Uart0
     else if 0xc0003000 \<le> a \<and> a < 0xc0004000 then Uart1
     else if 0xc0004000 \<le> a \<and> a < 0xc0005000 then Icp
     else if 0xc0005000 \<le> a \<and> a < 0xc0006000 then Ics
     else if 0xc0006000 \<le> a \<and> a < 0xc0007000 then Spi_Reg
     else if 0xc0007000 \<le> a \<and> a < 0xc0008000 then Gpio
     else No_Slave)"
proof -
  let ?m = "a div 0x1000"
  have top: "?m div 0x1000 = 0xff \<longleftrightarrow> 0xff000000 \<le> a" "?m div 0x10000 = 0xf \<longleftrightarrow> 0xf0000000 \<le> a"
    "?m div 0x1000 = 0xc8 \<longleftrightarrow> 0xc8000000 \<le> a \<and> a < 0xc9000000"
    using assms by (simp_all add: div_mult2_eq [symmetric] quot_iff)
  have page: "?m = 0xc0000 \<longleftrightarrow> a < 0xc0001000" "?m = 0xc0002 \<longleftrightarrow> 0xc0002000 \<le> a \<and> a < 0xc0003000"
    "?m = 0xc0003 \<longleftrightarrow> 0xc0003000 \<le> a \<and> a < 0xc0004000" "?m = 0xc0004 \<longleftrightarrow> 0xc0004000 \<le> a \<and> a < 0xc0005000"
    "?m = 0xc0005 \<longleftrightarrow> 0xc0005000 \<le> a \<and> a < 0xc0006000" "?m = 0xc0006 \<longleftrightarrow> 0xc0006000 \<le> a \<and> a < 0xc0007000"
    "?m = 0xc0007 \<longleftrightarrow> 0xc0007000 \<le> a \<and> a < 0xc0008000"
    using assms(1) by (simp_all add: quot_iff)
  have ext: "?m div 0x10 mod 0x100 = r \<longleftrightarrow> (0xc800 + r) * 0x10000 \<le> a \<and> a < Suc (0xc800 + r) * 0x10000"
    if "0xc8000000 \<le> a \<and> a < 0xc9000000" for r
  proof -
    have "?m div 0x10 = a div 0x10000" by (simp add: div_mult2_eq [symmetric])
    moreover have "?m div 0x1000 = 0xc8" using that top(3) by blast
    ultimately show ?thesis using ext_page [of ?m r] quot_iff [of "0x10000" a "0xc800 + r"] by simp
  qed
  show ?thesis
  proof (cases "0xc8000000 \<le> a \<and> a < 0xc9000000")
    case True
    have "\<not> 0xff000000 \<le> a" "\<not> 0xf0000000 \<le> a" using True by linarith+
    with True show ?thesis unfolding io_decode_def top ext [OF True] by (simp, linarith)
  next
    case False
    then have none: "(0xc8000000 \<le> a \<and> a < 0xc9000000) = False" "(0xc8000000 \<le> a \<and> a < 0xc8010000) = False"
      "(0xc8020000 \<le> a \<and> a < 0xc8040000) = False" "(0xc8040000 \<le> a \<and> a < 0xc8050000) = False"
      by auto
    show ?thesis unfolding io_decode_def top page none if_False by (rule refl)
  qed
qed

lemma soc_decode_ranges:
  assumes "a = unat addr" and "a < 0x100000000"
  shows "soc_decode g z addr =
    (if a < 0x20000000 \<and> \<not> z then Bram
     else if a < 0x80000000 then (if HAS_DRAM g then Dram else No_Slave)
     else if a < 0xc0000000 then Bram
     else io_decode g (a div 0x1000))"
proof -
  let ?t = "a div 0x20000000"
  have t: "?t < 8" using assms(2) by (simp add: less_mult_imp_div_less)
  have r: "?t = 0 \<longleftrightarrow> a < 0x20000000" "?t = 1 \<longleftrightarrow> 0x20000000 \<le> a \<and> a < 0x40000000" "?t div 2 = 1 \<longleftrightarrow> 0x40000000 \<le> a \<and> a < 0x80000000"
    "?t div 2 = 2 \<longleftrightarrow> 0x80000000 \<le> a \<and> a < 0xc0000000"
    by (simp_all add: div_mult2_eq [symmetric] quot_iff)
  have m: "0xc0000 + a div 0x1000 mod 0x40000 = a div 0x1000" if "0xc0000000 \<le> a"
  proof -
    have "a div 0x1000 div 0x40000 = 3" using that assms(2) by (simp add: div_mult2_eq [symmetric] quot_iff)
    then show ?thesis using div_mult_mod_eq [where a = "a div 0x1000" and b = "0x40000 :: nat"] by simp
  qed
  show ?thesis
    unfolding soc_decode_def Let_def assms(1) [symmetric] mod_less [OF t] r
    using m by (cases "a < 0x20000000"; cases "a < 0x40000000"; cases "a < 0x80000000"; cases "a < 0xc0000000") simp_all
qed

section \<open>Property\<close>

text \<open>What the header says about addresses: the bases with the registers that it defines for them; windows without registers go from their base to
  the next one; the memories have the sizes of the configuration.  A device is only there when the configuration has it.\<close>

definition syscon_regs :: "u64 list" where
  "syscon_regs = [SYS_REG_SIGNATURE, SYS_REG_INFO, SYS_REG_BRAMINFO, SYS_REG_DRAMINFO, SYS_REG_CLKINFO, SYS_REG_CTRL, SYS_REG_DRAMINITINFO,
     SYS_REG_SPI_INFO, SYS_REG_UART0_INFO, SYS_REG_UART1_INFO, SYS_REG_GIT_INFO, SYS_REG_CPU_CTRL, SYS_REG_TB_CTRL]"

definition uart_regs :: "u64 list" where
  "uart_regs = [POTATO_CONSOLE_TX, POTATO_CONSOLE_RX, POTATO_CONSOLE_STATUS, POTATO_CONSOLE_CLOCK_DIV, POTATO_CONSOLE_IRQ_EN,
     UART_REG_RX, UART_REG_TX, UART_REG_DLL, UART_REG_IER, UART_REG_DLM, UART_REG_IIR, UART_REG_FCR, UART_REG_LCR, UART_REG_MCR, UART_REG_LSR,
     UART_REG_MSR, UART_REG_SCR]"

definition spi_regs :: "u64 list" where
  "spi_regs = [SPI_REG_DATA, SPI_REG_DATA_DUAL, SPI_REG_DATA_QUAD, SPI_REG_CTRL, SPI_REG_AUTO_CFG]"

definition gpio_regs :: "u64 list" where
  "gpio_regs = [GPIO_REG_DATA_OUT, GPIO_REG_DATA_IN, GPIO_REG_DIR, GPIO_REG_DATA_SET, GPIO_REG_DATA_CLR, GPIO_REG_INT_EN, GPIO_REG_INT_STAT,
     GPIO_REG_INT_CLR, GPIO_REG_INT_TYPE, GPIO_REG_INT_BOTH_EDGE, GPIO_REG_INT_LEVEL]"

inductive header_map :: "soc_gen \<Rightarrow> bool \<Rightarrow> addr \<Rightarrow> slave \<Rightarrow> bool" for g dram_at_0 where
  main_bram: "\<not> dram_at_0 \<Longrightarrow> off < BRAM_SIZE g \<Longrightarrow> header_map g dram_at_0 (MEMORY_BASE + of_nat off) Bram"
| main_dram: "dram_at_0 \<Longrightarrow> HAS_DRAM g \<Longrightarrow> off < DRAM_SIZE g \<Longrightarrow> header_map g dram_at_0 (MEMORY_BASE + of_nat off) Dram"
| dram: "HAS_DRAM g \<Longrightarrow> off < DRAM_SIZE g \<Longrightarrow> header_map g dram_at_0 (DRAM_BASE + of_nat off) Dram"
| bram: "off < BRAM_SIZE g \<Longrightarrow> header_map g dram_at_0 (BRAM_BASE + of_nat off) Bram"
| syscon: "r \<in> set syscon_regs \<Longrightarrow> header_map g dram_at_0 (SYSCON_BASE + r) Syscon"
| uart: "r \<in> set uart_regs \<Longrightarrow> header_map g dram_at_0 (UART_BASE + r) Uart0"
| icp: "XICS_ICP_BASE \<le> a \<Longrightarrow> a < XICS_ICS_BASE \<Longrightarrow> header_map g dram_at_0 a Icp"
| ics: "XICS_ICS_BASE \<le> a \<Longrightarrow> a < SPI_FCTRL_BASE \<Longrightarrow> header_map g dram_at_0 a Ics"
| spi: "r \<in> set spi_regs \<Longrightarrow> header_map g dram_at_0 (SPI_FCTRL_BASE + r) Spi_Reg"
| gpio: "r \<in> set gpio_regs \<Longrightarrow> header_map g dram_at_0 (GPIO_BASE + r) Gpio"
| dram_csr: "HAS_DRAM g \<Longrightarrow> header_map g dram_at_0 DRAM_CTRL_BASE Dram_Csr"
| eth_csr: "HAS_LITEETH g \<Longrightarrow> LETH_CSR_BASE \<le> a \<Longrightarrow> a < LETH_SRAM_BASE \<Longrightarrow> header_map g dram_at_0 a Eth"
| eth_sram: "HAS_LITEETH g \<Longrightarrow> LETH_SRAM_BASE \<le> a \<Longrightarrow> a < LSDC_CSR_BASE \<Longrightarrow> header_map g dram_at_0 a Eth"
| sdcard: "HAS_SD_CARD g \<Longrightarrow> header_map g dram_at_0 LSDC_CSR_BASE Sdcard"
| flash_map: "ucast SPI_FLASH_BASE \<le> a \<Longrightarrow> a < DRAM_INIT_BASE \<Longrightarrow> header_map g dram_at_0 a Spi_Map"
| dram_init: "HAS_DRAM g \<Longrightarrow> off < DRAM_INIT_SIZE g \<Longrightarrow> header_map g dram_at_0 (DRAM_INIT_BASE + of_nat off) Dram_Init"

lemma decode_mem:
  assumes "unat base + off < 0x100000000"
  shows "soc_decode g z (base + of_nat off) =
    (if unat base + off < 0x20000000 \<and> \<not> z then Bram
     else if unat base + off < 0x80000000 then (if HAS_DRAM g then Dram else No_Slave)
     else if unat base + off < 0xc0000000 then Bram
     else io_decode g ((unat base + off) div 0x1000))"
  by (rule soc_decode_ranges) (use assms unat_add_of_nat [of base off] in simp_all)

lemma decode_io:
  assumes "0xc0000000 \<le> a" and "a < 0x100000000"
  shows "soc_decode g z a = io_decode g (unat a div 0x1000)"
  using assms by (simp add: soc_decode_ranges [OF refl] word_le_nat_alt word_less_nat_alt)

text \<open>C12: The memory map that the firmware is written for is the one of the design: for every configuration whose memories fit their windows, the
  address decoders select, for every address that the header of the memory map gives to a device, that device.\<close>

theorem memory_map_matches_design:
  assumes "BRAM_SIZE g \<le> 0x20000000" and "DRAM_SIZE g \<le> 0x40000000" and "DRAM_INIT_SIZE g \<le> 0x1000000"
    and "header_map g dram_at_0 addr dev"
  shows "soc_decode g dram_at_0 addr = dev"
  using assms(4)
proof cases
  case (main_bram off)
  then show ?thesis using decode_mem [of MEMORY_BASE off g False] assms(1) by (simp add: MEMORY_BASE_def)
next
  case (main_dram off)
  then show ?thesis using decode_mem [of MEMORY_BASE off g True] assms(2) by (simp add: MEMORY_BASE_def)
next
  case dram_csr
  then show ?thesis by (simp add: DRAM_CTRL_BASE_def decode_io io_decode_def)
next
  case sdcard
  then show ?thesis by (simp add: LSDC_CSR_BASE_def decode_io io_decode_def)
next
  case (syscon r)
  then show ?thesis by (auto simp: syscon_regs_def soc_map soc_consts decode_io io_decode_def)
next
  case (uart r)
  then show ?thesis by (auto simp: uart_regs_def soc_map soc_consts decode_io io_decode_def)
next
  case (spi r)
  then show ?thesis by (auto simp: spi_regs_def soc_map soc_consts decode_io io_decode_def)
next
  case (gpio r)
  then show ?thesis by (auto simp: gpio_regs_def soc_map soc_consts decode_io io_decode_def)
qed (use assms(1-3) in \<open>simp_all add: soc_map soc_consts decode_mem soc_decode_ranges [OF refl] io_decode_ranges word_le_nat_alt word_less_nat_alt\<close>)

text \<open>A system with memory, flash and an SD card at 100 MHz.\<close>

definition demo_gen :: soc_gen where
  "demo_gen = \<lparr>NCPUS = 1, SIG_VALUE = 0xf00daa5500010001, CLK_FREQ = 100000000, HAS_DRAM = True, BRAM_SIZE = 0,
     DRAM_SIZE = 0x10000000, DRAM_INIT_SIZE = 0x6000, HAS_SPI_FLASH = True, SPI_FLASH_OFFSET = 0, HAS_LITEETH = False, HAS_SD_CARD = True,
     UART0_IS_16550 = True, HAS_UART1 = False\<rparr>"

theorem memory_map_matches_design_witness:
  "soc_decode demo_gen True LSDC_CSR_BASE = Sdcard \<and> soc_decode demo_gen True (GPIO_BASE + GPIO_REG_DIR) = Gpio \<and>
   soc_decode demo_gen True (MEMORY_BASE + of_nat 0xfffffff) = Dram"
proof -
  have g: "BRAM_SIZE demo_gen \<le> 0x20000000" "DRAM_SIZE demo_gen \<le> 0x40000000" "DRAM_INIT_SIZE demo_gen \<le> 0x1000000" "HAS_SD_CARD demo_gen"
    "HAS_DRAM demo_gen" "0xfffffff < DRAM_SIZE demo_gen" by (simp_all add: demo_gen_def)
  note m = memory_map_matches_design [OF g(1-3)]
  show ?thesis using m [OF sdcard [OF g(4), of True]] m [OF gpio [of GPIO_REG_DIR demo_gen True]] m [OF main_dram [OF _ g(5,6)]] by (simp add: gpio_regs_def)
qed
end
