(* ===== verification/Syscon.thy ===== *)
theory Syscon
  imports Soc_Map
begin

text \<open>
  The system controller of the design (\<open>syscon.vhdl\<close>) behind the bus of the firmware.  Its information registers are wired to the
  configuration of the system; the control register, the enable bits of the processors and the two bits of the time base are its state.
  The revision in \<open>git.vhdl\<close>, which the build generates, is a parameter: the number of its 56 bits and the flag for local changes.

  An access of the processor passes the converter from 64 to 32 bits (\<open>slave_io_latch\<close> of \<open>soc.vhdl\<close>): the low word first, then the high one, when
  their bytes are selected.  The strobe of each is on for one clock, and the next clock brings the acknowledgement.  Accesses that
  cross a doubleword are split by the processor and are not considered.
\<close>

section \<open>Registers\<close>

type_synonym revision = "nat \<times> bool"

record syscon =
  reg_ctrl :: "4 word"
  cpu_enable :: byte
  tb_rdprot :: bool
  tb_freeze :: bool

definition flag :: "nat \<Rightarrow> bool \<Rightarrow> u64" where
  "flag i b = push_bit i (of_bool b)"

definition to_unsigned :: "nat \<Rightarrow> nat \<Rightarrow> u64" where
  "to_unsigned x n = take_bit n (of_nat x)"

definition reg_info :: "soc_gen \<Rightarrow> u64" where
  "reg_info g = flag 0 True OR flag 1 (HAS_DRAM g) OR flag 2 (BRAM_SIZE g \<noteq> 0) OR flag 3 (HAS_SPI_FLASH g) OR
     flag 4 (HAS_LITEETH g) OR flag 8 (HAS_SD_CARD g) OR flag 5 True OR flag 6 (HAS_UART1 g)"

definition reg_out :: "soc_gen \<Rightarrow> revision \<Rightarrow> syscon \<Rightarrow> nat \<Rightarrow> u64" where
  "reg_out g git s i =
     (if i = 0b000000 then SIG_VALUE g
      else if i = 0b000001 then reg_info g
      else if i = 0b000010 then to_unsigned (BRAM_SIZE g) 52
      else if i = 0b000011 then (if HAS_DRAM g then to_unsigned (DRAM_SIZE g) 52 else 0)
      else if i = 0b000110 then (if HAS_DRAM g then to_unsigned (DRAM_INIT_SIZE g) 52 else 0)
      else if i = 0b000100 then to_unsigned (CLK_FREQ g) 40
      else if i = 0b000101 then ucast (reg_ctrl s)
      else if i = 0b000111 then to_unsigned (SPI_FLASH_OFFSET g) 32
      else if i = 0b001000 then flag 32 (UART0_IS_16550 g) OR to_unsigned (CLK_FREQ g) 32
      else if i = 0b001001 then flag 32 True OR to_unsigned (CLK_FREQ g) 32
      else if i = 0b001010 then flag 63 (snd git) OR to_unsigned (fst git) 56
      else if i = 0b001011 then push_bit 8 (to_unsigned (NCPUS g) 56) OR ucast (cpu_enable s)
      else if i = 0b001100 then flag 1 (tb_rdprot s) OR flag 0 (tb_freeze s)
      else 0)"

text \<open>The word on the 32-bit bus: the lowest bit of the address selects the half.\<close>

definition wb_dat :: "soc_gen \<Rightarrow> revision \<Rightarrow> syscon \<Rightarrow> nat \<Rightarrow> u32" where
  "wb_dat g git s adr = (let r = reg_out g git s (adr div 2 mod 64) in if odd adr then ucast (drop_bit 32 r) else ucast r)"

section \<open>Clocks\<close>

text \<open>A write on the 32-bit bus has an address, byte selects and a word.  The assignments of the process see the old register, and the last one counts.\<close>

type_synonym word_write = "nat \<times> 4 word \<times> u32"

definition syscon_reset :: "soc_gen \<Rightarrow> syscon" where
  "syscon_reset g = \<lparr>reg_ctrl = (if HAS_DRAM g then push_bit 3 1 else 0), cpu_enable = 1, tb_rdprot = False, tb_freeze = False\<rparr>"

definition syscon_clk :: "soc_gen \<Rightarrow> word_write option \<Rightarrow> syscon \<Rightarrow> syscon" where
  "syscon_clk g wr s =
     (let s1 = (case wr of None \<Rightarrow> s
        | Some (adr, sel, dat) \<Rightarrow>
            if adr div 2 mod 64 = 0b000101 \<and> even adr then s\<lparr>reg_ctrl := ucast dat\<rparr>
            else if adr div 2 mod 64 = 0b001011 \<and> even adr \<and> bit sel 0 then s\<lparr>cpu_enable := ucast dat\<rparr>
            else if adr div 2 mod 64 = 0b001100 \<and> even adr \<and> bit sel 0 then s\<lparr>tb_rdprot := bit dat 1, tb_freeze := bit dat 0\<rparr>
            else s);
          s2 = (if bit (reg_ctrl s) 2 then s1\<lparr>reg_ctrl := unset_bit 2 (reg_ctrl s1)\<rparr> else s1);
          s3 = (if bit (reg_ctrl s) 1 then s2\<lparr>reg_ctrl := unset_bit 1 (reg_ctrl s2)\<rparr> else s2)
      in if BRAM_SIZE g = 0 then s3\<lparr>reg_ctrl := set_bit 0 (reg_ctrl s3)\<rparr> else s3)"

text \<open>The outputs.\<close>

definition dram_at_0 :: "soc_gen \<Rightarrow> syscon \<Rightarrow> bool" where
  "dram_at_0 g s \<longleftrightarrow> BRAM_SIZE g = 0 \<or> bit (reg_ctrl s) 0"

definition soc_reset :: "syscon \<Rightarrow> bool" where "soc_reset s \<longleftrightarrow> bit (reg_ctrl s) 2"

definition alt_reset :: "syscon \<Rightarrow> bool" where "alt_reset s \<longleftrightarrow> bit (reg_ctrl s) 3"

definition held_in_reset :: "syscon \<Rightarrow> nat \<Rightarrow> bool" where
  "held_in_reset s cpu \<longleftrightarrow> bit (reg_ctrl s) 1 \<or> \<not> bit (cpu_enable s) cpu"

section \<open>Accesses of the processor\<close>

text \<open>The selected bytes of an access of \<open>w\<close> bytes, and the access of both halves.\<close>

definition io_sel :: "nat \<Rightarrow> addr \<Rightarrow> byte" where
  "io_sel w a = push_bit (unat a mod 8) (mask w)"

definition syscon_read :: "soc_gen \<Rightarrow> revision \<Rightarrow> nat \<Rightarrow> addr \<Rightarrow> syscon \<Rightarrow> u64 \<times> syscon" where
  "syscon_read g git w a s =
     (let adr = 2 * (unat a div 8 mod 64); sel = io_sel w a;
          (lo, s1) = (if take_bit 4 sel \<noteq> 0 then (wb_dat g git s adr, syscon_clk g None (syscon_clk g None s)) else (0, s));
          (hi, s2) = (if drop_bit 4 sel \<noteq> 0 then (wb_dat g git s1 (adr + 1), syscon_clk g None (syscon_clk g None s1)) else (0, s1))
      in (take_bit (8 * w) (drop_bit (8 * (unat a mod 8)) (push_bit 32 (ucast hi) OR ucast lo)), s2))"

definition syscon_write :: "soc_gen \<Rightarrow> nat \<Rightarrow> addr \<Rightarrow> u64 \<Rightarrow> syscon \<Rightarrow> syscon" where
  "syscon_write g w a v s =
     (let adr = 2 * (unat a div 8 mod 64); sel = io_sel w a; dat = push_bit (8 * (unat a mod 8)) v;
          s1 = (if take_bit 4 sel \<noteq> 0 then syscon_clk g None (syscon_clk g (Some (adr, ucast sel, ucast dat)) s) else s)
      in if drop_bit 4 sel \<noteq> 0
         then syscon_clk g None (syscon_clk g (Some (adr + 1, ucast (drop_bit 4 sel), ucast (drop_bit 32 dat))) s1)
         else s1)"

section \<open>Doublewords\<close>

lemma clk_idle [simp]:
  "cpu_enable (syscon_clk g None s) = cpu_enable s" "tb_rdprot (syscon_clk g None s) = tb_rdprot s" "tb_freeze (syscon_clk g None s) = tb_freeze s"
  by (simp_all add: syscon_clk_def Let_def)

lemma ctrl_write [simp]:
  assumes "n div 2 mod 64 = 5"
  shows "cpu_enable (syscon_clk g (Some (n, sel, dat)) s) = cpu_enable s" "tb_rdprot (syscon_clk g (Some (n, sel, dat)) s) = tb_rdprot s"
    "tb_freeze (syscon_clk g (Some (n, sel, dat)) s) = tb_freeze s"
  using assms by (simp_all add: syscon_clk_def Let_def)

lemma join_halves: "push_bit 32 (ucast (ucast (drop_bit 32 r) :: u32)) OR ucast (ucast r :: u32) = r" for r :: u64
  by (rule bit_word_eqI) (auto simp: bit_simps)

text \<open>The control register is in the low half, so that the high half is the same before and after its clocks.\<close>

lemma reg_high:
  assumes "cpu_enable s' = cpu_enable s" "tb_rdprot s' = tb_rdprot s" "tb_freeze s' = tb_freeze s"
  shows "drop_bit 32 (reg_out g git s' i) = drop_bit 32 (reg_out g git s i)" "i \<noteq> 5 \<Longrightarrow> reg_out g git s' i = reg_out g git s i"
proof -
  have "drop_bit 32 (ucast c :: u64) = 0" for c :: "4 word" by (rule bit_word_eqI) (auto simp: bit_simps dest: bit_imp_le_length)
  with assms show "drop_bit 32 (reg_out g git s' i) = drop_bit 32 (reg_out g git s i)" by (simp add: reg_out_def)
  show "i \<noteq> 5 \<Longrightarrow> reg_out g git s' i = reg_out g git s i" using assms by (simp add: reg_out_def)
qed

lemma io_sel8: "unat a mod 8 = 0 \<Longrightarrow> io_sel 8 a = 0xff"
  by (simp add: io_sel_def mask_eq_exp_minus_1)

lemma syscon_read8:
  assumes "unat a mod 8 = 0"
  shows "syscon_read g git 8 a s =
    (reg_out g git s (unat a div 8 mod 64), syscon_clk g None (syscon_clk g None (syscon_clk g None (syscon_clk g None s))))"
proof -
  let ?s = "syscon_clk g None (syscon_clk g None s)"
  have "drop_bit 32 (reg_out g git ?s i) = drop_bit 32 (reg_out g git s i)" for i by (rule reg_high(1)) simp_all
  then show ?thesis
    by (simp add: syscon_read_def io_sel8 [OF assms] assms wb_dat_def Let_def join_halves)
qed

lemma syscon_write8:
  assumes "unat a mod 8 = 0" and "adr = 2 * (unat a div 8 mod 64)"
  shows "syscon_write g 8 a v s =
    syscon_clk g None (syscon_clk g (Some (adr + 1, 15, ucast (drop_bit 32 v))) (syscon_clk g None (syscon_clk g (Some (adr, 15, ucast v)) s)))"
proof -
  have e: "(255 :: 4 word) = 15" by code_simp
  show ?thesis by (simp add: syscon_write_def io_sel8 [OF assms(1)] assms Let_def, simp only: e)
qed

section \<open>What the firmware reads\<close>

lemma aligned_mod: "r AND 7 = 0 \<Longrightarrow> unat r mod 8 = 0" for r :: u64
proof -
  assume "r AND 7 = 0"
  then have "take_bit 3 r = 0" by (simp add: take_bit_eq_mask mask_eq_exp_minus_1)
  then have "unat (take_bit 3 r) = 0" by simp
  then show ?thesis by (simp add: take_bit_eq_mod unat_mod)
qed

lemma sys_reg_index: "r AND 7 = 0 \<Longrightarrow> r = of_nat (8 * (unat r div 8))" for r :: u64
proof -
  assume "r AND 7 = 0"
  then have "8 * (unat r div 8) = unat r" using aligned_mod [of r] by auto
  then show ?thesis by simp
qed

lemma sys_addr:
  assumes "r < 0x200" "r AND 7 = 0"
  shows "unat (SYSCON_BASE + r) mod 8 = 0" "unat (SYSCON_BASE + r) div 8 mod 64 = unat r div 8"
proof -
  have r: "unat r < 0x200" using assms(1) by (simp add: word_less_nat_alt)
  note m = aligned_mod [OF assms(2)]
  have u: "unat (SYSCON_BASE + r) = 0xc0000000 + unat r" using r unat_add_of_nat [of SYSCON_BASE "unat r"] by (simp add: SYSCON_BASE_def)
  obtain q where q: "unat r = 8 * q" "q < 64" using r m by auto
  have e: "0xc0000000 + 8 * q = 8 * (64 * 0x600000 + q)" by simp
  show "unat (SYSCON_BASE + r) mod 8 = 0" unfolding u q(1) e by (rule mod_mult_self1_is_0)
  have "8 * (64 * 0x600000 + q) div 8 = 64 * 0x600000 + q" by (rule nonzero_mult_div_cancel_left) simp
  moreover have "(64 * 0x600000 + q) mod 64 = q" using q(2) by (simp only: mod_mult_self4 mod_less)
  ultimately show "unat (SYSCON_BASE + r) div 8 mod 64 = unat r div 8" unfolding u q(1) e by simp
qed

section \<open>The bus of the system\<close>

text \<open>Addresses of the system controller reach it, as the address decoder says; the other devices are a bus \<open>rest\<close> of their own.\<close>

record 'b soc =
  soc_sys :: syscon
  soc_rest :: 'b

definition soc_bus :: "soc_gen \<Rightarrow> revision \<Rightarrow> 'b bus \<Rightarrow> 'b soc bus" where
  "soc_bus g git rest = \<lparr>
     bus_read = (\<lambda>w a d. if soc_decode g (dram_at_0 g (soc_sys d)) a = Syscon
       then (case syscon_read g git w a (soc_sys d) of (v, s) \<Rightarrow> (v, d\<lparr>soc_sys := s\<rparr>))
       else (case bus_read rest w a (soc_rest d) of (v, b) \<Rightarrow> (v, d\<lparr>soc_rest := b\<rparr>))),
     bus_write = (\<lambda>w a v d. if soc_decode g (dram_at_0 g (soc_sys d)) a = Syscon
       then d\<lparr>soc_sys := syscon_write g w a v (soc_sys d)\<rparr>
       else d\<lparr>soc_rest := bus_write rest w a v (soc_rest d)\<rparr>)\<rparr>"

lemma decode_syscon:
  assumes "r < 0x200"
  shows "soc_decode g z (SYSCON_BASE + r) = Syscon"
proof -
  have r: "unat r < 0x200" using assms by (simp add: word_less_nat_alt)
  then have u: "0xc0000000 + unat r = unat (SYSCON_BASE + r)" using unat_add_of_nat [of SYSCON_BASE "unat r"] by (simp add: SYSCON_BASE_def)
  have "io_decode g ((0xc0000000 + unat r) div 0x1000) = Syscon" using r by (subst io_decode_ranges) simp_all
  then show ?thesis using r by (subst soc_decode_ranges [OF u]) simp_all
qed

text \<open>Reads and writes of the firmware at the registers of the controller.\<close>

definition idle4 :: "soc_gen \<Rightarrow> syscon \<Rightarrow> syscon" where
  "idle4 g s = syscon_clk g None (syscon_clk g None (syscon_clk g None (syscon_clk g None s)))"

lemma soc_readq:
  assumes "r < 0x200" "r AND 7 = 0"
  shows "readq (soc_bus g git rest) (SYSCON_BASE + r) d = (reg_out g git (soc_sys d) (unat r div 8), d\<lparr>soc_sys := idle4 g (soc_sys d)\<rparr>)"
  by (simp add: readq_def soc_bus_def decode_syscon [OF assms(1)] syscon_read8 [OF sys_addr(1) [OF assms]] sys_addr(2) [OF assms] idle4_def)

lemma soc_writeq:
  assumes "r < 0x200" "r AND 7 = 0" "adr = 2 * (unat r div 8)"
  shows "writeq (soc_bus g git rest) v (SYSCON_BASE + r) d =
    d\<lparr>soc_sys := syscon_clk g None (syscon_clk g (Some (adr + 1, 15, ucast (drop_bit 32 v)))
      (syscon_clk g None (syscon_clk g (Some (adr, 15, ucast v)) (soc_sys d))))\<rparr>"
  using assms(3) by (simp add: writeq_def soc_bus_def decode_syscon [OF assms(1)] syscon_write8 [OF sys_addr(1) [OF assms(1,2)] refl] sys_addr(2) [OF assms(1,2)])

lemma bit_flag: "bit (flag j b) i \<longleftrightarrow> b \<and> i = j \<and> j < 64"
  by (auto simp: flag_def bit_simps)

lemma and_flag: "v AND push_bit i 1 = 0 \<longleftrightarrow> \<not> bit v i" for v :: u64
  using and_exp_eq_0_iff_not_bit [of v i] by simp

lemma fits_mask: "x < 2 ^ n \<Longrightarrow> (of_nat x :: u64) AND mask n = of_nat x"
  by (simp add: take_bit_nat_eq_self flip: take_bit_eq_mask of_nat_take_bit)

lemma to_unsigned_fits: "x < 2 ^ n \<Longrightarrow> to_unsigned x n = of_nat x"
  by (simp add: to_unsigned_def take_bit_nat_eq_self flip: of_nat_take_bit)


section \<open>Properties\<close>

lemma info_bits:
  "bit (reg_info g) 0" "bit (reg_info g) 1 \<longleftrightarrow> HAS_DRAM g" "bit (reg_info g) 2 \<longleftrightarrow> BRAM_SIZE g \<noteq> 0"
  "bit (reg_info g) 3 \<longleftrightarrow> HAS_SPI_FLASH g" "bit (reg_info g) 4 \<longleftrightarrow> HAS_LITEETH g" "bit (reg_info g) 5" "bit (reg_info g) 6 \<longleftrightarrow> HAS_UART1 g"
  "\<not> bit (reg_info g) 7" "bit (reg_info g) 8 \<longleftrightarrow> HAS_SD_CARD g"
  by (simp_all add: reg_info_def bit_or_iff bit_flag)

lemma info_masks:
  "SYS_REG_BRAMINFO_SIZE_MASK = mask 52" "SYS_REG_DRAMINFO_SIZE_MASK = mask 52" "SYS_REG_CLKINFO_FREQ_MASK = mask 40"
  "SYS_REG_SPI_INFO_FLASH_OFF_MASK = mask 32"
  by (simp_all add: soc_consts mask_eq_exp_minus_1)

text \<open>Reading a register that is wired to the configuration.\<close>

definition sys_value :: "soc_gen \<Rightarrow> revision \<Rightarrow> 'b bus \<Rightarrow> 'b soc \<Rightarrow> u64 \<Rightarrow> u64" where
  "sys_value g git rest d r = fst (readq (soc_bus g git rest) (SYSCON_BASE + r) d)"

lemma sys_value_reg: "r < 0x200 \<Longrightarrow> r AND 7 = 0 \<Longrightarrow> sys_value g git rest d r = reg_out g git (soc_sys d) (unat r div 8)"
  by (simp add: sys_value_def soc_readq)

lemma sys_values:
  "sys_value g git rest d SYS_REG_INFO = reg_info g" "sys_value g git rest d SYS_REG_BRAMINFO = to_unsigned (BRAM_SIZE g) 52"
  "HAS_DRAM g \<Longrightarrow> sys_value g git rest d SYS_REG_DRAMINFO = to_unsigned (DRAM_SIZE g) 52"
  "HAS_DRAM g \<Longrightarrow> sys_value g git rest d SYS_REG_DRAMINITINFO = to_unsigned (DRAM_INIT_SIZE g) 52"
  "sys_value g git rest d SYS_REG_CLKINFO = to_unsigned (CLK_FREQ g) 40"
  "sys_value g git rest d SYS_REG_SPI_INFO = to_unsigned (SPI_FLASH_OFFSET g) 32"
  "sys_value g git rest d SYS_REG_UART0_INFO = flag 32 (UART0_IS_16550 g) OR to_unsigned (CLK_FREQ g) 32"
  "sys_value g git rest d SYS_REG_SIGNATURE = SIG_VALUE g"
  by (simp_all add: sys_value_reg soc_consts reg_out_def)

text \<open>C10: The firmware reads the configuration of the system: in every state of the system controller, and whatever the other devices are,
  the values that it reads through the bus and decodes with the constants of the header are those that the design was built with.  The flag
  for the UART is always set, each other flag of the information register exactly when the device is there; the sizes of the memories and the
  clock are the configured ones, and the flag of the serial line says whether it is the standard one.\<close>

theorem firmware_reads_configuration:
  assumes "BRAM_SIZE g < 2 ^ 52" "DRAM_SIZE g < 2 ^ 52" "DRAM_INIT_SIZE g < 2 ^ 52" "CLK_FREQ g < 2 ^ 32"
    and "rd = sys_value g git rest d"
  shows "rd SYS_REG_INFO AND SYS_REG_INFO_HAS_UART \<noteq> 0 \<and> (rd SYS_REG_INFO AND SYS_REG_INFO_HAS_DRAM \<noteq> 0 \<longleftrightarrow> HAS_DRAM g) \<and>
    (rd SYS_REG_INFO AND SYS_REG_INFO_HAS_BRAM \<noteq> 0 \<longleftrightarrow> BRAM_SIZE g \<noteq> 0) \<and>
    (rd SYS_REG_INFO AND SYS_REG_INFO_HAS_SPI_FLASH \<noteq> 0 \<longleftrightarrow> HAS_SPI_FLASH g) \<and>
    (rd SYS_REG_INFO AND SYS_REG_INFO_HAS_LITEETH \<noteq> 0 \<longleftrightarrow> HAS_LITEETH g) \<and>
    (rd SYS_REG_INFO AND SYS_REG_INFO_HAS_LITESDCARD \<noteq> 0 \<longleftrightarrow> HAS_SD_CARD g) \<and>
    rd SYS_REG_INFO AND SYS_REG_INFO_HAS_LARGE_SYSCON \<noteq> 0 \<and>
    unat (rd SYS_REG_BRAMINFO AND SYS_REG_BRAMINFO_SIZE_MASK) = BRAM_SIZE g \<and>
    (HAS_DRAM g \<longrightarrow> unat (rd SYS_REG_DRAMINFO AND SYS_REG_DRAMINFO_SIZE_MASK) = DRAM_SIZE g \<and>
      unat (rd SYS_REG_DRAMINITINFO) = DRAM_INIT_SIZE g) \<and>
    unat (rd SYS_REG_CLKINFO AND SYS_REG_CLKINFO_FREQ_MASK) = CLK_FREQ g \<and>
    (rd SYS_REG_UART0_INFO AND SYS_REG_UART_IS_16550 \<noteq> 0 \<longleftrightarrow> UART0_IS_16550 g)"
proof -
  have clk: "CLK_FREQ g < 2 ^ 40" using assms(4) by simp
  have u: "unat (of_nat x :: u64) = x" if "x < 2 ^ 52" for x using that by (simp add: unsigned_of_nat take_bit_nat_eq_self)
  have uart: "bit (rd SYS_REG_UART0_INFO) 32 \<longleftrightarrow> UART0_IS_16550 g"
    by (simp add: assms(5) sys_values bit_or_iff bit_flag to_unsigned_def bit_simps)
  show ?thesis
    unfolding SYS_REG_INFO_HAS_UART_def SYS_REG_INFO_HAS_DRAM_def SYS_REG_INFO_HAS_BRAM_def SYS_REG_INFO_HAS_SPI_FLASH_def
      SYS_REG_INFO_HAS_LITEETH_def SYS_REG_INFO_HAS_LITESDCARD_def SYS_REG_INFO_HAS_LARGE_SYSCON_def SYS_REG_UART_IS_16550_def and_flag uart info_masks
    using assms(1-4) clk by (simp add: assms(5) sys_values info_bits [simplified] to_unsigned_fits fits_mask u)
qed

text \<open>The offset of the image in the flash is in the low half of its register, where the mask of the header takes it from.  A comment in
  \<open>syscon.vhdl\<close> has it in the high half.\<close>

lemma flash_offset_low:
  "SPI_FLASH_OFFSET g < 2 ^ 32 \<Longrightarrow> sys_value g git rest d SYS_REG_SPI_INFO = of_nat (SPI_FLASH_OFFSET g)"
  "SPI_FLASH_OFFSET g < 2 ^ 32 \<Longrightarrow> sys_value g git rest d SYS_REG_SPI_INFO AND SYS_REG_SPI_INFO_FLASH_OFF_MASK = of_nat (SPI_FLASH_OFFSET g)"
  by (simp_all add: sys_values info_masks to_unsigned_fits fits_mask)

text \<open>The demonstration system in a state with a pending reset.\<close>

theorem firmware_reads_configuration_witness:
  "unat (sys_value demo_gen (0x1234, True) \<lparr>bus_read = \<lambda>w a b. (0, b), bus_write = \<lambda>w a v b. b\<rparr>
       \<lparr>soc_sys = (syscon_reset demo_gen)\<lparr>reg_ctrl := 2\<rparr>, soc_rest = ()\<rparr> SYS_REG_CLKINFO AND SYS_REG_CLKINFO_FREQ_MASK) = 100000000"
  using firmware_reads_configuration [of demo_gen _ "(0x1234, True)" "\<lparr>bus_read = \<lambda>w a b. (0, b), bus_write = \<lambda>w a v b. b\<rparr>"
      "\<lparr>soc_sys = (syscon_reset demo_gen)\<lparr>reg_ctrl := 2\<rparr>, soc_rest = ()\<rparr>", OF _ _ _ _ refl]
  by (simp add: demo_gen_def)

section \<open>Resets\<close>

lemma ctrl_idle: "\<not> bit (reg_ctrl s) 1 \<Longrightarrow> \<not> bit (reg_ctrl s) 2 \<Longrightarrow>
  reg_ctrl (syscon_clk g None s) = (if BRAM_SIZE g = 0 then set_bit 0 (reg_ctrl s) else reg_ctrl s)"
  by (simp add: syscon_clk_def Let_def)

text \<open>A reset of the cores or of the system that software asks for lasts one clock, even if it is written again in that clock.\<close>

lemma reset_pulse:
  "bit (reg_ctrl s) 1 \<Longrightarrow> \<not> bit (reg_ctrl (syscon_clk g wr s)) 1" "bit (reg_ctrl s) 2 \<Longrightarrow> \<not> bit (reg_ctrl (syscon_clk g wr s)) 2"
  by (auto simp: syscon_clk_def Let_def bit_set_bit_iff bit_unset_bit_iff split: option.splits)

text \<open>A system without block RAM has the memory at address 0 from the first clock on, in the output and in the register.\<close>

lemma dram_forced: "BRAM_SIZE g = 0 \<Longrightarrow> bit (reg_ctrl (syscon_clk g wr s)) 0 \<and> dram_at_0 g s"
  by (auto simp: syscon_clk_def Let_def bit_set_bit_iff dram_at_0_def split: option.splits)

text \<open>The last thing that the start-up program does to the controller (\<open>main.c\<close>): it reads the control register and writes it without the
  alternative reset vector.  Nothing else changes: no reset is triggered, the memory at address 0 stays the same and the processors run on.\<close>

lemma main_clears_alt_reset:
  assumes "\<not> bit (reg_ctrl (soc_sys d)) 1" "\<not> bit (reg_ctrl (soc_sys d)) 2"
    and "readq (soc_bus g git rest) (SYSCON_BASE + SYS_REG_CTRL) d = (val, d1)"
    and "d2 = writeq (soc_bus g git rest) (val AND NOT SYS_REG_CTRL_ALT_RESET) (SYSCON_BASE + SYS_REG_CTRL) d1"
  shows "\<not> alt_reset (soc_sys d2) \<and> \<not> soc_reset (soc_sys d2) \<and> (\<forall>cpu. held_in_reset (soc_sys d2) cpu = held_in_reset (soc_sys d) cpu) \<and>
    dram_at_0 g (soc_sys d2) = dram_at_0 g (soc_sys d) \<and> soc_rest d2 = soc_rest d"
proof -
  let ?c = "reg_ctrl (soc_sys d)"
  have r: "SYS_REG_CTRL < 0x200" "SYS_REG_CTRL AND 7 = 0" "unat SYS_REG_CTRL div 8 = 5" by (simp_all add: soc_consts)
  have v: "val = ucast ?c" "d1 = d\<lparr>soc_sys := idle4 g (soc_sys d)\<rparr>"
    using assms(3) by (auto simp: soc_readq [OF r(1,2)] r(3) reg_out_def)
  have c1: "\<not> bit (reg_ctrl (idle4 g (soc_sys d))) 1" "\<not> bit (reg_ctrl (idle4 g (soc_sys d))) 2" "cpu_enable (idle4 g (soc_sys d)) = cpu_enable (soc_sys d)"
    using assms(1,2) by (simp_all add: idle4_def ctrl_idle bit_set_bit_iff)
  define w :: "4 word" where "w = ucast (ucast (val AND NOT SYS_REG_CTRL_ALT_RESET) :: u32)"
  have w: "bit w 0 = bit ?c 0" "\<not> bit w 1" "\<not> bit w 2" "\<not> bit w 3"
    using assms(1,2) by (simp_all add: w_def v(1) SYS_REG_CTRL_ALT_RESET_def bit_simps)
  have s: "soc_sys d2 = syscon_clk g None (syscon_clk g (Some (11, 15, ucast (drop_bit 32 (val AND NOT SYS_REG_CTRL_ALT_RESET))))
      (syscon_clk g None (syscon_clk g (Some (10, 15, ucast (val AND NOT SYS_REG_CTRL_ALT_RESET))) (idle4 g (soc_sys d)))))"
    "soc_rest d2 = soc_rest d"
    using soc_writeq [OF r(1,2) refl, of g git rest "val AND NOT SYS_REG_CTRL_ALT_RESET" d1] by (simp_all add: assms(4) v(2) r(3))
  have twice: "set_bit 0 (set_bit 0 x) = set_bit 0 x" for x :: "4 word" by (rule bit_word_eqI) (simp add: bit_set_bit_iff)
  have e: "reg_ctrl (soc_sys d2) = (if BRAM_SIZE g = 0 then set_bit 0 w else w)" "cpu_enable (soc_sys d2) = cpu_enable (soc_sys d)"
    using c1 w by (simp_all add: s(1) syscon_clk_def Let_def w_def [symmetric] bit_set_bit_iff twice)
  show ?thesis using w assms(1,2) by (auto simp: alt_reset_def soc_reset_def held_in_reset_def dram_at_0_def e s(2) bit_set_bit_iff)
qed
end
