(* ===== verification/Libc_Ctype.thy ===== *)
theory Libc_Ctype
  imports Prelude
begin

text \<open>
  The character classes of the firmware's C library
  (\<open>litedram/gen-src/sdram_init/libc/src/is*.c\<close>, \<open>tolower.c\<close>, \<open>toupper.c\<close>).  The
  functions take and return the C type \<open>int\<close>; no value they compute leaves its range, so
  \<open>int\<close> is the type of the model.
\<close>

abbreviation chi :: "char \<Rightarrow> int" where
  "chi c \<equiv> of_char c"

definition isdigit :: "int \<Rightarrow> int" where
  "isdigit ch =
     (if ch \<in> set (map of_char ''0123456789'') then 1 else 0)"

definition isprint :: "int \<Rightarrow> int" where
  "isprint ch = (if ch \<ge> 32 \<and> ch < 127 then 1 else 0)"

text \<open>The cases are space, form feed, newline, carriage return, tab and vertical tab.\<close>

definition isspace :: "int \<Rightarrow> int" where
  "isspace ch = (if ch \<in> set [32, 12, 10, 13, 9, 11] then 1 else 0)"

definition isxdigit :: "int \<Rightarrow> int" where
  "isxdigit ch =
     (if (ch \<ge> chi CHR ''0'' \<and> ch \<le> chi CHR ''9'') \<or>
         (ch \<ge> chi CHR ''A'' \<and> ch \<le> chi CHR ''F'') \<or>
         (ch \<ge> chi CHR ''a'' \<and> ch \<le> chi CHR ''f'') then 1 else 0)"

definition tolower :: "int \<Rightarrow> int" where
  "tolower c =
     (if c \<ge> chi CHR ''A'' \<and> c \<le> chi CHR ''Z'' then c - chi CHR ''A'' + chi CHR ''a'' else c)"

definition toupper :: "int \<Rightarrow> int" where
  "toupper cha =
     (if cha \<ge> chi CHR ''a'' \<and> cha \<le> chi CHR ''z'' then cha - chi CHR ''a'' + chi CHR ''A''
      else cha)"

lemmas ctype_defs = isdigit_def isprint_def isspace_def isxdigit_def tolower_def toupper_def

lemma isdigit_iff: "isdigit ch = 1 \<longleftrightarrow> chi CHR ''0'' \<le> ch \<and> ch \<le> chi CHR ''9''"
  by (simp add: isdigit_def) presburger

lemma toupper_idem: "toupper (toupper c) = toupper c"
  by (simp add: toupper_def)

lemma tolower_toupper: "toupper (tolower c) = toupper c"
  by (simp add: toupper_def tolower_def)

lemma toupper_eq_0_iff: "toupper c = 0 \<longleftrightarrow> c = 0"
  by (auto simp: toupper_def)

lemma toupper_range: "0 \<le> c \<Longrightarrow> c < 256 \<Longrightarrow> 0 \<le> toupper c \<and> toupper c < 256"
  by (auto simp: toupper_def)

text \<open>Every digit is a hexadecimal digit and printable, no space character but the blank is.\<close>

lemma isdigit_isxdigit: "isdigit c = 1 \<Longrightarrow> isxdigit c = 1 \<and> isprint c = 1"
  by (auto simp: isdigit_iff isxdigit_def isprint_def)

lemma isspace_not_print: "isspace c = 1 \<Longrightarrow> isprint c = 1 \<Longrightarrow> c = 32"
  by (auto simp: isspace_def isprint_def split: if_splits)

end
