(* ===== verification/Libc_Mem.thy ===== *)
theory Libc_Mem
  imports Prelude
begin

text \<open>
  The memory block routines of the firmware's C library
  (\<open>litedram/gen-src/sdram_init/libc/src/mem*.c\<close>): \<open>memcpy\<close>, \<open>memmove\<close>, \<open>memset\<close>,
  \<open>memcmp\<close> and \<open>memchr\<close>, over the flat memory of the prelude.  A routine that returns a
  pointer and changes memory returns the pair of both; the null pointer is address 0.

  The reference copy is \<open>fcopy\<close>, one byte at a time in ascending order.  \<open>memcpy\<close> moves
  eight bytes per iteration and is equal to it whenever the destination does not start
  inside the source; \<open>memmove\<close> is shown to move the whole block whatever the overlap.
\<close>

section \<open>Wide accesses\<close>

definition load64 :: "mem \<Rightarrow> addr \<Rightarrow> u64" where
  "load64 m a = le_val (mread m a 8)"

definition store64 :: "mem \<Rightarrow> addr \<Rightarrow> u64 \<Rightarrow> mem" where
  "store64 m a v = mwrite m a (le_bytes 8 v)"

lemma store64_load64: "store64 m d (load64 m' s) = mwrite m d (mread m' s 8)"
  using le_bytes_le_val [of "mread m' s 8"] by (simp add: store64_def load64_def)

section \<open>memcpy\<close>

function memcpy_words :: "mem \<Rightarrow> addr \<Rightarrow> addr \<Rightarrow> u64 \<Rightarrow> mem \<times> addr \<times> addr \<times> u64" where
  "memcpy_words m dest src n =
     (if n \<ge> 8 then memcpy_words (store64 m dest (load64 m src)) (dest + 8) (src + 8) (n - 8)
      else (m, dest, src, n))"
  by pat_completeness auto
termination
  by (relation "measure (\<lambda>(m, d, s, n). unat n)") (auto simp: unat_sub word_le_nat_alt)

function memcpy_bytes :: "mem \<Rightarrow> addr \<Rightarrow> addr \<Rightarrow> u64 \<Rightarrow> mem" where
  "memcpy_bytes m dest src n =
     (if n > 0 then memcpy_bytes (m(dest := m src)) (dest + 1) (src + 1) (n - 1) else m)"
  by pat_completeness auto
termination
  by (relation "measure (\<lambda>(m, d, s, n). unat n)") (auto simp: word_neq_0_conv)

definition memcpy :: "mem \<Rightarrow> addr \<Rightarrow> addr \<Rightarrow> u64 \<Rightarrow> addr \<times> mem" where
  "memcpy m dest src n =
     (let (m1, d1, s1, n1) = memcpy_words m dest src n in (dest, memcpy_bytes m1 d1 s1 n1))"

section \<open>memmove\<close>

text \<open>
  The backward loop counts in a C \<open>int\<close> that is compared with the \<open>size_t\<close> length, so a
  block of more than \<open>INT_MAX\<close> bytes overflows the counter; \<open>None\<close> is that case.
\<close>

function memmove_back :: "mem \<Rightarrow> addr \<Rightarrow> addr \<Rightarrow> int \<Rightarrow> u64 \<Rightarrow> mem option" where
  "memmove_back m cdest csrc i n =
     (if of_int i < n \<and> i \<le> INT_MAX then
        (if i = INT_MAX then None
         else memmove_back (m(cdest := m csrc)) (cdest - 1) (csrc - 1) (i + 1) n)
      else Some m)"
  by pat_completeness auto
termination
  by (relation "measure (\<lambda>(m, d, s, i, n). nat (INT_MAX + 1 - i))") auto

definition memmove :: "mem \<Rightarrow> addr \<Rightarrow> addr \<Rightarrow> u64 \<Rightarrow> (addr \<times> mem) option" where
  "memmove m dest src n =
     (if src < dest \<and> src + n \<ge> dest
      then map_option (Pair dest) (memmove_back m (dest + n - 1) (src + n - 1) 0 n)
      else Some (memcpy m dest src n))"

section \<open>memset\<close>

function memset_words :: "mem \<Rightarrow> addr \<Rightarrow> u64 \<Rightarrow> u32 \<Rightarrow> u64 \<Rightarrow> mem \<times> addr \<times> u64" where
  "memset_words m d big_c c sz =
     (if sz \<ge> 8 \<and> c = 0 then memset_words (store64 m d big_c) (d + 8) big_c c (sz - 8)
      else (m, d, sz))"
  by pat_completeness auto
termination
  by (relation "measure (\<lambda>(m, d, b, c, n). unat n)") (auto simp: unat_sub word_le_nat_alt)

function memset_bytes :: "mem \<Rightarrow> addr \<Rightarrow> u32 \<Rightarrow> u64 \<Rightarrow> mem" where
  "memset_bytes m d c sz =
     (if sz > 0 then memset_bytes (m(d := ucast c)) (d + 1) c (sz - 1) else m)"
  by pat_completeness auto
termination
  by (relation "measure (\<lambda>(m, d, c, n). unat n)") (auto simp: word_neq_0_conv)

text \<open>The \<open>int\<close> argument is its 32-bit pattern; it is sign-extended into \<open>big_c\<close>.\<close>

definition memset_big :: "u32 \<Rightarrow> u64" where
  "memset_big c =
     (if c \<noteq> 0 then
        let b0 = scast c :: u64;
            b1 = b0 OR (push_bit 8 b0 OR b0);
            b2 = b1 OR (push_bit 16 b1 OR b1)
        in b2 OR (push_bit 32 b2 OR b2)
      else 0)"

definition memset :: "mem \<Rightarrow> addr \<Rightarrow> u32 \<Rightarrow> u64 \<Rightarrow> addr \<times> mem" where
  "memset m dest c sz =
     (let (m1, d1, sz1) = memset_words m dest (memset_big c) c sz
      in (dest, memset_bytes m1 d1 c sz1))"

section \<open>memcmp and memchr\<close>

function memcmp :: "mem \<Rightarrow> addr \<Rightarrow> addr \<Rightarrow> u64 \<Rightarrow> int" where
  "memcmp m p1 p2 n =
     (if n > 0 then
        (if m p1 \<noteq> m p2 then uint (m p1) - uint (m p2)
         else memcmp m (p1 + 1) (p2 + 1) (n - 1))
      else 0)"
  by pat_completeness auto
termination
  by (relation "measure (\<lambda>(m, p, q, n). unat n)") (auto simp: word_neq_0_conv)

function memchr_loop :: "mem \<Rightarrow> addr \<Rightarrow> byte \<Rightarrow> u64 \<Rightarrow> addr" where
  "memchr_loop m p ch n =
     (if n > 0 then (if m p = ch then p else memchr_loop m (p + 1) ch (n - 1)) else 0)"
  by pat_completeness auto
termination
  by (relation "measure (\<lambda>(m, p, c, n). unat n)") (auto simp: word_neq_0_conv)

definition memchr :: "mem \<Rightarrow> addr \<Rightarrow> u32 \<Rightarrow> u64 \<Rightarrow> addr" where
  "memchr m ptr c n = memchr_loop m ptr (ucast c) n"

lemmas mem_loops =
  memcpy_words.simps memcpy_bytes.simps memmove_back.simps memset_words.simps
  memset_bytes.simps memcmp.simps memchr_loop.simps

declare mem_loops [simp del]

section \<open>The reference copy\<close>

fun fcopy :: "mem \<Rightarrow> addr \<Rightarrow> addr \<Rightarrow> nat \<Rightarrow> mem" where
  "fcopy m d s 0 = m"
| "fcopy m d s (Suc n) = fcopy (m(d := m s)) (d + 1) (s + 1) n"

text \<open>The destination does not start strictly inside the source.\<close>

definition fwd_ok :: "addr \<Rightarrow> addr \<Rightarrow> nat \<Rightarrow> bool" where
  "fwd_ok d s n \<longleftrightarrow> d = s \<or> \<not> in_region d s n"

lemma fwd_ok_Suc: "fwd_ok d s (Suc n) \<Longrightarrow> fwd_ok (d + 1) (s + 1) n"
  by (auto simp: fwd_ok_def in_region_def)

lemma fwd_ok_mono: "fwd_ok d s n \<Longrightarrow> k \<le> n \<Longrightarrow> fwd_ok d s k"
  by (auto simp: fwd_ok_def in_region_def)

lemma fwd_ok_add: "fwd_ok d s (k + n) \<Longrightarrow> fwd_ok (d + of_nat k) (s + of_nat k) n"
  by (auto simp: fwd_ok_def in_region_def)

lemma fcopy_add: "fcopy m d s (i + j) = fcopy (fcopy m d s i) (d + of_nat i) (s + of_nat i) j"
  by (induction i arbitrary: m d s) (auto simp: algebra_simps)

lemma fcopy_mwrite: "fwd_ok d s n \<Longrightarrow> fcopy m d s n = mwrite m d (mread m s n)"
proof (induction n arbitrary: m d s)
  case 0
  then show ?case by simp
next
  case (Suc n)
  have "mread (m(d := m s)) (s + 1) n = mread m (s + 1) n"
  proof (cases "d = s")
    case True
    then show ?thesis by simp
  next
    case False
    with Suc.prems have "\<not> in_region d (s + 1) n"
      by (auto simp: fwd_ok_def in_region_Suc)
    then show ?thesis by (rule mread_upd_other)
  qed
  with Suc fwd_ok_Suc [OF Suc.prems] show ?case by simp
qed

lemma memcpy_bytes_fcopy: "memcpy_bytes m d s n = fcopy m d s (unat n)"
proof (induction m d s n rule: memcpy_bytes.induct)
  case (1 m d s n)
  show ?case
  proof (cases "n > 0")
    case True
    then have "unat n = Suc (unat (n - 1))" by (rule unat_gt_0_Suc)
    with True 1 show ?thesis by (subst memcpy_bytes.simps) simp
  next
    case False
    then show ?thesis by (subst memcpy_bytes.simps) simp
  qed
qed

lemma unat_ge_8:
  "8 \<le> n \<Longrightarrow> 8 \<le> unat n \<and> unat (n - 8) = unat n - 8" for n :: u64
  by (simp add: word_le_nat_alt unat_sub)

lemma memcpy_words_fcopy:
  assumes "memcpy_words m d s n = (m1, d1, s1, n1)" and "fwd_ok d s (unat n)"
  shows "fcopy m1 d1 s1 (unat n1) = fcopy m d s (unat n)"
  using assms
proof (induction m d s n rule: memcpy_words.induct)
  case (1 m d s n)
  show ?case
  proof (cases "n \<ge> 8")
    case False
    with "1.prems" show ?thesis by (simp add: memcpy_words.simps [of m])
  next
    case True
    let ?m = "store64 m d (load64 m s)"
    have len: "unat n = 8 + unat (n - 8)" using unat_ge_8 [OF True] by simp
    have ok: "fwd_ok d s 8" and ok': "fwd_ok (d + 8) (s + 8) (unat (n - 8))"
      using "1.prems"(2) fwd_ok_mono [of d s "unat n" 8] fwd_ok_add [of d s 8 "unat (n - 8)"]
      by (simp_all add: len)
    from "1.prems"(1) True
    have "memcpy_words ?m (d + 8) (s + 8) (n - 8) = (m1, d1, s1, n1)"
      by (subst (asm) memcpy_words.simps) simp
    with "1.IH" True ok'
    have "fcopy m1 d1 s1 (unat n1) = fcopy ?m (d + 8) (s + 8) (unat (n - 8))" by simp
    also have "\<dots> = fcopy m d s (unat n)"
      unfolding len fcopy_add by (simp add: store64_load64 fcopy_mwrite [OF ok])
    finally show ?thesis .
  qed
qed

lemma memcpy_mwrite:
  assumes "fwd_ok d s (unat n)"
  shows "memcpy m d s n = (d, mwrite m d (mread m s (unat n)))"
  using memcpy_words_fcopy [OF _ assms, of m] fcopy_mwrite [OF assms, of m]
  by (auto simp: memcpy_def memcpy_bytes_fcopy split: prod.split)

section \<open>Backward copy and memmove\<close>

fun bcopy :: "mem \<Rightarrow> addr \<Rightarrow> addr \<Rightarrow> nat \<Rightarrow> mem" where
  "bcopy m d s 0 = m"
| "bcopy m d s (Suc k) = bcopy (m(d + of_nat k := m (s + of_nat k))) d s k"

lemma bcopy_mwrite:
  assumes "unat (d - s) + n \<le> 2 ^ 64"
  shows "bcopy m d s n = mwrite m d (mread m s n)"
  using assms
proof (induction n arbitrary: m)
  case 0
  then show ?case by simp
next
  case (Suc k)
  let ?x = "d + of_nat k"
  have k: "k < 2 ^ 64" using Suc.prems by simp
  have "unat (?x - s) = unat (d - s) + k"
  proof -
    have "?x - s = (d - s) + of_nat k" by simp
    moreover have "unat (d - s) + k < 2 ^ LENGTH(64)" using Suc.prems by simp
    ultimately show ?thesis by (simp only: unat_add_of_nat)
  qed
  then have s: "\<not> in_region ?x s k" by (simp add: in_region_def)
  have d: "\<not> in_region ?x d k" using k by (rule not_in_region_end)
  have "mread m s (Suc k) = mread m s k @ [m (s + of_nat k)]"
    using mread_add [of m s k 1] by simp
  then have "mwrite m d (mread m s (Suc k)) = (mwrite m d (mread m s k))(?x := m (s + of_nat k))"
    by (simp add: mwrite_append)
  also have "\<dots> = mwrite (m(?x := m (s + of_nat k))) d (mread m s k)"
    by (rule mwrite_upd_other [symmetric]) (simp add: d)
  also have "\<dots> = bcopy m d s (Suc k)"
    using Suc by (simp add: mread_upd_other [OF s])
  finally show ?case by simp
qed

lemma memmove_back_bcopy:
  assumes "uint n \<le> INT_MAX" and "0 \<le> i" and "i + int k = uint n"
  shows "memmove_back m (d + of_nat k - 1) (s + of_nat k - 1) i n = Some (bcopy m d s k)"
  using assms
proof (induction k arbitrary: m i)
  case 0
  then have "of_int i = n" by (simp add: of_int_of_nat)
  then show ?case by (subst memmove_back.simps) simp
next
  case (Suc k)
  then have "i < INT_MAX" by simp
  moreover have "of_int i < n"
  proof -
    have "i < uint n" using Suc.prems by simp
    moreover have "uint (of_int i :: u64) = i"
      using Suc.prems by (simp add: unsigned_of_int take_bit_int_eq_self INT_MAX_def)
    ultimately show ?thesis by (simp add: word_less_def)
  qed
  ultimately show ?case
    using Suc.IH [of "i + 1" "m(d + of_nat k := m (s + of_nat k))"] Suc.prems
    by (subst memmove_back.simps) simp
qed

lemma fwd_ok_below: "d \<le> s \<Longrightarrow> unat s + n \<le> 2 ^ 64 \<Longrightarrow> fwd_ok d s n"
  by (cases "d = s")
    (auto simp: fwd_ok_def in_region_def unat_sub_if' word_le_nat_alt word_unat_eq_iff)

lemma fwd_ok_above: "unat s + n \<le> unat d \<Longrightarrow> fwd_ok d s n"
  by (auto simp: fwd_ok_def in_region_def unat_sub_if')

lemma memmove_mwrite:
  assumes small: "uint n \<le> INT_MAX"
    and src: "unat s + unat n < 2 ^ 64" and dest: "unat d + unat n \<le> 2 ^ 64"
  shows "memmove m d s n = Some (d, mwrite m d (mread m s (unat n)))"
proof (cases "s < d \<and> s + n \<ge> d")
  case True
  have "unat (d - s) + unat n \<le> 2 ^ 64"
    using True dest by (simp add: unat_sub order_less_imp_le)
  moreover have "memmove_back m (d + n - 1) (s + n - 1) 0 n = Some (bcopy m d s (unat n))"
    using memmove_back_bcopy [of n 0 "unat n" m d s] small by simp
  ultimately show ?thesis using True by (simp add: memmove_def bcopy_mwrite)
next
  case False
  have "fwd_ok d s (unat n)"
  proof (cases "s < d")
    case True
    with False src have "unat s + unat n < unat d"
      by (simp add: word_le_nat_alt unat_word_ariths not_le)
    then show ?thesis by (intro fwd_ok_above) simp
  next
    case False
    with src show ?thesis by (intro fwd_ok_below) auto
  qed
  with False show ?thesis by (auto simp: memmove_def memcpy_mwrite)
qed

section \<open>memset\<close>

lemma memset_bytes_mwrite:
  "memset_bytes m d c n = mwrite m d (replicate (unat n) (ucast c))"
proof (induction m d c n rule: memset_bytes.induct)
  case (1 m d c n)
  then show ?case
    by (cases "n > 0") (simp_all add: memset_bytes.simps [of m] unat_gt_0_Suc [of n])
qed

lemma le_bytes_0: "le_bytes n 0 = replicate n 0"
  by (induction n) auto

lemma memset_words_mwrite:
  "memset_words m d b c n = (m1, d1, n1) \<Longrightarrow> c = 0 \<longrightarrow> b = 0 \<Longrightarrow>
   mwrite m1 d1 (replicate (unat n1) (ucast c)) = mwrite m d (replicate (unat n) (ucast c))"
proof (induction m d b c n rule: memset_words.induct)
  case (1 m d b c n)
  show ?case
  proof (cases "n \<ge> 8 \<and> c = 0")
    case False
    with "1.prems" show ?thesis by (simp add: memset_words.simps [of m])
  next
    case True
    then have len: "unat n = 8 + unat (n - 8)" and b: "b = 0"
      using unat_ge_8 [of n] "1.prems"(2) by simp_all
    have "replicate (unat n) (0 :: byte) = le_bytes 8 0 @ replicate (unat (n - 8)) 0"
      unfolding len replicate_add le_bytes_0 by (rule refl)
    moreover from "1.prems"(1) True
    have "memset_words (store64 m d b) (d + 8) b c (n - 8) = (m1, d1, n1)"
      by (subst (asm) memset_words.simps) simp
    ultimately show ?thesis
      using "1.IH" "1.prems"(2) True b
      by (simp add: mwrite_append store64_def del: le_bytes_numeral)
  qed
qed

lemma memset_mwrite:
  "memset m d c n = (d, mwrite m d (replicate (unat n) (ucast c)))"
  using memset_words_mwrite [of m d "memset_big c" c n]
  by (auto simp: memset_def memset_bytes_mwrite memset_big_def split: prod.split)

section \<open>memcmp and memchr\<close>

text \<open>The reference comparison: the difference of the first two bytes that differ, 0 if none
  do; its sign is the lexicographic order of byte strings.\<close>

fun byte_diff :: "byte list \<Rightarrow> byte list \<Rightarrow> int" where
  "byte_diff (x # xs) (y # ys) = (if x \<noteq> y then uint x - uint y else byte_diff xs ys)"
| "byte_diff _ _ = 0"

lemma byte_diff_eq_0: "length xs = length ys \<Longrightarrow> byte_diff xs ys = 0 \<longleftrightarrow> xs = ys"
  by (induction xs ys rule: list_induct2) (auto simp: word_uint_eq_iff)

lemma byte_diff_less: "length xs = length ys \<Longrightarrow> byte_diff xs ys < 0 \<longleftrightarrow> xs < ys"
  by (induction xs ys rule: list_induct2) (auto simp: word_less_def)

lemma memcmp_byte_diff:
  "memcmp m p q n = byte_diff (mread m p (unat n)) (mread m q (unat n))"
proof (induction m p q n rule: memcmp.induct)
  case (1 m p q n)
  then show ?case
    by (cases "n > 0") (simp_all add: memcmp.simps [of m] unat_gt_0_Suc [of n])
qed

lemma memchr_loop_found:
  "i < unat n \<Longrightarrow> m (p + of_nat i) = ch \<Longrightarrow> (\<And>j. j < i \<Longrightarrow> m (p + of_nat j) \<noteq> ch) \<Longrightarrow>
   memchr_loop m p ch n = p + of_nat i"
proof (induction i arbitrary: p n)
  case 0
  then show ?case by (subst memchr_loop.simps) (simp add: unat_gt_0 word_neq_0_conv)
next
  case (Suc i)
  then have n: "n > 0" by (metis gr_implies_not0 unat_0 word_neq_0_conv)
  have "m p \<noteq> ch" using Suc.prems(3) [of 0] by simp
  moreover have "memchr_loop m (p + 1) ch (n - 1) = p + 1 + of_nat i"
  proof (rule Suc.IH)
    show "i < unat (n - 1)" using Suc.prems(1) n by (simp add: unat_gt_0_Suc)
    show "m (p + 1 + of_nat i) = ch" using Suc.prems(2) by (simp add: add.assoc)
    show "m (p + 1 + of_nat j) \<noteq> ch" if "j < i" for j
      using Suc.prems(3) [of "Suc j"] that by (simp add: add.assoc)
  qed
  ultimately show ?case using n by (subst memchr_loop.simps) simp
qed

lemma memchr_loop_none:
  "ch \<notin> set (mread m p (unat n)) \<Longrightarrow> memchr_loop m p ch n = 0"
proof (induction m p ch n rule: memchr_loop.induct)
  case (1 m p ch n)
  show ?case
  proof (cases "n > 0")
    case True
    with "1.prems" have "ch \<noteq> m p" and "ch \<notin> set (mread m (p + 1) (unat (n - 1)))"
      by (simp_all add: unat_gt_0_Suc [OF True])
    with True "1.IH" show ?thesis by (subst memchr_loop.simps) auto
  next
    case False
    then show ?thesis by (subst memchr_loop.simps) simp
  qed
qed

lemma mwrite_block:
  "length bs < 2 ^ 64 \<Longrightarrow>
   mread (mwrite m d bs) d (length bs) = bs \<and>
   (\<forall>x. \<not> in_region x d (length bs) \<longrightarrow> mwrite m d bs x = m x)"
  by (auto simp: mread_mwrite mwrite_other)

section \<open>Properties\<close>

text \<open>\<open>memcpy\<close>, which moves eight bytes per iteration and then the remaining bytes one by
  one, leaves in the destination exactly the bytes the source held before the call, returns
  the destination and changes no other byte, for every length and alignment, provided the
  destination does not start strictly inside the source.\<close>

theorem memcpy_copies_block:
  assumes "fwd_ok d s (unat n)"
  shows "\<exists>m'. memcpy m d s n = (d, m') \<and> mread m' d (unat n) = mread m s (unat n) \<and>
           (\<forall>x. \<not> in_region x d (unat n) \<longrightarrow> m' x = m x)"
  using mwrite_block [of "mread m s (unat n)" m d] by (simp add: memcpy_mwrite [OF assms])

theorem memcpy_copies_block_witness:
  "\<exists>m'. memcpy ((\<lambda>_. 0)(7 := 1, 8 := 2, 15 := 9)) 3 7 9 = (3, m') \<and>
     mread m' 3 9 = [1, 2, 0, 0, 0, 0, 0, 0, 9] \<and> m' 15 = 9"
proof -
  have ok: "fwd_ok 3 7 (unat (9 :: u64))" by (simp add: fwd_ok_def in_region_def)
  have "\<not> in_region 15 3 9" by (simp add: in_region_def)
  then show ?thesis
    using memcpy_copies_block [OF ok, of "(\<lambda>_. 0)(7 := 1, 8 := 2, 15 := 9)"] by auto
qed

text \<open>C18: \<open>memmove\<close> leaves in the destination the bytes the source held before the call and
  changes nothing else, for every overlap of the two blocks, as long as neither block runs
  past the end of the address space and the length fits the \<open>int\<close> counter of its backward
  loop.  In particular the backward loop and the 8-byte forward loop of \<open>memcpy\<close>, which
  handles the overlap with the destination below the source, agree.\<close>

theorem memmove_any_overlap:
  assumes "uint n \<le> INT_MAX" and "unat s + unat n < 2 ^ 64" and "unat d + unat n \<le> 2 ^ 64"
  shows "\<exists>m'. memmove m d s n = Some (d, m') \<and> mread m' d (unat n) = mread m s (unat n) \<and>
           (\<forall>x. \<not> in_region x d (unat n) \<longrightarrow> m' x = m x)"
  using mwrite_block [of "mread m s (unat n)" m d] by (simp add: memmove_mwrite [OF assms])

theorem memmove_any_overlap_witness:
  "\<exists>m'. memmove ((\<lambda>_. 0)(100 := 1, 101 := 2, 102 := 3)) 101 100 3 = Some (101, m') \<and>
     mread m' 101 3 = [1, 2, 3] \<and> m' 100 = 1"
proof -
  have "\<not> in_region 100 101 3" by (simp add: in_region_def)
  then show ?thesis
    using memmove_any_overlap [of 3 100 101 "(\<lambda>_. 0)(100 := 1, 101 := 2, 102 := 3)"]
    by (auto simp: INT_MAX_def)
qed

text \<open>\<open>memset\<close> fills exactly the given block with the low byte of its \<open>int\<close> argument,
  whichever of its two loops does the work, and returns the destination.\<close>

theorem memset_fills_block:
  "\<exists>m'. memset m d c n = (d, m') \<and> mread m' d (unat n) = replicate (unat n) (ucast c) \<and>
     (\<forall>x. \<not> in_region x d (unat n) \<longrightarrow> m' x = m x)"
  using mwrite_block [of "replicate (unat n) (ucast c)" m d] by (simp add: memset_mwrite)

theorem memset_fills_block_witness:
  "\<exists>m'. memset (\<lambda>_. 7) 20 0 9 = (20, m') \<and> mread m' 20 9 = replicate 9 0 \<and> m' 29 = 7"
proof -
  have "\<not> in_region 29 20 (unat (9 :: u64))" by (simp add: in_region_def)
  then show ?thesis
    using memset_fills_block [of "\<lambda>_. 7" 20 0 9] by fastforce
qed

text \<open>\<open>memcmp\<close> compares two blocks as byte strings: it returns 0 exactly when they are
  equal and a negative number exactly when the first is lexicographically smaller, bytes being
  compared as unsigned numbers.\<close>

theorem memcmp_lexicographic:
  "(memcmp m p q n = 0 \<longleftrightarrow> mread m p (unat n) = mread m q (unat n)) \<and>
   (memcmp m p q n < 0 \<longleftrightarrow> mread m p (unat n) < mread m q (unat n))"
  by (simp add: memcmp_byte_diff byte_diff_eq_0 byte_diff_less)

end
