(* ===== verification/Libc_String.thy ===== *)
theory Libc_String
  imports Libc_Ctype Libc_Mem
begin

text \<open>
  The string routines of the firmware's C library
  (\<open>litedram/gen-src/sdram_init/libc/src/str*.c\<close> but for the number parsers).

  A loop that runs to a terminating NUL has no bound of its own: over a memory without a NUL
  it never returns.  Such a routine is a \<^theory_text>\<open>partial_function (option)\<close> whose value
  \<open>None\<close> is "does not return", and its correctness lemma says that it does return on a
  memory that holds a C string.  Routines with a length bound are total.  The type \<open>char\<close>
  is unsigned on the 64-bit little-endian PowerPC target, so character differences are
  differences of unsigned bytes.
\<close>

section \<open>Length\<close>

partial_function (option) strlen_loop :: "mem \<Rightarrow> addr \<Rightarrow> u64 \<Rightarrow> u64 option" where
  "strlen_loop m s len = (if m s \<noteq> 0 then strlen_loop m (s + 1) (len + 1) else Some len)"

definition strlen :: "mem \<Rightarrow> addr \<Rightarrow> u64 option" where
  "strlen m s = strlen_loop m s 0"

function strnlen_loop :: "mem \<Rightarrow> addr \<Rightarrow> u64 \<Rightarrow> u64 \<Rightarrow> u64" where
  "strnlen_loop m s n len =
     (if m s \<noteq> 0 \<and> n \<noteq> 0 then strnlen_loop m (s + 1) (n - 1) (len + 1) else len)"
  by pat_completeness auto
termination
  by (relation "measure (\<lambda>(m, s, n, l). unat n)") auto

definition strnlen :: "mem \<Rightarrow> addr \<Rightarrow> u64 \<Rightarrow> u64" where
  "strnlen m s n = strnlen_loop m s n 0"

section \<open>Copying\<close>

text \<open>The loop condition reads the source character again, after the store.\<close>

partial_function (option) strcpy_loop :: "mem \<Rightarrow> addr \<Rightarrow> addr \<Rightarrow> mem option" where
  "strcpy_loop m ptr src =
     (let m' = m(ptr := m src)
      in if m' src \<noteq> 0 then strcpy_loop m' (ptr + 1) (src + 1) else Some m')"

definition strcpy :: "mem \<Rightarrow> addr \<Rightarrow> addr \<Rightarrow> (addr \<times> mem) option" where
  "strcpy m dst src = map_option (Pair dst) (strcpy_loop m dst src)"

function strncpy_copy :: "mem \<Rightarrow> addr \<Rightarrow> addr \<Rightarrow> u64 \<Rightarrow> mem \<times> addr \<times> u64" where
  "strncpy_copy m dst src n =
     (if m src \<noteq> 0 \<and> n > 0 then strncpy_copy (m(dst := m src)) (dst + 1) (src + 1) (n - 1)
      else (m, dst, n))"
  by pat_completeness auto
termination
  by (relation "measure (\<lambda>(m, d, s, n). unat n)") (auto simp: word_neq_0_conv)

function strncpy_pad :: "mem \<Rightarrow> addr \<Rightarrow> u64 \<Rightarrow> mem" where
  "strncpy_pad m dst n = (if n > 0 then strncpy_pad (m(dst := 0)) (dst + 1) (n - 1) else m)"
  by pat_completeness auto
termination
  by (relation "measure (\<lambda>(m, d, n). unat n)") (auto simp: word_neq_0_conv)

definition strncpy :: "mem \<Rightarrow> addr \<Rightarrow> addr \<Rightarrow> u64 \<Rightarrow> addr \<times> mem" where
  "strncpy m dst src n =
     (let (m1, d1, n1) = strncpy_copy m dst src n in (dst, strncpy_pad m1 d1 n1))"

definition strcat :: "mem \<Rightarrow> addr \<Rightarrow> addr \<Rightarrow> (addr \<times> mem) option" where
  "strcat m dst src =
     do { p \<leftarrow> strlen m dst;
          (_, m') \<leftarrow> strcpy m (dst + p) src;
          Some (dst, m') }"

section \<open>Searching for a character\<close>

partial_function (option) strchr_loop :: "mem \<Rightarrow> addr \<Rightarrow> byte \<Rightarrow> addr option" where
  "strchr_loop m s cb =
     (if m s \<noteq> 0 then (if m s = cb then Some s else strchr_loop m (s + 1) cb) else Some 0)"

definition strchr :: "mem \<Rightarrow> addr \<Rightarrow> u32 \<Rightarrow> addr option" where
  "strchr m s c = strchr_loop m s (ucast c)"

partial_function (option) strrchr_loop :: "mem \<Rightarrow> addr \<Rightarrow> byte \<Rightarrow> addr \<Rightarrow> addr option" where
  "strrchr_loop m s cb last_p =
     (if m s \<noteq> 0 then strrchr_loop m (s + 1) cb (if m s = cb then s else last_p)
      else Some last_p)"

definition strrchr :: "mem \<Rightarrow> addr \<Rightarrow> u32 \<Rightarrow> addr option" where
  "strrchr m s c = strrchr_loop m s (ucast c) 0"

section \<open>Comparing\<close>

definition char_diff :: "mem \<Rightarrow> addr \<Rightarrow> addr \<Rightarrow> int" where
  "char_diff m s1 s2 = uint (m s1) - uint (m s2)"

partial_function (option) strcmp :: "mem \<Rightarrow> addr \<Rightarrow> addr \<Rightarrow> int option" where
  "strcmp m s1 s2 =
     (if m s1 \<noteq> 0 \<and> m s2 \<noteq> 0 then
        (if m s1 \<noteq> m s2 then Some (char_diff m s1 s2) else strcmp m (s1 + 1) (s2 + 1))
      else Some (char_diff m s1 s2))"

partial_function (option) strcasecmp :: "mem \<Rightarrow> addr \<Rightarrow> addr \<Rightarrow> int option" where
  "strcasecmp m s1 s2 =
     (if m s1 \<noteq> 0 \<and> m s2 \<noteq> 0 then
        (if toupper (uint (m s1)) \<noteq> toupper (uint (m s2)) then Some (char_diff m s1 s2)
         else strcasecmp m (s1 + 1) (s2 + 1))
      else Some (char_diff m s1 s2))"

text \<open>The bounded comparisons decrement the bound in the loop condition, before the test.\<close>

function strncmp_loop :: "mem \<Rightarrow> addr \<Rightarrow> addr \<Rightarrow> u64 \<Rightarrow> int" where
  "strncmp_loop m s1 s2 n =
     (if m s1 \<noteq> 0 \<and> m s2 \<noteq> 0 \<and> n - 1 > 0 then
        (if m s1 \<noteq> m s2 then char_diff m s1 s2
         else strncmp_loop m (s1 + 1) (s2 + 1) (n - 1))
      else char_diff m s1 s2)"
  by pat_completeness auto
termination
  by (relation "measure (\<lambda>(m, s, t, n). unat (n - 1))")
    (auto simp: unat_pred_pred_less)

definition strncmp :: "mem \<Rightarrow> addr \<Rightarrow> addr \<Rightarrow> u64 \<Rightarrow> int" where
  "strncmp m s1 s2 n = (if n < 1 then 0 else strncmp_loop m s1 s2 n)"

function strncasecmp_loop :: "mem \<Rightarrow> addr \<Rightarrow> addr \<Rightarrow> u64 \<Rightarrow> int" where
  "strncasecmp_loop m s1 s2 n =
     (let d = toupper (uint (m s1)) - toupper (uint (m s2))
      in if m s1 \<noteq> 0 \<and> m s2 \<noteq> 0 \<and> n - 1 > 0 then
           (if toupper (uint (m s1)) \<noteq> toupper (uint (m s2)) then d
            else strncasecmp_loop m (s1 + 1) (s2 + 1) (n - 1))
         else d)"
  by pat_completeness auto
termination
  by (relation "measure (\<lambda>(m, s, t, n). unat (n - 1))")
    (auto simp: unat_pred_pred_less)

definition strncasecmp :: "mem \<Rightarrow> addr \<Rightarrow> addr \<Rightarrow> u64 \<Rightarrow> int" where
  "strncasecmp m s1 s2 n = (if n < 1 then 0 else strncasecmp_loop m s1 s2 n)"

section \<open>Searching for a string\<close>

function strstr_loop :: "mem \<Rightarrow> addr \<Rightarrow> addr \<Rightarrow> addr \<Rightarrow> u64 \<Rightarrow> addr" where
  "strstr_loop m pos end_p needle nlen =
     (if pos < end_p then
        (if strncmp m pos needle nlen = 0 then pos
         else strstr_loop m (pos + 1) end_p needle nlen)
      else 0)"
  by pat_completeness auto
termination
  by (relation "measure (\<lambda>(m, p, e, n, l). unat e - unat p)")
    (auto simp: unat_succ_less word_less_nat_alt)

definition strstr :: "mem \<Rightarrow> addr \<Rightarrow> addr \<Rightarrow> addr option" where
  "strstr m hay needle =
     (if hay = 0 \<or> needle = 0 then Some 0
      else do { hlen \<leftarrow> strlen m hay;
                nlen \<leftarrow> strlen m needle;
                Some (if nlen < 1 then hay else strstr_loop m hay (hay + hlen) needle nlen) })"

section \<open>Tokens\<close>

text \<open>The inner loop looks the current character up in the pattern: it stops at the matching
  pattern character or at the pattern's NUL.\<close>

partial_function (option) strtok_pp :: "mem \<Rightarrow> addr \<Rightarrow> addr \<Rightarrow> addr option" where
  "strtok_pp m pp src =
     (if m pp \<noteq> 0 then (if m pp = m src then Some pp else strtok_pp m (pp + 1) src) else Some pp)"

partial_function (option) strtok_loop ::
  "mem \<Rightarrow> addr \<Rightarrow> addr \<Rightarrow> addr \<Rightarrow> (mem \<times> addr \<times> addr) option" where
  "strtok_loop m src pat retVal =
     (if m src \<noteq> 0 then
        do { pp \<leftarrow> strtok_pp m pat src;
             (if m pp = 0 then
                (if retVal = 0 then strtok_loop m (src + 1) pat src
                 else if m (src - 1) = 0 then Some (m, src, retVal)
                 else strtok_loop m (src + 1) pat retVal)
              else strtok_loop (m(src := 0)) (src + 1) pat retVal) }
      else Some (m, src, retVal))"

text \<open>The static variable \<open>nxtTok\<close> is passed and returned: the result is the returned
  pointer, the new \<open>nxtTok\<close> and the new memory.\<close>

definition strtok :: "mem \<Rightarrow> addr \<Rightarrow> addr \<Rightarrow> addr \<Rightarrow> (addr \<times> addr \<times> mem) option" where
  "strtok m nxtTok src pat =
     (if src = 0 \<and> nxtTok = 0 then Some (0, nxtTok, m)
      else do { (m', src', retVal) \<leftarrow> strtok_loop m (if src = 0 then nxtTok else src) pat 0;
                Some (retVal, src', m') })"

lemmas str_loops =
  strlen_loop.simps strnlen_loop.simps strcpy_loop.simps strncpy_copy.simps strncpy_pad.simps
  strchr_loop.simps strrchr_loop.simps strcmp.simps strcasecmp.simps strncmp_loop.simps
  strncasecmp_loop.simps strstr_loop.simps strtok_pp.simps strtok_loop.simps

declare strnlen_loop.simps [simp del] strncpy_copy.simps [simp del] strncpy_pad.simps [simp del]
  strncmp_loop.simps [simp del] strncasecmp_loop.simps [simp del] strstr_loop.simps [simp del]

section \<open>Lemmas: length and copying\<close>

lemma strlen_loop_cstr: "cstr m a s \<Longrightarrow> strlen_loop m a len = Some (len + of_nat (length s))"
proof (induction s arbitrary: a len)
  case Nil
  then show ?case by (subst strlen_loop.simps) simp
next
  case (Cons c s)
  then show ?case by (subst strlen_loop.simps) (simp add: algebra_simps)
qed

lemma strlen_cstr: "cstr m a s \<Longrightarrow> strlen m a = Some (of_nat (length s))"
  by (simp add: strlen_def strlen_loop_cstr)

lemma strnlen_loop_cstr:
  "cstr m a s \<Longrightarrow> strnlen_loop m a n len = len + of_nat (min (unat n) (length s))"
proof (induction s arbitrary: a n len)
  case Nil
  then show ?case by (subst strnlen_loop.simps) simp
next
  case (Cons c s)
  show ?case
  proof (cases "n = 0")
    case True
    then show ?thesis by (subst strnlen_loop.simps) simp
  next
    case False
    then have "unat n = Suc (unat (n - 1))" by (intro unat_gt_0_Suc) (simp add: word_neq_0_conv)
    with False Cons show ?thesis
      by (subst strnlen_loop.simps) (simp add: algebra_simps)
  qed
qed

lemma strnlen_cstr: "cstr m a s \<Longrightarrow> strnlen m a n = of_nat (min (unat n) (length s))"
  by (simp add: strnlen_def strnlen_loop_cstr)

lemma cstr_upd_other:
  "\<not> in_region x a (Suc (length s)) \<Longrightarrow> cstr (m(x := v)) a s \<longleftrightarrow> cstr m a s"
  by (rule cstr_cong) (auto simp: fun_upd_apply)

lemma cstr_copy_step:
  assumes "cstr m src (c # s)" and "fwd_ok d src (Suc (Suc (length s)))"
  shows "cstr (m(d := c)) (src + 1) s \<and> (m(d := c)) src = c"
proof (cases "d = src")
  case True
  with assms(1) show ?thesis by (auto simp: fun_upd_idem)
next
  case False
  with assms(2) have "\<not> in_region d (src + 1) (Suc (length s))"
    by (auto simp: fwd_ok_def in_region_Suc [of d src])
  with False assms(1) show ?thesis by (simp add: cstr_upd_other)
qed

lemma strcpy_loop_cstr:
  "cstr m src s \<Longrightarrow> fwd_ok d src (Suc (length s)) \<Longrightarrow>
   strcpy_loop m d src = Some (mwrite m d (s @ [0]))"
proof (induction s arbitrary: m d src)
  case Nil
  then show ?case by (subst strcpy_loop.simps) (auto simp: Let_def fun_upd_apply)
next
  case (Cons c s)
  have "fwd_ok (d + 1) (src + 1) (Suc (length s))"
    using Cons.prems(2) by (intro fwd_ok_Suc) simp
  then show ?case
    using Cons.IH Cons.prems cstr_copy_step [of m src c s d]
    by (subst strcpy_loop.simps) (simp add: Let_def)
qed

lemma cstr_length: "cstr m a s \<Longrightarrow> length s < 2 ^ 64"
proof (rule ccontr)
  assume s: "cstr m a s" and "\<not> length s < 2 ^ 64"
  then have le: "2 ^ 64 \<le> length s" by simp
  define k where "k = length s mod 2 ^ 64"
  have "(of_nat k :: addr) = of_nat (length s)"
    by (simp add: k_def word_unat_eq_iff unsigned_of_nat take_bit_eq_mod)
  moreover have "k < length s" using le by (simp add: k_def)
  ultimately show False
    using cstr_end [OF s] cstr_nth [OF s, of k] cstr_no_nul [OF s] by (metis nth_mem)
qed

lemma cstr_mwrite: "0 \<notin> set s \<Longrightarrow> length s < 2 ^ 64 \<Longrightarrow> cstr (mwrite m d (s @ [0])) d s"
  using mread_mwrite [of "s @ [0]" m d] by (simp add: cstr_mread_iff del: mread.simps)

lemma strcpy_cstr:
  "cstr m src s \<Longrightarrow> fwd_ok d src (Suc (length s)) \<Longrightarrow>
   strcpy m d src = Some (d, mwrite m d (s @ [0]))"
  by (simp add: strcpy_def strcpy_loop_cstr)

lemma strcat_cstr:
  assumes "cstr m dst s" and "cstr m src t" and "fwd_ok (dst + of_nat (length s)) src (Suc (length t))"
  shows "strcat m dst src = Some (dst, mwrite m (dst + of_nat (length s)) (t @ [0]))"
  using assms by (simp add: strcat_def strlen_cstr strcpy_cstr)

lemma strncpy_pad_mwrite: "strncpy_pad m d n = mwrite m d (replicate (unat n) 0)"
proof (induction m d n rule: strncpy_pad.induct)
  case (1 m d n)
  then show ?case
    by (cases "n > 0") (simp_all add: strncpy_pad.simps [of m] unat_gt_0_Suc [of n])
qed

lemma strncpy_copy_mwrite:
  assumes "cstr m src s" and "fwd_ok d src (Suc (length s))"
  shows "strncpy_copy m d src n =
     (mwrite m d (take (unat n) s), d + of_nat (min (unat n) (length s)),
      n - of_nat (min (unat n) (length s)))"
  using assms
proof (induction s arbitrary: m d src n)
  case Nil
  then show ?case by (subst strncpy_copy.simps) simp
next
  case (Cons c s)
  show ?case
  proof (cases "n > 0")
    case False
    then show ?thesis by (subst strncpy_copy.simps) simp
  next
    case True
    then have n: "unat n = Suc (unat (n - 1))" by (rule unat_gt_0_Suc)
    have "fwd_ok (d + 1) (src + 1) (Suc (length s))"
      using Cons.prems(2) by (intro fwd_ok_Suc) simp
    then show ?thesis
      using Cons.IH Cons.prems True n cstr_copy_step [of m src c s d]
      by (subst strncpy_copy.simps) (simp add: algebra_simps)
  qed
qed

lemma strncpy_cstr:
  assumes "cstr m src s" and "fwd_ok d src (Suc (length s))"
  shows "strncpy m d src n =
    (d, mwrite m d (take (unat n) s @ replicate (unat n - length s) 0))"
proof -
  have "unat (n - of_nat (min (unat n) (length s))) = unat n - min (unat n) (length s)"
    by (rule unat_minus_of_nat) simp
  then show ?thesis
    by (simp add: strncpy_def strncpy_copy_mwrite [OF assms] strncpy_pad_mwrite mwrite_append
        min.commute min_def)
qed

section \<open>Lemmas: searching and comparing\<close>

lemma strchr_loop_found:
  "cstr m a (xs @ cb # ys) \<Longrightarrow> cb \<notin> set xs \<Longrightarrow> strchr_loop m a cb = Some (a + of_nat (length xs))"
proof (induction xs arbitrary: a)
  case Nil
  then show ?case by (simp add: strchr_loop.simps [of m a])
next
  case (Cons x xs)
  then show ?case by (auto simp: strchr_loop.simps [of m a] algebra_simps)
qed

lemma strchr_loop_none: "cstr m a s \<Longrightarrow> cb \<notin> set s \<Longrightarrow> strchr_loop m a cb = Some 0"
proof (induction s arbitrary: a)
  case Nil
  then show ?case by (simp add: strchr_loop.simps [of m a])
next
  case (Cons x xs)
  then show ?case by (auto simp: strchr_loop.simps [of m a])
qed

lemma strrchr_loop_none: "cstr m a s \<Longrightarrow> cb \<notin> set s \<Longrightarrow> strrchr_loop m a cb l = Some l"
proof (induction s arbitrary: a)
  case Nil
  then show ?case by (simp add: strrchr_loop.simps [of m a])
next
  case (Cons x xs)
  then show ?case by (auto simp: strrchr_loop.simps [of m a])
qed

lemma strrchr_loop_found:
  "cstr m a (xs @ cb # ys) \<Longrightarrow> cb \<notin> set ys \<Longrightarrow>
   strrchr_loop m a cb l = Some (a + of_nat (length xs))"
proof (induction xs arbitrary: a l)
  case Nil
  then have "strrchr_loop m (a + 1) cb a = Some a" by (intro strrchr_loop_none) auto
  with Nil show ?case by (simp add: strrchr_loop.simps [of m a])
next
  case (Cons x xs)
  then show ?case by (simp add: strrchr_loop.simps [of m a] algebra_simps)
qed

lemma strcmp_cstr:
  "cstr m a s \<Longrightarrow> cstr m b t \<Longrightarrow> strcmp m a b = Some (byte_diff (s @ [0]) (t @ [0]))"
proof (induction s arbitrary: a b t)
  case Nil
  then show ?case by (subst strcmp.simps) (cases t; auto simp: char_diff_def)
next
  case (Cons c s)
  then show ?case by (subst strcmp.simps) (cases t; auto simp: char_diff_def)
qed

lemma byte_diff_nul_eq:
  "0 \<notin> set s \<Longrightarrow> 0 \<notin> set t \<Longrightarrow> byte_diff (s @ [0]) (t @ [0]) = 0 \<longleftrightarrow> s = t"
proof (induction s arbitrary: t)
  case Nil
  show ?case
  proof (cases t)
    case (Cons d t')
    with Nil show ?thesis using uint_pos_iff [of d] by auto
  qed simp
next
  case (Cons c s)
  show ?case
  proof (cases t)
    case Nil
    with Cons.prems show ?thesis using uint_pos_iff [of c] by auto
  next
    case (Cons d t')
    with Cons.prems Cons.IH [of t'] show ?thesis using uint_diff_eq_0 [of c d] by auto
  qed
qed

lemma byte_diff_nul_less:
  "0 \<notin> set s \<Longrightarrow> 0 \<notin> set t \<Longrightarrow> byte_diff (s @ [0]) (t @ [0]) < 0 \<longleftrightarrow> s < t"
proof (induction s arbitrary: t)
  case Nil
  show ?case
  proof (cases t)
    case (Cons d t')
    with Nil show ?thesis using uint_pos_iff [of d] by auto
  qed simp
next
  case (Cons c s)
  show ?case
  proof (cases t)
    case Nil
    with Cons.prems show ?thesis by auto
  next
    case (Cons d t')
    with Cons.prems Cons.IH [of t'] show ?thesis using uint_diff_less_0 [of c d] by auto
  qed
qed

lemma strncmp_loop_cstr:
  "cstr m a s \<Longrightarrow> cstr m b t \<Longrightarrow> n \<noteq> 0 \<Longrightarrow>
   strncmp_loop m a b n = byte_diff (take (unat n) (s @ [0])) (take (unat n) (t @ [0]))"
proof (induction s arbitrary: a b t n)
  case Nil
  then have "unat n = Suc (unat (n - 1))" by (intro unat_gt_0_Suc) (simp add: word_neq_0_conv)
  with Nil show ?case by (subst strncmp_loop.simps) (cases t; auto simp: char_diff_def)
next
  case (Cons c s)
  then have n: "unat n = Suc (unat (n - 1))" by (intro unat_gt_0_Suc) (simp add: word_neq_0_conv)
  show ?case
  proof (cases t)
    case Nil
    with Cons.prems n show ?thesis by (subst strncmp_loop.simps) (auto simp: char_diff_def)
  next
    case (Cons d t')
    with Cons.prems Cons.IH [of "a + 1" "b + 1" t' "n - 1"] n show ?thesis
      by (cases "n - 1 = 0") (subst strncmp_loop.simps; auto simp: char_diff_def word_neq_0_conv)+
  qed
qed

lemma strcasecmp_cstr:
  "cstr m a s \<Longrightarrow> cstr m b t \<Longrightarrow>
   \<exists>d. strcasecmp m a b = Some d \<and>
     (d = 0 \<longleftrightarrow> map (\<lambda>c. toupper (uint c)) s = map (\<lambda>c. toupper (uint c)) t)"
proof (induction s arbitrary: a b t)
  case Nil
  then show ?case
    using uint_pos_iff [of "m b"]
    by (subst strcasecmp.simps) (cases t, auto simp: char_diff_def)
next
  case (Cons c s)
  show ?case
  proof (cases t)
    case Nil
    with Cons.prems show ?thesis
      using uint_pos_iff [of c] by (subst strcasecmp.simps) (auto simp: char_diff_def)
  next
    case (Cons d t')
    have "uint c - uint d \<noteq> 0" if "toupper (uint c) \<noteq> toupper (uint d)"
      using that by auto
    with Cons Cons.prems Cons.IH [of "a + 1" "b + 1" t'] show ?thesis
      by (subst strcasecmp.simps) (auto simp: char_diff_def)
  qed
qed

section \<open>Lemmas: strstr\<close>

text \<open>The reference search: the index of the first occurrence.\<close>

fun find_sub :: "byte list \<Rightarrow> byte list \<Rightarrow> nat option" where
  "find_sub t [] = (if t = [] then Some 0 else None)"
| "find_sub t (x # xs) = (if prefix t (x # xs) then Some 0 else map_option Suc (find_sub t xs))"

lemma find_sub_Some:
  "find_sub t h = Some i \<Longrightarrow> prefix t (drop i h) \<and> (\<forall>j < i. \<not> prefix t (drop j h))"
proof (induction t h arbitrary: i rule: find_sub.induct)
  case (1 t)
  then show ?case by (auto split: if_splits)
next
  case (2 t x xs)
  then show ?case by (auto split: if_splits simp: less_Suc_eq_0_disj)
qed

lemma find_sub_None: "find_sub t h = None \<longleftrightarrow> (\<forall>i \<le> length h. \<not> prefix t (drop i h))"
proof (induction t h rule: find_sub.induct)
  case (1 t)
  then show ?case by auto
next
  case (2 t x xs)
  have "(\<forall>i \<le> length (x # xs). \<not> prefix t (drop i (x # xs))) \<longleftrightarrow>
        \<not> prefix t (x # xs) \<and> (\<forall>i \<le> length xs. \<not> prefix t (drop i xs))"
    by (metis (no_types, lifting) Suc_le_mono drop0 drop_Suc_Cons length_Cons not0_implies_Suc
        zero_le)
  with 2 show ?case by auto
qed

lemma byte_diff_prefix:
  "0 \<notin> set t \<Longrightarrow> byte_diff (take (length t) (h @ [0])) t = 0 \<longleftrightarrow> prefix t h"
proof (induction t arbitrary: h)
  case Nil
  then show ?case by simp
next
  case (Cons d t)
  show ?case
  proof (cases h)
    case Nil
    with Cons.prems show ?thesis using uint_pos_iff [of d] by auto
  next
    case (Cons c h')
    with Cons.prems Cons.IH [of h'] show ?thesis using uint_diff_eq_0 [of c d] by auto
  qed
qed

lemma strncmp_prefix:
  assumes "cstr m a h" and "cstr m b t" and "t \<noteq> []"
  shows "strncmp m a b (of_nat (length t)) = 0 \<longleftrightarrow> prefix t h"
proof -
  have len: "unat (of_nat (length t) :: u64) = length t"
    using cstr_length [OF assms(2)] by (simp add: unsigned_of_nat take_bit_nat_eq_self)
  then have nz: "(of_nat (length t) :: u64) \<noteq> 0" using assms(3) by (metis length_0_conv unat_0)
  with assms len have "strncmp m a b (of_nat (length t)) = byte_diff (take (length t) (h @ [0])) t"
    by (simp add: strncmp_def strncmp_loop_cstr word_less_1 del: of_nat_eq_0_iff)
  then show ?thesis using byte_diff_prefix [of t h] cstr_no_nul [OF assms(2)] by simp
qed

lemma strstr_loop_cstr:
  assumes "cstr m needle t" and "t \<noteq> []"
  shows "cstr m pos h \<Longrightarrow> unat pos + length h < 2 ^ 64 \<Longrightarrow>
    strstr_loop m pos (pos + of_nat (length h)) needle (of_nat (length t)) =
      (case find_sub t h of None \<Rightarrow> 0 | Some i \<Rightarrow> pos + of_nat i)"
proof (induction h arbitrary: pos)
  case Nil
  with assms show ?case by (subst strstr_loop.simps) simp
next
  case (Cons c h)
  have "unat (pos + of_nat (length (c # h))) = unat pos + length (c # h)"
    using Cons.prems(2) by (intro unat_add_of_nat) simp
  then have lt: "pos < pos + of_nat (length (c # h))" by (simp add: word_less_nat_alt)
  then have "unat (pos + 1) + length h < 2 ^ 64"
    using Cons.prems(2) unat_succ_less [OF lt] by simp
  with Cons.IH [of "pos + 1"] Cons.prems(1)
  have "strstr_loop m (pos + 1) (pos + 1 + of_nat (length h)) needle (of_nat (length t)) =
      (case find_sub t h of None \<Rightarrow> 0 | Some i \<Rightarrow> pos + 1 + of_nat i)" by simp
  then show ?case
    using lt strncmp_prefix [OF Cons.prems(1) assms]
    by (subst strstr_loop.simps) (auto simp: algebra_simps split: option.split)
qed

lemma strstr_cstr:
  assumes "cstr m hay h" and "cstr m needle t" and "hay \<noteq> 0" and "needle \<noteq> 0"
    and "unat hay + length h < 2 ^ 64"
  shows "strstr m hay needle =
    Some (case find_sub t h of None \<Rightarrow> 0 | Some i \<Rightarrow> hay + of_nat i)"
proof (cases "t = []")
  case True
  then have "find_sub t h = Some 0" by (cases h) auto
  moreover have "strlen m needle = Some 0" using strlen_cstr [OF assms(2)] True by simp
  ultimately show ?thesis using assms by (simp add: strstr_def strlen_cstr)
next
  case False
  have "unat (of_nat (length t) :: u64) = length t"
    using cstr_length [OF assms(2)] by (simp add: unsigned_of_nat take_bit_nat_eq_self)
  with False have "\<not> (of_nat (length t) :: u64) < 1" by (metis length_0_conv unat_0 word_less_1)
  with False assms show ?thesis by (simp add: strstr_def strlen_cstr strstr_loop_cstr)
qed

section \<open>Lemmas: strtok\<close>

lemma strtok_pp_cstr:
  "cstr m pp ds \<Longrightarrow> \<exists>q. strtok_pp m pp src = Some q \<and> (m q = 0 \<longleftrightarrow> m src \<notin> set ds)"
proof (induction ds arbitrary: pp)
  case Nil
  then show ?case by (subst strtok_pp.simps) simp
next
  case (Cons d ds)
  then show ?case by (subst strtok_pp.simps) auto
qed

text \<open>The pattern is not written by the loop: no delimiter of the scanned region lies in it.\<close>

definition apart :: "addr \<Rightarrow> nat \<Rightarrow> addr \<Rightarrow> nat \<Rightarrow> bool" where
  "apart a i b j \<longleftrightarrow> (\<forall>x. in_region x a i \<longrightarrow> \<not> in_region x b j)"

lemma apart_Suc: "apart a (Suc i) b j \<Longrightarrow> \<not> in_region a b j \<and> apart (a + 1) i b j"
  by (auto simp: apart_def in_region_Suc [of _ a])

lemma strtok_loop_delims:
  "cstr m src (xs @ ys) \<Longrightarrow> cstr m pat ds \<Longrightarrow> set xs \<subseteq> set ds \<Longrightarrow>
   apart src (length xs) pat (Suc (length ds)) \<Longrightarrow>
   strtok_loop m src pat r =
     strtok_loop (mwrite m src (replicate (length xs) 0)) (src + of_nat (length xs)) pat r"
proof (induction xs arbitrary: m src)
  case Nil
  then show ?case by simp
next
  case (Cons x xs)
  obtain q where "strtok_pp m pat src = Some q" and "m q \<noteq> 0"
    using strtok_pp_cstr [OF Cons.prems(2), of src] Cons.prems by auto
  then have step: "strtok_loop m src pat r = strtok_loop (m(src := 0)) (src + 1) pat r"
    using Cons.prems(1) by (subst strtok_loop.simps) simp
  have "\<not> in_region src (src + 1) (Suc (length (xs @ ys)))"
    using cstr_length [OF Cons.prems(1)] by (intro not_in_region_next) simp
  then have "cstr (m(src := 0)) (src + 1) (xs @ ys)"
    using Cons.prems(1) by (simp add: cstr_upd_other)
  moreover have "cstr (m(src := 0)) pat ds" and "apart (src + 1) (length xs) pat (Suc (length ds))"
    using Cons.prems apart_Suc [of src "length xs"] by (simp_all add: cstr_upd_other)
  ultimately show ?case
    using step Cons.IH [of "m(src := 0)" "src + 1"] Cons.prems(3) by (simp add: algebra_simps)
qed

lemma strtok_loop_token:
  "cstr m src (xs @ ys) \<Longrightarrow> cstr m pat ds \<Longrightarrow> set xs \<inter> set ds = {} \<Longrightarrow> r \<noteq> 0 \<Longrightarrow>
   m (src - 1) \<noteq> 0 \<Longrightarrow> strtok_loop m src pat r = strtok_loop m (src + of_nat (length xs)) pat r"
proof (induction xs arbitrary: src)
  case Nil
  then show ?case by simp
next
  case (Cons x xs)
  obtain q where "strtok_pp m pat src = Some q" and "m q = 0"
    using strtok_pp_cstr [OF Cons.prems(2), of src] Cons.prems by auto
  then have "strtok_loop m src pat r = strtok_loop m (src + 1) pat r"
    using Cons.prems by (subst strtok_loop.simps) simp
  also have "\<dots> = strtok_loop m (src + 1 + of_nat (length xs)) pat r"
    using Cons.prems by (intro Cons.IH) auto
  finally show ?case by (simp add: algebra_simps)
qed

lemma strtok_loop_stop:
  assumes "cstr m src s" and "cstr m pat ds" and "r \<noteq> 0"
    and "s = [] \<or> hd s \<notin> set ds \<and> m (src - 1) = 0"
  shows "strtok_loop m src pat r = Some (m, src, r)"
proof (cases s)
  case Nil
  with assms show ?thesis by (subst strtok_loop.simps) simp
next
  case (Cons c t)
  obtain q where "strtok_pp m pat src = Some q" and "m q = 0"
    using strtok_pp_cstr [OF assms(2), of src] assms Cons by auto
  with Cons assms show ?thesis by (subst strtok_loop.simps) simp
qed

lemma cstr_mwrite_before:
  assumes "cstr m src (xs @ ys)" and "length bs = length xs"
  shows "cstr (mwrite m src bs) (src + of_nat (length xs)) ys"
proof -
  have "cstr m (src + of_nat (length xs)) ys"
    using cstr_drop [OF assms(1), of "length xs"] by simp
  moreover have "mwrite m src bs x = m x"
    if "in_region x (src + of_nat (length xs)) (Suc (length ys))" for x
  proof -
    have "length xs + Suc (length ys) \<le> 2 ^ 64" using cstr_length [OF assms(1)] by simp
    with that have "\<not> in_region x src (length bs)"
      unfolding assms(2) by (intro region_split)
    then show ?thesis by (rule mwrite_other)
  qed
  ultimately show ?thesis by (simp add: cstr_cong [of _ _ "mwrite m src bs" m])
qed

lemma cstr_mwrite_apart:
  assumes "cstr m pat ds" and "apart a (length bs) pat (Suc (length ds))"
  shows "cstr (mwrite m a bs) pat ds"
proof -
  have "mwrite m a bs x = m x" if "in_region x pat (Suc (length ds))" for x
    using that assms(2) by (intro mwrite_other) (auto simp: apart_def)
  then show ?thesis using assms(1) by (simp add: cstr_cong [of _ _ "mwrite m a bs" m])
qed

lemma apart_offset: "apart a n b j \<Longrightarrow> k + i \<le> n \<Longrightarrow> apart (a + of_nat k) i b j"
  by (auto simp: apart_def dest!: in_region_add) (auto simp: in_region_def)

lemma strtok_loop_first:
  assumes "cstr m src s" and "cstr m pat ds" and "set tok \<inter> set ds = {}" and "s = tok @ t"
    and "tok \<noteq> []" and "src \<noteq> 0"
  shows "strtok_loop m src pat 0 = strtok_loop m (src + of_nat (length tok)) pat src"
proof -
  obtain c tok' where tok: "tok = c # tok'" using assms(5) by (cases tok) auto
  obtain q where "strtok_pp m pat src = Some q" and "m q = 0"
    using strtok_pp_cstr [OF assms(2), of src] assms tok by auto
  then have "strtok_loop m src pat 0 = strtok_loop m (src + 1) pat src"
    using assms tok by (subst strtok_loop.simps) simp
  also have "\<dots> = strtok_loop m (src + 1 + of_nat (length tok')) pat src"
    using assms tok by (intro strtok_loop_token [of m "src + 1" tok' t pat ds]) auto
  finally show ?thesis by (simp add: tok algebra_simps)
qed

lemma mwrite_zeros_last:
  assumes "xs \<noteq> []" and "length xs < 2 ^ 64"
  shows "mwrite m a (replicate (length xs) 0) (a + of_nat (length xs) - 1) = 0"
proof -
  obtain k where k: "length xs = Suc k" using assms(1) by (cases xs) auto
  then have "mwrite m a (replicate (length xs) 0) (a + of_nat k) = 0"
    using assms(2) mwrite_same [of k "replicate (length xs) 0" m a] by (simp del: replicate.simps)
  then show ?thesis by (simp add: k)
qed

lemma cstr_truncate:
  assumes "cstr m a (tok @ t)" and "t \<noteq> [] \<Longrightarrow> m' (a + of_nat (length tok)) = 0"
    and "\<And>x. in_region x a (length tok) \<Longrightarrow> m' x = m x" and "t = [] \<Longrightarrow> m' = m"
  shows "cstr m' a tok"
  using assms
proof (induction tok arbitrary: a)
  case Nil
  then show ?case by (cases "t = []") auto
next
  case (Cons c tok)
  have "cstr m' (a + 1) tok"
  proof (rule Cons.IH)
    show "cstr m (a + 1) (tok @ t)" using Cons.prems(1) by simp
    show "m' (a + 1 + of_nat (length tok)) = 0" if "t \<noteq> []"
      using Cons.prems(2) that by (simp add: add.assoc)
    show "m' x = m x" if "in_region x (a + 1) (length tok)" for x
      using Cons.prems(3) [of x] that by (auto simp: in_region_Suc)
    show "m' = m" if "t = []" using Cons.prems(4) that by simp
  qed
  moreover have "m' a = m a" using Cons.prems(3) [of a] by (simp add: in_region_Suc)
  ultimately show ?case using Cons.prems(1) by simp
qed

text \<open>The string at the scanned position, split into leading delimiters, the token, the delimiters
  that end it, and the rest that the next call starts from.\<close>

definition tok_split :: "byte list \<Rightarrow> byte list \<Rightarrow> byte list \<Rightarrow> byte list \<Rightarrow> byte list \<Rightarrow> bool" where
  "tok_split ds pre tok mid rest \<longleftrightarrow>
     set pre \<subseteq> set ds \<and> tok \<noteq> [] \<and> set tok \<inter> set ds = {} \<and> set mid \<subseteq> set ds \<and>
     (rest = [] \<or> mid \<noteq> [] \<and> hd rest \<notin> set ds)"

lemma strtok_loop_split:
  assumes s: "cstr m src (pre @ tok @ mid @ rest)" and p: "cstr m pat ds"
    and split: "tok_split ds pre tok mid rest"
    and apart: "apart src (length pre + length tok + length mid) pat (Suc (length ds))"
    and nz: "src + of_nat (length pre) \<noteq> 0"
  shows "\<exists>m'. strtok_loop m src pat 0 =
      Some (m', src + of_nat (length pre + length tok + length mid), src + of_nat (length pre)) \<and>
    cstr m' (src + of_nat (length pre)) tok \<and>
    cstr m' (src + of_nat (length pre + length tok + length mid)) rest"
proof -
  let ?a1 = "src + of_nat (length pre)" and ?a2 = "src + of_nat (length pre + length tok)"
  let ?m1 = "mwrite m src (replicate (length pre) 0)"
  let ?m2 = "mwrite ?m1 ?a2 (replicate (length mid) 0)"
  have ap1: "apart src (length pre) pat (Suc (length ds))"
    using apart_offset [OF apart, of 0 "length pre"] by simp
  have ap2: "apart ?a2 (length mid) pat (Suc (length ds))"
    using apart_offset [OF apart, of "length pre + length tok" "length mid"] by simp
  have s1: "cstr ?m1 ?a1 (tok @ mid @ rest)" by (rule cstr_mwrite_before [OF s]) simp
  have p1: "cstr ?m1 pat ds" using ap1 by (intro cstr_mwrite_apart [OF p]) simp
  have s2: "cstr ?m1 ?a2 (mid @ rest)"
    using cstr_drop [OF s1, of "length tok"] by (simp add: add.assoc)
  have s3: "cstr ?m2 (?a2 + of_nat (length mid)) rest"
    by (rule cstr_mwrite_before [OF s2]) simp
  have p2: "cstr ?m2 pat ds" using ap2 by (intro cstr_mwrite_apart [OF p1]) simp
  have len: "length pre + length tok + length mid < 2 ^ 64" using cstr_length [OF s] by simp
  have "strtok_loop m src pat 0 = strtok_loop ?m1 ?a1 pat 0"
    using strtok_loop_delims [OF s p _ ap1, of 0] split by (simp add: tok_split_def)
  also have "\<dots> = strtok_loop ?m1 ?a2 pat ?a1"
    using strtok_loop_first [OF s1 p1, of tok "mid @ rest"] split nz
    by (simp add: tok_split_def add.assoc)
  also have "\<dots> = strtok_loop ?m2 (?a2 + of_nat (length mid)) pat ?a1"
    using strtok_loop_delims [OF s2 p1 _ ap2, of ?a1] split by (simp add: tok_split_def)
  also have "\<dots> = Some (?m2, ?a2 + of_nat (length mid), ?a1)"
    using mwrite_zeros_last [of mid ?m1 ?a2] split len
    by (intro strtok_loop_stop [OF s3 p2 nz]) (auto simp: tok_split_def)
  finally have run: "strtok_loop m src pat 0 = Some (?m2, ?a2 + of_nat (length mid), ?a1)" .
  have "cstr ?m2 ?a1 tok"
  proof (rule cstr_truncate [where t = "mid @ rest", OF s1])
    show "?m2 (?a1 + of_nat (length tok)) = 0" if "mid @ rest \<noteq> []"
      using mwrite_same [of 0 "replicate (length mid) 0" ?m1 ?a2] that split len
      by (auto simp: tok_split_def add.assoc)
    show "?m2 x = ?m1 x" if "in_region x ?a1 (length tok)" for x
    proof (rule mwrite_other)
      show "\<not> in_region x ?a2 (length (replicate (length mid) 0))"
        using that region_split [of x ?a1 "length tok" "length mid"] len
        by (auto simp: add.assoc)
    qed
    show "?m2 = ?m1" if "mid @ rest = []" using that by simp
  qed
  with run s3 show ?thesis by (simp add: add.assoc)
qed

section \<open>Properties\<close>

text \<open>\<open>strcmp\<close> returns on any two C strings, with 0 exactly when they are equal and a
  negative value exactly when the first comes first in the lexicographic order of unsigned
  bytes.\<close>

theorem strcmp_order:
  assumes "cstr m a s" and "cstr m b t"
  shows "\<exists>d. strcmp m a b = Some d \<and> (d = 0 \<longleftrightarrow> s = t) \<and> (d < 0 \<longleftrightarrow> s < t)"
  using assms by (simp add: strcmp_cstr byte_diff_nul_eq byte_diff_nul_less cstr_no_nul)

theorem strcmp_order_witness:
  "\<exists>d. strcmp (mwrite (mwrite (\<lambda>_. 0) 10 (ascii ''ab'')) 20 (ascii ''b'')) 10 20 = Some d \<and> d < 0"
  using strcmp_order [of "mwrite (mwrite (\<lambda>_. 0) 10 (ascii ''ab'')) 20 (ascii ''b'')"
      10 "ascii ''ab''" 20 "ascii ''b''"] by auto

text \<open>C32: \<open>strstr\<close> returns on any two C strings at non-null addresses, with the address of the
  first occurrence of the needle (the haystack itself for an empty needle) and the null pointer
  exactly when the needle does not occur.\<close>

theorem strstr_first_occurrence:
  assumes "cstr m hay h" and "cstr m needle t" and "hay \<noteq> 0" and "needle \<noteq> 0"
    and "unat hay + length h < 2 ^ 64"
  shows "(\<exists>i. strstr m hay needle = Some (hay + of_nat i) \<and> prefix t (drop i h) \<and>
            (\<forall>j < i. \<not> prefix t (drop j h))) \<or>
         (strstr m hay needle = Some 0 \<and> (\<forall>i \<le> length h. \<not> prefix t (drop i h)))"
proof (cases "find_sub t h")
  case None
  with strstr_cstr [OF assms] find_sub_None [of t h] show ?thesis by simp
next
  case (Some i)
  with strstr_cstr [OF assms] find_sub_Some [OF Some] show ?thesis by auto
qed

theorem strstr_first_occurrence_witness:
  "\<exists>i. strstr (mwrite (mwrite (\<lambda>_. 0) 10 (ascii ''cab'')) 20 (ascii ''ab'')) 10 20 = Some (10 + of_nat i) \<and>
     prefix (ascii ''ab'') (drop i (ascii ''cab''))"
proof -
  have "prefix (ascii ''ab'') (drop 1 (ascii ''cab''))" and "1 \<le> length (ascii ''cab'')" by simp_all
  then have "\<not> (\<forall>i \<le> length (ascii ''cab''). \<not> prefix (ascii ''ab'') (drop i (ascii ''cab'')))"
    by blast
  moreover have "cstr (mwrite (mwrite (\<lambda>_. 0) 10 (ascii ''cab'')) 20 (ascii ''ab'')) 10 (ascii ''cab'')"
    and "cstr (mwrite (mwrite (\<lambda>_. 0) 10 (ascii ''cab'')) 20 (ascii ''ab'')) 20 (ascii ''ab'')"
    and "unat (10 :: addr) + length (ascii ''cab'') < 2 ^ 64"
    by simp_all
  moreover have "(10 :: addr) \<noteq> 0" and "(20 :: addr) \<noteq> 0" by simp_all
  ultimately show ?thesis using strstr_first_occurrence by metis
qed

text \<open>\<open>strcat\<close> returns its first argument and leaves there the concatenation of the two
  strings, when the copied string is not overwritten while it is read; nothing outside the
  appended bytes changes.\<close>

theorem strcat_concatenates:
  assumes "cstr m dst s" and "cstr m src t"
    and "fwd_ok (dst + of_nat (length s)) src (Suc (length t))"
    and "length s + length t < 2 ^ 64"
  shows "\<exists>m'. strcat m dst src = Some (dst, m') \<and> cstr m' dst (s @ t) \<and>
    (\<forall>x. \<not> in_region x (dst + of_nat (length s)) (Suc (length t)) \<longrightarrow> m' x = m x)"
proof -
  let ?e = "dst + of_nat (length s)"
  let ?m = "mwrite m ?e (t @ [0])"
  have end_s: "cstr ?m ?e t"
    using cstr_no_nul [OF assms(2)] cstr_length [OF assms(2)] by (intro cstr_mwrite) auto
  have "mread ?m dst (length s) = s"
  proof -
    have "mread m dst (length s) = s"
      using cstr_mread [OF assms(1)] mread_add [of m dst "length s" 1] by simp
    moreover have "mread ?m dst (length s) = mread m dst (length s)"
      using region_split [of _ dst "length s" "Suc (length t)"] assms(4)
      by (intro mread_mwrite_other) auto
    ultimately show ?thesis by simp
  qed
  then have "mread ?m dst (length s + Suc (length t)) = s @ t @ [0]"
    using cstr_mread [OF end_s] by (simp only: mread_add append_assoc)
  then have "cstr ?m dst (s @ t)"
    using cstr_no_nul [OF assms(1)] cstr_no_nul [OF assms(2)] by (simp add: cstr_mread_iff)
  with strcat_cstr [OF assms(1-3)] show ?thesis by (auto intro: mwrite_other)
qed

theorem strcat_concatenates_witness:
  "\<exists>m'. strcat (mwrite (mwrite (\<lambda>_. 0) 10 (ascii ''ab'')) 20 (ascii ''c'')) 10 20 = Some (10, m') \<and>
     cstr m' 10 (ascii ''abc'')"
proof -
  have "fwd_ok 12 20 (Suc (length (ascii ''c'')))" by (simp add: fwd_ok_def in_region_def)
  then show ?thesis
    using strcat_concatenates [of "mwrite (mwrite (\<lambda>_. 0) 10 (ascii ''ab'')) 20 (ascii ''c'')"
        10 "ascii ''ab''" 20 "ascii ''c''"] by auto
qed

text \<open>C33: A call of \<open>strtok\<close> on a string that starts, after any leading delimiters, with a token
  returns the token's address; the token is then a C string of its own there (the character
  after it has been overwritten with NUL), and the saved pointer is left at the rest of the
  string, after all the delimiters that follow the token, which is intact for the next call.
  The same holds for a first call with the string and a later call with the null pointer.\<close>

theorem strtok_next_token:
  assumes "cstr m start (pre @ tok @ mid @ rest)" and "cstr m pat ds"
    and "tok_split ds pre tok mid rest"
    and "apart start (length pre + length tok + length mid) pat (Suc (length ds))"
    and "start + of_nat (length pre) \<noteq> 0" and "start \<noteq> 0"
    and "src = start \<or> src = 0 \<and> nxtTok = start"
  shows "\<exists>m'. strtok m nxtTok src pat =
      Some (start + of_nat (length pre), start + of_nat (length pre + length tok + length mid), m') \<and>
    cstr m' (start + of_nat (length pre)) tok \<and>
    cstr m' (start + of_nat (length pre + length tok + length mid)) rest"
  using strtok_loop_split [OF assms(1-5)] assms(6,7) by (auto simp: strtok_def)

theorem strtok_next_token_witness:
  "\<exists>m'. strtok (mwrite (mwrite (\<lambda>_. 0) 10 (ascii '' ab  c'')) 30 (ascii '' '')) 0 10 30
       = Some (11, 15, m') \<and> cstr m' 11 (ascii ''ab'') \<and> cstr m' 15 (ascii ''c'')"
proof -
  let ?m = "mwrite (mwrite (\<lambda>_. 0) 10 (ascii '' ab  c'')) 30 (ascii '' '')"
  have "apart 10 (Suc (Suc (Suc (Suc (Suc 0))))) 30 (Suc (Suc 0))"
    by (auto simp: apart_def in_region_def unat_sub_if' split: if_splits)
  then show ?thesis
    using strtok_next_token [of ?m 10 "ascii '' ''" "ascii ''ab''" "ascii ''  ''" "ascii ''c''" 30
        "ascii '' ''" 10 0]
    by (simp add: tok_split_def)
qed

text \<open>\<open>strcasecmp\<close> returns on any two C strings, and with 0 exactly when they are equal up to
  the case of ASCII letters.\<close>

theorem strcasecmp_equal_up_to_case:
  assumes "cstr m a s" and "cstr m b t"
  shows "\<exists>d. strcasecmp m a b = Some d \<and>
    (d = 0 \<longleftrightarrow> map (\<lambda>c. toupper (uint c)) s = map (\<lambda>c. toupper (uint c)) t)"
  using assms by (rule strcasecmp_cstr)

theorem strcasecmp_equal_up_to_case_witness:
  "strcasecmp (mwrite (mwrite (\<lambda>_. 0) 10 (ascii ''aB'')) 20 (ascii ''Ab'')) 10 20 = Some 0"
  using strcasecmp_equal_up_to_case [of "mwrite (mwrite (\<lambda>_. 0) 10 (ascii ''aB'')) 20 (ascii ''Ab'')"
      10 "ascii ''aB''" 20 "ascii ''Ab''"] by (auto simp: toupper_def)

text \<open>The sign of a non-zero result of \<open>strcasecmp\<close> is not the case-insensitive order: on
  the strings "a" and "B" it is positive, because the routine subtracts the characters as they
  are, while its bounded sibling \<open>strncasecmp\<close> subtracts the upper-case letters and is negative
  on the same strings.\<close>

theorem strcasecmp_sign_disagrees:
  "\<exists>m. cstr m 10 (ascii ''a'') \<and> cstr m 20 (ascii ''B'') \<and>
     strcasecmp m 10 20 = Some 31 \<and> strncasecmp m 10 20 1 = - 1"
  by (rule exI [of _ "mwrite (mwrite (\<lambda>_. 0) 10 (ascii ''a'')) 20 (ascii ''B'')"])
    (simp add: strcasecmp.simps strncasecmp_def strncasecmp_loop.simps toupper_def char_diff_def)

end
