(* ===== verification/Libc_Strtol.thy ===== *)
theory Libc_Strtol
  imports Libc_String
begin

text \<open>
  The number parsers of the firmware's C library: \<open>strtoul\<close> and \<open>strtol\<close>
  (\<open>litedram/gen-src/sdram_init/libc/src/strtoul.c\<close> and \<open>strtol.c\<close>).  The position they
  advance through \<open>*PTR\<close> is returned with the value.  \<open>strtoul\<close> accumulates in an unsigned
  64-bit integer, which wraps; \<open>strtol\<close> accumulates in a signed one, whose overflow is
  undefined behaviour and has the value \<open>Undefined\<close> in the model.
\<close>

definition is_ws :: "byte \<Rightarrow> bool" where
  "is_ws c \<longleftrightarrow> c = 32 \<or> c = 9 \<or> c = 10 \<or> c = 13"

partial_function (option) skip_ws :: "mem \<Rightarrow> addr \<Rightarrow> addr option" where
  "skip_ws m p = (if is_ws (m p) then skip_ws m (p + 1) else Some p)"

text \<open>Whether the text at the position starts with "0x".\<close>

definition has_0x :: "mem \<Rightarrow> addr \<Rightarrow> bool" where
  "has_0x m p \<longleftrightarrow> m p = chr CHR ''0'' \<and> m (p + 1) = chr CHR ''x''"

definition pick_base :: "mem \<Rightarrow> addr \<Rightarrow> int \<Rightarrow> int" where
  "pick_base m p BASE = (if BASE = 0 then (if has_0x m p then 16 else 10) else BASE)"

definition skip_0x :: "mem \<Rightarrow> addr \<Rightarrow> int \<Rightarrow> addr" where
  "skip_0x m p BASE = (if BASE = 16 \<and> has_0x m p then p + 2 else p)"

text \<open>The value of a character as a digit, \<open>None\<close> for the \<open>break\<close> on any other character.\<close>

definition digit_of :: "byte \<Rightarrow> int option" where
  "digit_of c =
     (if c \<ge> chr CHR ''0'' \<and> c \<le> chr CHR ''9'' then Some (uint c - 48)
      else if c \<ge> chr CHR ''a'' \<and> c \<le> chr CHR ''z'' then Some ((uint c - 97) + 10)
      else if c \<ge> chr CHR ''A'' \<and> c \<le> chr CHR ''Z'' then Some ((uint c - 65) + 10)
      else None)"

partial_function (option) strtoul_digits ::
  "mem \<Rightarrow> addr \<Rightarrow> int \<Rightarrow> u64 \<Rightarrow> (u64 \<times> addr) option" where
  "strtoul_digits m p BASE rval =
     (if m p \<noteq> 0 then
        (case digit_of (m p) of
           None \<Rightarrow> Some (rval, p)
         | Some digit \<Rightarrow>
             (if digit < BASE
              then strtoul_digits m (p + 1) BASE (rval * of_int BASE + of_int digit)
              else Some (rval, p)))
      else Some (rval, p))"

definition strtoul :: "mem \<Rightarrow> addr \<Rightarrow> int \<Rightarrow> (u64 \<times> addr) option" where
  "strtoul m S BASE =
     (if BASE < 0 \<or> BASE > 36 then Some (0, S)
      else do { p \<leftarrow> skip_ws m S;
                let base = pick_base m p BASE;
                strtoul_digits m (skip_0x m p base) base 0 })"

definition long_ok :: "int \<Rightarrow> bool" where
  "long_ok v \<longleftrightarrow> - (2 ^ 63) \<le> v \<and> v < 2 ^ 63"

partial_function (option) strtol_digits ::
  "mem \<Rightarrow> addr \<Rightarrow> int \<Rightarrow> int \<Rightarrow> (int c_val \<times> addr) option" where
  "strtol_digits m p BASE rval =
     (if m p \<noteq> 0 then
        (case digit_of (m p) of
           None \<Rightarrow> Some (Defined rval, p)
         | Some digit \<Rightarrow>
             (if digit < BASE
              then (if long_ok (rval * BASE) \<and> long_ok (rval * BASE + digit)
                    then strtol_digits m (p + 1) BASE (rval * BASE + digit)
                    else Some (Undefined, p))
              else Some (Defined rval, p)))
      else Some (Defined rval, p))"

definition strtol :: "mem \<Rightarrow> addr \<Rightarrow> int \<Rightarrow> (int c_val \<times> addr) option" where
  "strtol m S BASE =
     (if BASE < 0 \<or> BASE > 36 then Some (Defined 0, S)
      else do { p \<leftarrow> skip_ws m S;
                let negative = (m p = chr CHR ''-'');
                let p1 = (if negative then p + 1 else p);
                let base = pick_base m p1 BASE;
                (v, e) \<leftarrow> strtol_digits m (skip_0x m p1 base) base 0;
                Some (case v of Undefined \<Rightarrow> Undefined
                      | Defined r \<Rightarrow> Defined (if negative then r * - 1 else r), e) })"

section \<open>What the digits denote\<close>

definition is_digit_in :: "int \<Rightarrow> byte \<Rightarrow> bool" where
  "is_digit_in base c \<longleftrightarrow> (case digit_of c of None \<Rightarrow> False | Some d \<Rightarrow> d < base)"

definition digits_int :: "int \<Rightarrow> byte list \<Rightarrow> int" where
  "digits_int base ds = foldl (\<lambda>r c. r * base + the (digit_of c)) 0 ds"

lemma digit_of_range: "digit_of c = Some d \<Longrightarrow> 0 \<le> d \<and> d < 36"
  unfolding digit_of_def word_le_def by (auto split: if_splits)

lemma is_digit_in_nz: "is_digit_in b c \<Longrightarrow> c \<noteq> 0"
  by (auto simp: is_digit_in_def digit_of_def)

lemma digits_int_snoc: "digits_int b (ds @ [c]) = digits_int b ds * b + the (digit_of c)"
  by (simp add: digits_int_def)

lemma skip_ws_cstr:
  "cstr m a (ws @ s) \<Longrightarrow> list_all is_ws ws \<Longrightarrow> s = [] \<or> \<not> is_ws (hd s) \<Longrightarrow>
   skip_ws m a = Some (a + of_nat (length ws))"
proof (induction ws arbitrary: a)
  case Nil
  then have "\<not> is_ws (m a)" by (cases s) (auto simp: is_ws_def)
  then show ?case by (subst skip_ws.simps) simp
next
  case (Cons w ws)
  then show ?case by (subst skip_ws.simps) (simp add: algebra_simps)
qed

text \<open>The digit loop of \<open>strtoul\<close> computes the value modulo \<open>2 ^ 64\<close>, from any start value.\<close>

lemma strtoul_digits_cstr:
  "cstr m a (ds @ s) \<Longrightarrow> list_all (is_digit_in b) ds \<Longrightarrow> s = [] \<or> \<not> is_digit_in b (hd s) \<Longrightarrow>
   strtoul_digits m a b r =
     Some (of_int (foldl (\<lambda>r c. r * b + the (digit_of c)) (uint r) ds), a + of_nat (length ds))"
proof (induction ds arbitrary: a r)
  case Nil
  then show ?case
    by (subst strtoul_digits.simps) (cases s; auto simp: is_digit_in_def split: option.splits)
next
  case (Cons c ds)
  obtain d where d: "digit_of c = Some d" "d < b"
    using Cons.prems(2) by (auto simp: is_digit_in_def split: option.splits)
  let ?r = "r * of_int b + of_int d"
  have "(of_int (foldl (\<lambda>r c. r * b + the (digit_of c)) (uint ?r) ds) :: u64) =
        of_int (foldl (\<lambda>r c. r * b + the (digit_of c)) (uint r * b + d) ds)"
  proof -
    have gen: "(of_int (foldl (\<lambda>r c. r * b + the (digit_of c)) x ds) :: u64) =
        of_int (foldl (\<lambda>r c. r * b + the (digit_of c)) y ds)" if "(of_int x :: u64) = of_int y" for x y
      using that
    proof (induction ds arbitrary: x y)
      case (Cons e ds)
      show ?case using Cons.IH [of "x * b + the (digit_of e)" "y * b + the (digit_of e)"] Cons.prems
        by simp
    qed simp
    show ?thesis by (rule gen) simp
  qed
  with Cons d show ?case by (subst strtoul_digits.simps) (simp add: algebra_simps)
qed

lemma foldl_digits_ge:
  "0 \<le> r \<Longrightarrow> 1 \<le> b \<Longrightarrow> list_all (is_digit_in b) ds \<Longrightarrow>
   r \<le> foldl (\<lambda>r c. r * b + the (digit_of c)) r ds"
proof (induction ds arbitrary: r)
  case Nil
  then show ?case by simp
next
  case (Cons c ds)
  then obtain d where d: "digit_of c = Some d" "0 \<le> d"
    by (auto simp: is_digit_in_def dest: digit_of_range split: option.splits)
  have "r \<le> r * b" using Cons.prems by (simp add: mult_le_cancel_left1)
  then have "r \<le> r * b + d" using d by simp
  also have "\<dots> \<le> foldl (\<lambda>r c. r * b + the (digit_of c)) (r * b + d) ds"
    using Cons.prems d by (intro Cons.IH) auto
  finally show ?case using d by simp
qed

lemma strtol_digits_cstr:
  "cstr m a (ds @ s) \<Longrightarrow> list_all (is_digit_in b) ds \<Longrightarrow> s = [] \<or> \<not> is_digit_in b (hd s) \<Longrightarrow>
   0 \<le> r \<Longrightarrow> 1 \<le> b \<Longrightarrow> foldl (\<lambda>r c. r * b + the (digit_of c)) r ds < 2 ^ 63 \<Longrightarrow>
   strtol_digits m a b r =
     Some (Defined (foldl (\<lambda>r c. r * b + the (digit_of c)) r ds), a + of_nat (length ds))"
proof (induction ds arbitrary: a r)
  case Nil
  then show ?case
    by (subst strtol_digits.simps) (cases s; auto simp: is_digit_in_def split: option.splits)
next
  case (Cons c ds)
  obtain d where d: "digit_of c = Some d" "d < b" "0 \<le> d"
    using Cons.prems(2) by (auto simp: is_digit_in_def dest: digit_of_range split: option.splits)
  have r: "0 \<le> r * b + d" using Cons.prems(4,5) d by simp
  then have "r * b + d < 2 ^ 63"
    using foldl_digits_ge [of "r * b + d" b ds] Cons.prems(2,5,6) d by simp
  moreover have "0 \<le> r * b" using Cons.prems(4,5) by simp
  ultimately have "long_ok (r * b)" and "long_ok (r * b + d)"
    using r d by (simp_all add: long_ok_def)
  with Cons d r show ?case by (subst strtol_digits.simps) (simp add: algebra_simps)
qed

text \<open>
  The text of a number as the parsers read it: \<open>BASE\<close> is the argument, \<open>base\<close> the base in
  force, \<open>pre\<close> the skipped prefix, \<open>ds\<close> the digits and \<open>rest\<close> what follows them.
\<close>

definition num_text :: "int \<Rightarrow> int \<Rightarrow> byte list \<Rightarrow> byte list \<Rightarrow> byte list \<Rightarrow> bool" where
  "num_text BASE base pre ds rest \<longleftrightarrow>
     0 \<le> BASE \<and> BASE \<le> 36 \<and>
     (if pre = [] then base = (if BASE = 0 then 10 else BASE) \<and>
        (BASE = 0 \<or> BASE = 16 \<longrightarrow> \<not> prefix (ascii ''0x'') (ds @ rest))
      else pre = ascii ''0x'' \<and> (BASE = 0 \<or> BASE = 16) \<and> base = 16) \<and>
     list_all (is_digit_in base) ds \<and> (rest = [] \<or> \<not> is_digit_in base (hd rest))"

lemma has_0x_cstr: "cstr m a s \<Longrightarrow> has_0x m a \<longleftrightarrow> prefix (ascii ''0x'') s"
proof (cases s)
  case (Cons c t)
  assume s: "cstr m a s"
  with Cons show ?thesis by (cases t) (auto simp: has_0x_def)
qed (simp add: has_0x_def)

lemma num_text_base:
  assumes "cstr m a (pre @ ds @ rest)" and "num_text BASE base pre ds rest"
  shows "pick_base m a BASE = base" and "skip_0x m a base = a + of_nat (length pre)"
    and "cstr m (a + of_nat (length pre)) (ds @ rest)" and "1 \<le> base \<or> ds = []"
  using assms has_0x_cstr [OF assms(1)] cstr_drop [OF assms(1), of "length pre"]
  by (cases "pre = []"; cases ds;
      auto simp: num_text_def pick_base_def skip_0x_def is_digit_in_def
        dest: digit_of_range split: if_splits option.splits)+

lemma strtoul_num_text:
  assumes "cstr m S (ws @ pre @ ds @ rest)" and "list_all is_ws ws"
    and "pre @ ds @ rest = [] \<or> \<not> is_ws (hd (pre @ ds @ rest))"
    and "num_text BASE base pre ds rest"
  shows "strtoul m S BASE =
    Some (of_int (digits_int base ds), S + of_nat (length ws + length pre + length ds))"
proof -
  let ?p = "S + of_nat (length ws)"
  have p: "skip_ws m S = Some ?p" using assms(1-3) by (intro skip_ws_cstr)
  have c: "cstr m ?p (pre @ ds @ rest)" using cstr_drop [OF assms(1), of "length ws"] by simp
  have "strtoul_digits m (?p + of_nat (length pre)) base 0 =
      Some (of_int (digits_int base ds), ?p + of_nat (length pre) + of_nat (length ds))"
    using strtoul_digits_cstr [OF num_text_base(3) [OF c assms(4)], of base 0] assms(4)
    by (simp add: num_text_def digits_int_def)
  with p num_text_base(1,2) [OF c assms(4)] assms(4) show ?thesis
    by (simp add: strtoul_def num_text_def Let_def add.assoc)
qed

section \<open>Properties\<close>

text \<open>\<open>strtoul\<close> skips leading blanks, chooses the base (16 after a "0x" prefix and 10
  otherwise when the argument is 0), skips that prefix in base 16, reads the longest run of
  digits of the base, and returns their value modulo \<open>2 ^ 64\<close> together with the position of the
  first character it did not use.\<close>

theorem strtoul_reads_number:
  assumes "cstr m S (ws @ pre @ ds @ rest)" and "list_all is_ws ws"
    and "pre @ ds @ rest = [] \<or> \<not> is_ws (hd (pre @ ds @ rest))"
    and "num_text BASE base pre ds rest"
  shows "strtoul m S BASE =
    Some (of_int (digits_int base ds), S + of_nat (length ws + length pre + length ds))"
  using assms by (rule strtoul_num_text)

theorem strtoul_reads_number_witness:
  "strtoul (mwrite (\<lambda>_. 0) 10 (ascii '' 0x1F-'')) 10 0 = Some (31, 15)"
  using strtoul_reads_number [of "mwrite (\<lambda>_. 0) 10 (ascii '' 0x1F-'')" 10 "ascii '' ''"
      "ascii ''0x''" "ascii ''1F''" "ascii ''-''" 0 16]
  by (simp add: num_text_def is_ws_def is_digit_in_def digit_of_def digits_int_def)

text \<open>\<open>strtol\<close> reads the same texts with an optional minus sign before the prefix, and
  returns the signed value, whenever the magnitude is below \<open>2 ^ 63\<close>: no intermediate value
  then overflows.\<close>

theorem strtol_reads_number:
  assumes "cstr m S (ws @ sg @ pre @ ds @ rest)" and "list_all is_ws ws"
    and "sg = (if neg then ascii ''-'' else [])"
    and "pre @ ds @ rest = [] \<or> \<not> is_ws (hd (pre @ ds @ rest)) \<and> hd (pre @ ds @ rest) \<noteq> chr CHR ''-''"
    and "num_text BASE base pre ds rest" and "digits_int base ds < 2 ^ 63"
  shows "strtol m S BASE =
    Some (Defined (if neg then - digits_int base ds else digits_int base ds),
          S + of_nat (length ws + length sg + length pre + length ds))"
proof -
  let ?p = "S + of_nat (length ws)"
  let ?q = "?p + of_nat (length sg)"
  have p: "skip_ws m S = Some ?p"
    using assms(1-4) by (intro skip_ws_cstr [of m S ws "sg @ pre @ ds @ rest"]) (auto simp: is_ws_def)
  have c: "cstr m ?p (sg @ pre @ ds @ rest)" using cstr_drop [OF assms(1), of "length ws"] by simp
  then have q: "cstr m ?q (pre @ ds @ rest)"
    using cstr_drop [of m ?p "sg @ pre @ ds @ rest" "length sg"] by simp
  have neg: "m ?p = chr CHR ''-'' \<longleftrightarrow> neg"
    using c assms(3,4) by (cases neg; cases "pre @ ds @ rest"; auto)
  have dig: "strtol_digits m (?q + of_nat (length pre)) base 0 =
      Some (Defined (digits_int base ds), ?q + of_nat (length pre) + of_nat (length ds))"
  proof (cases "ds = []")
    case True
    then show ?thesis
      using num_text_base(3) [OF q assms(5)] assms(5)
      by (subst strtol_digits.simps)
        (cases rest; auto simp: num_text_def digits_int_def is_digit_in_def split: option.splits)
  next
    case False
    then show ?thesis
      using strtol_digits_cstr [OF num_text_base(3) [OF q assms(5)], of base 0] assms(5,6)
        num_text_base(4) [OF q assms(5)]
      by (simp add: num_text_def digits_int_def)
  qed
  have q_eq: "(if neg then ?p + 1 else ?p) = ?q" using assms(3) by simp
  show ?thesis
    using p dig neg q_eq num_text_base(1,2) [OF q assms(5)] assms(5)
    by (auto simp: strtol_def num_text_def Let_def add.assoc split: if_splits)
qed

theorem strtol_reads_number_witness:
  "strtol (mwrite (\<lambda>_. 0) 10 (ascii ''-12 '')) 10 10 = Some (Defined (- 12), 13)"
  using strtol_reads_number [of "mwrite (\<lambda>_. 0) 10 (ascii ''-12 '')" 10 "[]" "ascii ''-''"
      "[]" "ascii ''12''" "ascii '' ''" True 10 10]
  by (simp add: num_text_def is_ws_def is_digit_in_def digit_of_def digits_int_def)

end
