(* ===== verification/Libc_Printf.thy ===== *)
theory Libc_Printf
  imports Libc_Strtol
begin

text \<open>
  The formatted printer of the firmware's C library
  (\<open>litedram/gen-src/sdram_init/libc/src/vsnprintf.c\<close>).

  Every helper takes the memory and the value of \<open>*buffer\<close> and returns both.  The local
  arrays \<open>formstr\<close> (20 bytes, in \<open>vsnprintf\<close>) and \<open>sizec\<close> (32 bytes, in \<open>print_format\<close>)
  and the string literal "0x" live in memory at the addresses of the record \<open>frame\<close>.  The
  result \<open>None\<close> is "no defined result": a callee scans a string without an end, a store runs
  past the end of a local array, or an argument is missing.  The variadic arguments are the
  list of the 64-bit values that \<open>va_arg (arg, void *)\<close> delivers.
\<close>

record frame =
  fr_formstr :: addr
  fr_sizec :: addr
  fr_0x :: addr

definition convert :: "u64 list" where
  "convert = [0x0, 0xFF, 0xFFFF, 0xFFFFFF, 0xFFFFFFFF,
     0xFFFFFFFFFF, 0xFFFFFFFFFFFF, 0xFFFFFFFFFFFFFF, 0xFFFFFFFFFFFFFFFF]"

text \<open>The conversion of an \<open>unsigned long\<close> to \<open>int\<close>.\<close>

definition to_int32 :: "u64 \<Rightarrow> int" where
  "to_int32 v = sint (ucast v :: u32)"

text \<open>The padding loops: at most \<open>k\<close> copies of \<open>c\<close>, as long as there is room.\<close>

fun fill_loop :: "mem \<Rightarrow> addr \<Rightarrow> addr \<Rightarrow> u64 \<Rightarrow> byte \<Rightarrow> nat \<Rightarrow> mem \<times> addr" where
  "fill_loop m bstart buf bufsize c 0 = (m, buf)"
| "fill_loop m bstart buf bufsize c (Suc k) =
     (if buf - bstart < bufsize then fill_loop (m(buf := c)) bstart (buf + 1) bufsize c k
      else (m, buf))"

definition print_str_fill ::
  "mem \<Rightarrow> addr \<Rightarrow> u64 \<Rightarrow> addr \<Rightarrow> addr \<Rightarrow> byte \<Rightarrow> (mem \<times> addr) option" where
  "print_str_fill m buf bufsize sizec str c =
     do { (sizei, _) \<leftarrow> strtoul m sizec 10;
          len \<leftarrow> strlen m str;
          Some (if sizei > len then fill_loop m buf buf bufsize c (unat (sizei - len))
                else (m, buf)) }"

text \<open>The loop condition calls \<open>strlen\<close> again on each iteration.\<close>

partial_function (option) print_str_loop ::
  "mem \<Rightarrow> addr \<Rightarrow> addr \<Rightarrow> u64 \<Rightarrow> addr \<Rightarrow> u64 \<Rightarrow> (mem \<times> addr) option" where
  "print_str_loop m bstart buf bufsize str i =
     do { len \<leftarrow> strlen m str;
          (if i < len \<and> buf - bstart < bufsize
           then print_str_loop (m(buf := m (str + i))) bstart (buf + 1) bufsize str (i + 1)
           else Some (m, buf)) }"

definition print_str :: "mem \<Rightarrow> addr \<Rightarrow> u64 \<Rightarrow> addr \<Rightarrow> (mem \<times> addr) option" where
  "print_str m buf bufsize str = print_str_loop m buf buf bufsize str 0"

text \<open>Division by a zero base is undefined.\<close>

partial_function (option) print_intlen_loop :: "u64 \<Rightarrow> u16 \<Rightarrow> int \<Rightarrow> int option" where
  "print_intlen_loop v base i =
     (if v > 0 then
        (if base = 16 then print_intlen_loop (drop_bit 4 v) base (i + 1)
         else if base = 0 then None
         else print_intlen_loop (v div ucast base) base (i + 1))
      else Some i)"

definition print_intlen :: "u64 \<Rightarrow> u16 \<Rightarrow> int option" where
  "print_intlen v base =
     do { i \<leftarrow> print_intlen_loop v base 0;
          Some (if i = 0 then 1 else i) }"

definition zeichen :: "byte list" where
  "zeichen = ascii ''0123456789abcdef''"

definition digit_char :: "u64 \<Rightarrow> u16 \<Rightarrow> bool \<Rightarrow> byte" where
  "digit_char v base upper =
     (let c = zeichen ! unat (v mod ucast base)
      in if upper then of_int (toupper (uint c)) else c)"

text \<open>The do-while loop stores the digits from the last to the first; the base is at least 3.\<close>

function itoa_loop :: "mem \<Rightarrow> addr \<Rightarrow> int \<Rightarrow> u64 \<Rightarrow> u16 \<Rightarrow> bool \<Rightarrow> mem" where
  "itoa_loop m buf i v base upper =
     (let m' = m(buf + of_int (i - 1) := digit_char v base upper); v' = v div ucast base
      in if v' \<noteq> 0 \<and> base > 2 then itoa_loop m' buf (i - 1) v' base upper else m')"
  by pat_completeness auto
termination
proof (relation "measure (\<lambda>(m, b, i, v, base, u). unat v)")
  fix m :: mem and buf :: addr and i :: int and v :: u64 and base :: u16 and upper :: bool
    and x :: mem and xa :: u64
  assume v': "xa = v div ucast base" and nz: "xa \<noteq> 0 \<and> base > 2"
  have b: "unat (ucast base :: u64) = unat base" by (simp add: unat_ucast_up)
  have "2 < unat base" using nz by (simp add: word_less_nat_alt)
  moreover have "0 < unat v" using nz v' by (metis div_0 gr0I unat_0_iff unat_0 unat_div)
  ultimately have "unat v div unat base < unat v" by (intro div_less_dividend) auto
  then show "((x, buf, i - 1, xa, base, upper), m, buf, i, v, base, upper)
      \<in> measure (\<lambda>(m, b, i, v, base, u). unat v)"
    by (simp add: v' unat_div b)
qed simp

declare itoa_loop.simps [simp del]

text \<open>Returns the C return value (1 when printed) with the new memory and buffer position.\<close>

definition print_itoa ::
  "mem \<Rightarrow> addr \<Rightarrow> u64 \<Rightarrow> u64 \<Rightarrow> u16 \<Rightarrow> bool \<Rightarrow> (int \<times> mem \<times> addr) option" where
  "print_itoa m buf bufsize v base upper =
     (if base \<le> 2 \<or> base > 16 then Some (0, m, buf)
      else do { len \<leftarrow> print_intlen v base;
                (if of_int len > bufsize then Some (0, m, buf)
                 else Some (1, itoa_loop m buf len v base upper, buf + of_int len)) })"

definition print_fill ::
  "mem \<Rightarrow> addr \<Rightarrow> u64 \<Rightarrow> addr \<Rightarrow> u64 \<Rightarrow> u16 \<Rightarrow> byte \<Rightarrow> int \<Rightarrow> (mem \<times> addr) option" where
  "print_fill m buf bufsize sizec sz base c optlen =
     do { (n, _) \<leftarrow> strtoul m sizec 10;
          let sizei = to_int32 n;
          l \<leftarrow> print_intlen sz base;
          let len = l + optlen;
          Some (if sizei > len then fill_loop m buf buf bufsize c (nat (sizei - len))
                else (m, buf)) }"

section \<open>print_format\<close>

text \<open>The padding and the digits of a number, as the integer conversions print them: each call
  gets the room that is left.\<close>

definition print_number ::
  "frame \<Rightarrow> addr \<Rightarrow> u64 \<Rightarrow> mem \<Rightarrow> addr \<Rightarrow> u64 \<Rightarrow> u16 \<Rightarrow> byte \<Rightarrow> bool \<Rightarrow> (mem \<times> addr) option" where
  "print_number fr start bufsize m buf v base sign upper =
     do { (m1, b1) \<leftarrow> print_fill m buf (bufsize - (buf - start)) (fr_sizec fr) v base sign 0;
          (_, m2, b2) \<leftarrow> print_itoa m1 b1 (bufsize - (b1 - start)) v base upper;
          Some (m2, b2) }"

definition print_signed ::
  "frame \<Rightarrow> addr \<Rightarrow> u64 \<Rightarrow> u64 \<Rightarrow> byte \<Rightarrow> mem \<Rightarrow> addr \<Rightarrow> nat \<Rightarrow> bool \<Rightarrow> bool \<Rightarrow> (mem \<times> addr) option" where
  "print_signed fr start bufsize var sign m buf length_mod upper is_u =
     (let signBit = push_bit (length_mod * 8 - 1) 1 :: u64
      in if \<not> is_u \<and> signBit AND var \<noteq> 0
         then print_number fr start bufsize (m(buf := chr CHR ''-'')) (buf + 1)
                (- var AND convert ! length_mod) 10 sign upper
         else print_number fr start bufsize m buf var 10 sign upper)"

definition print_ptr ::
  "frame \<Rightarrow> addr \<Rightarrow> u64 \<Rightarrow> u64 \<Rightarrow> mem \<Rightarrow> addr \<Rightarrow> bool \<Rightarrow> (mem \<times> addr) option" where
  "print_ptr fr start bufsize var m buf upper =
     do { (m1, b1) \<leftarrow> print_fill m buf (bufsize - (buf - start)) (fr_sizec fr) var 16 (chr CHR '' '') 2;
          (m2, b2) \<leftarrow> print_str m1 b1 (bufsize - (b1 - start)) (fr_0x fr);
          (_, m3, b3) \<leftarrow> print_itoa m2 b2 (bufsize - (b2 - start)) var 16 upper;
          Some (m3, b3) }"

text \<open>The character conversion stores its character without looking at the room left.\<close>

definition print_char ::
  "frame \<Rightarrow> addr \<Rightarrow> u64 \<Rightarrow> u64 \<Rightarrow> mem \<Rightarrow> addr \<Rightarrow> (mem \<times> addr) option" where
  "print_char fr start bufsize var m buf =
     do { (m1, b1) \<leftarrow> print_fill m buf (bufsize - (buf - start)) (fr_sizec fr) 1 10 (chr CHR '' '') 0;
          Some (m1(b1 := ucast var), b1 + 1) }"

definition print_string ::
  "frame \<Rightarrow> addr \<Rightarrow> u64 \<Rightarrow> u64 \<Rightarrow> mem \<Rightarrow> addr \<Rightarrow> (mem \<times> addr) option" where
  "print_string fr start bufsize var m buf =
     do { (m1, b1) \<leftarrow> print_str_fill m buf (bufsize - (buf - start)) (fr_sizec fr) var (chr CHR '' '');
          print_str m1 b1 (bufsize - (b1 - start)) var }"

text \<open>The cases of the switch that print; \<open>X\<close> has already set \<open>upper\<close>.\<close>

definition print_conv ::
  "frame \<Rightarrow> addr \<Rightarrow> u64 \<Rightarrow> u64 \<Rightarrow> byte \<Rightarrow> mem \<Rightarrow> addr \<Rightarrow> nat \<Rightarrow> bool \<Rightarrow> byte \<Rightarrow> (mem \<times> addr) option" where
  "print_conv fr start bufsize var sign m buf length_mod upper c =
     (if c = chr CHR ''u'' \<or> c = chr CHR ''d'' \<or> c = chr CHR ''i''
      then print_signed fr start bufsize var sign m buf length_mod upper (c = chr CHR ''u'')
      else if c = chr CHR ''X'' \<or> c = chr CHR ''x''
      then print_number fr start bufsize m buf (var AND convert ! length_mod) 16 sign upper
      else if c = chr CHR ''O'' \<or> c = chr CHR ''o''
      then print_number fr start bufsize m buf (var AND convert ! length_mod) 8 sign upper
      else if c = chr CHR ''p'' then print_ptr fr start bufsize var m buf upper
      else if c = chr CHR ''c'' then print_char fr start bufsize var m buf
      else print_string fr start bufsize var m buf)"

definition is_conv :: "byte \<Rightarrow> bool" where
  "is_conv c \<longleftrightarrow> c \<in> set (ascii ''udiXxOopcs'')"

text \<open>What the loop over the format does not change: the parameters and the padding character.\<close>

record pf_env =
  pe_frame :: frame
  pe_start :: addr
  pe_bufsize :: u64
  pe_var :: u64
  pe_sign :: byte

text \<open>What an iteration of the loop changes.\<close>

record pf_state =
  ps_mem :: mem
  ps_buf :: addr
  ps_form :: addr
  ps_i :: nat
  ps_length_mod :: nat
  ps_upper :: bool

text \<open>One iteration: the switch on \<open>*form\<close> and the increment of \<open>form\<close>.  A store past the
  32 bytes of \<open>sizec\<close> has no defined result.\<close>

definition print_format_step :: "pf_env \<Rightarrow> pf_state \<Rightarrow> pf_state option" where
  "print_format_step e st =
     (let m = ps_mem st; form = ps_form st; i = ps_i st; c = m form in
      if is_conv c then
        (if i < 32 then
           let upper = (ps_upper st \<or> c = chr CHR ''X'') in
           do { (m', buf') \<leftarrow> print_conv (pe_frame e) (pe_start e) (pe_bufsize e) (pe_var e)
                  (pe_sign e) (m(fr_sizec (pe_frame e) + of_nat i := 0)) (ps_buf st)
                  (ps_length_mod st) upper c;
                Some (st\<lparr>ps_mem := m', ps_buf := buf', ps_form := form + 1, ps_upper := upper\<rparr>) }
         else None)
      else if c = chr CHR ''l'' then
        Some (st\<lparr>ps_form := (if m (form + 1) = chr CHR ''l'' then form + 2 else form + 1),
                 ps_length_mod := 8\<rparr>)
      else if c = chr CHR ''h'' then
        Some (if m (form + 1) = chr CHR ''h'' then st\<lparr>ps_form := form + 2, ps_length_mod := 1\<rparr>
              else st\<lparr>ps_form := form + 1, ps_length_mod := 2\<rparr>)
      else if c = chr CHR ''z'' then Some (st\<lparr>ps_form := form + 1, ps_length_mod := 8\<rparr>)
      else if c \<ge> chr CHR ''0'' \<and> c \<le> chr CHR ''9'' then
        (if i < 32 then
           Some (st\<lparr>ps_mem := m(fr_sizec (pe_frame e) + of_nat i := c), ps_form := form + 1,
                    ps_i := i + 1\<rparr>)
         else None)
      else Some (st\<lparr>ps_form := form + 1\<rparr>))"

partial_function (option) print_format_loop :: "pf_env \<Rightarrow> pf_state \<Rightarrow> pf_state option" where
  "print_format_loop e st =
     (if ps_mem st (ps_form st) \<noteq> 0 \<and> ps_buf st - pe_start e < pe_bufsize e
      then do { st' \<leftarrow> print_format_step e st; print_format_loop e st' }
      else Some st)"

definition print_format ::
  "frame \<Rightarrow> mem \<Rightarrow> addr \<Rightarrow> u64 \<Rightarrow> addr \<Rightarrow> u64 \<Rightarrow> (mem \<times> addr) option" where
  "print_format fr m buf bufsize format var =
     (let form = format + 1; zero = (m form = chr CHR ''0'' \<or> m form = chr CHR ''.'')
      in do { st \<leftarrow> print_format_loop
                \<lparr>pe_frame = fr, pe_start = buf, pe_bufsize = bufsize, pe_var = var,
                 pe_sign = (if zero then chr CHR ''0'' else chr CHR '' '')\<rparr>
                \<lparr>ps_mem = m, ps_buf = buf, ps_form = (if zero then form + 1 else form),
                 ps_i = 0, ps_length_mod = 4, ps_upper = False\<rparr>;
              Some (ps_mem st, ps_buf st) })"

section \<open>vsnprintf\<close>

definition ends_spec :: "byte \<Rightarrow> bool" where
  "ends_spec c \<longleftrightarrow> c \<in> set (ascii ''diuxXpcs%Oo'')"

text \<open>The do-while loop that copies a conversion specification into \<open>formstr\<close>.\<close>

function fmt_collect :: "frame \<Rightarrow> mem \<Rightarrow> addr \<Rightarrow> nat \<Rightarrow> (mem \<times> addr \<times> nat) option" where
  "fmt_collect fr m ptr i =
     (if i < 20 then
        let m' = m(fr_formstr fr + of_nat i := m ptr)
        in if ends_spec (m' (ptr + 1)) then Some (m', ptr + 1, i + 1)
           else fmt_collect fr m' (ptr + 1) (i + 1)
      else None)"
  by pat_completeness auto
termination
  by (relation "measure (\<lambda>(fr, m, p, i). 20 - i)") auto

declare fmt_collect.simps [simp del]

partial_function (option) vsnprintf_loop ::
  "frame \<Rightarrow> addr \<Rightarrow> u64 \<Rightarrow> mem \<Rightarrow> addr \<Rightarrow> addr \<Rightarrow> u64 list \<Rightarrow> (mem \<times> addr) option" where
  "vsnprintf_loop fr bstart bufsize m buf ptr args =
     (if m ptr \<noteq> 0 \<and> buf - bstart < bufsize then
        (if m ptr = chr CHR ''%'' then
           do { (m1, p1, i) \<leftarrow> fmt_collect fr m ptr 0;
                (if i + 1 < 20 then
                   let c = m1 p1;
                       m2 = m1(fr_formstr fr + of_nat i := c, fr_formstr fr + of_nat (i + 1) := 0)
                   in if c = chr CHR ''%''
                      then vsnprintf_loop fr bstart bufsize (m2(buf := chr CHR ''%'')) (buf + 1)
                             (p1 + 1) args
                      else (case args of
                              [] \<Rightarrow> None
                            | v # vs \<Rightarrow>
                                do { (m3, b3) \<leftarrow> print_format fr m2 buf (bufsize - (buf - bstart))
                                       (fr_formstr fr) v;
                                     vsnprintf_loop fr bstart bufsize m3 b3 (p1 + 1) vs })
                 else None) }
         else vsnprintf_loop fr bstart bufsize (m(buf := m ptr)) (buf + 1) (ptr + 1) args)
      else Some (m, buf))"

definition vsnprintf ::
  "frame \<Rightarrow> mem \<Rightarrow> addr \<Rightarrow> u64 \<Rightarrow> addr \<Rightarrow> u64 list \<Rightarrow> (int \<times> mem) option" where
  "vsnprintf fr m buffer bufsize format args =
     (if buffer = 0 \<or> bufsize = 0 then Some (0, m)
      else do { (m1, b1) \<leftarrow> vsnprintf_loop fr buffer (bufsize - 1) m buffer format args;
                Some (to_int32 (b1 - buffer), m1(b1 := 0)) })"


section \<open>The digits of a number\<close>

function nat_digits :: "nat \<Rightarrow> nat \<Rightarrow> nat list" where
  "nat_digits b n = (if 2 \<le> b \<and> b \<le> n then nat_digits b (n div b) @ [n mod b] else [n])"
  by pat_completeness auto
termination by (relation "measure snd") auto

declare nat_digits.simps [simp del]

lemma nat_digits_small: "n < b \<Longrightarrow> nat_digits b n = [n]"
  by (subst nat_digits.simps) simp

lemma nat_digits_step: "2 \<le> b \<Longrightarrow> b \<le> n \<Longrightarrow> nat_digits b n = nat_digits b (n div b) @ [n mod b]"
  by (subst nat_digits.simps) simp

lemma nat_digits_less: "2 \<le> b \<Longrightarrow> d \<in> set (nat_digits b n) \<Longrightarrow> d < b"
proof (induction b n rule: nat_digits.induct)
  case (1 b n)
  then show ?case by (cases "b \<le> n") (auto simp: nat_digits_small nat_digits_step)
qed

lemma nat_digits_value: "2 \<le> b \<Longrightarrow> foldl (\<lambda>r d. r * b + d) 0 (nat_digits b n) = n"
proof (induction b n rule: nat_digits.induct)
  case (1 b n)
  then show ?case by (cases "b \<le> n") (auto simp: nat_digits_small nat_digits_step)
qed

lemma nat_digits_nonempty [simp]: "nat_digits b n \<noteq> []"
  by (subst nat_digits.simps) simp

text \<open>A number has at most \<open>k\<close> digits exactly when it is below the \<open>k\<close>-th power of the base.\<close>

lemma nat_digits_length: "2 \<le> b \<Longrightarrow> length (nat_digits b n) \<le> Suc k \<longleftrightarrow> n < b ^ Suc k"
proof (induction b n arbitrary: k rule: nat_digits.induct)
  case (1 b n)
  show ?case
  proof (cases "b \<le> n")
    case True
    have IH: "\<And>k. length (nat_digits b (n div b)) \<le> Suc k \<longleftrightarrow> n div b < b ^ Suc k"
      using "1" True by blast
    show ?thesis
    proof (cases k)
      case 0
      with True "1.prems" show ?thesis by (simp add: nat_digits_step)
    next
      case (Suc j)
      have "n div b < b ^ Suc j \<longleftrightarrow> n < b ^ Suc k"
        using "1.prems" Suc by (simp add: less_mult_imp_div_less div_less_iff_less_mult mult.commute)
      with True "1.prems" IH [of j] Suc show ?thesis by (simp add: nat_digits_step)
    qed
  next
    case False
    then have "n < b ^ Suc k"
      using "1.prems" by (metis not_le one_le_numeral order_trans power_one_right power_increasing
          le_add1 plus_1_eq_Suc order_less_le_trans)
    with False show ?thesis by (simp add: nat_digits_small)
  qed
qed

text \<open>The character \<open>print_itoa\<close> prints for a digit.\<close>

definition dchar :: "bool \<Rightarrow> nat \<Rightarrow> byte" where
  "dchar upper d = (let c = zeichen ! d in if upper then of_int (toupper (uint c)) else c)"

definition itoa_text :: "u16 \<Rightarrow> bool \<Rightarrow> u64 \<Rightarrow> byte list" where
  "itoa_text base upper v = map (dchar upper) (nat_digits (unat base) (unat v))"

lemma digit_of_dchar: "d < 16 \<Longrightarrow> digit_of (dchar upper d) = Some (int d)"
proof -
  have "\<forall>d \<in> {..<16}. \<forall>u. digit_of (dchar u d) = Some (int d)"
    by (simp add: lessThan_nat_numeral lessThan_Suc dchar_def zeichen_def digit_of_def toupper_def all_bool_eq)
  then show "d < 16 \<Longrightarrow> ?thesis" by simp
qed

lemma intlen_div: "2 < base \<Longrightarrow> unat (v div ucast base) = unat v div unat base" for v :: u64 and base :: u16
  by (simp add: unat_div unat_ucast_up)

lemma print_intlen_loop_digits:
  "2 < base \<Longrightarrow> v \<noteq> 0 \<Longrightarrow>
   print_intlen_loop v base i = Some (i + int (length (nat_digits (unat base) (unat v))))"
proof (induction "unat v" arbitrary: v i rule: less_induct)
  case less
  let ?b = "unat base"
  define w where "w = (if base = 16 then drop_bit 4 v else v div ucast base)"
  have b: "2 < ?b" using less.prems(1) by (simp add: word_less_nat_alt)
  have w: "unat w = unat v div ?b"
    using intlen_div [OF less.prems(1)] by (auto simp: w_def unat_drop_bit_eq drop_bit_eq_div)
  have pos: "0 < unat v" using less.prems(2) by (simp add: unat_gt_0)
  have step: "print_intlen_loop v base i = print_intlen_loop w base (i + 1)"
    using less.prems by (subst print_intlen_loop.simps) (auto simp: w_def)
  show ?case
  proof (cases "?b \<le> unat v")
    case True
    then have "0 < unat w" using w b by (simp add: div_greater_zero_iff)
    then have "w \<noteq> 0" by auto
    moreover have "unat w < unat v" using w b pos by simp
    ultimately have "print_intlen_loop w base (i + 1) =
        Some (i + 1 + int (length (nat_digits ?b (unat w))))"
      using less.hyps less.prems(1) by blast
    with step w True b show ?thesis by (simp add: nat_digits_step)
  next
    case False
    then have "unat w = 0" using w by simp
    then have "w = 0" by (simp only: unat_eq_zero)
    then have "print_intlen_loop w base (i + 1) = Some (i + 1)"
      by (subst print_intlen_loop.simps) simp
    with step False show ?thesis by (simp add: nat_digits_small)
  qed
qed

lemma print_intlen_digits:
  "2 < base \<Longrightarrow> print_intlen v base = Some (int (length (nat_digits (unat base) (unat v))))"
proof (cases "v = 0")
  case True
  assume "2 < base"
  with True show ?thesis
    by (simp add: print_intlen_def print_intlen_loop.simps nat_digits_small word_less_nat_alt)
next
  case False
  assume "2 < base"
  with False show ?thesis
    by (simp add: print_intlen_def print_intlen_loop_digits)
qed

lemma digit_char_dchar: "2 < base \<Longrightarrow> digit_char v base upper = dchar upper (unat v mod unat base)"
  by (simp add: digit_char_def dchar_def unat_mod unat_ucast_up)

lemma mwrite_snoc:
  "length xs < 2 ^ 64 \<Longrightarrow> mwrite m a (xs @ [x]) = mwrite (m(a + of_nat (length xs) := x)) a xs"
  using not_in_region_end [of "length xs" a] by (simp add: mwrite_append mwrite_upd_other)

lemma nat_digits_length_64: "2 \<le> b \<Longrightarrow> length (nat_digits b (unat v)) \<le> 64" for v :: u64
proof -
  assume b: "2 \<le> b"
  have "unat v < 2 ^ 64" using unsigned_less [of v, where ?'a = nat] by simp
  also have "\<dots> \<le> b ^ Suc 63" using power_mono [OF b, of 64] by simp
  finally show ?thesis using nat_digits_length [OF b, of _ 63] by simp
qed

lemma itoa_loop_text:
  "2 < base \<Longrightarrow>
   itoa_loop m buf (int (length (itoa_text base upper v))) v base upper = mwrite m buf (itoa_text base upper v)"
proof (induction "unat v" arbitrary: v m rule: less_induct)
  case less
  let ?b = "unat base" and ?w = "v div ucast base"
  have b: "2 < ?b" using less.prems(1) by (simp add: word_less_nat_alt)
  have w: "unat ?w = unat v div ?b" using intlen_div [OF less.prems(1)] .
  have dc: "digit_char v base upper = dchar upper (unat v mod ?b)"
    using digit_char_dchar [OF less.prems(1)] .
  show ?case
  proof (cases "?b \<le> unat v")
    case True
    let ?t = "itoa_text base upper ?w"
    have t: "itoa_text base upper v = ?t @ [digit_char v base upper]"
      using True b dc by (simp add: itoa_text_def nat_digits_step w)
    have len: "length ?t < 2 ^ 64"
      using nat_digits_length_64 [of ?b ?w] b by (simp add: itoa_text_def)
    have "0 < unat ?w" using w True b by (simp add: div_greater_zero_iff)
    then have nz: "?w \<noteq> 0" by auto
    have lt: "unat ?w < unat v" using w True b by simp
    have "itoa_loop m buf (int (length (itoa_text base upper v))) v base upper =
        itoa_loop (m(buf + of_nat (length ?t) := digit_char v base upper)) buf (int (length ?t)) ?w base upper"
      using nz less.prems(1) by (subst itoa_loop.simps) (simp add: t Let_def)
    also have "\<dots> = mwrite (m(buf + of_nat (length ?t) := digit_char v base upper)) buf ?t"
      using less.hyps [OF lt less.prems(1)] .
    finally show ?thesis using t len by (simp add: mwrite_snoc)
  next
    case False
    then have "unat ?w = 0" using w by simp
    then have "?w = 0" by (simp only: unat_eq_zero)
    moreover have "itoa_text base upper v = [digit_char v base upper]"
      using False dc by (simp add: itoa_text_def nat_digits_small)
    ultimately show ?thesis by (subst itoa_loop.simps) (simp add: Let_def)
  qed
qed

text \<open>\<open>print_itoa\<close> prints the number when it fits and nothing otherwise.\<close>

lemma length_itoa_text: "length (itoa_text base upper v) = length (nat_digits (unat base) (unat v))"
  by (simp add: itoa_text_def)

lemma print_itoa_text:
  assumes "2 < base" and "base \<le> 16"
  shows "print_itoa m buf bufsize v base upper =
    Some (if length (itoa_text base upper v) \<le> unat bufsize
          then (1, mwrite m buf (itoa_text base upper v), buf + of_nat (length (itoa_text base upper v)))
          else (0, m, buf))"
proof -
  let ?n = "length (itoa_text base upper v)"
  have b: "2 < unat base" using assms(1) by (simp add: word_less_nat_alt)
  have "?n \<le> 64" using nat_digits_length_64 [of "unat base" v] b by (simp add: length_itoa_text)
  then have "unat (of_nat ?n :: u64) = ?n" by (simp add: unat_of_nat take_bit_nat_eq_self)
  then have "(of_nat ?n > bufsize) = (\<not> ?n \<le> unat bufsize)" by (simp add: word_less_nat_alt not_le)
  moreover have "print_intlen v base = Some (int ?n)"
    using print_intlen_digits [OF assms(1)] by (simp add: length_itoa_text)
  ultimately show ?thesis
    using assms itoa_loop_text [OF assms(1), of m buf upper v]
    by (auto simp: print_itoa_def not_less not_le)
qed

section \<open>Where the printer writes\<close>

text \<open>A helper that is given \<open>n\<close> bytes of room at \<open>start\<close> leaves its position inside the room
  and the memory outside it alone.\<close>

definition advance :: "addr \<Rightarrow> nat \<Rightarrow> mem \<Rightarrow> mem \<times> addr \<Rightarrow> bool" where
  "advance start n m r \<longleftrightarrow>
     unat (snd r - start) \<le> n \<and> (\<forall>x. \<not> in_region x start n \<longrightarrow> fst r x = m x)"

lemma advance_refl: "unat (buf - start) \<le> n \<Longrightarrow> advance start n m (m, buf)"
  by (simp add: advance_def)

lemma advance_trans:
  "advance start n m (m1, b1) \<Longrightarrow> advance start n m1 r \<Longrightarrow> advance start n m r"
  by (simp add: advance_def)

lemma unat_add_le: "unat (a + b) \<le> unat a + unat b" for a b :: "'a::len word"
  by (simp add: unat_word_ariths)

lemma room_unat: "unat (buf - start) \<le> unat bufsize \<Longrightarrow>
   unat (buf - start) + unat (bufsize - (buf - start)) = unat bufsize" for buf start bufsize :: u64
  by (simp add: unat_sub word_le_nat_alt)

lemma advance_shift:
  assumes "unat (buf - start) \<le> unat bufsize"
    and "advance buf (unat (bufsize - (buf - start))) m r"
  shows "advance start (unat bufsize) m r"
proof -
  let ?k = "unat (buf - start)" and ?n = "unat (bufsize - (buf - start))"
  have "snd r - start = (snd r - buf) + (buf - start)" by simp
  then have "unat (snd r - start) \<le> unat (snd r - buf) + ?k" by (metis unat_add_le)
  then have pos: "unat (snd r - start) \<le> unat bufsize"
    using assms room_unat [OF assms(1)] by (simp add: advance_def)
  have "in_region x start (unat bufsize)" if "in_region x buf ?n" for x
    using in_region_add [of x start ?k ?n] that room_unat [OF assms(1)] by simp
  with pos assms(2) show ?thesis by (auto simp: advance_def)
qed

lemma advance_upd:
  assumes "unat (buf - start) < n" and "n < 2 ^ 64"
  shows "advance start n m (m(buf := c), buf + 1)"
proof -
  have "unat (buf + 1 - start) \<le> n"
    using assms(1) unat_add_le [of "buf - start" 1] by (simp add: algebra_simps)
  moreover have "in_region buf start n" using assms(1) by (simp add: in_region_def)
  ultimately show ?thesis by (auto simp: advance_def fun_upd_apply)
qed

lemma fill_loop_replicate:
  assumes "unat (buf - bstart) \<le> unat bufsize"
  shows "fill_loop m bstart buf bufsize c k =
    (let j = min k (unat bufsize - unat (buf - bstart)) in (mwrite m buf (replicate j c), buf + of_nat j))"
  using assms
proof (induction k arbitrary: m buf)
  case 0
  then show ?case by simp
next
  case (Suc k)
  show ?case
  proof (cases "buf - bstart < bufsize")
    case True
    have next_pos: "unat (buf + 1 - bstart) = Suc (unat (buf - bstart))"
      using unat_succ_less [OF True] by (simp add: algebra_simps)
    then have "unat (buf + 1 - bstart) \<le> unat bufsize"
      using True by (simp add: word_less_nat_alt)
    note IH = Suc.IH [OF this, of "m(buf := c)"]
    have "unat bufsize - unat (buf - bstart) = Suc (unat bufsize - Suc (unat (buf - bstart)))"
      using True by (simp add: word_less_nat_alt Suc_diff_Suc)
    with True IH next_pos show ?thesis by (simp add: Let_def add.assoc)
  next
    case False
    then have "unat bufsize = unat (buf - bstart)"
      using Suc.prems by (simp add: word_less_nat_alt)
    with False show ?thesis by (simp add: Let_def)
  qed
qed

lemma advance_mwrite:
  "length bs \<le> n \<Longrightarrow> n < 2 ^ 64 \<Longrightarrow> advance start n m (mwrite m start bs, start + of_nat (length bs))"
proof -
  assume n: "length bs \<le> n" "n < 2 ^ 64"
  have "\<not> in_region x start (length bs)" if "\<not> in_region x start n" for x
    using that n by (simp add: in_region_def)
  with n show ?thesis
    by (auto simp: advance_def mwrite_other unat_of_nat take_bit_nat_eq_self)
qed

lemma fill_loop_advance: "advance buf (unat bufsize) m (fill_loop m buf buf bufsize c k)"
  using advance_mwrite [of "replicate (min k (unat bufsize)) c" "unat bufsize" buf m]
  by (simp add: fill_loop_replicate Let_def)

lemma print_fill_advance:
  "print_fill m buf bufsize sizec v base c optlen = Some r \<Longrightarrow> advance buf (unat bufsize) m r"
  unfolding print_fill_def
  by (auto simp: bind_eq_Some_conv Let_def fill_loop_advance advance_refl split: if_splits)

lemma print_str_fill_advance:
  "print_str_fill m buf bufsize sizec str c = Some r \<Longrightarrow> advance buf (unat bufsize) m r"
  unfolding print_str_fill_def
  by (auto simp: bind_eq_Some_conv fill_loop_advance advance_refl split: if_splits)

lemmas print_str_loop_induct = print_str_loop.raw_induct [rotated 1, consumes 1, case_names step]

lemma print_str_loop_advance:
  "print_str_loop m bstart buf bufsize str i = Some r \<Longrightarrow> unat (buf - bstart) \<le> unat bufsize \<Longrightarrow>
   advance bstart (unat bufsize) m r"
proof (induction rule: print_str_loop_induct)
  case (step loop m bstart buf bufsize str i r)
  show ?case
  proof (cases "buf - bstart < bufsize")
    case True
    then have "unat (buf - bstart) < unat bufsize" by (simp add: word_less_nat_alt)
    then have upd: "advance bstart (unat bufsize) m (m(buf := m (str + i)), buf + 1)"
      by (intro advance_upd) auto
    then have "unat (buf + 1 - bstart) \<le> unat bufsize" by (simp add: advance_def)
    with step(2) step.prems True upd show ?thesis
      using step(1) [of "m(buf := m (str + i))" bstart "buf + 1" bufsize str "i + 1" r]
      by (auto simp: bind_eq_Some_conv intro: advance_trans advance_refl split: if_splits)
  next
    case False
    with step(2) step.prems show ?thesis
      by (auto simp: bind_eq_Some_conv advance_refl split: if_splits)
  qed
qed

lemma print_str_advance:
  "print_str m buf bufsize str = Some r \<Longrightarrow> advance buf (unat bufsize) m r"
  unfolding print_str_def by (rule print_str_loop_advance) auto

lemma print_itoa_advance:
  assumes "print_itoa m buf bufsize v base upper = Some (c, r)"
  shows "advance buf (unat bufsize) m r"
proof (cases "base \<le> 2 \<or> base > 16")
  case True
  with assms show ?thesis by (auto simp: print_itoa_def advance_refl)
next
  case False
  then have "2 < base" and "base \<le> 16" by auto
  with assms show ?thesis
    using advance_mwrite [of "itoa_text base upper v" "unat bufsize" buf m]
    by (auto simp: print_itoa_text advance_refl split: if_splits)
qed

lemma advance_pos: "advance start n m (m1, b1) \<Longrightarrow> unat (b1 - start) \<le> n"
  by (simp add: advance_def)

lemma advance_mono: "advance start n m r \<Longrightarrow> n \<le> k \<Longrightarrow> advance start k m r"
  by (auto simp: advance_def in_region_def)

lemma print_number_advance:
  assumes "print_number fr start bufsize m buf v base sign upper = Some r"
    and "unat (buf - start) \<le> unat bufsize"
  shows "advance start (unat bufsize) m r"
proof -
  obtain m1 b1 c where
    f: "print_fill m buf (bufsize - (buf - start)) (fr_sizec fr) v base sign 0 = Some (m1, b1)"
    and i: "print_itoa m1 b1 (bufsize - (b1 - start)) v base upper = Some (c, r)"
    using assms(1) by (auto simp: print_number_def bind_eq_Some_conv)
  have a: "advance start (unat bufsize) m (m1, b1)"
    by (rule advance_shift [OF assms(2) print_fill_advance [OF f]])
  from advance_shift [OF advance_pos [OF a] print_itoa_advance [OF i]]
  show ?thesis by (rule advance_trans [OF a])
qed

lemma print_signed_advance:
  assumes "print_signed fr start bufsize var sign m buf length_mod upper is_u = Some r"
    and "unat (buf - start) < unat bufsize"
  shows "advance start (unat bufsize) m r"
proof -
  have a: "advance start (unat bufsize) m (m(buf := chr CHR ''-''), buf + 1)"
    using assms(2) by (intro advance_upd) auto
  show ?thesis
    using assms advance_trans [OF a print_number_advance [OF _ advance_pos [OF a]]]
    by (auto simp: print_signed_def Let_def intro: print_number_advance split: if_splits)
qed

lemma print_ptr_advance:
  assumes "print_ptr fr start bufsize var m buf upper = Some r"
    and "unat (buf - start) \<le> unat bufsize"
  shows "advance start (unat bufsize) m r"
proof -
  obtain m1 b1 m2 b2 c where
    f: "print_fill m buf (bufsize - (buf - start)) (fr_sizec fr) var 16 (chr CHR '' '') 2 = Some (m1, b1)"
    and s: "print_str m1 b1 (bufsize - (b1 - start)) (fr_0x fr) = Some (m2, b2)"
    and i: "print_itoa m2 b2 (bufsize - (b2 - start)) var 16 upper = Some (c, r)"
    using assms(1) by (auto simp: print_ptr_def bind_eq_Some_conv)
  have a1: "advance start (unat bufsize) m (m1, b1)"
    by (rule advance_shift [OF assms(2) print_fill_advance [OF f]])
  have a2: "advance start (unat bufsize) m1 (m2, b2)"
    by (rule advance_shift [OF advance_pos [OF a1] print_str_advance [OF s]])
  from advance_shift [OF advance_pos [OF a2] print_itoa_advance [OF i]]
  show ?thesis by (rule advance_trans [OF advance_trans [OF a1 a2]])
qed

lemma print_string_advance:
  assumes "print_string fr start bufsize var m buf = Some r"
    and "unat (buf - start) \<le> unat bufsize"
  shows "advance start (unat bufsize) m r"
proof -
  obtain m1 b1 where
    f: "print_str_fill m buf (bufsize - (buf - start)) (fr_sizec fr) var (chr CHR '' '') = Some (m1, b1)"
    and s: "print_str m1 b1 (bufsize - (b1 - start)) var = Some r"
    using assms(1) by (auto simp: print_string_def bind_eq_Some_conv)
  have a: "advance start (unat bufsize) m (m1, b1)"
    by (rule advance_shift [OF assms(2) print_str_fill_advance [OF f]])
  from advance_shift [OF advance_pos [OF a] print_str_advance [OF s]]
  show ?thesis by (rule advance_trans [OF a])
qed

text \<open>Only the character conversion may need one byte more than the room.\<close>

lemma print_char_advance:
  assumes "print_char fr start bufsize var m buf = Some r"
    and "unat (buf - start) \<le> unat bufsize"
  shows "advance start (Suc (unat bufsize)) m r"
proof -
  obtain m1 b1 where
    f: "print_fill m buf (bufsize - (buf - start)) (fr_sizec fr) 1 10 (chr CHR '' '') 0 = Some (m1, b1)"
    and r: "r = (m1(b1 := ucast var), b1 + 1)"
    using assms(1) by (auto simp: print_char_def bind_eq_Some_conv)
  have a: "advance start (unat bufsize) m (m1, b1)"
    by (rule advance_shift [OF assms(2) print_fill_advance [OF f]])
  then have "advance start (Suc (unat bufsize)) m1 r"
    using unat_add_le [of "b1 - start" 1]
    by (auto simp: r advance_def in_region_def fun_upd_apply algebra_simps)
  moreover have "advance start (Suc (unat bufsize)) m (m1, b1)" using a by (rule advance_mono) simp
  ultimately show ?thesis by (rule advance_trans [rotated])
qed

lemma print_conv_advance:
  assumes "print_conv fr start bufsize var sign m buf length_mod upper c = Some r"
    and "unat (buf - start) < unat bufsize"
  shows "advance start (if c = chr CHR ''c'' then Suc (unat bufsize) else unat bufsize) m r"
  using assms
  by (auto simp: print_conv_def dest: print_signed_advance print_number_advance print_ptr_advance
      print_char_advance print_string_advance split: if_splits)

text \<open>The same for the loops, which also store into the two local arrays.\<close>

definition confined :: "frame \<Rightarrow> addr \<Rightarrow> nat \<Rightarrow> mem \<Rightarrow> mem \<times> addr \<Rightarrow> bool" where
  "confined fr start n m r \<longleftrightarrow>
     unat (snd r - start) \<le> n \<and>
     (\<forall>x. \<not> in_region x start n \<longrightarrow> \<not> in_region x (fr_formstr fr) 20 \<longrightarrow>
          \<not> in_region x (fr_sizec fr) 32 \<longrightarrow> fst r x = m x)"

lemma advance_confined: "advance start n m r \<Longrightarrow> n \<le> k \<Longrightarrow> confined fr start k m r"
  by (auto simp: advance_def confined_def in_region_def)

lemma confined_trans:
  "confined fr start n m (m1, b1) \<Longrightarrow> confined fr start n m1 r \<Longrightarrow> confined fr start n m r"
  by (simp add: confined_def)

lemma in_region_index: "i < n \<Longrightarrow> n < 2 ^ 64 \<Longrightarrow> in_region (a + of_nat i) a n"
  by (simp add: in_region_def unat_of_nat take_bit_nat_eq_self)

lemma confined_sizec:
  "unat (buf - start) \<le> n \<Longrightarrow> i < 32 \<Longrightarrow> confined fr start n m (m(fr_sizec fr + of_nat i := c), buf)"
  using in_region_index [of i 32 "fr_sizec fr"] by (auto simp: confined_def fun_upd_apply)

lemma confined_formstr:
  "unat (buf - start) \<le> n \<Longrightarrow> i < 20 \<Longrightarrow> confined fr start n m (m(fr_formstr fr + of_nat i := c), buf)"
  using in_region_index [of i 20 "fr_formstr fr"] by (auto simp: confined_def fun_upd_apply)

lemma confined_refl: "unat (buf - start) \<le> n \<Longrightarrow> confined fr start n m (m, buf)"
  by (simp add: confined_def)

lemma print_format_step_confined:
  assumes "print_format_step e st = Some st'"
    and "unat (ps_buf st - pe_start e) < unat (pe_bufsize e)"
  shows "confined (pe_frame e) (pe_start e) (Suc (unat (pe_bufsize e))) (ps_mem st)
    (ps_mem st', ps_buf st')"
proof -
  let ?c = "ps_mem st (ps_form st)" and ?n = "Suc (unat (pe_bufsize e))"
  have pos: "unat (ps_buf st - pe_start e) \<le> ?n" using assms(2) by simp
  show ?thesis
  proof (cases "is_conv ?c")
    case True
    then obtain m' buf' where i: "ps_i st < 32" and c: "print_conv (pe_frame e) (pe_start e)
          (pe_bufsize e) (pe_var e) (pe_sign e) ((ps_mem st)(fr_sizec (pe_frame e) + of_nat (ps_i st) := 0))
          (ps_buf st) (ps_length_mod st) (ps_upper st \<or> ?c = chr CHR ''X'') ?c = Some (m', buf')"
      and st': "ps_mem st' = m'" "ps_buf st' = buf'"
      using assms(1) by (auto simp: print_format_step_def Let_def bind_eq_Some_conv split: if_splits)
    have "confined (pe_frame e) (pe_start e) ?n ((ps_mem st)(fr_sizec (pe_frame e) + of_nat (ps_i st) := 0))
        (m', buf')"
      by (rule advance_confined [OF print_conv_advance [OF c assms(2)]]) simp
    with confined_sizec [OF pos i] st' show ?thesis by (auto intro: confined_trans)
  next
    case False
    with assms(1) pos show ?thesis
      by (auto simp: print_format_step_def Let_def confined_sizec confined_refl split: if_splits)
  qed
qed

lemmas print_format_loop_induct = print_format_loop.raw_induct [rotated 1, consumes 1, case_names step]

lemma print_format_loop_confined:
  "print_format_loop e st = Some st' \<Longrightarrow>
   unat (ps_buf st - pe_start e) \<le> Suc (unat (pe_bufsize e)) \<Longrightarrow>
   confined (pe_frame e) (pe_start e) (Suc (unat (pe_bufsize e))) (ps_mem st)
     (ps_mem st', ps_buf st')"
proof (induction rule: print_format_loop_induct)
  case (step loop e st st')
  let ?go = "ps_mem st (ps_form st) \<noteq> 0 \<and> ps_buf st - pe_start e < pe_bufsize e"
  show ?case
  proof (cases ?go)
    case True
    then obtain s1 where s1: "print_format_step e st = Some s1" and l: "loop e s1 = Some st'"
      using step(2) by (auto simp: bind_eq_Some_conv)
    have c: "confined (pe_frame e) (pe_start e) (Suc (unat (pe_bufsize e))) (ps_mem st)
        (ps_mem s1, ps_buf s1)"
      using True by (intro print_format_step_confined [OF s1]) (simp add: word_less_nat_alt)
    then have "unat (ps_buf s1 - pe_start e) \<le> Suc (unat (pe_bufsize e))" by (simp add: confined_def)
    from confined_trans [OF c step(1) [OF l this]] show ?thesis .
  next
    case False
    then have "st' = st" using step(2) by auto
    with step.prems show ?thesis by (simp add: confined_refl)
  qed
qed

lemma print_format_confined:
  "print_format fr m buf bufsize format var = Some r \<Longrightarrow>
   confined fr buf (Suc (unat bufsize)) m r"
  by (auto simp: print_format_def Let_def bind_eq_Some_conv dest!: print_format_loop_confined)

lemma fmt_collect_confined:
  "fmt_collect fr m ptr i = Some (m', ptr', i') \<Longrightarrow> unat (buf - start) \<le> n \<Longrightarrow>
   confined fr start n m (m', buf)"
proof (induction fr m ptr i rule: fmt_collect.induct)
  case (1 fr m ptr i)
  let ?m = "m(fr_formstr fr + of_nat i := m ptr)"
  have i: "i < 20" using "1.prems"(1) by (subst (asm) fmt_collect.simps) (auto split: if_splits)
  have c: "confined fr start n m (?m, buf)" by (rule confined_formstr [OF "1.prems"(2) i])
  show ?case
  proof (cases "ends_spec (?m (ptr + 1))")
    case True
    with "1.prems"(1) i c show ?thesis by (subst (asm) fmt_collect.simps) (auto simp: Let_def)
  next
    case False
    with "1.prems"(1) i have "fmt_collect fr ?m (ptr + 1) (i + 1) = Some (m', ptr', i')"
      by (subst (asm) fmt_collect.simps) (simp add: Let_def)
    then have "confined fr start n ?m (m', buf)"
      using "1.prems"(2) by (rule "1.IH" [OF i refl False])
    with c show ?thesis by (rule confined_trans)
  qed
qed

lemma confined_shift:
  assumes "unat (buf - start) \<le> unat bufsize"
    and "confined fr buf (Suc (unat (bufsize - (buf - start)))) m r"
  shows "confined fr start (Suc (unat bufsize)) m r"
proof -
  let ?k = "unat (buf - start)" and ?n = "unat (bufsize - (buf - start))"
  have "snd r - start = (snd r - buf) + (buf - start)" by simp
  then have "unat (snd r - start) \<le> unat (snd r - buf) + ?k" by (metis unat_add_le)
  then have pos: "unat (snd r - start) \<le> Suc (unat bufsize)"
    using assms room_unat [OF assms(1)] by (simp add: confined_def)
  have "in_region x start (Suc (unat bufsize))" if "in_region x buf (Suc ?n)" for x
    using in_region_add [of x start ?k "Suc ?n"] that room_unat [OF assms(1)] by simp
  with pos assms(2) show ?thesis by (auto simp: confined_def)
qed

lemmas vsnprintf_loop_induct = vsnprintf_loop.raw_induct [rotated 1, consumes 1, case_names step]

lemma vsnprintf_loop_confined:
  "vsnprintf_loop fr bstart bufsize m buf ptr args = Some r \<Longrightarrow>
   unat (buf - bstart) \<le> Suc (unat bufsize) \<Longrightarrow>
   confined fr bstart (Suc (unat bufsize)) m r"
proof (induction rule: vsnprintf_loop_induct)
  case (step loop fr bstart bufsize m buf ptr args r)
  let ?N = "Suc (unat bufsize)"
  show ?case
  proof (cases "m ptr \<noteq> 0 \<and> buf - bstart < bufsize")
    case go: True
    then have pos: "unat (buf - bstart) < unat bufsize" by (simp add: word_less_nat_alt)
    have put: "confined fr bstart ?N mm (mm(buf := c), buf + 1)" for mm c
      by (rule advance_confined [OF advance_upd [OF pos]]) auto
    have rest: "confined fr bstart ?N m r"
      if "confined fr bstart ?N m (m1, b1)" and "loop fr bstart bufsize m1 b1 p a = Some r" for m1 b1 p a
      using that(1) step(1) [OF that(2)] by (auto simp: confined_def)
    show ?thesis
    proof (cases "m ptr = chr CHR ''%''")
      case True
      then obtain m1 p1 i where f: "fmt_collect fr m ptr 0 = Some (m1, p1, i)" and i: "i + 1 < 20"
        and body: "(let c = m1 p1;
                       m2 = m1(fr_formstr fr + of_nat i := c, fr_formstr fr + of_nat (i + 1) := 0)
                   in if c = chr CHR ''%''
                      then loop fr bstart bufsize (m2(buf := chr CHR ''%'')) (buf + 1) (p1 + 1) args
                      else (case args of
                              [] \<Rightarrow> None
                            | v # vs \<Rightarrow>
                                do { (m3, b3) \<leftarrow> print_format fr m2 buf (bufsize - (buf - bstart))
                                       (fr_formstr fr) v;
                                     loop fr bstart bufsize m3 b3 (p1 + 1) vs })) = Some r"
        using step(2) go by (auto simp: bind_eq_Some_conv split: if_splits)
      let ?m2 = "m1(fr_formstr fr + of_nat i := m1 p1, fr_formstr fr + of_nat (i + 1) := 0)"
      have le: "unat (buf - bstart) \<le> ?N" using pos by simp
      have c2: "confined fr bstart ?N m (?m2, buf)"
        using fmt_collect_confined [OF f le] confined_formstr [OF le, of i] i
          confined_formstr [OF le, of "i + 1"] by (meson confined_trans add_lessD1)
      show ?thesis
      proof (cases "m1 p1 = chr CHR ''%''")
        case True
        with body have "loop fr bstart bufsize (?m2(buf := chr CHR ''%'')) (buf + 1) (p1 + 1) args = Some r"
          by (simp add: Let_def)
        then show ?thesis by (rule rest [OF confined_trans [OF c2 put]])
      next
        case False
        with body obtain v vs m3 b3 where
          pf: "print_format fr ?m2 buf (bufsize - (buf - bstart)) (fr_formstr fr) v = Some (m3, b3)"
          and l: "loop fr bstart bufsize m3 b3 (p1 + 1) vs = Some r"
          by (auto simp: Let_def bind_eq_Some_conv split: list.splits)
        have "confined fr bstart ?N ?m2 (m3, b3)"
          using pos by (intro confined_shift [OF _ print_format_confined [OF pf]]) simp
        from rest [OF confined_trans [OF c2 this] l] show ?thesis .
      qed
    next
      case False
      with go step(2) have "loop fr bstart bufsize (m(buf := m ptr)) (buf + 1) (ptr + 1) args = Some r"
        by simp
      then show ?thesis by (rule rest [OF put])
    qed
  next
    case False
    with step(2) step.prems show ?thesis by (auto simp: confined_refl)
  qed
qed

section \<open>Texts\<close>

lemma itoa_text_digits:
  assumes "2 < base" and "base \<le> 16"
  shows "list_all (is_digit_in (uint base)) (itoa_text base upper v)"
    and "digits_int (uint base) (itoa_text base upper v) = uint v"
proof -
  let ?b = "unat base" and ?ds = "nat_digits (unat base) (unat v)"
  have b: "2 \<le> ?b" "?b \<le> 16" using assms by (simp_all add: word_less_nat_alt word_le_nat_alt)
  have lt: "d < ?b" if "d \<in> set ?ds" for d using nat_digits_less [OF b(1) that] .
  show "list_all (is_digit_in (uint base)) (itoa_text base upper v)"
  proof -
    have "is_digit_in (uint base) (dchar upper d)" if "d \<in> set ?ds" for d
    proof -
      have "d < 16" using lt [OF that] b(2) by simp
      moreover have "int d < uint base" using lt [OF that] by (simp flip: nat_uint_eq)
      ultimately show ?thesis by (simp add: is_digit_in_def digit_of_dchar)
    qed
    then show ?thesis by (auto simp: itoa_text_def list_all_iff)
  qed
  have "foldl (\<lambda>r c. r * int ?b + the (digit_of c)) (int r) (map (dchar upper) ds) =
      int (foldl (\<lambda>r d. r * ?b + d) r ds)" if "\<forall>d \<in> set ds. d < ?b" for r ds
    using that
  proof (induction ds arbitrary: r)
    case (Cons d ds)
    then show ?case using b(2) Cons.IH [of "r * ?b + d"] by (simp add: digit_of_dchar)
  qed simp
  from this [of ?ds 0] lt nat_digits_value [OF b(1), of "unat v"]
  show "digits_int (uint base) (itoa_text base upper v) = uint v"
    by (simp add: digits_int_def itoa_text_def)
qed

lemma is_digit_in_chars: "is_digit_in b c \<Longrightarrow> b \<le> 16 \<Longrightarrow> \<not> is_ws c \<and> c \<noteq> chr CHR ''x''"
  by (auto simp: is_digit_in_def is_ws_def digit_of_def split: if_splits)

lemma strtoul_itoa_text:
  assumes "2 < base" and "base \<le> 16" and "cstr m a (itoa_text base upper v)"
  shows "strtoul m a (uint base) = Some (v, a + of_nat (length (itoa_text base upper v)))"
proof -
  let ?t = "itoa_text base upper v"
  have b: "uint base \<le> 16" "2 < uint base" using assms(1,2) by (simp_all add: word_le_def word_less_def)
  have dig: "list_all (is_digit_in (uint base)) ?t" using itoa_text_digits(1) [OF assms(1,2)] .
  have ne: "?t \<noteq> []" by (simp add: itoa_text_def)
  then have hd: "\<not> is_ws (hd ?t)"
    using dig is_digit_in_chars [OF _ b(1)] by (cases ?t) auto
  have x: "\<not> prefix (ascii ''0x'') ?t"
    using dig is_digit_in_chars [OF _ b(1), of 120] by (auto simp: prefix_def)
  have "num_text (uint base) (uint base) [] ?t []"
    using b dig x by (auto simp: num_text_def)
  then have "strtoul m a (uint base) =
      Some (of_int (digits_int (uint base) ?t), a + of_nat (0 + 0 + length ?t))"
    using assms(3) hd strtoul_num_text [of m a "[]" "[]" ?t "[]" "uint base" "uint base"] by simp
  then show ?thesis by (simp add: itoa_text_digits(2) [OF assms(1,2)])
qed

lemma itoa_text_no_nul: "2 < base \<Longrightarrow> base \<le> 16 \<Longrightarrow> 0 \<notin> set (itoa_text base upper v)"
  using itoa_text_digits(1) [of base upper v] by (auto simp: list_all_iff dest: is_digit_in_nz)

lemma cstr_put_end:
  "0 \<notin> set s \<Longrightarrow> length s < 2 ^ 64 \<Longrightarrow> cstr ((mwrite m a s)(a + of_nat (length s) := 0)) a s"
  using cstr_mwrite [of s m a] by (simp add: mwrite_append)

lemma vsnprintf_loop_plain:
  assumes "cstr m ptr f" and "chr CHR ''%'' \<notin> set f" and "unat (buf - bstart) \<le> unat b"
    and "apart ptr (Suc (length f)) bstart (unat b)"
  shows "vsnprintf_loop fr bstart b m buf ptr args =
    (let j = min (length f) (unat b - unat (buf - bstart)) in Some (mwrite m buf (take j f), buf + of_nat j))"
  using assms
proof (induction f arbitrary: m ptr buf)
  case Nil
  then show ?case by (subst vsnprintf_loop.simps) (simp add: Let_def)
next
  case (Cons c f)
  show ?case
  proof (cases "buf - bstart < b")
    case True
    then have lt: "unat (buf - bstart) < unat b" by (simp add: word_less_nat_alt)
    have nxt: "unat (buf + 1 - bstart) = Suc (unat (buf - bstart))"
      using unat_succ_less [OF True] by (simp add: algebra_simps)
    have ap: "apart (ptr + 1) (Suc (length f)) bstart (unat b)"
      using Cons.prems(4) apart_Suc [of ptr "Suc (length f)"] by simp
    then have "\<not> in_region buf (ptr + 1) (Suc (length f))"
      using lt by (auto simp: apart_def in_region_def)
    then have "cstr (m(buf := c)) (ptr + 1) f" using Cons.prems(1) by (simp add: cstr_upd_other)
    note IH = Cons.IH [OF this, of "buf + 1"]
    have d: "unat b - unat (buf - bstart) = Suc (unat b - Suc (unat (buf - bstart)))"
      using lt by (simp add: Suc_diff_Suc)
    show ?thesis
      using True Cons.prems(1,2) IH ap lt nxt
      by (subst vsnprintf_loop.simps) (auto simp: d Let_def add.assoc)
  next
    case False
    then have "unat b = unat (buf - bstart)" using Cons.prems(3) by (simp add: word_less_nat_alt)
    with False show ?thesis by (subst vsnprintf_loop.simps) (simp add: Let_def)
  qed
qed

lemma to_int32_small: "unat w < 2 ^ 31 \<Longrightarrow> to_int32 w = int (unat w)"
proof -
  assume "unat w < 2 ^ 31"
  then have "uint w < 2 ^ 31" by (simp add: nat_less_iff flip: nat_uint_eq)
  moreover have "- (2 ^ 31) \<le> uint w" by (rule order_trans [OF _ uint_nonnegative]) simp
  ultimately have "signed_take_bit 31 (uint w) = uint w" by (intro signed_take_bit_int_eq_self) simp_all
  then show ?thesis by (simp add: to_int32_def signed_ucast_eq)
qed

lemma print_fill_number:
  assumes "2 < base" and "cstr m sizec (itoa_text 10 False w)" and "unat w < 2 ^ 31"
    and "unat w \<le> unat room"
  shows "print_fill m buf room sizec v base c 0 =
    (let k = unat w - length (itoa_text base upper v)
     in Some (mwrite m buf (replicate k c), buf + of_nat k))"
proof -
  let ?n = "length (itoa_text base upper v)"
  have "to_int32 w = int (unat w)" using assms(3) by (rule to_int32_small)
  moreover have "strtoul m sizec 10 = Some (w, sizec + of_nat (length (itoa_text 10 False w)))"
    using strtoul_itoa_text [of 10 m sizec False w] assms(2) by simp
  moreover have "print_intlen v base = Some (int ?n)"
    using print_intlen_digits [OF assms(1)] by (simp add: length_itoa_text)
  moreover have "unat w - ?n \<le> unat room" using assms(4) by simp
  then have "fill_loop m buf buf room c (unat w - ?n) =
      (mwrite m buf (replicate (unat w - ?n) c), buf + of_nat (unat w - ?n))"
    by (simp add: fill_loop_replicate Let_def min_absorb1)
  moreover have "nat (int x - int y) = x - y" for x y :: nat by simp
  note this [of "unat w" ?n]
  ultimately show ?thesis by (simp add: print_fill_def Let_def)
qed

section \<open>Properties\<close>

text \<open>C19: Printing and reading a number are inverse: for every base from 3 to 16 and every
  64-bit value, \<open>print_itoa\<close> prints the value exactly when the room holds all its digits
  (\<open>v < base ^ bufsize\<close>), touches only the bytes it printed, and \<open>strtoul\<close> reads the same value
  back from the printed text; otherwise it prints nothing and returns 0.\<close>

theorem print_itoa_strtoul_roundtrip:
  assumes "2 < base" and "base \<le> 16" and "0 < bufsize"
  shows "if unat v < unat base ^ unat bufsize
    then \<exists>n m'. print_itoa m buf bufsize v base upper = Some (1, m', buf + of_nat n) \<and>
           n \<le> unat bufsize \<and> (\<forall>x. \<not> in_region x buf n \<longrightarrow> m' x = m x) \<and>
           strtoul (m'(buf + of_nat n := 0)) buf (uint base) = Some (v, buf + of_nat n)
    else print_itoa m buf bufsize v base upper = Some (0, m, buf)"
proof -
  let ?t = "itoa_text base upper v"
  have b: "2 \<le> unat base" using assms(1) by (simp add: word_less_nat_alt)
  obtain k where k: "unat bufsize = Suc k" using assms(3) by (metis unat_gt_0_Suc)
  have fits: "length ?t \<le> unat bufsize \<longleftrightarrow> unat v < unat base ^ unat bufsize"
    using nat_digits_length [OF b, of "unat v" k] k by (simp add: length_itoa_text)
  have len: "length ?t < 2 ^ 64" using nat_digits_length_64 [OF b, of v] by (simp add: length_itoa_text)
  have "strtoul ((mwrite m buf ?t)(buf + of_nat (length ?t) := 0)) buf (uint base) =
      Some (v, buf + of_nat (length ?t))"
    using strtoul_itoa_text [OF assms(1,2) cstr_put_end [OF itoa_text_no_nul [OF assms(1,2)] len]] .
  with fits show ?thesis
    by (auto simp: print_itoa_text [OF assms(1,2)] mwrite_other)
qed

theorem print_itoa_strtoul_roundtrip_witness:
  "\<exists>n m'. print_itoa (\<lambda>_. 0) 100 4 51966 16 True = Some (1, m', 100 + of_nat n) \<and>
     n \<le> 4 \<and> strtoul (m'(100 + of_nat n := 0)) 100 16 = Some (51966, 100 + of_nat n)"
  using print_itoa_strtoul_roundtrip [of 16 4 51966 "\<lambda>_. 0" 100 True] by auto

text \<open>A number printed in a field: when \<open>sizec\<close> holds the decimal text of a width \<open>w\<close> and the
  room holds both the width and the digits, the integer conversions print the digits of the value
  in the conversion's base, padded on the left to \<open>w\<close> characters, and advance the position by the
  length of the field.\<close>

theorem print_number_field:
  assumes "2 < base" and "base \<le> 16" and "cstr m (fr_sizec fr) (itoa_text 10 False w)"
    and "unat w < 2 ^ 31" and "unat (buf - start) \<le> unat bufsize"
    and "max (unat w) (length (itoa_text base upper v)) \<le> unat (bufsize - (buf - start))"
  shows "print_number fr start bufsize m buf v base sign upper =
    (let field = replicate (unat w - length (itoa_text base upper v)) sign @ itoa_text base upper v
     in Some (mwrite m buf field, buf + of_nat (length field)))"
proof -
  let ?t = "itoa_text base upper v" and ?room = "bufsize - (buf - start)"
  let ?k = "unat w - length ?t"
  have k: "?k \<le> unat ?room" "?k + length ?t \<le> unat ?room" using assms(6) by auto
  have "bufsize - (buf + of_nat ?k - start) = ?room - of_nat ?k" by (simp add: algebra_simps)
  then have "unat (bufsize - (buf + of_nat ?k - start)) = unat ?room - ?k"
    using unat_minus_of_nat [OF k(1)] by (simp only:)
  then have "length ?t \<le> unat (bufsize - (buf + of_nat ?k - start))" using k(2) by simp
  then show ?thesis
    using print_fill_number [OF assms(1,3,4), of ?room buf v sign upper] assms(6)
    by (simp add: print_number_def print_itoa_text [OF assms(1,2)] Let_def mwrite_append add.assoc)
qed

theorem print_number_field_witness:
  "print_number \<lparr>fr_formstr = 10, fr_sizec = 40, fr_0x = 80\<rparr> 100 20
     (mwrite (\<lambda>_. 0) 40 (itoa_text 10 False 8)) 100 48879 16 (chr CHR ''0'') False =
   Some (mwrite (mwrite (\<lambda>_. 0) 40 (itoa_text 10 False 8)) 100 (ascii ''0000beef''), 108)"
proof -
  have t: "itoa_text 16 False 48879 = ascii ''beef''" and w: "itoa_text 10 False 8 = ascii ''8''"
    by (simp_all add: itoa_text_def nat_digits.simps dchar_def zeichen_def)
  show ?thesis
    using print_number_field [of 16 "mwrite (\<lambda>_. 0) 40 (itoa_text 10 False 8)"
        "\<lparr>fr_formstr = 10, fr_sizec = 40, fr_0x = 80\<rparr>" 8 100 100 20 False 48879 "chr CHR ''0''"]
    by (simp add: t w)
qed

text \<open>A format without conversions is copied: \<open>vsnprintf\<close> stores as much of the text as fits
  before the last byte of the buffer, ends it with a NUL byte inside the buffer, writes nothing
  else and returns the number of characters stored.\<close>

theorem vsnprintf_plain_text:
  assumes "cstr m format f" and "chr CHR ''%'' \<notin> set f"
    and "buffer \<noteq> 0" and "0 < bufsize" and "unat bufsize \<le> 2 ^ 31"
    and "apart format (Suc (length f)) buffer (unat bufsize)"
  shows "vsnprintf fr m buffer bufsize format args =
    (let n = min (length f) (unat bufsize - 1)
     in Some (int n, mwrite m buffer (take n f @ [0])))"
proof -
  let ?n = "min (length f) (unat (bufsize - 1))"
  have n: "unat (bufsize - 1) = unat bufsize - 1" using assms(4) by (simp add: unat_pred)
  have ap: "apart format (Suc (length f)) buffer (unat (bufsize - 1))"
    using assms(6) n by (auto simp: apart_def in_region_def)
  have "?n < 2 ^ 31"
    using assms(4,5) n by (metis One_nat_def diff_less le_less_trans less_le_trans min.cobounded2
        unat_gt_0_Suc zero_less_Suc zero_less_one)
  then have "unat (of_nat ?n :: u64) = ?n" by (simp add: unat_of_nat take_bit_nat_eq_self)
  with \<open>?n < 2 ^ 31\<close> have "to_int32 (of_nat ?n) = int ?n"
    using to_int32_small [of "of_nat ?n"] by simp
  moreover have "vsnprintf_loop fr buffer (bufsize - 1) m buffer format args =
      Some (mwrite m buffer (take ?n f), buffer + of_nat ?n)"
    using vsnprintf_loop_plain [OF assms(1,2) _ ap, of buffer] by (simp add: Let_def)
  ultimately show ?thesis
    using assms(3) n word_neq_0_conv [of bufsize] assms(4)
    by (simp add: vsnprintf_def Let_def mwrite_append)
qed

theorem vsnprintf_plain_text_witness:
  "vsnprintf \<lparr>fr_formstr = 300, fr_sizec = 400, fr_0x = 500\<rparr> (mwrite (\<lambda>_. 0) 10 (ascii ''hello'')) 100 4 10 [] =
   Some (3, mwrite (mwrite (\<lambda>_. 0) 10 (ascii ''hello'')) 100 (ascii ''hel'' @ [0]))"
proof -
  have "apart 10 (Suc (length (ascii ''hello''))) 100 (unat (4 :: u64))"
    by (auto simp: apart_def in_region_def unat_sub_if' split: if_splits)
  then show ?thesis
    using vsnprintf_plain_text [of "mwrite (\<lambda>_. 0) 10 (ascii ''hello'')" 10 "ascii ''hello''" 100 4
        "\<lparr>fr_formstr = 300, fr_sizec = 400, fr_0x = 500\<rparr>" "[]"]
    by simp
qed

text \<open>The equations that evaluate a call of \<open>vsnprintf\<close> on a concrete memory.\<close>

lemmas vsnprintf_eval = vsnprintf_def vsnprintf_loop.simps fmt_collect.simps ends_spec_def
  print_format_def print_format_loop.simps print_format_step_def is_conv_def print_conv_def
  print_char_def print_fill_def strtoul_def skip_ws.simps is_ws_def pick_base_def skip_0x_def
  strtoul_digits.simps digit_of_def print_intlen_def print_intlen_loop.simps to_int32_def
  fill_loop_replicate Let_def

text \<open>Whatever the format and the arguments, a call of \<open>vsnprintf\<close> that returns has written
  only to its two local arrays, to the buffer and to at most one byte after it.\<close>

theorem vsnprintf_overrun_at_most_one:
  assumes "vsnprintf fr m buffer bufsize format args = Some (r, m')"
    and "\<not> in_region x buffer (Suc (unat bufsize))"
    and "\<not> in_region x (fr_formstr fr) 20" and "\<not> in_region x (fr_sizec fr) 32"
  shows "m' x = m x"
proof (cases "buffer = 0 \<or> bufsize = 0")
  case True
  with assms(1) show ?thesis by (simp add: vsnprintf_def)
next
  case False
  then obtain m1 b1 where
    l: "vsnprintf_loop fr buffer (bufsize - 1) m buffer format args = Some (m1, b1)"
    and m': "m' = m1(b1 := 0)"
    using assms(1) by (auto simp: vsnprintf_def bind_eq_Some_conv)
  have n: "Suc (unat (bufsize - 1)) = unat bufsize"
    using False unat_gt_0_Suc [of bufsize] by (simp add: word_neq_0_conv)
  have c: "confined fr buffer (unat bufsize) m (m1, b1)"
    using vsnprintf_loop_confined [OF l] n by simp
  then have "in_region b1 buffer (Suc (unat bufsize))"
    by (simp add: confined_def in_region_def less_Suc_eq_le)
  with c assms(2-4) m' show ?thesis
    by (auto simp: confined_def in_region_def fun_upd_apply)
qed

theorem vsnprintf_overrun_at_most_one_witness:
  "\<exists>m'. vsnprintf \<lparr>fr_formstr = 1000, fr_sizec = 1100, fr_0x = 1200\<rparr>
     (mwrite (\<lambda>_. 7) 200 (ascii ''%4c'' @ [0])) 100 3 200 [65] = Some (3, m') \<and> m' 104 = 7"
proof -
  let ?fr = "\<lparr>fr_formstr = 1000, fr_sizec = 1100, fr_0x = 1200\<rparr>"
  let ?m = "mwrite (\<lambda>_. 7) 200 (ascii ''%4c'' @ [0])"
  have "\<exists>m'. vsnprintf ?fr ?m 100 3 200 [65] = Some (3, m')" by (simp add: vsnprintf_eval)
  then obtain m' where run: "vsnprintf ?fr ?m 100 3 200 [65] = Some (3, m')" ..
  from vsnprintf_overrun_at_most_one [OF run, of 104] have "m' 104 = 7"
    by (simp add: in_region_def)
  with run show ?thesis by blast
qed

text \<open>The byte after the buffer really is written: a padded character conversion that fills the
  room stores its character over the byte reserved for the NUL, and the NUL lands one byte after
  a buffer of three bytes.\<close>

theorem vsnprintf_padded_char_overruns:
  "\<exists>m'. vsnprintf \<lparr>fr_formstr = 1000, fr_sizec = 1100, fr_0x = 1200\<rparr>
     (mwrite (\<lambda>_. 255) 200 (ascii ''%4c'' @ [0])) 100 3 200 [65] = Some (3, m') \<and>
     mread m' 100 4 = ascii ''  A'' @ [0]"
  by (simp add: vsnprintf_eval)

end
