(* ===== verification/Libc_Printf_Total.thy ===== *)
theory Libc_Printf_Total
  imports Libc_Printf
begin

text \<open>
  The formatted printer returns.  Its loops follow a format held in memory, scan the width it has
  collected, and read the strings it prints, so they end only when those texts are complete and
  are not overwritten while they are read.  \<open>wf_format\<close> is the decidable condition on the format
  and \<open>fmt_ready\<close> the condition on the memory; under both, \<open>vsnprintf\<close> returns.
\<close>

section \<open>The printer returns\<close>

lemma strtoul_digit_text:
  assumes "cstr m a ds" and "list_all (is_digit_in 10) ds"
  shows "\<exists>n e. strtoul m a 10 = Some (n, e)"
proof -
  have "ds = [] \<or> \<not> is_ws (hd ds)"
    using assms(2) is_digit_in_chars [of 10] by (cases ds) auto
  then show ?thesis
    using assms strtoul_num_text [of m a "[]" "[]" ds "[]" 10 10] by (simp add: num_text_def)
qed

lemma print_intlen_returns: "2 < base \<Longrightarrow> \<exists>n. print_intlen v base = Some n"
  by (simp add: print_intlen_digits)

lemma print_fill_returns:
  "cstr m sizec ds \<Longrightarrow> list_all (is_digit_in 10) ds \<Longrightarrow> 2 < base \<Longrightarrow>
   \<exists>m' b'. print_fill m buf room sizec v base c optlen = Some (m', b')"
  using strtoul_digit_text [of m sizec ds] print_intlen_returns [of base v]
  by (auto simp: print_fill_def Let_def)

lemma print_str_fill_returns:
  "cstr m sizec ds \<Longrightarrow> list_all (is_digit_in 10) ds \<Longrightarrow> cstr m str t \<Longrightarrow>
   \<exists>m' b'. print_str_fill m buf room sizec str c = Some (m', b')"
  using strtoul_digit_text [of m sizec ds] by (auto simp: print_str_fill_def strlen_cstr)

lemma print_itoa_returns:
  "2 < base \<Longrightarrow> base \<le> 16 \<Longrightarrow> \<exists>c m' b'. print_itoa m buf room v base upper = Some (c, m', b')"
  by (simp add: print_itoa_text)

lemma print_str_loop_returns:
  assumes "cstr m str t" and "apart str (Suc (length t)) bstart (unat room)"
    and "unat (buf - bstart) \<le> unat room"
  shows "\<exists>m' b'. print_str_loop m bstart buf room str i = Some (m', b')"
  using assms
proof (induction "unat room - unat (buf - bstart)" arbitrary: m buf i rule: less_induct)
  case less
  show ?case
  proof (cases "buf - bstart < room")
    case True
    then have lt: "unat (buf - bstart) < unat room" by (simp add: word_less_nat_alt)
    have nxt: "unat (buf + 1 - bstart) = Suc (unat (buf - bstart))"
      using unat_succ_less [OF True] by (simp add: algebra_simps)
    have "\<not> in_region buf str (Suc (length t))"
      using less.prems(2) lt by (auto simp: apart_def in_region_def)
    then have c: "cstr (m(buf := m (str + i))) str t" using less.prems(1) by (simp add: cstr_upd_other)
    have "\<exists>m' b'. print_str_loop (m(buf := m (str + i))) bstart (buf + 1) room str (i + 1) = Some (m', b')"
      using lt nxt by (intro less.hyps [OF _ c less.prems(2)]) auto
    then show ?thesis
      using less.prems(1) by (subst print_str_loop.simps) (simp add: strlen_cstr)
  next
    case False
    with less.prems(1) show ?thesis by (subst print_str_loop.simps) (simp add: strlen_cstr)
  qed
qed

text \<open>A string that a conversion reads while it prints: complete, and not where it prints.\<close>

definition readable :: "mem \<Rightarrow> addr \<Rightarrow> addr \<Rightarrow> nat \<Rightarrow> bool" where
  "readable m a start n \<longleftrightarrow> (\<exists>t. cstr m a t \<and> apart a (Suc (length t)) start n)"

lemma readable_advance: "readable m a start n \<Longrightarrow> advance start n m (m', b) \<Longrightarrow> readable m' a start n"
  unfolding readable_def apart_def advance_def using cstr_cong [of a _ m m'] by force

lemma print_str_returns:
  assumes "readable m str start (unat bufsize)" and "unat (buf - start) \<le> unat bufsize"
  shows "\<exists>m' b'. print_str m buf (bufsize - (buf - start)) str = Some (m', b')"
proof -
  let ?n = "unat (bufsize - (buf - start))"
  obtain t where t: "cstr m str t" "apart str (Suc (length t)) start (unat bufsize)"
    using assms(1) by (auto simp: readable_def)
  have "in_region x start (unat bufsize)" if "in_region x buf ?n" for x
    using in_region_add [of x start "unat (buf - start)" ?n] that room_unat [OF assms(2)] by simp
  then have "apart str (Suc (length t)) buf ?n" using t(2) by (auto simp: apart_def)
  with t(1) show ?thesis unfolding print_str_def by (intro print_str_loop_returns) auto
qed


lemma cstr_advance:
  "cstr m a t \<Longrightarrow> apart a (Suc (length t)) start n \<Longrightarrow> advance start n m (m', b) \<Longrightarrow> cstr m' a t"
  using cstr_cong [of a t m m'] by (auto simp: apart_def advance_def)

lemma print_number_returns:
  assumes "cstr m (fr_sizec fr) ds" and "list_all (is_digit_in 10) ds"
    and "2 < base" and "base \<le> 16"
  shows "\<exists>r. print_number fr start bufsize m buf v base sign upper = Some r"
proof -
  obtain m1 b1 where f: "print_fill m buf (bufsize - (buf - start)) (fr_sizec fr) v base sign 0 = Some (m1, b1)"
    using print_fill_returns [OF assms(1-3)] by blast
  obtain c m2 b2 where "print_itoa m1 b1 (bufsize - (b1 - start)) v base upper = Some (c, m2, b2)"
    using print_itoa_returns [OF assms(3,4)] by blast
  with f show ?thesis by (simp add: print_number_def)
qed

lemma print_signed_returns:
  assumes "cstr m (fr_sizec fr) ds" and "list_all (is_digit_in 10) ds"
    and "\<not> in_region buf (fr_sizec fr) (Suc (length ds))"
  shows "\<exists>r. print_signed fr start bufsize var sign m buf length_mod upper is_u = Some r"
proof -
  have "cstr (m(buf := chr CHR ''-'')) (fr_sizec fr) ds" using assms(1,3) by (simp add: cstr_upd_other)
  then show ?thesis
    using assms(1,2) print_number_returns [of _ fr ds 10]
    by (auto simp: print_signed_def Let_def)
qed

lemma print_ptr_returns:
  assumes "cstr m (fr_sizec fr) ds" and "list_all (is_digit_in 10) ds"
    and "readable m (fr_0x fr) start (unat bufsize)" and "unat (buf - start) \<le> unat bufsize"
  shows "\<exists>r. print_ptr fr start bufsize var m buf upper = Some r"
proof -
  obtain m1 b1 where f: "print_fill m buf (bufsize - (buf - start)) (fr_sizec fr) var 16 (chr CHR '' '') 2 = Some (m1, b1)"
    using print_fill_returns [OF assms(1,2), of 16] by fastforce
  have a: "advance start (unat bufsize) m (m1, b1)"
    by (rule advance_shift [OF assms(4) print_fill_advance [OF f]])
  obtain m2 b2 where s: "print_str m1 b1 (bufsize - (b1 - start)) (fr_0x fr) = Some (m2, b2)"
    using print_str_returns [OF readable_advance [OF assms(3) a] advance_pos [OF a]] by blast
  obtain c m3 b3 where "print_itoa m2 b2 (bufsize - (b2 - start)) var 16 upper = Some (c, m3, b3)"
    using print_itoa_returns [of 16] by fastforce
  with f s show ?thesis by (simp add: print_ptr_def)
qed

lemma print_string_returns:
  assumes "cstr m (fr_sizec fr) ds" and "list_all (is_digit_in 10) ds"
    and "readable m var start (unat bufsize)" and "unat (buf - start) \<le> unat bufsize"
  shows "\<exists>r. print_string fr start bufsize var m buf = Some r"
proof -
  obtain t where "cstr m var t" using assms(3) by (auto simp: readable_def)
  then obtain m1 b1 where
    f: "print_str_fill m buf (bufsize - (buf - start)) (fr_sizec fr) var (chr CHR '' '') = Some (m1, b1)"
    using print_str_fill_returns [OF assms(1,2)] by blast
  have a: "advance start (unat bufsize) m (m1, b1)"
    by (rule advance_shift [OF assms(4) print_str_fill_advance [OF f]])
  show ?thesis
    using f print_str_returns [OF readable_advance [OF assms(3) a] advance_pos [OF a]]
    by (auto simp: print_string_def)
qed

lemma print_char_returns:
  "cstr m (fr_sizec fr) ds \<Longrightarrow> list_all (is_digit_in 10) ds \<Longrightarrow>
   \<exists>r. print_char fr start bufsize var m buf = Some r"
  using print_fill_returns [of m "fr_sizec fr" ds 10 buf "bufsize - (buf - start)" 1 "chr CHR '' ''" 0]
  by (auto simp: print_char_def)

lemma print_conv_returns:
  assumes "cstr m (fr_sizec fr) ds" and "list_all (is_digit_in 10) ds"
    and "\<not> in_region buf (fr_sizec fr) (Suc (length ds))"
    and "c = chr CHR ''p'' \<Longrightarrow> readable m (fr_0x fr) start (unat bufsize)"
    and "c = chr CHR ''s'' \<Longrightarrow> readable m var start (unat bufsize)"
    and "is_conv c" and "unat (buf - start) \<le> unat bufsize"
  shows "\<exists>r. print_conv fr start bufsize var sign m buf length_mod upper c = Some r"
  using assms print_signed_returns [OF assms(1-3)] print_number_returns [OF assms(1,2), of 16]
    print_number_returns [OF assms(1,2), of 8] print_ptr_returns [OF assms(1,2)]
    print_char_returns [OF assms(1,2)] print_string_returns [OF assms(1,2)]
  by (auto simp: print_conv_def is_conv_def)

text \<open>A text the printer reads: complete, and neither in the buffer (\<open>n\<close> bytes at \<open>start\<close>) nor in
  the two local arrays.\<close>

definition stays :: "frame \<Rightarrow> addr \<Rightarrow> nat \<Rightarrow> mem \<Rightarrow> addr \<Rightarrow> byte list \<Rightarrow> bool" where
  "stays fr start n m a t \<longleftrightarrow> cstr m a t \<and> apart a (Suc (length t)) start n \<and>
     apart a (Suc (length t)) (fr_formstr fr) 20 \<and> apart a (Suc (length t)) (fr_sizec fr) 32"

lemma stays_confined:
  "stays fr start n m a t \<Longrightarrow> confined fr start n m (m', b) \<Longrightarrow> stays fr start n m' a t"
  using cstr_cong [of a t m m'] by (auto simp: stays_def apart_def confined_def)

lemma stays_upd_sizec:
  assumes "stays fr start n m a t" and "i < 32"
  shows "stays fr start n (m(fr_sizec fr + of_nat i := c)) a t"
proof -
  have "\<not> in_region (fr_sizec fr + of_nat i) a (Suc (length t))"
    using assms in_region_index [of i 32 "fr_sizec fr"] by (auto simp: stays_def apart_def)
  with assms(1) show ?thesis by (simp add: stays_def cstr_upd_other)
qed

lemma stays_readable:
  "stays fr start n m a t \<Longrightarrow> (\<And>x. in_region x s k \<Longrightarrow> in_region x start n) \<Longrightarrow> readable m a s k"
  by (auto simp: stays_def readable_def apart_def)

text \<open>The buffer and the local arrays do not overlap.\<close>

definition fmt_frame :: "frame \<Rightarrow> addr \<Rightarrow> nat \<Rightarrow> bool" where
  "fmt_frame fr start n \<longleftrightarrow> apart (fr_formstr fr) 20 (fr_sizec fr) 32 \<and>
     apart (fr_formstr fr) 20 start n \<and> apart (fr_sizec fr) 32 start n"

definition is_dec :: "byte \<Rightarrow> bool" where
  "is_dec c \<longleftrightarrow> c \<ge> chr CHR ''0'' \<and> c \<le> chr CHR ''9''"

lemma is_dec_digit: "is_dec c \<Longrightarrow> is_digit_in 10 c"
  unfolding is_dec_def is_digit_in_def digit_of_def word_le_def by auto

text \<open>An iteration on a character that is no conversion collects a digit of the width or skips.\<close>

lemma print_format_step_body:
  assumes "\<not> is_conv (ps_mem st (ps_form st))" and "ps_i st < 32"
  shows "\<exists>st'. print_format_step e st = Some st' \<and> ps_buf st' = ps_buf st \<and>
    (ps_form st' = ps_form st + 1 \<and> ps_mem st' = ps_mem st \<and> ps_i st' = ps_i st \<or>
     ps_form st' = ps_form st + 2 \<and> ps_mem st' = ps_mem st \<and> ps_i st' = ps_i st \<and>
       \<not> is_conv (ps_mem st (ps_form st + 1)) \<and> ps_mem st (ps_form st + 1) \<noteq> 0 \<or>
     ps_form st' = ps_form st + 1 \<and> is_dec (ps_mem st (ps_form st)) \<and> ps_i st' = Suc (ps_i st) \<and>
       ps_mem st' = (ps_mem st)(fr_sizec (pe_frame e) + of_nat (ps_i st) := ps_mem st (ps_form st)))"
  using assms by (auto simp: print_format_step_def Let_def is_dec_def is_conv_def)

lemma mread_snoc: "mread m a (Suc i) = mread m a i @ [m (a + of_nat i)]"
  using mread_add [of m a i 1] by simp

lemma mread_sizec_upd:
  "i < 32 \<Longrightarrow> mread (m(a + of_nat i := c)) a (Suc i) = mread m a i @ [c]"
proof -
  assume "i < 32"
  then have "\<not> in_region (a + of_nat i) a i" by (intro not_in_region_end) simp
  then show ?thesis by (simp only: mread_snoc mread_upd_other fun_upd_same simp_thms)
qed

lemma print_format_step_conv:
  assumes frame: "fmt_frame (pe_frame e) B N"
    and sub: "\<And>x. in_region x (pe_start e) (Suc (unat (pe_bufsize e))) \<Longrightarrow> in_region x B N"
    and c: "is_conv (ps_mem st (ps_form st))" and i: "ps_i st < 32"
    and nul: "ps_mem st (ps_form st + 1) = 0" "in_region (ps_form st + 1) (fr_formstr (pe_frame e)) 20"
    and dig: "list_all is_dec (mread (ps_mem st) (fr_sizec (pe_frame e)) (ps_i st))"
    and s: "ps_mem st (ps_form st) = chr CHR ''s'' \<Longrightarrow> \<exists>t. stays (pe_frame e) B N (ps_mem st) (pe_var e) t"
    and x: "\<exists>t. stays (pe_frame e) B N (ps_mem st) (fr_0x (pe_frame e)) t"
    and pos: "unat (ps_buf st - pe_start e) < unat (pe_bufsize e)"
  shows "\<exists>st'. print_format_step e st = Some st' \<and> ps_mem st' (ps_form st') = 0 \<and>
    (ps_mem st (ps_form st) \<noteq> chr CHR ''c'' \<longrightarrow> unat (ps_buf st' - pe_start e) \<le> unat (pe_bufsize e))"
proof -
  let ?fr = "pe_frame e" and ?ds = "mread (ps_mem st) (fr_sizec (pe_frame e)) (ps_i st)"
  let ?m = "(ps_mem st)(fr_sizec ?fr + of_nat (ps_i st) := 0)"
  have sz: "in_region (fr_sizec ?fr + of_nat (ps_i st)) (fr_sizec ?fr) 32"
    using i by (intro in_region_index) auto
  have "0 \<notin> set ?ds" using dig by (auto simp: list_all_iff is_dec_def)
  then have ds: "cstr ?m (fr_sizec ?fr) ?ds"
    using mread_sizec_upd [OF i, of "ps_mem st" "fr_sizec ?fr" 0] by (simp only: cstr_mread_iff length_mread simp_thms)
  have dd: "list_all (is_digit_in 10) ?ds" using dig by (simp add: list_all_iff is_dec_digit)
  have inn: "in_region y B N" if "in_region y (pe_start e) (unat (pe_bufsize e))" for y
    using sub [of y] that by (simp add: in_region_def)
  have "in_region (ps_buf st) B N" using pos by (intro inn) (simp add: in_region_def)
  then have nb: "\<not> in_region (ps_buf st) (fr_sizec ?fr) (Suc (length ?ds))"
    using frame i by (auto simp: fmt_frame_def apart_def in_region_def)
  have keep: "stays ?fr B N ?m a t" if "stays ?fr B N (ps_mem st) a t" for a t
    by (rule stays_upd_sizec [OF that i])
  have rs: "readable ?m (pe_var e) (pe_start e) (unat (pe_bufsize e))"
    if "ps_mem st (ps_form st) = chr CHR ''s''"
    using s [OF that] keep stays_readable inn by blast
  have rx: "readable ?m (fr_0x ?fr) (pe_start e) (unat (pe_bufsize e))"
    using x keep stays_readable inn by blast
  obtain m' b' where conv: "print_conv ?fr (pe_start e) (pe_bufsize e) (pe_var e) (pe_sign e) ?m (ps_buf st)
      (ps_length_mod st) (ps_upper st \<or> ps_mem st (ps_form st) = chr CHR ''X'') (ps_mem st (ps_form st)) = Some (m', b')"
    using print_conv_returns [OF ds dd nb rx rs c less_imp_le [OF pos]] by fastforce
  have "\<not> in_region (ps_form st + 1) B N" and "ps_form st + 1 \<noteq> fr_sizec ?fr + of_nat (ps_i st)"
    using frame nul(2) sz by (auto simp: fmt_frame_def apart_def)
  moreover have "advance (pe_start e) (Suc (unat (pe_bufsize e))) ?m (m', b')"
    by (rule advance_mono [OF print_conv_advance [OF conv pos]]) simp
  ultimately have "m' (ps_form st + 1) = ?m (ps_form st + 1)"
    using sub [of "ps_form st + 1"] by (auto simp only: advance_def fst_conv)
  then have "m' (ps_form st + 1) = 0"
    using nul(1) \<open>ps_form st + 1 \<noteq> fr_sizec ?fr + of_nat (ps_i st)\<close> by simp
  moreover have "ps_mem st (ps_form st) \<noteq> chr CHR ''c'' \<Longrightarrow> unat (b' - pe_start e) \<le> unat (pe_bufsize e)"
    using print_conv_advance [OF conv pos] by (simp add: advance_def)
  ultimately show ?thesis using conv c i by (auto simp: print_format_step_def Let_def)
qed

lemma print_format_loop_stop:
  "ps_mem st (ps_form st) = 0 \<Longrightarrow> print_format_loop e st = Some st"
  by (subst print_format_loop.simps) simp

lemma cstr_formstr_upd:
  assumes "apart (fr_formstr fr) 20 (fr_sizec fr) 32" and "i < 32"
    and "\<And>x. in_region x a (Suc (length t)) \<Longrightarrow> in_region x (fr_formstr fr) 20"
  shows "cstr (m(fr_sizec fr + of_nat i := c)) a t \<longleftrightarrow> cstr m a t"
proof (rule cstr_upd_other)
  have "in_region (fr_sizec fr + of_nat i) (fr_sizec fr) 32" using assms(2) by (intro in_region_index) auto
  then show "\<not> in_region (fr_sizec fr + of_nat i) a (Suc (length t))"
    using assms(1,3) by (auto simp: apart_def)
qed

text \<open>The loop over one conversion specification: any characters that are no conversion, then the
  conversion character and the end of \<open>formstr\<close>.\<close>

lemma print_format_loop_returns:
  assumes frame: "fmt_frame (pe_frame e) B N"
    and sub: "\<And>x. in_region x (pe_start e) (Suc (unat (pe_bufsize e))) \<Longrightarrow> in_region x B N"
    and "cstr (ps_mem st) (ps_form st) (body @ [c])" and "list_all (\<lambda>c. \<not> is_conv c) body" and "is_conv c"
    and "\<And>x. in_region x (ps_form st) (Suc (length (body @ [c]))) \<Longrightarrow> in_region x (fr_formstr (pe_frame e)) 20"
    and "ps_i st + length body < 32"
    and "list_all is_dec (mread (ps_mem st) (fr_sizec (pe_frame e)) (ps_i st))"
    and "c = chr CHR ''s'' \<Longrightarrow> \<exists>t. stays (pe_frame e) B N (ps_mem st) (pe_var e) t"
    and "\<exists>t. stays (pe_frame e) B N (ps_mem st) (fr_0x (pe_frame e)) t"
    and "unat (ps_buf st - pe_start e) \<le> unat (pe_bufsize e)"
  shows "\<exists>st'. print_format_loop e st = Some st' \<and> (c \<noteq> chr CHR ''c'' \<longrightarrow> unat (ps_buf st' - pe_start e) \<le> unat (pe_bufsize e))"
  using assms(3-)
proof (induction "length body" arbitrary: body st rule: less_induct)
  case less
  let ?fr = "pe_frame e"
  show ?case
  proof (cases "ps_mem st (ps_form st) \<noteq> 0 \<and> ps_buf st - pe_start e < pe_bufsize e")
    case go: True
    then have pos: "unat (ps_buf st - pe_start e) < unat (pe_bufsize e)" by (simp add: word_less_nat_alt)
    show ?thesis
    proof (cases body)
      case Nil
      have "in_region (ps_form st + 1) (ps_form st) (Suc (length (body @ [c])))"
        using Nil by (simp add: in_region_def)
      then have "in_region (ps_form st + 1) (fr_formstr ?fr) 20" by (rule less.prems(4))
      then obtain st' where "print_format_step e st = Some st'" and "ps_mem st' (ps_form st') = 0"
        and "c \<noteq> chr CHR ''c'' \<longrightarrow> unat (ps_buf st' - pe_start e) \<le> unat (pe_bufsize e)"
        using print_format_step_conv [OF frame sub, of st] less.prems Nil pos by auto
      then show ?thesis
        using go print_format_loop_stop by (subst print_format_loop.simps) simp
    next
      case (Cons b body')
      have b: "ps_mem st (ps_form st) = b" "\<not> is_conv b" using less.prems(1,2) Cons by auto
      have tail: "in_region x (fr_formstr ?fr) 20"
        if "k \<le> length body" "in_region x (ps_form st + of_nat k) (Suc (length (drop k body @ [c])))" for x k
      proof -
        have "in_region x (ps_form st) (k + Suc (length (drop k body @ [c])))"
          by (rule in_region_add [OF that(2)])
        with that(1) show ?thesis by (intro less.prems(4)) simp
      qed
      have rest: "cstr (ps_mem st) (ps_form st + of_nat k) (drop k body @ [c])" if "k \<le> length body" for k
        using cstr_drop [OF less.prems(1), of k] that by simp
      obtain st' where st': "print_format_step e st = Some st'" and buf': "ps_buf st' = ps_buf st" and step:
        "ps_form st' = ps_form st + of_nat 1 \<and> ps_mem st' = ps_mem st \<and> ps_i st' = ps_i st \<or>
         ps_form st' = ps_form st + of_nat 2 \<and> ps_mem st' = ps_mem st \<and> ps_i st' = ps_i st \<and>
           \<not> is_conv (ps_mem st (ps_form st + 1)) \<and> ps_mem st (ps_form st + 1) \<noteq> 0 \<or>
         ps_form st' = ps_form st + of_nat 1 \<and> is_dec b \<and> ps_i st' = Suc (ps_i st) \<and>
           ps_mem st' = (ps_mem st)(fr_sizec ?fr + of_nat (ps_i st) := b)"
        using print_format_step_body [of st e] b less.prems(5) Cons by auto
      have "\<exists>st''. print_format_loop e st' = Some st'' \<and> (c \<noteq> chr CHR ''c'' \<longrightarrow> unat (ps_buf st'' - pe_start e) \<le> unat (pe_bufsize e))"
        using step
      proof (elim disjE conjE)
        assume s: "ps_form st' = ps_form st + of_nat 1" "ps_mem st' = ps_mem st" "ps_i st' = ps_i st"
        show ?thesis
          using less.prems Cons rest [of 1] tail [of 1] s buf'
          by (intro less.hyps [of "drop 1 body"]) auto
      next
        assume s: "ps_form st' = ps_form st + of_nat 2" "ps_mem st' = ps_mem st" "ps_i st' = ps_i st"
          and n: "\<not> is_conv (ps_mem st (ps_form st + 1))" "ps_mem st (ps_form st + 1) \<noteq> 0"
        obtain b2 body2 where b2: "body' = b2 # body2"
          using less.prems(1,3) Cons n by (cases body') auto
        show ?thesis
          using less.prems Cons b2 rest [of 2] tail [of 2] s buf'
          by (intro less.hyps [of "drop 2 body"]) auto
      next
        assume s: "ps_form st' = ps_form st + of_nat 1" "is_dec b" "ps_i st' = Suc (ps_i st)"
          "ps_mem st' = (ps_mem st)(fr_sizec ?fr + of_nat (ps_i st) := b)"
        have i: "ps_i st < 32" using less.prems(5) by simp
        have "cstr (ps_mem st') (ps_form st + of_nat 1) (drop 1 body @ [c])"
          unfolding s(4) using frame rest [of 1] Cons tail [of 1]
          by (subst cstr_formstr_upd [OF _ i]) (auto simp: fmt_frame_def)
        moreover have "list_all is_dec (mread (ps_mem st') (fr_sizec ?fr) (ps_i st'))"
          using mread_sizec_upd [OF i] less.prems(6) s by simp
        moreover have keep: "stays ?fr B N (ps_mem st') a t" if "stays ?fr B N (ps_mem st) a t" for a t
          using stays_upd_sizec [OF that i] s(4) by simp
        have "\<exists>t. stays ?fr B N (ps_mem st') (pe_var e) t" if "c = chr CHR ''s''"
          using less.prems(7) [OF that] keep by blast
        moreover have "\<exists>t. stays ?fr B N (ps_mem st') (fr_0x ?fr) t"
          using less.prems(8) keep by blast
        ultimately show ?thesis
          using less.prems(2-5,9) Cons tail [of 1] s(1,3) buf'
          by (intro less.hyps [of "drop 1 body"]) auto
      qed
      with go st' show ?thesis by (subst print_format_loop.simps) simp
    qed
  next
    case False
    then show ?thesis using less.prems(9) by (subst print_format_loop.simps) auto
  qed
qed

lemma in_region_nth: "i < n \<Longrightarrow> in_region (a + of_nat i) a n"
  by (simp add: in_region_def unsigned_of_nat le_less_trans [OF take_bit_nat_less_eq_self])

text \<open>The conversion characters of a format that take an argument; \<open>None\<close> when a specification has
  no conversion character or does not fit into \<open>formstr\<close>.\<close>

function fmt_convs :: "byte list \<Rightarrow> byte list option" where
  "fmt_convs [] = Some []"
| "fmt_convs (c # cs) =
     (if c \<noteq> chr CHR ''%'' then fmt_convs cs
      else (case dropWhile (\<lambda>c. \<not> ends_spec c) cs of
              [] \<Rightarrow> None
            | k # rest \<Rightarrow>
                (if length (takeWhile (\<lambda>c. \<not> ends_spec c) cs) < 18
                 then (if k = chr CHR ''%'' then fmt_convs rest
                       else map_option (Cons k) (fmt_convs rest))
                 else None)))"
  by pat_completeness auto
termination
proof (relation "measure length")
  fix cs k rest assume "dropWhile (\<lambda>c. \<not> ends_spec c) cs = k # (rest :: byte list)"
  then have "Suc (length rest) \<le> length cs" using length_dropWhile_le [of "\<lambda>c. \<not> ends_spec c" cs] by simp
  then show "(rest, c # cs) \<in> measure length" and "(rest, c # cs) \<in> measure length" for c by simp_all
qed auto

text \<open>The arguments the conversions consume: enough of them, and a string for each \<open>s\<close>.\<close>

fun fmt_args :: "frame \<Rightarrow> addr \<Rightarrow> nat \<Rightarrow> mem \<Rightarrow> byte list \<Rightarrow> u64 list \<Rightarrow> bool" where
  "fmt_args fr start n m [] args \<longleftrightarrow> True"
| "fmt_args fr start n m (c # cs) [] \<longleftrightarrow> False"
| "fmt_args fr start n m (c # cs) (v # vs) \<longleftrightarrow>
     (c = chr CHR ''s'' \<longrightarrow> (\<exists>t. stays fr start n m v t)) \<and> fmt_args fr start n m cs vs"

lemma fmt_args_confined:
  "fmt_args fr start n m cs args \<Longrightarrow> confined fr start n m (m', b) \<Longrightarrow> fmt_args fr start n m' cs args"
  by (induction fr start n m cs args rule: fmt_args.induct) (auto dest: stays_confined)

lemma fmt_collect_spec:
  assumes "cstr m ptr (c # body @ k # rest)" and "list_all (\<lambda>c. \<not> ends_spec c) body" and "ends_spec k"
    and "apart ptr (Suc (length (c # body @ k # rest))) (fr_formstr fr) 20" and "i + length body < 20"
  shows "fmt_collect fr m ptr i =
    Some (mwrite m (fr_formstr fr + of_nat i) (c # body), ptr + of_nat (Suc (length body)), i + Suc (length body))"
  using assms
proof (induction body arbitrary: m ptr c i)
  case Nil
  then have "in_region (fr_formstr fr + of_nat i) (fr_formstr fr) 20" by (intro in_region_index) auto
  moreover have "apart (ptr + 1) (Suc (length (k # rest))) (fr_formstr fr) 20"
    using Nil.prems(4) by (auto dest: apart_Suc)
  ultimately have "ptr + 1 \<noteq> fr_formstr fr + of_nat i" by (auto dest!: apart_Suc)
  with Nil show ?case by (subst fmt_collect.simps) (simp add: Let_def)
next
  case (Cons b body)
  let ?m = "m(fr_formstr fr + of_nat i := c)"
  have i: "in_region (fr_formstr fr + of_nat i) (fr_formstr fr) 20"
    using Cons.prems(5) by (intro in_region_index) auto
  have ap: "apart (ptr + 1) (Suc (length (b # body @ k # rest))) (fr_formstr fr) 20"
    using Cons.prems(4) by (auto dest: apart_Suc)
  then have ne: "ptr + 1 \<noteq> fr_formstr fr + of_nat i" using i by (auto dest!: apart_Suc)
  have "\<not> in_region (fr_formstr fr + of_nat i) (ptr + 1) (Suc (length (b # body @ k # rest)))"
    using ap i by (auto simp: apart_def)
  then have "cstr ?m (ptr + 1) (b # body @ k # rest)"
    using Cons.prems(1) by (subst cstr_upd_other) auto
  then have "fmt_collect fr ?m (ptr + 1) (i + 1) =
      Some (mwrite ?m (fr_formstr fr + of_nat (i + 1)) (b # body), ptr + 1 + of_nat (Suc (length body)),
        i + 1 + Suc (length body))"
    using Cons.prems ap by (intro Cons.IH) auto
  with ne Cons.prems show ?case
    by (subst fmt_collect.simps) (simp add: Let_def ac_simps)
qed

lemma ends_spec_conv: "ends_spec k \<Longrightarrow> k \<noteq> chr CHR ''%'' \<Longrightarrow> is_conv k"
  by (auto simp: ends_spec_def is_conv_def)

lemma not_ends_spec_conv: "\<not> ends_spec c \<Longrightarrow> \<not> is_conv c"
  by (auto simp: ends_spec_def is_conv_def)

lemma print_format_returns:
  assumes frame: "fmt_frame fr B N"
    and sub: "\<And>x. in_region x buf (Suc (unat room)) \<Longrightarrow> in_region x B N"
    and spec: "cstr m (fr_formstr fr) (p # body @ [k])" and len: "length body < 18"
    and body: "list_all (\<lambda>c. \<not> ends_spec c) body" and k: "ends_spec k" "k \<noteq> chr CHR ''%''"
    and s: "k = chr CHR ''s'' \<Longrightarrow> \<exists>t. stays fr B N m v t" and x: "\<exists>t. stays fr B N m (fr_0x fr) t"
  shows "\<exists>m' b'. print_format fr m buf room (fr_formstr fr) v = Some (m', b') \<and> (k \<noteq> chr CHR ''c'' \<longrightarrow> unat (b' - buf) \<le> unat room)"
proof -
  let ?F = "fr_formstr fr"
  let ?zero = "m (?F + 1) = chr CHR ''0'' \<or> m (?F + 1) = chr CHR ''.''"
  let ?e = "\<lparr>pe_frame = fr, pe_start = buf, pe_bufsize = room, pe_var = v,
                 pe_sign = (if ?zero then chr CHR ''0'' else chr CHR '' '')\<rparr>"
  define j where "j = (if ?zero then 1 else 0 :: nat)"
  let ?form = "?F + of_nat (Suc j)"
  let ?st = "\<lparr>ps_mem = m, ps_buf = buf, ps_form = ?form, ps_i = 0, ps_length_mod = 4, ps_upper = False\<rparr>"
  have j: "j \<le> length body"
    using spec k by (cases body) (auto simp: j_def ends_spec_def)
  have t: "cstr m ?form (drop j body @ [k])"
    using cstr_drop [OF spec, of "Suc j"] j by simp
  have reg: "in_region y ?F 20" if "in_region y ?form (Suc (length (drop j body @ [k])))" for y
    using in_region_add [OF that] j len by (simp add: in_region_def)
  have nc: "list_all (\<lambda>c. \<not> is_conv c) (drop j body)"
    using body by (auto simp: list_all_iff dest: in_set_dropD not_ends_spec_conv)
  have "\<exists>st'. print_format_loop ?e ?st = Some st' \<and> (k \<noteq> chr CHR ''c'' \<longrightarrow> unat (ps_buf st' - pe_start ?e) \<le> unat (pe_bufsize ?e))"
    using frame sub t nc ends_spec_conv [OF k] reg s x len j
    by (intro print_format_loop_returns [of ?e B N ?st "drop j body" k]) auto
  moreover have "?form = (if ?zero then ?F + 1 + 1 else ?F + 1)" by (simp add: j_def)
  ultimately show ?thesis by (auto simp: print_format_def Let_def)
qed

lemma fmt_convs_spec:
  assumes "fmt_convs (chr CHR ''%'' # cs) = Some ks"
  obtains body k rest where "cs = body @ k # rest" and "list_all (\<lambda>c. \<not> ends_spec c) body"
    and "ends_spec k" and "length body < 18"
    and "if k = chr CHR ''%'' then fmt_convs rest = Some ks
         else \<exists>ks'. ks = k # ks' \<and> fmt_convs rest = Some ks'"
proof -
  let ?P = "\<lambda>c. \<not> ends_spec c"
  from assms obtain k rest where d: "dropWhile ?P cs = k # rest" and l: "length (takeWhile ?P cs) < 18"
    and r: "if k = chr CHR ''%'' then fmt_convs rest = Some ks
         else \<exists>ks'. ks = k # ks' \<and> fmt_convs rest = Some ks'"
    by (auto split: list.splits if_splits)
  have "cs = takeWhile ?P cs @ k # rest" using takeWhile_dropWhile_id [of ?P cs] d by simp
  moreover have "ends_spec k" using hd_dropWhile [of ?P cs] d by simp
  moreover have "list_all ?P (takeWhile ?P cs)" by (auto simp: list_all_iff dest: set_takeWhileD)
  ultimately show thesis using l r by (intro that) auto
qed

lemma stays_drop:
  assumes "stays fr start n m a t" and "i \<le> length t"
  shows "stays fr start n m (a + of_nat i) (drop i t)"
proof -
  have "apart (a + of_nat i) (Suc (length (drop i t))) b j" if "apart a (Suc (length t)) b j" for b j
    using apart_offset [OF that, of i "Suc (length (drop i t))"] assms(2) by simp
  with assms show ?thesis by (auto simp: stays_def cstr_drop)
qed

text \<open>What \<open>vsnprintf\<close> holds in \<open>formstr\<close> when it calls \<open>print_format\<close>.\<close>

lemma formstr_text:
  assumes "stays fr B N m ptr (p # body @ k # rest)" and "length body < 18"
    and "m1 = mwrite m (fr_formstr fr) (p # body)" and "i = Suc (length body)"
    and "unat (buf - B) \<le> N"
  shows "let m2 = m1(fr_formstr fr + of_nat i := k, fr_formstr fr + of_nat (i + 1) := 0)
    in cstr m2 (fr_formstr fr) (p # body @ [k]) \<and> confined fr B N m (m2, buf)"
proof -
  let ?F = "fr_formstr fr"
  have w: "m1(?F + of_nat i := k, ?F + of_nat (i + 1) := 0) = mwrite m ?F ((p # body @ [k]) @ [0])"
    using mwrite_append [of m ?F "p # body" "[k, 0]"] assms(3,4) by (simp add: algebra_simps)
  have "0 \<notin> set (p # body @ [k])"
    using cstr_no_nul [of m ptr "p # body @ k # rest"] assms(1) by (auto simp: stays_def)
  then have "cstr (mwrite m ?F ((p # body @ [k]) @ [0])) ?F (p # body @ [k])"
    using assms(2) by (intro cstr_mwrite) auto
  moreover have "confined fr B N m (mwrite m ?F ((p # body @ [k]) @ [0]), buf)"
    using assms(2,5) mwrite_other [of _ ?F "(p # body @ [k]) @ [0]" m]
    by (auto simp: confined_def in_region_def)
  ultimately show ?thesis using w by (simp only: Let_def)
qed

lemma room_region:
  assumes "unat (buf - B) \<le> unat b" and "in_region x buf (Suc (unat (b - (buf - B))))"
  shows "in_region x B (Suc (unat b))"
  using in_region_add [of x B "unat (buf - B)" "Suc (unat (b - (buf - B)))"] assms room_unat [OF assms(1)]
  by simp

lemma room_shift:
  fixes buf :: addr
  assumes "unat (buf - B) \<le> unat b" and "unat (b' - buf) \<le> unat (b - (buf - B))"
  shows "unat (b' - B) \<le> unat b"
  using unat_add_le [of "b' - buf" "buf - B"] room_unat [OF assms(1)] assms by simp

text \<open>The loop returns, and without a \<open>%c\<close> it leaves the position inside the room.\<close>

lemma vsnprintf_loop_returns:
  assumes "fmt_frame fr B (Suc (unat b))"
    and "stays fr B (Suc (unat b)) m ptr f" and "fmt_convs f = Some ks"
    and "fmt_args fr B (Suc (unat b)) m ks args"
    and "\<exists>t. stays fr B (Suc (unat b)) m (fr_0x fr) t" and "unat (buf - B) \<le> Suc (unat b)"
  shows "\<exists>m' b'. vsnprintf_loop fr B b m buf ptr args = Some (m', b') \<and>
    (chr CHR ''c'' \<notin> set ks \<and> unat (buf - B) \<le> unat b \<longrightarrow> unat (b' - B) \<le> unat b)"
  using assms(2-)
proof (induction "length f" arbitrary: f ks m buf ptr args rule: less_induct)
  case less
  let ?N = "Suc (unat b)"
  show ?case
  proof (cases "m ptr \<noteq> 0 \<and> buf - B < b")
    case False
    then show ?thesis by (subst vsnprintf_loop.simps) auto
  next
    case go: True
    then have pos: "unat (buf - B) < unat b" by (simp add: word_less_nat_alt)
    from go less.prems(1) obtain c cs where f: "f = c # cs" and c: "m ptr = c" by (cases f) (auto simp: stays_def)
    have next_step: "\<exists>m'' b''. vsnprintf_loop fr B b m' buf' (ptr + of_nat j) args' = Some (m'', b'') \<and>
        (chr CHR ''c'' \<notin> set ks' \<and> unat (buf' - B) \<le> unat b \<longrightarrow> unat (b'' - B) \<le> unat b)"
      if "confined fr B ?N m (m', buf')" "0 < j" "j \<le> length f" "fmt_convs (drop j f) = Some ks'"
        "fmt_args fr B ?N m ks' args'" for m' buf' j ks' args'
    proof (rule less.hyps [OF _ _ that(4)])
      show "length (drop j f) < length f" using that(2) f by simp
      show "stays fr B ?N m' (ptr + of_nat j) (drop j f)"
        by (rule stays_confined [OF stays_drop [OF less.prems(1) that(3)] that(1)])
      show "fmt_args fr B ?N m' ks' args'" by (rule fmt_args_confined [OF that(5,1)])
      show "\<exists>t. stays fr B ?N m' (fr_0x fr) t" using less.prems(4) stays_confined [OF _ that(1)] by blast
      show "unat (buf' - B) \<le> ?N" using that(1) by (simp add: confined_def)
    qed
    have put: "confined fr B ?N mm (mm(buf := d), buf + 1)" for mm d
      by (rule advance_confined [OF advance_upd [OF pos]]) auto
    have one: "unat (buf + 1 - B) \<le> unat b"
      by (rule advance_pos [OF advance_upd [OF pos]]) auto
    show ?thesis
    proof (cases "c = chr CHR ''%''")
      case False
      have "\<exists>m' b'. vsnprintf_loop fr B b (m(buf := c)) (buf + 1) (ptr + 1) args = Some (m', b') \<and>
          (chr CHR ''c'' \<notin> set ks \<and> unat (buf + 1 - B) \<le> unat b \<longrightarrow> unat (b' - B) \<le> unat b)"
        using next_step [OF put [of m c], of 1 ks args] less.prems(2,3) f False by simp
      then show ?thesis using False c go one by (subst vsnprintf_loop.simps) auto
    next
      case True
      obtain body k rest where cs: "cs = body @ k # rest" and body: "list_all (\<lambda>c. \<not> ends_spec c) body"
        and k: "ends_spec k" and len: "length body < 18"
        and r: "if k = chr CHR ''%'' then fmt_convs rest = Some ks
           else \<exists>ks'. ks = k # ks' \<and> fmt_convs rest = Some ks'"
        using fmt_convs_spec [of cs ks] less.prems(2) f True by auto
      let ?F = "fr_formstr fr" and ?i = "Suc (length body)" and ?p1 = "ptr + of_nat (Suc (length body))"
      let ?m1 = "mwrite m ?F (c # body)"
      let ?m2 = "?m1(?F + of_nat ?i := k, ?F + of_nat (?i + 1) := 0)"
      have col: "fmt_collect fr m ptr 0 = Some (?m1, ?p1, ?i)"
        using fmt_collect_spec [of m ptr c body k rest fr 0] less.prems(1) f cs body k len
        by (simp add: stays_def)
      have st: "stays fr B ?N m ptr (c # body @ k # rest)" using less.prems(1) f cs by simp
      have m2: "cstr ?m2 ?F (c # body @ [k])" "confined fr B ?N m (?m2, buf)"
        using formstr_text [OF st len refl refl, of buf] pos by (simp_all only: Let_def less_imp_le less_Suc_eq_le)
      have "in_region ?p1 ptr (Suc (length f))"
        using f cs by (intro in_region_nth) simp
      then have "\<not> in_region ?p1 ?F 20" using less.prems(1) by (auto simp: stays_def apart_def)
      then have "?m1 ?p1 = m ?p1" using len by (intro mwrite_other) (auto simp: in_region_def)
      also have "m ?p1 = k" using cstr_nth [of m ptr f ?i] less.prems(1) f cs by (auto simp: stays_def nth_append)
      finally have p1: "?m1 ?p1 = k" .
      have after: "?p1 + 1 = ptr + of_nat (Suc ?i)" "drop (Suc ?i) f = rest" "Suc ?i \<le> length f"
        using f cs by (simp_all add: algebra_simps)
      show ?thesis
      proof (cases "k = chr CHR ''%''")
        case perc: True
        have "\<exists>m' b'. vsnprintf_loop fr B b (?m2(buf := chr CHR ''%'')) (buf + 1) (?p1 + 1) args = Some (m', b') \<and>
            (chr CHR ''c'' \<notin> set ks \<and> unat (buf + 1 - B) \<le> unat b \<longrightarrow> unat (b' - B) \<le> unat b)"
          unfolding after(1)
          using r perc less.prems(3) after(2,3)
          by (intro next_step [OF confined_trans [OF m2(2) put]]) auto
        then show ?thesis
          using go c True col len p1 perc one by (subst vsnprintf_loop.simps) (auto simp: Let_def)
      next
        case conv: False
        then obtain ks' v vs where ks: "ks = k # ks'" "fmt_convs rest = Some ks'" and args: "args = v # vs"
          using r less.prems(3) by (cases args) auto
        have x2: "\<exists>t. stays fr B ?N ?m2 (fr_0x fr) t" using less.prems(4) stays_confined [OF _ m2(2)] by blast
        have s2: "\<exists>t. stays fr B ?N ?m2 v t" if "k = chr CHR ''s''"
          using less.prems(3) ks args that stays_confined [OF _ m2(2)] by auto
        obtain m3 b3 where pf: "print_format fr ?m2 buf (b - (buf - B)) ?F v = Some (m3, b3)"
          and b3: "k \<noteq> chr CHR ''c'' \<longrightarrow> unat (b3 - B) \<le> unat b"
          using print_format_returns [OF assms(1) room_region [OF less_imp_le [OF pos]] m2(1) len body k conv s2 x2]
            room_shift [OF less_imp_le [OF pos]]
          by blast
        have "confined fr B ?N ?m2 (m3, b3)"
          by (rule confined_shift [OF less_imp_le [OF pos] print_format_confined [OF pf]])
        then have "\<exists>m' b'. vsnprintf_loop fr B b m3 b3 (?p1 + 1) vs = Some (m', b') \<and>
            (chr CHR ''c'' \<notin> set ks' \<and> unat (b3 - B) \<le> unat b \<longrightarrow> unat (b' - B) \<le> unat b)"
          unfolding after(1) using ks args less.prems(3) after(2,3)
          by (intro next_step [OF confined_trans [OF m2(2)]]) auto
        then show ?thesis
          using go c True col len p1 conv args pf b3 ks(1) by (subst vsnprintf_loop.simps) (auto simp: Let_def)
      qed
    qed
  qed
qed

text \<open>All the conditions together: the format and the "0x" literal stay, the arrays do not overlap
  and the arguments fit the format.\<close>

definition fmt_ready :: "frame \<Rightarrow> addr \<Rightarrow> u64 \<Rightarrow> mem \<Rightarrow> addr \<Rightarrow> byte list \<Rightarrow> u64 list \<Rightarrow> bool" where
  "fmt_ready fr buffer bufsize m format f args \<longleftrightarrow>
     fmt_frame fr buffer (unat bufsize) \<and> stays fr buffer (unat bufsize) m format f \<and>
     stays fr buffer (unat bufsize) m (fr_0x fr) (ascii ''0x'') \<and>
     (\<exists>ks. fmt_convs f = Some ks \<and> fmt_args fr buffer (unat bufsize) m ks args)"

lemma cstr_exists: "m (a + of_nat n) = 0 \<Longrightarrow> \<exists>t. cstr m a t \<and> length t \<le> n"
proof (induction n arbitrary: a)
  case 0
  then show ?case by (intro exI [of _ "[]"]) simp
next
  case (Suc n)
  show ?case
  proof (cases "m a = 0")
    case True
    then show ?thesis by (intro exI [of _ "[]"]) simp
  next
    case False
    have "m (a + 1 + of_nat n) = 0" using Suc.prems by (simp add: algebra_simps)
    then obtain t where "cstr m (a + 1) t" and "length t \<le> n" using Suc.IH by blast
    with False show ?thesis by (intro exI [of _ "m a # t"]) simp
  qed
qed

lemma vsnprintf_total:
  assumes "fmt_ready fr buffer bufsize m format f args" and "buffer \<noteq> 0" and "bufsize \<noteq> 0" and "fmt_convs f = Some ks"
    and "n = (if chr CHR ''c'' \<in> set ks then Suc (unat bufsize) else unat bufsize)"
  shows "\<exists>r m' t. vsnprintf fr m buffer bufsize format args = Some (r, m') \<and> cstr m' buffer t \<and> length t < n \<and>
    (\<forall>x. \<not> in_region x buffer n \<longrightarrow> \<not> in_region x (fr_formstr fr) 20 \<longrightarrow> \<not> in_region x (fr_sizec fr) 32 \<longrightarrow> m' x = m x)"
proof -
  have u: "Suc (unat (bufsize - 1)) = unat bufsize"
    using assms(3) unat_gt_0_Suc [of bufsize] by (simp add: word_neq_0_conv)
  obtain m1 b1 where l: "vsnprintf_loop fr buffer (bufsize - 1) m buffer format args = Some (m1, b1)"
    and p: "chr CHR ''c'' \<notin> set ks \<longrightarrow> unat (b1 - buffer) \<le> unat (bufsize - 1)"
    using vsnprintf_loop_returns [of fr buffer "bufsize - 1" m format f ks args buffer] assms(1,4) u
    by (fastforce simp: fmt_ready_def)
  have c: "confined fr buffer (unat bufsize) m (m1, b1)" using vsnprintf_loop_confined [OF l] u by simp
  then have b1: "unat (b1 - buffer) < n" using p u assms(5) by (auto simp: confined_def)
  have "(m1(b1 := 0)) (buffer + of_nat (unat (b1 - buffer))) = 0" by simp
  then obtain t where t: "cstr (m1(b1 := 0)) buffer t" "length t \<le> unat (b1 - buffer)"
    using cstr_exists by blast
  have "(m1(b1 := 0)) x = m x" if "\<not> in_region x buffer n" "\<not> in_region x (fr_formstr fr) 20" "\<not> in_region x (fr_sizec fr) 32" for x
    using c b1 that assms(5) by (auto simp: confined_def in_region_def fun_upd_apply split: if_splits)
  with l t b1 assms(2,3) show ?thesis by (auto simp: vsnprintf_def)
qed

lemma vsnprintf_bounded:
  assumes "fmt_ready fr buffer bufsize m format f args" and "buffer \<noteq> 0" and "bufsize \<noteq> 0"
  shows "\<exists>r m' t. vsnprintf fr m buffer bufsize format args = Some (r, m') \<and> cstr m' buffer t \<and> length t \<le> unat bufsize \<and>
    (\<forall>x. \<not> in_region x buffer (Suc (unat bufsize)) \<longrightarrow> \<not> in_region x (fr_formstr fr) 20 \<longrightarrow> \<not> in_region x (fr_sizec fr) 32 \<longrightarrow> m' x = m x)"
proof -
  obtain ks where "fmt_convs f = Some ks" using assms(1) by (auto simp: fmt_ready_def)
  then obtain r m' t where v: "vsnprintf fr m buffer bufsize format args = Some (r, m')" "cstr m' buffer t"
    and n: "length t < (if chr CHR ''c'' \<in> set ks then Suc (unat bufsize) else unat bufsize)"
    and x: "\<And>x. \<not> in_region x buffer (if chr CHR ''c'' \<in> set ks then Suc (unat bufsize) else unat bufsize) \<Longrightarrow>
      \<not> in_region x (fr_formstr fr) 20 \<Longrightarrow> \<not> in_region x (fr_sizec fr) 32 \<Longrightarrow> m' x = m x"
    using vsnprintf_total [OF assms _ refl] by blast
  have "length t \<le> unat bufsize" using n by (simp split: if_splits)
  moreover have "m' x = m x" if "\<not> in_region x buffer (Suc (unat bufsize))" "\<not> in_region x (fr_formstr fr) 20" "\<not> in_region x (fr_sizec fr) 32" for x
    using that by (intro x) (auto simp: in_region_def)
  ultimately show ?thesis using v by blast
qed

section \<open>Properties\<close>



text \<open>C20: When the specifications of the format are complete, its arguments fit it and the areas in use do not overlap, \<open>vsnprintf\<close> returns and writes
  nothing outside its buffer and its two local arrays, and the text with its NUL
  fits into the buffer, when no conversion is a \<open>%c\<close>.  With a \<open>%c\<close> this holds for a buffer that is one byte
  longer: the character is stored without a test of the room, and the NUL after it can be the one byte after the buffer.\<close>

theorem vsnprintf_stays_in_buffer:
  assumes "fmt_ready fr buffer bufsize m format f args" and "buffer \<noteq> 0" and "bufsize \<noteq> 0" and "fmt_convs f = Some ks"
    and "n = (if chr CHR ''c'' \<in> set ks then Suc (unat bufsize) else unat bufsize)"
  shows "\<exists>r m' t. vsnprintf fr m buffer bufsize format args = Some (r, m') \<and> cstr m' buffer t \<and> length t < n \<and>
    (\<forall>x. \<not> in_region x buffer n \<longrightarrow> \<not> in_region x (fr_formstr fr) 20 \<longrightarrow> \<not> in_region x (fr_sizec fr) 32 \<longrightarrow> m' x = m x)"
  by (rule vsnprintf_total [OF assms])

theorem vsnprintf_stays_in_buffer_witness:
  "\<exists>r m' t. vsnprintf \<lparr>fr_formstr = 1000, fr_sizec = 1100, fr_0x = 1200\<rparr>
     (mwrite (mwrite (\<lambda>_. 0) 1200 (ascii ''0x'')) 200 (ascii ''%20d'')) 100 8 200 [42] = Some (r, m') \<and>
     cstr m' 100 t \<and> length t < 8 \<and> m' 108 = 0"
proof -
  let ?fr = "\<lparr>fr_formstr = 1000, fr_sizec = 1100, fr_0x = 1200\<rparr>"
  let ?m = "mwrite (mwrite (\<lambda>_. 0) 1200 (ascii ''0x'')) 200 (ascii ''%20d'')"
  have "fmt_frame ?fr 100 8"
    by (auto simp: fmt_frame_def apart_def in_region_def unat_sub_if' split: if_splits)
  moreover have "stays ?fr 100 8 ?m 200 (ascii ''%20d'')"
    by (auto simp: stays_def apart_def in_region_def unat_sub_if' split: if_splits)
  moreover have "stays ?fr 100 8 ?m 1200 (ascii ''0x'')"
    by (auto simp: stays_def apart_def in_region_def unat_sub_if' split: if_splits)
  moreover have k: "fmt_convs (ascii ''%20d'') = Some (ascii ''d'')" by (simp add: ends_spec_def)
  ultimately have "fmt_ready ?fr 100 8 ?m 200 (ascii ''%20d'') [42]" by (simp add: fmt_ready_def)
  from vsnprintf_stays_in_buffer [OF this _ _ k refl] show ?thesis
    by (fastforce simp: in_region_def mwrite_other)
qed

end
