(* ===== verification/Console.thy ===== *)
theory Console
  imports Soc_Io
begin

text \<open>
  The serial console of the firmware (\<open>lib/console.c\<close>): the drivers of the two UARTs, the
  character and string output on top of them, and the initialisation that chooses one.

  The static variables \<open>uart_is_std\<close> and \<open>uart_base\<close> and the device state are the fields of the
  record \<open>con\<close>.  Three interfaces are stated as locales: \<open>console_port\<close>, what polled reading and
  writing of a port relies on; \<open>uart_16550\<close> and \<open>uart_potato\<close>, what the two register layouts
  promise; and \<open>console\<close>, what the users of \<open>putchar\<close> may rely on.  The two drivers are shown to
  give a \<open>console_port\<close>, and each a \<open>console\<close>.
\<close>

record 'd con =
  uart_is_std :: bool
  uart_base :: u64
  dev :: 'd

definition UART_BAUDS :: u64 where [soc_consts]: "UART_BAUDS = 115200"

definition uart_divisor :: "u64 \<Rightarrow> u64 \<Rightarrow> u64" where
  "uart_divisor uart_freq bauds = uart_freq div (bauds * 16)"

section \<open>The potato UART\<close>

definition potato_uart_reg_read :: "'d bus \<Rightarrow> u64 \<Rightarrow> 'd con \<Rightarrow> u64 \<times> 'd con" where
  "potato_uart_reg_read io offset s =
     (let (v, d) = readq io (uart_base s + offset) (dev s) in (v, s\<lparr>dev := d\<rparr>))"

definition potato_uart_reg_write :: "'d bus \<Rightarrow> u64 \<Rightarrow> u64 \<Rightarrow> 'd con \<Rightarrow> 'd con" where
  "potato_uart_reg_write io offset val s =
     s\<lparr>dev := writeq io val (uart_base s + offset) (dev s)\<rparr>"

definition potato_uart_rx_empty :: "'d bus \<Rightarrow> 'd con \<Rightarrow> bool \<times> 'd con" where
  "potato_uart_rx_empty io s =
     (let (val, s') = potato_uart_reg_read io POTATO_CONSOLE_STATUS s
      in (val AND POTATO_CONSOLE_STATUS_RX_EMPTY \<noteq> 0, s'))"

definition potato_uart_tx_full :: "'d bus \<Rightarrow> 'd con \<Rightarrow> bool \<times> 'd con" where
  "potato_uart_tx_full io s =
     (let (val, s') = potato_uart_reg_read io POTATO_CONSOLE_STATUS s
      in (val AND POTATO_CONSOLE_STATUS_TX_FULL \<noteq> 0, s'))"

definition potato_uart_read :: "'d bus \<Rightarrow> 'd con \<Rightarrow> byte \<times> 'd con" where
  "potato_uart_read io s =
     (let (val, s') = potato_uart_reg_read io POTATO_CONSOLE_RX s in (ucast (val AND 0x000000ff), s'))"

definition potato_uart_write :: "'d bus \<Rightarrow> byte \<Rightarrow> 'd con \<Rightarrow> 'd con" where
  "potato_uart_write io c s = potato_uart_reg_write io POTATO_CONSOLE_TX (ucast c) s"

definition potato_uart_init :: "'d bus \<Rightarrow> u64 \<Rightarrow> 'd con \<Rightarrow> 'd con" where
  "potato_uart_init io uart_freq s =
     potato_uart_reg_write io POTATO_CONSOLE_CLOCK_DIV (uart_divisor uart_freq UART_BAUDS - 1) s"

definition potato_uart_set_irq_en :: "'d bus \<Rightarrow> bool \<Rightarrow> bool \<Rightarrow> 'd con \<Rightarrow> 'd con" where
  "potato_uart_set_irq_en io rx_irq tx_irq s =
     (let en = (if rx_irq then POTATO_CONSOLE_IRQ_RX else 0) OR
               (if tx_irq then POTATO_CONSOLE_IRQ_TX else 0)
      in potato_uart_reg_write io POTATO_CONSOLE_IRQ_EN en s)"

section \<open>The standard UART\<close>

definition std_uart_rx_empty :: "'d bus \<Rightarrow> 'd con \<Rightarrow> bool \<times> 'd con" where
  "std_uart_rx_empty io s =
     (let (v, d) = readb io (uart_base s + UART_REG_LSR) (dev s)
      in (v AND UART_REG_LSR_DR = 0, s\<lparr>dev := d\<rparr>))"

definition std_uart_read :: "'d bus \<Rightarrow> 'd con \<Rightarrow> byte \<times> 'd con" where
  "std_uart_read io s =
     (let (v, d) = readb io (uart_base s + UART_REG_RX) (dev s) in (v, s\<lparr>dev := d\<rparr>))"

definition std_uart_tx_full :: "'d bus \<Rightarrow> 'd con \<Rightarrow> bool \<times> 'd con" where
  "std_uart_tx_full io s =
     (let (v, d) = readb io (uart_base s + UART_REG_LSR) (dev s)
      in (v AND UART_REG_LSR_THRE = 0, s\<lparr>dev := d\<rparr>))"

definition std_uart_write :: "'d bus \<Rightarrow> byte \<Rightarrow> 'd con \<Rightarrow> 'd con" where
  "std_uart_write io c s = s\<lparr>dev := writeb io c (uart_base s + UART_REG_TX) (dev s)\<rparr>"

definition std_uart_set_irq_en :: "'d bus \<Rightarrow> bool \<Rightarrow> bool \<Rightarrow> 'd con \<Rightarrow> 'd con" where
  "std_uart_set_irq_en io rx_irq tx_irq s =
     (let ier = (if tx_irq then UART_REG_IER_THRI else 0) OR (if rx_irq then UART_REG_IER_RDI else 0)
      in s\<lparr>dev := writeb io ier (uart_base s + UART_REG_IER) (dev s)\<rparr>)"

definition std_uart_init :: "'d bus \<Rightarrow> u64 \<Rightarrow> 'd con \<Rightarrow> 'd con" where
  "std_uart_init io uart_freq s =
     (let dv = uart_divisor uart_freq UART_BAUDS;
          d1 = writeb io UART_REG_LCR_DLAB (uart_base s + UART_REG_LCR) (dev s);
          d2 = writeb io (ucast (dv AND 0xff)) (uart_base s + UART_REG_DLL) d1;
          d3 = writeb io (ucast (drop_bit 8 dv)) (uart_base s + UART_REG_DLM) d2;
          d4 = writeb io UART_REG_LCR_8BIT (uart_base s + UART_REG_LCR) d3;
          d5 = writeb io (UART_REG_MCR_DTR OR UART_REG_MCR_RTS) (uart_base s + UART_REG_MCR) d4;
          d6 = writeb io (UART_REG_FCR_EN_FIFO OR UART_REG_FCR_CLR_RCVR OR UART_REG_FCR_CLR_XMIT)
                 (uart_base s + UART_REG_FCR) d5
      in s\<lparr>dev := d6\<rparr>)"

section \<open>Characters and strings\<close>

definition getchar :: "'d bus \<Rightarrow> 'd con \<Rightarrow> (int \<times> 'd con) option" where
  "getchar io s =
     (if uart_is_std s
      then do { s1 \<leftarrow> wait_while (std_uart_rx_empty io) s;
                let (c, s2) = std_uart_read io s1;
                Some (uint c, s2) }
      else do { s1 \<leftarrow> wait_while (potato_uart_rx_empty io) s;
                let (c, s2) = potato_uart_read io s1;
                Some (uint c, s2) })"

definition putchar :: "'d bus \<Rightarrow> int \<Rightarrow> 'd con \<Rightarrow> (int \<times> 'd con) option" where
  "putchar io c s =
     (if uart_is_std s
      then do { s1 \<leftarrow> wait_while (std_uart_tx_full io) s;
                Some (c, std_uart_write io (of_int c) s1) }
      else do { s1 \<leftarrow> wait_while (potato_uart_tx_full io) s;
                Some (c, potato_uart_write io (of_int c) s1) })"

partial_function (option) puts_loop :: "'d bus \<Rightarrow> mem \<Rightarrow> addr \<Rightarrow> 'd con \<Rightarrow> 'd con option" where
  "puts_loop io m str s =
     (if m str \<noteq> 0 then
        do { s1 \<leftarrow> (if m str = 10 then map_option snd (putchar io 13 s) else Some s);
             (_, s2) \<leftarrow> putchar io (uint (m str)) s1;
             puts_loop io m (str + 1) s2 }
      else Some s)"

definition puts :: "'d bus \<Rightarrow> mem \<Rightarrow> addr \<Rightarrow> 'd con \<Rightarrow> (int \<times> 'd con) option" where
  "puts io m str s = do { s' \<leftarrow> puts_loop io m str s; Some (0, s') }"

text \<open>The length of a string, for programs without the C library.\<close>

partial_function (option) con_strlen_loop :: "mem \<Rightarrow> addr \<Rightarrow> u64 \<Rightarrow> u64 option" where
  "con_strlen_loop m s len = (if m s \<noteq> 0 then con_strlen_loop m (s + 1) (len + 1) else Some len)"

definition con_strlen :: "mem \<Rightarrow> addr \<Rightarrow> u64 option" where
  "con_strlen m s = con_strlen_loop m s 0"

section \<open>Initialisation\<close>

text \<open>The code computes the clock of the UART but passes the clock of the processor on.\<close>

definition console_init :: "'d bus \<Rightarrow> 'd con \<Rightarrow> 'd con" where
  "console_init io s =
     (let (clk, d1) = readq io (SYSCON_BASE + SYS_REG_CLKINFO) (dev s);
          proc_freq = clk AND SYS_REG_CLKINFO_FREQ_MASK;
          (sys_info, d2) = readq io (SYSCON_BASE + SYS_REG_INFO) d1;
          (uart_info, d3) = (if sys_info AND SYS_REG_INFO_HAS_LARGE_SYSCON \<noteq> 0
                             then readq io (SYSCON_BASE + SYS_REG_UART0_INFO) d2 else (0, d2));
          uart_freq = (if uart_info AND 0xffffffff = 0 then proc_freq else uart_info AND 0xffffffff);
          s' = s\<lparr>uart_base := UART_BASE, dev := d3\<rparr>
      in if uart_info AND SYS_REG_UART_IS_16550 \<noteq> 0
         then std_uart_init io proc_freq (s'\<lparr>uart_is_std := True\<rparr>)
         else potato_uart_init io proc_freq (s'\<lparr>uart_is_std := False\<rparr>))"

definition console_set_irq_en :: "'d bus \<Rightarrow> bool \<Rightarrow> bool \<Rightarrow> 'd con \<Rightarrow> 'd con" where
  "console_set_irq_en io rx_irq tx_irq s =
     (if uart_is_std s then std_uart_set_irq_en io rx_irq tx_irq s
      else potato_uart_set_irq_en io rx_irq tx_irq s)"


lemma con_strlen_cstr: "cstr m a t \<Longrightarrow> con_strlen m a = Some (of_nat (length t))"
proof -
  have "con_strlen_loop m a len = Some (len + of_nat (length t))" if "cstr m a t" for len
    using that
  proof (induction t arbitrary: a len)
    case (Cons c t)
    then show ?case by (subst con_strlen_loop.simps) (simp add: algebra_simps)
  qed (subst con_strlen_loop.simps, simp)
  then show "cstr m a t \<Longrightarrow> ?thesis" by (simp add: con_strlen_def)
qed

section \<open>A polled port\<close>

text \<open>
  What the polling loops rely on.  \<open>tx_wait\<close> and \<open>rx_wait\<close> bound the number of polls until the
  transmitter is free and until the next character is there; \<open>sent\<close> is what has been written, and
  \<open>incoming\<close> what will be received.
\<close>

locale console_port =
  fixes tx_full :: "'s \<Rightarrow> bool \<times> 's" and rx_empty :: "'s \<Rightarrow> bool \<times> 's"
    and rd :: "'s \<Rightarrow> byte \<times> 's" and wr :: "byte \<Rightarrow> 's \<Rightarrow> 's"
    and ok :: "'s \<Rightarrow> bool" and tx_wait :: "'s \<Rightarrow> nat" and rx_wait :: "'s \<Rightarrow> nat"
    and sent :: "'s \<Rightarrow> byte list" and incoming :: "'s \<Rightarrow> byte list"
  assumes tx_poll: "ok s \<Longrightarrow> tx_full s = (b, s') \<Longrightarrow>
      ok s' \<and> sent s' = sent s \<and> incoming s' = incoming s \<and> (b \<longleftrightarrow> 0 < tx_wait s) \<and>
      tx_wait s' \<le> tx_wait s - 1"
    and rx_poll: "ok s \<Longrightarrow> rx_empty s = (b, s') \<Longrightarrow>
      ok s' \<and> sent s' = sent s \<and> incoming s' = incoming s \<and>
      (b \<longleftrightarrow> incoming s = [] \<or> 0 < rx_wait s) \<and> rx_wait s' \<le> rx_wait s - 1"
    and port_write: "ok s \<Longrightarrow> tx_wait s = 0 \<Longrightarrow>
      ok (wr c s) \<and> sent (wr c s) = sent s @ [c] \<and> incoming (wr c s) = incoming s"
    and port_read: "ok s \<Longrightarrow> rx_wait s = 0 \<Longrightarrow> incoming s = c # cs \<Longrightarrow> rd s = (c', s') \<Longrightarrow>
      c' = c \<and> ok s' \<and> sent s' = sent s \<and> incoming s' = cs"
begin

lemma wait_tx:
  assumes "ok s"
  shows "\<exists>s'. wait_while tx_full s = Some s' \<and> ok s' \<and> tx_wait s' = 0 \<and>
    sent s' = sent s \<and> incoming s' = incoming s"
  using assms
proof (induction "tx_wait s" arbitrary: s rule: less_induct)
  case less
  obtain b s1 where s1: "tx_full s = (b, s1)" by fastforce
  note p = tx_poll [OF less.prems s1]
  show ?case
  proof (cases b)
    case True
    with p have "tx_wait s1 < tx_wait s" by linarith
    from less.hyps [OF this] p True s1 show ?thesis by (subst wait_while.simps) simp
  next
    case False
    with p s1 show ?thesis by (subst wait_while.simps) auto
  qed
qed

lemma wait_rx:
  assumes "ok s" and "incoming s \<noteq> []"
  shows "\<exists>s'. wait_while rx_empty s = Some s' \<and> ok s' \<and> rx_wait s' = 0 \<and>
    sent s' = sent s \<and> incoming s' = incoming s"
  using assms
proof (induction "rx_wait s" arbitrary: s rule: less_induct)
  case less
  obtain b s1 where s1: "rx_empty s = (b, s1)" by fastforce
  note p = rx_poll [OF less.prems(1) s1]
  show ?case
  proof (cases b)
    case True
    with p less.prems have "rx_wait s1 < rx_wait s" by linarith
    from less.hyps [OF this] p less.prems True s1 show ?thesis by (subst wait_while.simps) simp
  next
    case False
    with p s1 show ?thesis by (subst wait_while.simps) auto
  qed
qed

text \<open>Sending and receiving one character.\<close>

lemma send_char:
  assumes "ok s"
  shows "\<exists>s'. wait_while tx_full s = Some s' \<and> ok (wr c s') \<and> sent (wr c s') = sent s @ [c] \<and>
    incoming (wr c s') = incoming s"
  using wait_tx [OF assms] port_write by force

lemma receive_char:
  assumes "ok s" and "incoming s = c # cs"
  shows "\<exists>s1 s2. wait_while rx_empty s = Some s1 \<and> rd s1 = (c, s2) \<and> ok s2 \<and> sent s2 = sent s \<and>
    incoming s2 = cs"
proof -
  obtain s1 where s1: "wait_while rx_empty s = Some s1" "ok s1" "rx_wait s1 = 0"
    "sent s1 = sent s" "incoming s1 = c # cs"
    using wait_rx [OF assms(1)] assms(2) by auto
  obtain c' s2 where s2: "rd s1 = (c', s2)" by fastforce
  from port_read [OF s1(2,3,5) s2] s1 s2 show ?thesis by auto
qed

end

section \<open>The console interface\<close>

text \<open>The text that reaches the terminal for a string: a line feed is preceded by a carriage return.\<close>

definition crlf :: "byte list \<Rightarrow> byte list" where
  "crlf t = concat (map (\<lambda>c. if c = 10 then [13, 10] else [c]) t)"

text \<open>What the users of the console rely on: in a good state a character is sent and received.\<close>

locale console =
  fixes io :: "'d bus" and ok :: "'d con \<Rightarrow> bool"
    and sent :: "'d con \<Rightarrow> byte list" and incoming :: "'d con \<Rightarrow> byte list"
  assumes put: "ok s \<Longrightarrow> \<exists>s'. putchar io c s = Some (c, s') \<and> ok s' \<and>
      sent s' = sent s @ [of_int c] \<and> incoming s' = incoming s"
    and get: "ok s \<Longrightarrow> incoming s = b # cs \<Longrightarrow> \<exists>s'. getchar io s = Some (uint b, s') \<and> ok s' \<and>
      sent s' = sent s \<and> incoming s' = cs"
begin

lemma puts_loop_sends:
  assumes "ok s" and "cstr m str t"
  shows "\<exists>s'. puts_loop io m str s = Some s' \<and> ok s' \<and> sent s' = sent s @ crlf t \<and> incoming s' = incoming s"
  using assms
proof (induction t arbitrary: str s)
  case Nil
  then show ?case by (subst puts_loop.simps) (simp add: crlf_def)
next
  case (Cons c t)
  have c: "m str = c" "c \<noteq> 0" "cstr m (str + 1) t" using Cons.prems(2) by auto
  define pre :: "byte list" where "pre = (if c = 10 then [13] else [])"
  have "\<exists>s1. (if c = 10 then map_option snd (putchar io 13 s) else Some s) = Some s1 \<and> ok s1 \<and>
      sent s1 = sent s @ pre \<and> incoming s1 = incoming s"
    using put [OF Cons.prems(1), of 13] Cons.prems(1) by (auto simp: pre_def)
  then obtain s1 where s1: "(if c = 10 then map_option snd (putchar io 13 s) else Some s) = Some s1"
    "ok s1" "sent s1 = sent s @ pre" "incoming s1 = incoming s" by blast
  obtain s2 where s2: "putchar io (uint c) s1 = Some (uint c, s2)" "ok s2" "sent s2 = sent s1 @ [c]"
    "incoming s2 = incoming s1"
    using put [OF s1(2), of "uint c"] by auto
  obtain s3 where "puts_loop io m (str + 1) s2 = Some s3" "ok s3" "sent s3 = sent s2 @ crlf t"
    "incoming s3 = incoming s2"
    using Cons.IH [OF s2(2) c(3)] by blast
  with s1 s2 c show ?case
    by (subst puts_loop.simps) (auto simp: crlf_def pre_def)
qed

lemma puts_sends:
  assumes "ok s" and "cstr m str t"
  shows "\<exists>s'. puts io m str s = Some (0, s') \<and> ok s' \<and> sent s' = sent s @ crlf t \<and> incoming s' = incoming s"
  using puts_loop_sends [OF assms] by (auto simp: puts_def)

end

section \<open>The two UARTs as consoles\<close>

text \<open>
  The register-level contract of a 16550-style UART at \<open>UART_BASE\<close>, in a state \<open>dok\<close> in which it is
  configured: bit 5 of the line status says that the transmitter is free, bit 0 that a character is
  waiting, and each poll brings both events closer.
\<close>

locale uart_16550 =
  fixes io :: "'d bus" and dok :: "'d \<Rightarrow> bool" and dtx :: "'d \<Rightarrow> nat" and drx :: "'d \<Rightarrow> nat"
    and dsent :: "'d \<Rightarrow> byte list" and dinc :: "'d \<Rightarrow> byte list"
  assumes lsr: "dok d \<Longrightarrow> bus_read io 1 (UART_BASE + UART_REG_LSR) d = (v, d') \<Longrightarrow>
      dok d' \<and> dsent d' = dsent d \<and> dinc d' = dinc d \<and> (bit v 5 \<longleftrightarrow> dtx d = 0) \<and>
      (bit v 0 \<longleftrightarrow> dinc d \<noteq> [] \<and> drx d = 0) \<and> dtx d' \<le> dtx d - 1 \<and> drx d' \<le> drx d - 1"
    and rx: "dok d \<Longrightarrow> drx d = 0 \<Longrightarrow> dinc d = c # cs \<Longrightarrow>
      bus_read io 1 (UART_BASE + UART_REG_RX) d = (v, d') \<Longrightarrow>
      dok d' \<and> ucast v = c \<and> dsent d' = dsent d \<and> dinc d' = cs"
    and tx: "dok d \<Longrightarrow> dtx d = 0 \<Longrightarrow> d' = bus_write io 1 (UART_BASE + UART_REG_TX) (ucast c) d \<Longrightarrow>
      dok d' \<and> dsent d' = dsent d @ [c] \<and> dinc d' = dinc d"

lemma and_pow_eq_0: "(v :: byte) AND 32 = 0 \<longleftrightarrow> \<not> bit v 5" "v AND 1 = 0 \<longleftrightarrow> \<not> bit v 0"
  using and_exp_eq_0_iff_not_bit [of v 5] and_exp_eq_0_iff_not_bit [of v 0] by simp_all

sublocale uart_16550 \<subseteq> port: console_port "std_uart_tx_full io" "std_uart_rx_empty io"
  "std_uart_read io" "std_uart_write io"
  "\<lambda>s. uart_is_std s \<and> uart_base s = UART_BASE \<and> dok (dev s)"
  "\<lambda>s. dtx (dev s)" "\<lambda>s. drx (dev s)" "\<lambda>s. dsent (dev s)" "\<lambda>s. dinc (dev s)"
proof
  fix s s' :: "'d con" and b
  assume ok: "uart_is_std s \<and> uart_base s = UART_BASE \<and> dok (dev s)"
  obtain v d where v: "bus_read io 1 (UART_BASE + UART_REG_LSR) (dev s) = (v, d)" by fastforce
  note p = lsr [OF _ v]
  show "(uart_is_std s' \<and> uart_base s' = UART_BASE \<and> dok (dev s')) \<and> dsent (dev s') = dsent (dev s) \<and>
      dinc (dev s') = dinc (dev s) \<and> (b \<longleftrightarrow> 0 < dtx (dev s)) \<and> dtx (dev s') \<le> dtx (dev s) - 1"
    if "std_uart_tx_full io s = (b, s')"
    using that ok p v
    by (auto simp: std_uart_tx_full_def readb_def UART_REG_LSR_THRE_def and_pow_eq_0 bit_simps)
  show "(uart_is_std s' \<and> uart_base s' = UART_BASE \<and> dok (dev s')) \<and> dsent (dev s') = dsent (dev s) \<and>
      dinc (dev s') = dinc (dev s) \<and> (b \<longleftrightarrow> dinc (dev s) = [] \<or> 0 < drx (dev s)) \<and>
      drx (dev s') \<le> drx (dev s) - 1"
    if "std_uart_rx_empty io s = (b, s')"
    using that ok p v
    by (auto simp: std_uart_rx_empty_def readb_def UART_REG_LSR_DR_def and_pow_eq_0 bit_simps)
next
  fix s :: "'d con" and c
  assume "uart_is_std s \<and> uart_base s = UART_BASE \<and> dok (dev s)" and "dtx (dev s) = 0"
  then show "(uart_is_std (std_uart_write io c s) \<and> uart_base (std_uart_write io c s) = UART_BASE \<and>
       dok (dev (std_uart_write io c s))) \<and>
      dsent (dev (std_uart_write io c s)) = dsent (dev s) @ [c] \<and>
      dinc (dev (std_uart_write io c s)) = dinc (dev s)"
    using tx [OF _ _ refl, of "dev s" c] by (simp add: std_uart_write_def writeb_def)
next
  fix s s' :: "'d con" and c c' cs
  assume "uart_is_std s \<and> uart_base s = UART_BASE \<and> dok (dev s)" and "drx (dev s) = 0"
    and "dinc (dev s) = c # cs" and "std_uart_read io s = (c', s')"
  then show "c' = c \<and> (uart_is_std s' \<and> uart_base s' = UART_BASE \<and> dok (dev s')) \<and>
      dsent (dev s') = dsent (dev s) \<and> dinc (dev s') = cs"
    using rx [of "dev s" c cs] by (auto simp: std_uart_read_def readb_def split: prod.splits)
qed

sublocale uart_16550 \<subseteq> cons: console io
  "\<lambda>s. uart_is_std s \<and> uart_base s = UART_BASE \<and> dok (dev s)" "\<lambda>s. dsent (dev s)" "\<lambda>s. dinc (dev s)"
proof
  fix s :: "'d con" and c
  assume "uart_is_std s \<and> uart_base s = UART_BASE \<and> dok (dev s)"
  then show "\<exists>s'. putchar io c s = Some (c, s') \<and> (uart_is_std s' \<and> uart_base s' = UART_BASE \<and> dok (dev s')) \<and>
      dsent (dev s') = dsent (dev s) @ [of_int c] \<and> dinc (dev s') = dinc (dev s)"
    using port.send_char [of s "of_int c"] by (auto simp: putchar_def)
next
  fix s :: "'d con" and c cs
  assume "uart_is_std s \<and> uart_base s = UART_BASE \<and> dok (dev s)" and "dinc (dev s) = c # cs"
  then show "\<exists>s'. getchar io s = Some (uint c, s') \<and> (uart_is_std s' \<and> uart_base s' = UART_BASE \<and> dok (dev s')) \<and>
      dsent (dev s') = dsent (dev s) \<and> dinc (dev s') = cs"
    using port.receive_char [of s c cs] by (auto simp: getchar_def)
qed

text \<open>The contract of the potato UART: 64-bit registers, and a status register with the opposite
  polarity.\<close>

locale uart_potato =
  fixes io :: "'d bus" and dok :: "'d \<Rightarrow> bool" and dtx :: "'d \<Rightarrow> nat" and drx :: "'d \<Rightarrow> nat"
    and dsent :: "'d \<Rightarrow> byte list" and dinc :: "'d \<Rightarrow> byte list"
  assumes status: "dok d \<Longrightarrow> bus_read io 8 (UART_BASE + POTATO_CONSOLE_STATUS) d = (v, d') \<Longrightarrow>
      dok d' \<and> dsent d' = dsent d \<and> dinc d' = dinc d \<and> (bit v 3 \<longleftrightarrow> 0 < dtx d) \<and>
      (bit v 0 \<longleftrightarrow> dinc d = [] \<or> 0 < drx d) \<and> dtx d' \<le> dtx d - 1 \<and> drx d' \<le> drx d - 1"
    and rx: "dok d \<Longrightarrow> drx d = 0 \<Longrightarrow> dinc d = c # cs \<Longrightarrow>
      bus_read io 8 (UART_BASE + POTATO_CONSOLE_RX) d = (v, d') \<Longrightarrow>
      dok d' \<and> ucast v = c \<and> dsent d' = dsent d \<and> dinc d' = cs"
    and tx: "dok d \<Longrightarrow> dtx d = 0 \<Longrightarrow> d' = bus_write io 8 (UART_BASE + POTATO_CONSOLE_TX) (ucast c) d \<Longrightarrow>
      dok d' \<and> dsent d' = dsent d @ [c] \<and> dinc d' = dinc d"

lemma and_pow_eq_0_64: "(v :: u64) AND 8 = 0 \<longleftrightarrow> \<not> bit v 3" "v AND 1 = 0 \<longleftrightarrow> \<not> bit v 0"
  using and_exp_eq_0_iff_not_bit [of v 3] and_exp_eq_0_iff_not_bit [of v 0] by simp_all

lemma ucast_and_255: "(ucast (v AND 255 :: u64) :: byte) = ucast v"
proof -
  have "v AND 255 = take_bit 8 v" by (simp add: take_bit_eq_mask mask_eq_exp_minus_1)
  then show ?thesis by (intro bit_word_eqI) (simp add: bit_simps)
qed

sublocale uart_potato \<subseteq> port: console_port "potato_uart_tx_full io" "potato_uart_rx_empty io"
  "potato_uart_read io" "potato_uart_write io"
  "\<lambda>s. \<not> uart_is_std s \<and> uart_base s = UART_BASE \<and> dok (dev s)"
  "\<lambda>s. dtx (dev s)" "\<lambda>s. drx (dev s)" "\<lambda>s. dsent (dev s)" "\<lambda>s. dinc (dev s)"
proof
  fix s s' :: "'d con" and b
  assume ok: "\<not> uart_is_std s \<and> uart_base s = UART_BASE \<and> dok (dev s)"
  obtain v d where v: "bus_read io 8 (UART_BASE + POTATO_CONSOLE_STATUS) (dev s) = (v, d)" by fastforce
  note p = status [OF _ v]
  show "(\<not> uart_is_std s' \<and> uart_base s' = UART_BASE \<and> dok (dev s')) \<and> dsent (dev s') = dsent (dev s) \<and>
      dinc (dev s') = dinc (dev s) \<and> (b \<longleftrightarrow> 0 < dtx (dev s)) \<and> dtx (dev s') \<le> dtx (dev s) - 1"
    if "potato_uart_tx_full io s = (b, s')"
    using that ok p v
    by (auto simp: potato_uart_tx_full_def potato_uart_reg_read_def readq_def
        POTATO_CONSOLE_STATUS_TX_FULL_def and_pow_eq_0_64)
  show "(\<not> uart_is_std s' \<and> uart_base s' = UART_BASE \<and> dok (dev s')) \<and> dsent (dev s') = dsent (dev s) \<and>
      dinc (dev s') = dinc (dev s) \<and> (b \<longleftrightarrow> dinc (dev s) = [] \<or> 0 < drx (dev s)) \<and>
      drx (dev s') \<le> drx (dev s) - 1"
    if "potato_uart_rx_empty io s = (b, s')"
    using that ok p v
    by (auto simp: potato_uart_rx_empty_def potato_uart_reg_read_def readq_def
        POTATO_CONSOLE_STATUS_RX_EMPTY_def and_pow_eq_0_64)
next
  fix s :: "'d con" and c
  assume "\<not> uart_is_std s \<and> uart_base s = UART_BASE \<and> dok (dev s)" and "dtx (dev s) = 0"
  then show "(\<not> uart_is_std (potato_uart_write io c s) \<and> uart_base (potato_uart_write io c s) = UART_BASE \<and>
       dok (dev (potato_uart_write io c s))) \<and>
      dsent (dev (potato_uart_write io c s)) = dsent (dev s) @ [c] \<and>
      dinc (dev (potato_uart_write io c s)) = dinc (dev s)"
    using tx [OF _ _ refl, of "dev s" c]
    by (simp add: potato_uart_write_def potato_uart_reg_write_def writeq_def)
next
  fix s s' :: "'d con" and c c' cs
  assume "\<not> uart_is_std s \<and> uart_base s = UART_BASE \<and> dok (dev s)" and "drx (dev s) = 0"
    and "dinc (dev s) = c # cs" and "potato_uart_read io s = (c', s')"
  then show "c' = c \<and> (\<not> uart_is_std s' \<and> uart_base s' = UART_BASE \<and> dok (dev s')) \<and>
      dsent (dev s') = dsent (dev s) \<and> dinc (dev s') = cs"
    using rx [of "dev s" c cs]
    by (auto simp: potato_uart_read_def potato_uart_reg_read_def readq_def ucast_and_255 split: prod.splits)
qed

sublocale uart_potato \<subseteq> cons: console io
  "\<lambda>s. \<not> uart_is_std s \<and> uart_base s = UART_BASE \<and> dok (dev s)" "\<lambda>s. dsent (dev s)" "\<lambda>s. dinc (dev s)"
proof
  fix s :: "'d con" and c
  assume "\<not> uart_is_std s \<and> uart_base s = UART_BASE \<and> dok (dev s)"
  then show "\<exists>s'. putchar io c s = Some (c, s') \<and> (\<not> uart_is_std s' \<and> uart_base s' = UART_BASE \<and> dok (dev s')) \<and>
      dsent (dev s') = dsent (dev s) @ [of_int c] \<and> dinc (dev s') = dinc (dev s)"
    using port.send_char [of s "of_int c"] by (auto simp: putchar_def)
next
  fix s :: "'d con" and c cs
  assume "\<not> uart_is_std s \<and> uart_base s = UART_BASE \<and> dok (dev s)" and "dinc (dev s) = c # cs"
  then show "\<exists>s'. getchar io s = Some (uint c, s') \<and> (\<not> uart_is_std s' \<and> uart_base s' = UART_BASE \<and> dok (dev s')) \<and>
      dsent (dev s') = dsent (dev s) \<and> dinc (dev s') = cs"
    using port.receive_char [of s c cs] by (auto simp: getchar_def)
qed

section \<open>Devices that keep the contracts\<close>

text \<open>A transmitter that is busy for \<open>k\<close> polls after each character, and a queue of characters to
  receive, seen through each of the two register layouts.\<close>

record uart_dev =
  ud_busy :: nat
  ud_sent :: "byte list"
  ud_in :: "byte list"

definition uart_16550_bus :: "nat \<Rightarrow> uart_dev bus" where
  "uart_16550_bus k = \<lparr>
     bus_read = (\<lambda>n a d.
       if a = UART_BASE + UART_REG_LSR then
         ((if ud_in d = [] then 0 else 1) OR (if ud_busy d = 0 then 32 else 0), d\<lparr>ud_busy := ud_busy d - 1\<rparr>)
       else if a = UART_BASE + UART_REG_RX then
         (case ud_in d of [] \<Rightarrow> (0, d) | c # cs \<Rightarrow> (ucast c, d\<lparr>ud_in := cs\<rparr>))
       else (0, d)),
     bus_write = (\<lambda>n a v d.
       if a = UART_BASE + UART_REG_TX then d\<lparr>ud_sent := ud_sent d @ [ucast v], ud_busy := k\<rparr> else d)\<rparr>"

definition uart_potato_bus :: "nat \<Rightarrow> uart_dev bus" where
  "uart_potato_bus k = \<lparr>
     bus_read = (\<lambda>n a d.
       if a = UART_BASE + POTATO_CONSOLE_STATUS then
         ((if ud_in d = [] then 1 else 0) OR (if ud_busy d = 0 then 0 else 8), d\<lparr>ud_busy := ud_busy d - 1\<rparr>)
       else if a = UART_BASE + POTATO_CONSOLE_RX then
         (case ud_in d of [] \<Rightarrow> (0, d) | c # cs \<Rightarrow> (ucast c, d\<lparr>ud_in := cs\<rparr>))
       else (0, d)),
     bus_write = (\<lambda>n a v d.
       if a = UART_BASE + POTATO_CONSOLE_TX then d\<lparr>ud_sent := ud_sent d @ [ucast v], ud_busy := k\<rparr> else d)\<rparr>"

lemma ucast_ucast_byte [simp]: "(ucast (ucast c :: u64) :: byte) = c" for c :: byte
  by (rule bit_word_eqI) (simp add: bit_simps)

interpretation std_dev: uart_16550 "uart_16550_bus k" "\<lambda>_. True" ud_busy "\<lambda>_. 0" ud_sent ud_in for k
  by unfold_locales
    (auto simp: uart_16550_bus_def soc_consts bit_simps split: if_splits list.splits)

interpretation potato_dev: uart_potato "uart_potato_bus k" "\<lambda>_. True" ud_busy "\<lambda>_. 0" ud_sent ud_in for k
  by unfold_locales
    (auto simp: uart_potato_bus_def soc_consts bit_simps split: if_splits list.splits)

section \<open>Initialisation\<close>

lemma is_16550_bit: "v AND SYS_REG_UART_IS_16550 = 0 \<longleftrightarrow> \<not> bit v 32"
  using and_exp_eq_0_iff_not_bit [of v 32] by (simp add: SYS_REG_UART_IS_16550_def)

text \<open>What the initialisation writes, on a device that answers reads from a table.\<close>

definition has_16550 :: "(addr \<Rightarrow> u64) \<Rightarrow> bool" where
  "has_16550 regs \<longleftrightarrow> regs (SYSCON_BASE + SYS_REG_INFO) AND SYS_REG_INFO_HAS_LARGE_SYSCON \<noteq> 0 \<and>
     bit (regs (SYSCON_BASE + SYS_REG_UART0_INFO)) 32"

definition proc_clock :: "(addr \<Rightarrow> u64) \<Rightarrow> u64" where
  "proc_clock regs = regs (SYSCON_BASE + SYS_REG_CLKINFO) AND SYS_REG_CLKINFO_FREQ_MASK"

lemma console_init_log:
  "console_init (log_bus regs) s =
     (let s' = s\<lparr>uart_base := UART_BASE, uart_is_std := has_16550 regs\<rparr>
      in if has_16550 regs then std_uart_init (log_bus regs) (proc_clock regs) s'
         else potato_uart_init (log_bus regs) (proc_clock regs) s')"
  by (simp add: console_init_def readq_def Let_def has_16550_def proc_clock_def is_16550_bit)

lemma divisor_bytes:
  assumes "unat dv < 65536"
  shows "unat (ucast (dv AND 0xff :: u64) :: byte) + 256 * unat (ucast (drop_bit 8 dv) :: byte) = unat dv"
proof -
  have "unat (ucast dv :: byte) = unat dv mod 256"
    by (simp add: unsigned_ucast_eq take_bit_eq_mod)
  moreover have "unat (ucast (drop_bit 8 dv) :: byte) = unat dv div 256"
    using assms by (simp add: unsigned_ucast_eq take_bit_eq_mod drop_bit_eq_div unat_div less_mult_imp_div_less)
  ultimately show ?thesis by (simp only: ucast_and_255) simp
qed

lemma uart_divisor_bounds:
  "unat (uart_divisor f UART_BAUDS) * 1843200 \<le> unat f \<and> unat f < Suc (unat (uart_divisor f UART_BAUDS)) * 1843200"
proof -
  have "unat (uart_divisor f UART_BAUDS) = unat f div 1843200"
    by (simp add: uart_divisor_def UART_BAUDS_def unat_div)
  then show ?thesis using div_mult_mod_eq [of "unat f" 1843200] mod_less_divisor [of 1843200 "unat f"]
    by (simp add: algebra_simps)
qed

text \<open>Either UART, with the flag that selects it, is a console.\<close>

context uart_16550
begin

lemma std_console: "console io (\<lambda>s. uart_is_std s = True \<and> uart_base s = UART_BASE \<and> dok (dev s))
  (\<lambda>s. dsent (dev s)) (\<lambda>s. dinc (dev s))"
  using cons.console_axioms by simp

end

context uart_potato
begin

lemma potato_console: "console io (\<lambda>s. uart_is_std s = False \<and> uart_base s = UART_BASE \<and> dok (dev s))
  (\<lambda>s. dsent (dev s)) (\<lambda>s. dinc (dev s))"
  using cons.console_axioms by simp

end

lemma uart_console:
  assumes "if b then uart_16550 io dok dtx drx dsent dinc else uart_potato io dok dtx drx dsent dinc"
  shows "console io (\<lambda>s. uart_is_std s = b \<and> uart_base s = UART_BASE \<and> dok (dev s))
    (\<lambda>s. dsent (dev s)) (\<lambda>s. dinc (dev s))"
  using assms uart_16550.std_console [of io dok dtx drx dsent dinc]
    uart_potato.potato_console [of io dok dtx drx dsent dinc]
  by (cases b) simp_all

section \<open>Properties\<close>

text \<open>C9: With either UART, as long as the hardware keeps its register contract, \<open>puts\<close> returns after
  sending exactly the characters of the string, each line feed preceded by a carriage return; what
  has been received meanwhile is not lost.\<close>

theorem puts_sends_text:
  assumes "if uart_is_std s then uart_16550 io dok dtx drx dsent dinc
           else uart_potato io dok dtx drx dsent dinc"
    and "uart_base s = UART_BASE" and "dok (dev s)" and "cstr m str t"
  shows "\<exists>s'. puts io m str s = Some (0, s') \<and> uart_is_std s' = uart_is_std s \<and> dok (dev s') \<and>
    dsent (dev s') = dsent (dev s) @ crlf t \<and> dinc (dev s') = dinc (dev s)"
  using console.puts_sends [OF uart_console [OF assms(1)], of s m str t] assms(2-4) by auto

theorem puts_sends_text_witness:
  "\<exists>s'. puts (uart_16550_bus 3) (mwrite (\<lambda>_. 0) 10 [72, 105, 10]) 10
     \<lparr>uart_is_std = True, uart_base = UART_BASE, dev = \<lparr>ud_busy = 2, ud_sent = [], ud_in = []\<rparr>\<rparr> = Some (0, s') \<and>
     ud_sent (dev s') = [72, 105, 13, 10]"
  using puts_sends_text [of "\<lparr>uart_is_std = True, uart_base = UART_BASE,
        dev = \<lparr>ud_busy = 2, ud_sent = [], ud_in = []\<rparr>\<rparr>" "uart_16550_bus 3" "\<lambda>_. True" ud_busy "\<lambda>_. 0"
        ud_sent ud_in "mwrite (\<lambda>_. 0) 10 [72, 105, 10]" 10 "[72, 105, 10]"]
    std_dev.uart_16550_axioms [of 3]
  by (auto simp: crlf_def)

text \<open>With either UART, \<open>getchar\<close> returns the next received character, as an unsigned byte, as soon
  as there is one, and sends nothing.\<close>

theorem getchar_receives:
  assumes "if uart_is_std s then uart_16550 io dok dtx drx dsent dinc
           else uart_potato io dok dtx drx dsent dinc"
    and "uart_base s = UART_BASE" and "dok (dev s)" and "dinc (dev s) = c # cs"
  shows "\<exists>s'. getchar io s = Some (uint c, s') \<and> dok (dev s') \<and>
    dsent (dev s') = dsent (dev s) \<and> dinc (dev s') = cs"
  using console.get [OF uart_console [OF assms(1)], of s c cs] assms(2-4) by auto

theorem getchar_receives_witness:
  "\<exists>s'. getchar (uart_potato_bus 3)
     \<lparr>uart_is_std = False, uart_base = UART_BASE, dev = \<lparr>ud_busy = 0, ud_sent = [], ud_in = [200, 65]\<rparr>\<rparr> =
     Some (200, s') \<and> ud_in (dev s') = [65]"
  using getchar_receives [of "\<lparr>uart_is_std = False, uart_base = UART_BASE,
        dev = \<lparr>ud_busy = 0, ud_sent = [], ud_in = [200, 65]\<rparr>\<rparr>" "uart_potato_bus 3" "\<lambda>_. True" ud_busy "\<lambda>_. 0"
        ud_sent ud_in 200 "[65]"]
    potato_dev.uart_potato_axioms [of 3]
  by auto

text \<open>On a system with the standard UART, \<open>console_init\<close> opens the divisor latch, programs the
  largest divisor for which the line is at least as fast as 115200 baud for the given clock, closes
  the latch with 8-bit characters, and enables and clears the queues; this holds as long as the
  divisor fits the two latch bytes.\<close>

theorem console_init_programs_divisor:
  assumes "has_16550 regs" and "unat (proc_clock regs) < 65536 * 1843200"
  shows "\<exists>dll dlm. console_init (log_bus regs) s =
      \<lparr>uart_is_std = True, uart_base = UART_BASE, dev = dev s @
        [(1, UART_BASE + 12, 0x80), (1, UART_BASE, ucast (dll :: byte)), (1, UART_BASE + 4, ucast (dlm :: byte)),
         (1, UART_BASE + 12, 3), (1, UART_BASE + 16, 3), (1, UART_BASE + 8, 7)]\<rparr> \<and>
    (let d = unat dll + 256 * unat dlm
     in d * (16 * 115200) \<le> unat (proc_clock regs) \<and> unat (proc_clock regs) < Suc d * (16 * 115200))"
proof -
  let ?d = "uart_divisor (proc_clock regs) UART_BAUDS"
  have b: "unat ?d * 1843200 \<le> unat (proc_clock regs) \<and> unat (proc_clock regs) < Suc (unat ?d) * 1843200"
    by (rule uart_divisor_bounds)
  then have "unat ?d < 65536" using assms(2) by linarith
  from divisor_bytes [OF this] b assms(1) show ?thesis
    by (intro exI [of _ "ucast (?d AND 0xff)"] exI [of _ "ucast (drop_bit 8 ?d)"])
      (simp add: console_init_log std_uart_init_def writeb_def Let_def soc_consts)
qed

theorem console_init_programs_divisor_witness:
  "has_16550 (\<lambda>a. if a = SYSCON_BASE + SYS_REG_INFO then 32 else if a = SYSCON_BASE + SYS_REG_UART0_INFO
      then 0x100000000 else 100000000) \<and>
   (\<exists>dll dlm. unat (dll :: byte) + 256 * unat (dlm :: byte) = 54 \<and>
     dev (console_init (log_bus (\<lambda>a. if a = SYSCON_BASE + SYS_REG_INFO then 32 else
       if a = SYSCON_BASE + SYS_REG_UART0_INFO then 0x100000000 else 100000000))
       \<lparr>uart_is_std = False, uart_base = 0, dev = []\<rparr>) ! 1 = (1, UART_BASE, ucast dll))"
proof -
  let ?r = "\<lambda>a. if a = SYSCON_BASE + SYS_REG_INFO then 32 else
       if a = SYSCON_BASE + SYS_REG_UART0_INFO then 0x100000000 else (100000000 :: u64)"
  have h: "has_16550 ?r" and c: "proc_clock ?r = 100000000"
    by (simp_all add: has_16550_def proc_clock_def soc_consts bit_simps)
  from console_init_programs_divisor [of ?r "\<lparr>uart_is_std = False, uart_base = 0, dev = []\<rparr>"] h c
  obtain dll dlm where "console_init (log_bus ?r) \<lparr>uart_is_std = False, uart_base = 0, dev = []\<rparr> =
      \<lparr>uart_is_std = True, uart_base = UART_BASE, dev =
        [(1, UART_BASE + 12, 0x80), (1, UART_BASE, ucast (dll :: byte)), (1, UART_BASE + 4, ucast (dlm :: byte)),
         (1, UART_BASE + 12, 3), (1, UART_BASE + 16, 3), (1, UART_BASE + 8, 7)]\<rparr>"
    and "(unat dll + 256 * unat dlm) * 1843200 \<le> 100000000" "100000000 < Suc (unat dll + 256 * unat dlm) * 1843200"
    by (auto simp: Let_def)
  moreover have "d = 54" if "d * 1843200 \<le> 100000000" "100000000 < Suc d * 1843200" for d :: nat
    using that by simp
  note this [OF calculation(2,3)]
  ultimately show ?thesis using h by (intro conjI exI [of _ dll] exI [of _ dlm]) simp_all
qed

text \<open>The clock of the UART that the system reports does not matter: changing the low 32 bits of
  the UART information register, which hold that frequency, changes nothing in what
  \<open>console_init\<close> programs.\<close>

theorem console_init_ignores_uart_clock:
  assumes "drop_bit 32 v = drop_bit 32 (regs (SYSCON_BASE + SYS_REG_UART0_INFO))"
  shows "console_init (log_bus (regs(SYSCON_BASE + SYS_REG_UART0_INFO := v))) s =
    console_init (log_bus regs) s"
proof -
  have "bit v 32 = bit (regs (SYSCON_BASE + SYS_REG_UART0_INFO)) 32"
    using arg_cong [OF assms, of "\<lambda>w. bit w 0"] by (simp add: bit_drop_bit_eq)
  then have "has_16550 (regs(SYSCON_BASE + SYS_REG_UART0_INFO := v)) = has_16550 regs"
    and "proc_clock (regs(SYSCON_BASE + SYS_REG_UART0_INFO := v)) = proc_clock regs"
    by (simp_all add: has_16550_def proc_clock_def soc_consts)
  then show ?thesis
    by (simp add: console_init_log std_uart_init_def potato_uart_init_def potato_uart_reg_write_def io_defs Let_def)
qed

theorem console_init_ignores_uart_clock_witness:
  "console_init (log_bus ((\<lambda>_. 0x100000020)(SYSCON_BASE + SYS_REG_UART0_INFO := 0x105f5e100)))
     \<lparr>uart_is_std = False, uart_base = 0, dev = []\<rparr> =
   console_init (log_bus (\<lambda>_. 0x100000020)) \<lparr>uart_is_std = False, uart_base = 0, dev = []\<rparr>"
  using console_init_ignores_uart_clock [of "0x105f5e100" "\<lambda>_. 0x100000020"
      "\<lparr>uart_is_std = False, uart_base = 0, dev = []\<rparr>"] by simp
end
