(* ===== verification/Boot.thy ===== *)
theory Boot
  imports Libc_Printf_Total Console
begin

text \<open>
  The boot loader (\<open>litedram/gen-src/sdram_init/main.c\<close>): SPI flash detection, loading an ELF
  image from flash, copying the payload to DRAM, and the start-up sequence.

  The state \<open>machine\<close> is the memory and the console with its device.  The record \<open>env\<close> holds what
  a run does not change: the bus, where the linker and the stack put the string literals and the
  local variables whose address is taken (\<open>buffer\<close> of \<open>_printf\<close>, \<open>ehdr\<close> and \<open>ph\<close> of \<open>boot_flash\<close>),
  and the LiteX code that is not part of the repository (\<open>sdram_init\<close> and
  \<open>ddrctrl_init_done_read\<close>).  The flash is read through its memory window.  Cache maintenance has
  no effect on this state.  \<open>None\<close> is "does not return".
\<close>

record 'd machine =
  mc_mem :: mem
  mc_con :: "'d con"

record 'd env =
  en_bus :: "'d bus"
  en_frame :: frame
  en_buffer :: addr
  en_lit :: "string \<Rightarrow> addr"
  en_sha1 :: addr
  en_ehdr :: addr
  en_ph :: addr
  en_sdram_init :: "'d machine \<Rightarrow> 'd machine option"
  en_init_done :: "'d machine \<Rightarrow> u32 \<times> 'd machine"

section \<open>Register accesses and printing\<close>

definition mc_readb :: "'d env \<Rightarrow> addr \<Rightarrow> 'd machine \<Rightarrow> byte \<times> 'd machine" where
  "mc_readb e a s =
     (let (v, d) = readb (en_bus e) a (dev (mc_con s)) in (v, s\<lparr>mc_con := (mc_con s)\<lparr>dev := d\<rparr>\<rparr>))"

definition mc_readl :: "'d env \<Rightarrow> addr \<Rightarrow> 'd machine \<Rightarrow> u32 \<times> 'd machine" where
  "mc_readl e a s =
     (let (v, d) = readl (en_bus e) a (dev (mc_con s)) in (v, s\<lparr>mc_con := (mc_con s)\<lparr>dev := d\<rparr>\<rparr>))"

definition mc_readq :: "'d env \<Rightarrow> addr \<Rightarrow> 'd machine \<Rightarrow> u64 \<times> 'd machine" where
  "mc_readq e a s =
     (let (v, d) = readq (en_bus e) a (dev (mc_con s)) in (v, s\<lparr>mc_con := (mc_con s)\<lparr>dev := d\<rparr>\<rparr>))"

definition mc_writeb :: "'d env \<Rightarrow> byte \<Rightarrow> addr \<Rightarrow> 'd machine \<Rightarrow> 'd machine" where
  "mc_writeb e v a s = s\<lparr>mc_con := (mc_con s)\<lparr>dev := writeb (en_bus e) v a (dev (mc_con s))\<rparr>\<rparr>"

definition mc_writel :: "'d env \<Rightarrow> u32 \<Rightarrow> addr \<Rightarrow> 'd machine \<Rightarrow> 'd machine" where
  "mc_writel e v a s = s\<lparr>mc_con := (mc_con s)\<lparr>dev := writel (en_bus e) v a (dev (mc_con s))\<rparr>\<rparr>"

definition mc_writeq :: "'d env \<Rightarrow> u64 \<Rightarrow> addr \<Rightarrow> 'd machine \<Rightarrow> 'd machine" where
  "mc_writeq e v a s = s\<lparr>mc_con := (mc_con s)\<lparr>dev := writeq (en_bus e) v a (dev (mc_con s))\<rparr>\<rparr>"

definition printf_fn :: "'d env \<Rightarrow> addr \<Rightarrow> u64 list \<Rightarrow> 'd machine \<Rightarrow> (int \<times> 'd machine) option" where
  "printf_fn e fmt ap s =
     do { (count, m1) \<leftarrow> vsnprintf (en_frame e) (mc_mem s) (en_buffer e) 128 fmt ap;
          (_, c1) \<leftarrow> puts (en_bus e) m1 (en_buffer e) (mc_con s);
          Some (count, s\<lparr>mc_mem := m1, mc_con := c1\<rparr>) }"

text \<open>The macro \<open>printf\<close>, on a string literal.\<close>

definition printf :: "'d env \<Rightarrow> string \<Rightarrow> u64 list \<Rightarrow> 'd machine \<Rightarrow> 'd machine option" where
  "printf e lit ap s = map_option snd (printf_fn e (en_lit e lit) ap s)"

section \<open>SPI flash\<close>

definition SPI_CMD_RDID :: byte where [soc_consts]: "SPI_CMD_RDID = 0x9f"
definition SPI_CMD_QUAD_FREAD :: u32 where [soc_consts]: "SPI_CMD_QUAD_FREAD = 0x6b"
definition SPI_CMD_QUAD_FREAD_4BA :: u32 where [soc_consts]: "SPI_CMD_QUAD_FREAD_4BA = 0x6c"
definition SPI_CMD_RDCR :: byte where [soc_consts]: "SPI_CMD_RDCR = 0x35"
definition SPI_CMD_WREN :: byte where [soc_consts]: "SPI_CMD_WREN = 0x06"
definition SPI_CMD_RDSR :: byte where [soc_consts]: "SPI_CMD_RDSR = 0x05"
definition SPI_CMD_WWR :: byte where [soc_consts]: "SPI_CMD_WWR = 0x01"

definition fl_cs_on :: "'d env \<Rightarrow> 'd machine \<Rightarrow> 'd machine" where
  "fl_cs_on e s = mc_writeb e SPI_REG_CTRL_MANUAL_CS (SPI_FCTRL_BASE + SPI_REG_CTRL) s"

definition fl_cs_off :: "'d env \<Rightarrow> 'd machine \<Rightarrow> 'd machine" where
  "fl_cs_off e s = mc_writeb e 0 (SPI_FCTRL_BASE + SPI_REG_CTRL) s"

abbreviation spi_put :: "'d env \<Rightarrow> byte \<Rightarrow> 'd machine \<Rightarrow> 'd machine" where
  "spi_put e v s \<equiv> mc_writeb e v (SPI_FCTRL_BASE + SPI_REG_DATA) s"

abbreviation spi_get :: "'d env \<Rightarrow> 'd machine \<Rightarrow> byte \<times> 'd machine" where
  "spi_get e s \<equiv> mc_readb e (SPI_FCTRL_BASE + SPI_REG_DATA) s"

text \<open>One iteration of the loop of \<open>wait_wip\<close>: whether a write is still in progress.\<close>

definition wip_poll :: "'d env \<Rightarrow> 'd machine \<Rightarrow> bool \<times> 'd machine" where
  "wip_poll e s =
     (let (sr, s1) = spi_get e (spi_put e SPI_CMD_RDSR (fl_cs_on e s))
      in (sr AND 1 \<noteq> 0, fl_cs_off e s1))"

definition wait_wip :: "'d env \<Rightarrow> 'd machine \<Rightarrow> 'd machine option" where
  "wait_wip e s = wait_while (wip_poll e) s"

definition send_wren :: "'d env \<Rightarrow> 'd machine \<Rightarrow> 'd machine" where
  "send_wren e s = fl_cs_off e (spi_put e SPI_CMD_WREN (fl_cs_on e s))"

definition check_spansion_quad_mode :: "'d env \<Rightarrow> 'd machine \<Rightarrow> 'd machine option" where
  "check_spansion_quad_mode e s =
     do { let s1 = spi_put e SPI_CMD_RDCR (fl_cs_on e (spi_put e SPI_CMD_RDCR s));
          let (cf1, s2) = spi_get e s1;
          s3 \<leftarrow> printf e '' Cypress/Spansion (CF1=%02x)'' [ucast cf1] (fl_cs_off e s2);
          (if cf1 AND 0x02 \<noteq> 0 then Some s3
           else do { s4 \<leftarrow> printf e ''  enabling QUAD'' [] s3;
                     let s5 = fl_cs_on e (send_wren e s4);
                     let s6 = spi_put e (cf1 OR 0x02) (spi_put e 0x00 (spi_put e SPI_CMD_WWR s5));
                     let s7 = mc_writeb e 0 (SPI_FCTRL_BASE + SPI_REG_CTRL) s6;
                     wait_wip e (fl_cs_off e s7) }) }"

definition check_enable_issi_quad :: "'d env \<Rightarrow> 'd machine \<Rightarrow> (u32 \<times> 'd machine) option" where
  "check_enable_issi_quad e s =
     do { let (sr, s1) = spi_get e (spi_put e SPI_CMD_RDSR (fl_cs_on e s));
          let s2 = fl_cs_off e s1;
          s5 \<leftarrow> (if sr AND 0x40 = 0
                 then do { s3 \<leftarrow> printf e '' [enabling quad]'' [] s2;
                           let s4 = fl_cs_on e (send_wren e s3);
                           wait_wip e (fl_cs_off e (spi_put e (sr OR 0x40) (spi_put e SPI_CMD_WWR s4))) }
                 else Some s2);
          Some (SPI_CMD_QUAD_FREAD_4BA OR push_bit SPI_REG_AUTO_CFG_DUMMIES_SHIFT 0x07 OR
                SPI_REG_AUT_CFG_MODE_QUAD OR SPI_REG_AUTO_CFG_ADDR4 OR
                push_bit SPI_REG_AUTO_CFG_CSTOUT_SHIFT 0x20, s5) }"

text \<open>The default configuration for quad reads.\<close>

definition default_autocfg :: u32 where
  "default_autocfg = SPI_CMD_QUAD_FREAD OR push_bit SPI_REG_AUTO_CFG_DUMMIES_SHIFT 0x07 OR
     SPI_REG_AUT_CFG_MODE_QUAD OR push_bit SPI_REG_AUTO_CFG_CSTOUT_SHIFT 0x20"

text \<open>The three tests of the identification bytes.\<close>

definition is_spansion :: "byte \<Rightarrow> byte \<Rightarrow> byte \<Rightarrow> bool" where
  "is_spansion id0 id1 id2 \<longleftrightarrow> id0 = 0x01 \<and> (id1 = 0x02 \<or> id1 = 0x20 \<or> id1 = 0x60) \<and> (id2 = 0x18 \<or> id2 = 0x19)"

definition is_micron :: "byte \<Rightarrow> byte \<Rightarrow> byte \<Rightarrow> bool" where
  "is_micron id0 id1 id2 \<longleftrightarrow> id0 = 0x20 \<and> id1 = 0xba \<and> id2 = 0x18"

definition is_issi :: "byte \<Rightarrow> byte \<Rightarrow> byte \<Rightarrow> bool" where
  "is_issi id0 id1 id2 \<longleftrightarrow> id0 = 0x9d \<and> id1 AND NOT 0x10 = 0x60 \<and> id2 = 0x19"

text \<open>The switch to quad mode keeps the clock divider of the board.\<close>

definition set_quad_mode :: "'d env \<Rightarrow> u32 \<Rightarrow> 'd machine \<Rightarrow> 'd machine option" where
  "set_quad_mode e autocfg s =
     do { s1 \<leftarrow> printf e '' [quad IO mode]'' [] s;
          let (cfg, s2) = mc_readl e (SPI_FCTRL_BASE + SPI_REG_AUTO_CFG) s1;
          Some (mc_writel e ((cfg AND SPI_REG_AUTO_CFG_CKDIV_MASK) OR autocfg)
                  (SPI_FCTRL_BASE + SPI_REG_AUTO_CFG) s2) }"

definition check_flash :: "'d env \<Rightarrow> 'd machine \<Rightarrow> (bool \<times> 'd machine) option" where
  "check_flash e s =
     do { let (id0, s1) = spi_get e (spi_put e SPI_CMD_RDID (fl_cs_on e s));
          let (id1, s2) = spi_get e s1;
          let (id2, s3) = spi_get e s2;
          s4 \<leftarrow> printf e ''  SPI FLASH ID: %02x%02x%02x'' [ucast id0, ucast id1, ucast id2] (fl_cs_off e s3);
          (if id0 OR id1 OR id2 = 0 \<or> id0 AND id1 AND id2 = 0xff then Some (False, s4)
           else do { s5 \<leftarrow> (if is_spansion id0 id1 id2 then check_spansion_quad_mode e s4 else Some s4);
                     s6 \<leftarrow> (if is_micron id0 id1 id2 then printf e '' Micron'' [] s5 else Some s5);
                     (autocfg, s7) \<leftarrow> (if is_issi id0 id1 id2
                        then do { s' \<leftarrow> printf e '' ISSI'' [] s6; check_enable_issi_quad e s' }
                        else Some (default_autocfg, s6));
                     s8 \<leftarrow> (if is_spansion id0 id1 id2 \<or> is_micron id0 id1 id2 \<or> is_issi id0 id1 id2
                            then set_quad_mode e autocfg s7 else Some s7);
                     s9 \<leftarrow> printf e [CHR 0x0A] [] s8;
                     Some (True, s9) }) }"

section \<open>Loading an ELF image\<close>

text \<open>The window address of a flash offset; the sum is computed with 32 bits.\<close>

definition flash_addr :: "u32 \<Rightarrow> addr" where
  "flash_addr offset = ucast (SPI_FLASH_BASE + offset)"

definition fl_read :: "'d env \<Rightarrow> addr \<Rightarrow> u32 \<Rightarrow> u32 \<Rightarrow> 'd machine \<Rightarrow> bool \<times> 'd machine" where
  "fl_read e dst offset sz s =
     (True, s\<lparr>mc_mem := snd (memcpy (mc_mem s) dst (flash_addr offset) (ucast sz))\<rparr>)"

text \<open>The fields of \<open>Elf64_Ehdr\<close> and \<open>Elf64_Phdr\<close> that the loader reads, at their offsets.\<close>

definition ld :: "mem \<Rightarrow> addr \<Rightarrow> nat \<Rightarrow> u64" where
  "ld m a n = le_val (mread m a n)"

definition e_ident :: "mem \<Rightarrow> addr \<Rightarrow> nat \<Rightarrow> byte" where "e_ident m h i = m (h + of_nat i)"
definition e_machine :: "mem \<Rightarrow> addr \<Rightarrow> u64" where "e_machine m h = ld m (h + 18) 2"
definition e_entry :: "mem \<Rightarrow> addr \<Rightarrow> u64" where "e_entry m h = ld m (h + 24) 8"
definition e_phoff :: "mem \<Rightarrow> addr \<Rightarrow> u64" where "e_phoff m h = ld m (h + 32) 8"
definition e_phentsize :: "mem \<Rightarrow> addr \<Rightarrow> u64" where "e_phentsize m h = ld m (h + 54) 2"
definition e_phnum :: "mem \<Rightarrow> addr \<Rightarrow> u64" where "e_phnum m h = ld m (h + 56) 2"
definition p_type :: "mem \<Rightarrow> addr \<Rightarrow> u64" where "p_type m h = ld m h 4"
definition p_offset :: "mem \<Rightarrow> addr \<Rightarrow> u64" where "p_offset m h = ld m (h + 8) 8"
definition p_vaddr :: "mem \<Rightarrow> addr \<Rightarrow> u64" where "p_vaddr m h = ld m (h + 16) 8"
definition p_filesz :: "mem \<Rightarrow> addr \<Rightarrow> u64" where "p_filesz m h = ld m (h + 32) 8"

definition PT_LOAD :: u64 where "PT_LOAD = 1"

definition is_elf64 :: "mem \<Rightarrow> addr \<Rightarrow> bool" where
  "is_elf64 m h \<longleftrightarrow> e_ident m h 0 = 0x7f \<and> e_ident m h 1 = chr CHR ''E'' \<and> e_ident m h 2 = chr CHR ''L'' \<and>
     e_ident m h 3 = chr CHR ''F'' \<and> e_ident m h 4 = 2"

definition is_ppc64le :: "mem \<Rightarrow> addr \<Rightarrow> bool" where
  "is_ppc64le m h \<longleftrightarrow> e_ident m h 5 = 1 \<and> e_machine m h = 21"

text \<open>One iteration of the loop over the program headers: the new offset of the header, or \<open>Inl\<close> for
  the jump to \<open>dump\<close>.  A header that is not loadable is skipped without advancing the offset.\<close>

definition boot_flash_step ::
  "'d env \<Rightarrow> u32 \<Rightarrow> u32 \<Rightarrow> u32 \<Rightarrow> 'd machine \<Rightarrow> ('d machine + u32 \<times> 'd machine) option" where
  "boot_flash_step e offset i poff s =
     (let (ok, s1) = fl_read e (en_ph e) poff 56 s; ph = en_ph e; m = mc_mem s1
      in if \<not> ok then Some (Inl s1)
         else if p_type m ph \<noteq> PT_LOAD then Some (Inr (poff, s1))
         else let sz = ucast (p_filesz m ph) :: u32; addr = p_vaddr m ph;
                  off = offset + ucast (p_offset m ph)
              in do { s2 \<leftarrow> printf e (''Copy segment %d (0x%x bytes) to %p'' @ [CHR 0x0A]) [ucast i, ucast sz, addr] s1;
                      let (_, s3) = fl_read e addr off sz s2;
                      Some (Inr (poff + ucast (e_phentsize (mc_mem s3) (en_ehdr e)), s3)) })"

partial_function (option) boot_flash_loop ::
  "'d env \<Rightarrow> u32 \<Rightarrow> u32 \<Rightarrow> u32 \<Rightarrow> 'd machine \<Rightarrow> ('d machine + 'd machine) option" where
  "boot_flash_loop e offset i poff s =
     (if i < ucast (e_phnum (mc_mem s) (en_ehdr e)) then
        do { r \<leftarrow> boot_flash_step e offset i poff s;
             (case r of Inl s1 \<Rightarrow> Some (Inl s1)
              | Inr (poff1, s1) \<Rightarrow> boot_flash_loop e offset (i + 1) poff1 s1) }
      else Some (Inr s))"

definition boot_flash_dump :: "'d env \<Rightarrow> 'd machine \<Rightarrow> (u64 \<times> 'd machine) option" where
  "boot_flash_dump e s =
     do { s1 \<leftarrow> printf e (''HDR: %02x %02x %02x %02x %02x %02x %02x %02x'' @ [CHR 0x0A])
            (map (\<lambda>i. ucast (e_ident (mc_mem s) (en_ehdr e) i)) [0..<8]) s;
          Some (- 1, s1) }"

definition boot_flash :: "'d env \<Rightarrow> u32 \<Rightarrow> 'd machine \<Rightarrow> (u64 \<times> 'd machine) option" where
  "boot_flash e offset s =
     do { s1 \<leftarrow> printf e (''Trying flash...'' @ [CHR 0x0A]) [] s;
          let (ok, s2) = fl_read e (en_ehdr e) offset 64 s1;
          let h = en_ehdr e;
          (if \<not> ok then Some (- 1, s2)
           else if \<not> is_elf64 (mc_mem s2) h
           then do { s3 \<leftarrow> printf e (''Doesn'' @ [CHR 0x27] @ ''t look like an elf64'' @ [CHR 0x0A]) [] s2; boot_flash_dump e s3 }
           else if \<not> is_ppc64le (mc_mem s2) h
           then do { s3 \<leftarrow> printf e (''Not a ppc64le binary'' @ [CHR 0x0A]) [] s2; boot_flash_dump e s3 }
           else do { r \<leftarrow> boot_flash_loop e offset 0 (offset + ucast (e_phoff (mc_mem s2) h)) s2;
                     (case r of
                        Inl s3 \<Rightarrow> boot_flash_dump e s3
                      | Inr s3 \<Rightarrow>
                          do { s4 \<leftarrow> printf e (''Booting from DRAM at %x'' @ [CHR 0x0A])
                                 [ucast (ucast (e_entry (mc_mem s3) h) :: u32)] s3;
                               Some (e_entry (mc_mem s4) h, s4) }) }) }"

definition boot_sdram :: "'d env \<Rightarrow> 'd machine \<Rightarrow> 'd machine option" where
  "boot_sdram e s =
     do { s1 \<leftarrow> printf e (''Copying payload to DRAM...'' @ [CHR 0x0A]) [] s;
          let s2 = s1\<lparr>mc_mem := snd (memcpy (mc_mem s1) DRAM_BASE (DRAM_INIT_BASE + 0x6000) (0x10000 - 0x6000))\<rparr>;
          printf e (''Booting from DRAM...'' @ [CHR 0x0A]) [] s2 }"


section \<open>Start-up\<close>

definition print_feature :: "'d env \<Rightarrow> u64 \<Rightarrow> u64 \<Rightarrow> string \<Rightarrow> 'd machine \<Rightarrow> 'd machine option" where
  "print_feature e ftr flag lit s = (if ftr AND flag \<noteq> 0 then printf e lit [] s else Some s)"

definition print_features :: "'d env \<Rightarrow> u64 \<Rightarrow> 'd machine \<Rightarrow> 'd machine option" where
  "print_features e ftr s =
     do { s1 \<leftarrow> print_feature e ftr SYS_REG_INFO_HAS_UART ''UART '' s;
          s2 \<leftarrow> print_feature e ftr SYS_REG_INFO_HAS_DRAM ''DRAM '' s1;
          s3 \<leftarrow> print_feature e ftr SYS_REG_INFO_HAS_BRAM ''BRAM '' s2;
          s4 \<leftarrow> print_feature e ftr SYS_REG_INFO_HAS_SPI_FLASH ''SPIFLASH '' s3;
          s5 \<leftarrow> print_feature e ftr SYS_REG_INFO_HAS_LITEETH ''ETHERNET '' s4;
          s6 \<leftarrow> print_feature e ftr SYS_REG_INFO_HAS_LITESDCARD ''SDCARD '' s5;
          printf e [CHR 0x0A] [] s6 }"

definition print_sizes :: "'d env \<Rightarrow> u64 \<Rightarrow> 'd machine \<Rightarrow> 'd machine option" where
  "print_sizes e ftr s =
     do { s1 \<leftarrow> (if ftr AND SYS_REG_INFO_HAS_BRAM \<noteq> 0
                 then do { let (v, s') = mc_readq e (SYSCON_BASE + SYS_REG_BRAMINFO) s;
                           printf e (''          BRAM: %ld KB'' @ [CHR 0x0A])
                             [(v AND SYS_REG_BRAMINFO_SIZE_MASK) div 1024] s' }
                 else Some s);
          s2 \<leftarrow> (if ftr AND SYS_REG_INFO_HAS_DRAM \<noteq> 0
                 then do { let (v, s') = mc_readq e (SYSCON_BASE + SYS_REG_DRAMINFO) s1;
                           s'' \<leftarrow> printf e (''          DRAM: %ld MB'' @ [CHR 0x0A])
                             [(v AND SYS_REG_DRAMINFO_SIZE_MASK) div (1024 * 1024)] s';
                           let (w, t) = mc_readq e (SYSCON_BASE + SYS_REG_DRAMINITINFO) s'';
                           printf e (''     DRAM INIT: %ld KB'' @ [CHR 0x0A]) [w div 1024] t }
                 else Some s1);
          let (clk, s3) = mc_readq e (SYSCON_BASE + SYS_REG_CLKINFO) s2;
          printf e (''           CLK: %ld MHz'' @ [CHR 0x0A])
            [(clk AND SYS_REG_CLKINFO_FREQ_MASK) div 1000000] s3 }"

text \<open>The result of \<open>check_flash\<close> is overwritten, so the flash is tried whatever the check says.\<close>

definition probe_flash :: "'d env \<Rightarrow> u64 \<Rightarrow> 'd machine \<Rightarrow> (bool \<times> u32 \<times> 'd machine) option" where
  "probe_flash e ftr s =
     (if ftr AND SYS_REG_INFO_HAS_SPI_FLASH \<noteq> 0
      then do { let (val, s1) = mc_readq e (SYSCON_BASE + SYS_REG_SPI_INFO) s;
                (_, s2) \<leftarrow> check_flash e s1;
                let fl_off = (ucast (val AND SYS_REG_SPI_INFO_FLASH_OFF_MASK) :: u32);
                s3 \<leftarrow> printf e ('' SPI FLASH OFF: 0x%x bytes'' @ [CHR 0x0A]) [ucast fl_off] s2;
                Some (True, fl_off, s3) }
      else Some (False, 0, s))"

definition init_dram :: "'d env \<Rightarrow> u64 \<Rightarrow> 'd machine \<Rightarrow> 'd machine option" where
  "init_dram e ftr s =
     (if ftr AND SYS_REG_INFO_HAS_DRAM \<noteq> 0
      then (let (don, s1) = en_init_done e s
            in if don = 0
               then do { s2 \<leftarrow> printf e (''LiteDRAM built from LiteX %s'' @ [CHR 0x0A]) [en_sha1 e] s1;
                         en_sdram_init e s2 }
               else Some s1)
      else Some s)"

definition main_fn :: "'d env \<Rightarrow> 'd machine \<Rightarrow> (u64 \<times> 'd machine) option" where
  "main_fn e s =
     do { let s0 = s\<lparr>mc_con := console_init (en_bus e) (mc_con s)\<rparr>;
          s1 \<leftarrow> printf e ([CHR 0x0A, CHR 0x0A] @ ''Welcome to Microwatt !'' @ [CHR 0x0A, CHR 0x0A]) [] s0;
          let (sig, s2) = mc_readq e (SYSCON_BASE + SYS_REG_SIGNATURE) s1;
          s3 \<leftarrow> printf e ('' Soc signature: %016llx'' @ [CHR 0x0A]) [sig] s2;
          s4 \<leftarrow> printf e ''  Soc features: '' [] s3;
          let (ftr, s5) = mc_readq e (SYSCON_BASE + SYS_REG_INFO) s4;
          s6 \<leftarrow> print_features e ftr s5;
          s7 \<leftarrow> print_sizes e ftr s6;
          (try_flash, fl_off, s8) \<leftarrow> probe_flash e ftr s7;
          s9 \<leftarrow> printf e [CHR 0x0A] [] s8;
          s10 \<leftarrow> init_dram e ftr s9;
          let (val, s11) = mc_readq e (SYSCON_BASE + SYS_REG_CTRL) s10;
          let s12 = mc_writeq e (val AND NOT SYS_REG_CTRL_ALT_RESET) (SYSCON_BASE + SYS_REG_CTRL) s11;
          (if ftr AND SYS_REG_INFO_HAS_BRAM \<noteq> 0
           then do { s13 \<leftarrow> printf e (''Booting from BRAM...'' @ [CHR 0x0A]) [] s12; Some (0, s13) }
           else do { (val, s13) \<leftarrow> (if try_flash then boot_flash e fl_off s12 else Some (- 1, s12));
                     (if try_flash \<and> val \<noteq> - 1 then Some (val, s13)
                      else do { s14 \<leftarrow> boot_sdram e s13; Some (0, s14) }) }) }"

end
