(* ===== verification/Boot_Load.thy ===== *)
theory Boot_Load
  imports Boot
begin

text \<open>
  The loader of the boot firmware meets its specification.  \<open>load_spec\<close> says what the memory is
  after loading; \<open>print_ok\<close> and \<open>layout\<close> say that the literals are in place and that the loader's
  variables, the flash window and the literals are apart; \<open>loader_inv\<close> is the invariant of the
  loop over the program headers.  The console is used only through the interface \<open>console\<close>.
\<close>

section \<open>Printing in a boot environment\<close>

text \<open>What printing writes to: the buffer of \<open>_printf\<close> and the byte after it, and the local arrays
  of the printer.\<close>

definition scratch :: "'d env \<Rightarrow> addr \<Rightarrow> bool" where
  "scratch e x \<longleftrightarrow> in_region x (en_buffer e) 129 \<or> in_region x (fr_formstr (en_frame e)) 20 \<or>
     in_region x (fr_sizec (en_frame e)) 32"

definition lit_ok :: "'d env \<Rightarrow> mem \<Rightarrow> string \<Rightarrow> bool" where
  "lit_ok e m l \<longleftrightarrow> stays (en_frame e) (en_buffer e) 129 m (en_lit e l) (ascii l)"

definition print_ok :: "'d env \<Rightarrow> mem \<Rightarrow> string set \<Rightarrow> bool" where
  "print_ok e m ls \<longleftrightarrow> fmt_frame (en_frame e) (en_buffer e) 129 \<and> en_buffer e \<noteq> 0 \<and>
     stays (en_frame e) (en_buffer e) 129 m (fr_0x (en_frame e)) (ascii ''0x'') \<and> (\<forall>l \<in> ls. lit_ok e m l)"

text \<open>The conversions of a literal are all numeric and there are \<open>n\<close> of them.\<close>

definition num_format :: "string \<Rightarrow> nat \<Rightarrow> bool" where
  "num_format l n \<longleftrightarrow> (case fmt_convs (ascii l) of None \<Rightarrow> False
     | Some ks \<Rightarrow> length ks \<le> n \<and> chr CHR ''s'' \<notin> set ks)"

lemma stays_mono: "stays fr start n m a t \<Longrightarrow> k \<le> n \<Longrightarrow> stays fr start k m a t"
  by (auto simp: stays_def apart_def in_region_def)

lemma fmt_frame_mono: "fmt_frame fr start n \<Longrightarrow> k \<le> n \<Longrightarrow> fmt_frame fr start k"
  by (auto simp: fmt_frame_def apart_def in_region_def)

lemma fmt_args_num:
  "length ks \<le> length args \<Longrightarrow> chr CHR ''s'' \<notin> set ks \<Longrightarrow> fmt_args fr start n m ks args"
proof (induction ks arbitrary: args)
  case (Cons k ks)
  then show ?case by (cases args) auto
qed simp

lemma print_ok_ready:
  assumes "print_ok e m ls" and "l \<in> ls" and "num_format l (length args)"
  shows "fmt_ready (en_frame e) (en_buffer e) 128 m (en_lit e l) (ascii l) args"
proof -
  obtain ks where "fmt_convs (ascii l) = Some ks" "length ks \<le> length args" "chr CHR ''s'' \<notin> set ks"
    using assms(3) by (auto simp: num_format_def split: option.splits)
  with assms(1,2) show ?thesis
    by (auto simp: fmt_ready_def print_ok_def lit_ok_def
        intro: stays_mono fmt_frame_mono fmt_args_num)
qed

lemma stays_scratch:
  assumes "stays (en_frame e) (en_buffer e) 129 m a t" and "\<And>x. \<not> scratch e x \<Longrightarrow> m' x = m x"
  shows "stays (en_frame e) (en_buffer e) 129 m' a t"
  using assms cstr_cong [of a t m m'] by (auto simp: stays_def apart_def scratch_def)

lemma print_ok_scratch:
  "print_ok e m ls \<Longrightarrow> (\<And>x. \<not> scratch e x \<Longrightarrow> m' x = m x) \<Longrightarrow> print_ok e m' ls"
  by (auto simp: print_ok_def lit_ok_def intro: stays_scratch)

text \<open>In a console, and with its literals in place, \<open>printf\<close> returns and touches only its scratch
  memory.\<close>

lemma printf_ready:
  assumes "console (en_bus e) ok sent incoming" and "ok (mc_con s)" and "print_ok e (mc_mem s) ls"
    and ready: "fmt_ready (en_frame e) (en_buffer e) 128 (mc_mem s) (en_lit e l) (ascii l) args"
  shows "\<exists>s'. printf e l args s = Some s' \<and> ok (mc_con s') \<and>
    (\<forall>x. \<not> scratch e x \<longrightarrow> mc_mem s' x = mc_mem s x)"
proof -
  obtain r m' t where v: "vsnprintf (en_frame e) (mc_mem s) (en_buffer e) 128 (en_lit e l) args = Some (r, m')"
    and t: "cstr m' (en_buffer e) t"
    and same: "\<forall>x. \<not> in_region x (en_buffer e) (Suc 128) \<longrightarrow> \<not> in_region x (fr_formstr (en_frame e)) 20 \<longrightarrow>
         \<not> in_region x (fr_sizec (en_frame e)) 32 \<longrightarrow> m' x = mc_mem s x"
    using vsnprintf_bounded [OF ready] assms(3) by (auto simp: print_ok_def)
  obtain c' where "puts (en_bus e) m' (en_buffer e) (mc_con s) = Some (0, c')" "ok c'"
    using console.puts_sends [OF assms(1,2) t] by blast
  with v same show ?thesis by (auto simp: printf_def printf_fn_def scratch_def)
qed

lemma printf_returns:
  assumes "console (en_bus e) ok sent incoming" and "ok (mc_con s)"
    and "print_ok e (mc_mem s) ls" and "l \<in> ls" and "num_format l (length args)"
  shows "\<exists>s'. printf e l args s = Some s' \<and> ok (mc_con s') \<and>
    (\<forall>x. \<not> scratch e x \<longrightarrow> mc_mem s' x = mc_mem s x)"
  by (rule printf_ready [OF assms(1-3) print_ok_ready [OF assms(3-5)]])

section \<open>Loading segments\<close>

text \<open>The window of the flash ends where the memory of the start-up program begins, at \<open>DRAM_INIT_BASE\<close>: its code, its data and its stack
  (\<open>head.S\<close>, \<open>sdram_init.lds.S\<close>) are there.\<close>

definition flash :: "addr \<Rightarrow> bool" where
  "flash x \<longleftrightarrow> in_region x (ucast SPI_FLASH_BASE) (unat (DRAM_INIT_BASE - ucast SPI_FLASH_BASE))"

lemma flash_eq: "flash x \<longleftrightarrow> in_region x 0xf0000000 0xf000000"
  by (simp add: flash_def SPI_FLASH_BASE_def DRAM_INIT_BASE_def)

definition loader_area :: "'d env \<Rightarrow> addr \<Rightarrow> bool" where
  "loader_area e x \<longleftrightarrow> scratch e x \<or> in_region x (en_ehdr e) 64 \<or> in_region x (en_ph e) 56"

definition lit_area :: "'d env \<Rightarrow> string set \<Rightarrow> addr \<Rightarrow> bool" where
  "lit_area e ls x \<longleftrightarrow> in_region x (fr_0x (en_frame e)) 3 \<or> (\<exists>l \<in> ls. in_region x (en_lit e l) (Suc (length l)))"

definition reserved :: "'d env \<Rightarrow> string set \<Rightarrow> addr \<Rightarrow> bool" where
  "reserved e ls x \<longleftrightarrow> loader_area e x \<or> flash x \<or> lit_area e ls x"

text \<open>The loader's variables are apart from each other, from the flash and from the literals.\<close>

definition layout :: "'d env \<Rightarrow> string set \<Rightarrow> bool" where
  "layout e ls \<longleftrightarrow> (\<forall>x. loader_area e x \<longrightarrow> \<not> flash x \<and> \<not> lit_area e ls x) \<and>
     (\<forall>x. in_region x (en_ehdr e) 64 \<longrightarrow> \<not> scratch e x \<and> \<not> in_region x (en_ph e) 56)"

text \<open>The image in memory after loading: the contents of the loadable segments, up to the first
  program header that is not loadable.\<close>

fun load_spec :: "mem \<Rightarrow> u32 \<Rightarrow> u32 \<Rightarrow> nat \<Rightarrow> u32 \<Rightarrow> mem \<Rightarrow> mem" where
  "load_spec fm offset ent 0 poff M = M"
| "load_spec fm offset ent (Suc n) poff M =
     (let ph = flash_addr poff
      in if p_type fm ph = PT_LOAD
         then load_spec fm offset ent n (poff + ent)
                (mwrite M (p_vaddr fm ph)
                   (mread fm (flash_addr (offset + ucast (p_offset fm ph))) (unat (ucast (p_filesz fm ph) :: u32))))
         else M)"

text \<open>The headers and the contents read lie in the flash, and no segment goes to reserved memory.\<close>

fun segs_ok :: "'d env \<Rightarrow> string set \<Rightarrow> mem \<Rightarrow> u32 \<Rightarrow> u32 \<Rightarrow> nat \<Rightarrow> u32 \<Rightarrow> bool" where
  "segs_ok e ls fm offset ent 0 poff \<longleftrightarrow> True"
| "segs_ok e ls fm offset ent (Suc n) poff \<longleftrightarrow>
     (let ph = flash_addr poff; sz = unat (ucast (p_filesz fm ph) :: u32)
      in (\<forall>x. in_region x ph 56 \<longrightarrow> flash x) \<and>
         (p_type fm ph = PT_LOAD \<longrightarrow>
            (\<forall>x. in_region x (flash_addr (offset + ucast (p_offset fm ph))) sz \<longrightarrow> flash x) \<and>
            (\<forall>x. in_region x (p_vaddr fm ph) sz \<longrightarrow> \<not> reserved e ls x) \<and>
            segs_ok e ls fm offset ent n (poff + ent)))"

lemma load_spec_stuck: "p_type fm (flash_addr poff) \<noteq> PT_LOAD \<Longrightarrow> load_spec fm offset ent n poff M = M"
  by (cases n) (simp_all add: Let_def)

lemma segs_ok_stuck:
  "p_type fm (flash_addr poff) \<noteq> PT_LOAD \<Longrightarrow> segs_ok e ls fm offset ent (Suc n) poff \<Longrightarrow>
   segs_ok e ls fm offset ent n poff"
  by (cases n) (simp_all only: segs_ok.simps Let_def simp_thms)

lemma mwrite_cong_at: "m x = M x \<Longrightarrow> mwrite m a bs x = mwrite M a bs x"
proof (induction bs arbitrary: m M a)
  case (Cons b bs)
  have "(m(a := b)) x = (M(a := b)) x" using Cons.prems by (simp only: fun_upd_apply)
  from Cons.IH [of "m(a := b)" "M(a := b)" "a + 1", OF this] show ?case by (simp only: mwrite.simps)
qed simp

lemma mread_sub: "k + n \<le> N \<Longrightarrow> mread m (a + of_nat k) n = take n (drop k (mread m a N))"
proof -
  assume "k + n \<le> N"
  then obtain r where N: "N = k + (n + r)" by (metis add.assoc le_Suc_ex)
  show ?thesis by (simp add: N mread_add)
qed

lemma ld_block: "mread m a N = mread m' b N \<Longrightarrow> k + n \<le> N \<Longrightarrow> ld m (a + of_nat k) n = ld m' (b + of_nat k) n"
  by (simp add: ld_def mread_sub)

lemma ehdr_fields:
  assumes "mread m a 64 = mread m' b 64"
  shows "e_machine m a = e_machine m' b" "e_entry m a = e_entry m' b" "e_phoff m a = e_phoff m' b"
    "e_phentsize m a = e_phentsize m' b" "e_phnum m a = e_phnum m' b" "i < 64 \<Longrightarrow> e_ident m a i = e_ident m' b i"
  using ld_block [OF assms, of 18 2] ld_block [OF assms, of 24 8] ld_block [OF assms, of 32 8]
    ld_block [OF assms, of 54 2] ld_block [OF assms, of 56 2] mread_nth [of i 64 m a] mread_nth [of i 64 m' b] assms
  by (simp_all add: e_machine_def e_entry_def e_phoff_def e_phentsize_def e_phnum_def e_ident_def
      del: mread_numeral)

lemma phdr_fields:
  assumes "mread m a 56 = mread m' b 56"
  shows "p_type m a = p_type m' b" "p_offset m a = p_offset m' b" "p_vaddr m a = p_vaddr m' b"
    "p_filesz m a = p_filesz m' b"
  using ld_block [OF assms, of 0 4] ld_block [OF assms, of 8 8] ld_block [OF assms, of 16 8]
    ld_block [OF assms, of 32 8]
  by (simp_all add: p_type_def p_offset_def p_vaddr_def p_filesz_def del: mread_numeral)

lemma is_elf64_block: "mread m a 64 = mread m' b 64 \<Longrightarrow> is_elf64 m a = is_elf64 m' b \<and> is_ppc64le m a = is_ppc64le m' b"
  by (simp add: is_elf64_def is_ppc64le_def ehdr_fields [of m a m' b] del: mread_numeral)

definition boot_lits :: "string set" where
  "boot_lits = {''Trying flash...'' @ [CHR 0x0A], ''Doesn'' @ [CHR 0x27] @ ''t look like an elf64'' @ [CHR 0x0A],
     ''Not a ppc64le binary'' @ [CHR 0x0A], ''Copy segment %d (0x%x bytes) to %p'' @ [CHR 0x0A],
     ''Booting from DRAM at %x'' @ [CHR 0x0A],
     ''HDR: %02x %02x %02x %02x %02x %02x %02x %02x'' @ [CHR 0x0A],
     ''Copying payload to DRAM...'' @ [CHR 0x0A], ''Booting from DRAM...'' @ [CHR 0x0A]}"

lemma boot_lits_formats:
  "num_format (''Trying flash...'' @ [CHR 0x0A]) 0"
  "num_format (''Doesn'' @ [CHR 0x27] @ ''t look like an elf64'' @ [CHR 0x0A]) 0"
  "num_format (''Not a ppc64le binary'' @ [CHR 0x0A]) 0"
  "num_format (''Copy segment %d (0x%x bytes) to %p'' @ [CHR 0x0A]) 3"
  "num_format (''Booting from DRAM at %x'' @ [CHR 0x0A]) 1"
  "num_format (''HDR: %02x %02x %02x %02x %02x %02x %02x %02x'' @ [CHR 0x0A]) 8"
  "num_format (''Copying payload to DRAM...'' @ [CHR 0x0A]) 0"
  "num_format (''Booting from DRAM...'' @ [CHR 0x0A]) 0"
  by (simp_all add: num_format_def ends_spec_def)

text \<open>The state of the loader between two steps: \<open>fm\<close> is the memory at the start, \<open>M\<close> the memory
  that the segments loaded so far should give.\<close>

definition loader_inv ::
  "'d env \<Rightarrow> ('d con \<Rightarrow> bool) \<Rightarrow> mem \<Rightarrow> u32 \<Rightarrow> 'd machine \<Rightarrow> mem \<Rightarrow> bool" where
  "loader_inv e ok fm offset s M \<longleftrightarrow> ok (mc_con s) \<and> print_ok e (mc_mem s) boot_lits \<and>
     (\<forall>x. flash x \<longrightarrow> mc_mem s x = fm x) \<and> (\<forall>x. \<not> reserved e boot_lits x \<longrightarrow> mc_mem s x = M x) \<and>
     mread (mc_mem s) (en_ehdr e) 64 = mread fm (flash_addr offset) 64"

lemma loader_invD:
  assumes "loader_inv e ok fm offset s M"
  shows "ok (mc_con s)" "print_ok e (mc_mem s) boot_lits" "flash x \<Longrightarrow> mc_mem s x = fm x"
    "\<not> reserved e boot_lits x \<Longrightarrow> mc_mem s x = M x"
    "mread (mc_mem s) (en_ehdr e) 64 = mread fm (flash_addr offset) 64"
  using assms unfolding loader_inv_def by blast+

lemma loader_invI:
  assumes "ok (mc_con s)" "print_ok e (mc_mem s) boot_lits" "\<And>x. flash x \<Longrightarrow> mc_mem s x = fm x"
    "\<And>x. \<not> reserved e boot_lits x \<Longrightarrow> mc_mem s x = M x"
    "mread (mc_mem s) (en_ehdr e) 64 = mread fm (flash_addr offset) 64"
  shows "loader_inv e ok fm offset s M"
  using assms unfolding loader_inv_def by blast

lemma print_ok_lits:
  assumes "print_ok e m ls" and "\<And>x. lit_area e ls x \<Longrightarrow> m' x = m x"
  shows "print_ok e m' ls"
proof -
  have keep: "stays (en_frame e) (en_buffer e) 129 m' a t" if "stays (en_frame e) (en_buffer e) 129 m a t"
    "\<forall>x. in_region x a (Suc (length t)) \<longrightarrow> lit_area e ls x" for a t
    using that assms(2) cstr_cong [of a t m m'] by (auto simp: stays_def)
  have "stays (en_frame e) (en_buffer e) 129 m' (fr_0x (en_frame e)) (ascii ''0x'')"
    using assms(1) by (intro keep) (auto simp: print_ok_def lit_area_def numeral_3_eq_3)
  moreover have "lit_ok e m' l" if "l \<in> ls" for l
    unfolding lit_ok_def using assms(1) that by (intro keep) (auto simp: print_ok_def lit_ok_def lit_area_def)
  ultimately show ?thesis using assms(1) by (simp add: print_ok_def)
qed

lemma loader_inv_printf:
  assumes "console (en_bus e) ok sent incoming" and "layout e boot_lits" and "loader_inv e ok fm offset s M"
    and "l \<in> boot_lits" and "num_format l (length args)"
  shows "\<exists>s'. printf e l args s = Some s' \<and> loader_inv e ok fm offset s' M"
proof -
  note ok = loader_invD(1,2) [OF assms(3)]
  obtain s' where s': "printf e l args s = Some s'" "ok (mc_con s')"
    and same: "\<And>x. \<not> scratch e x \<Longrightarrow> mc_mem s' x = mc_mem s x"
    using printf_returns [OF assms(1) ok assms(4,5)] by blast
  have "mread (mc_mem s') (en_ehdr e) 64 = mread (mc_mem s) (en_ehdr e) 64"
    using assms(2) by (intro mread_cong same) (auto simp: layout_def)
  moreover have "mc_mem s' x = mc_mem s x" if "flash x \<or> \<not> reserved e boot_lits x" for x
    using assms(2) that by (intro same) (auto simp: layout_def reserved_def loader_area_def)
  ultimately have "loader_inv e ok fm offset s' M"
    using loader_invD [OF assms(3)] s'(2) print_ok_scratch [OF ok(2) same] by (intro loader_invI) metis+
  with s'(1) show ?thesis by blast
qed

text \<open>Reading from flash.\<close>

lemma fl_read_mem:
  assumes "\<And>x. in_region x (flash_addr off) (unat sz) \<Longrightarrow> flash x"
    and "\<And>x. in_region x dst (unat sz) \<Longrightarrow> \<not> flash x"
    and "\<And>x. flash x \<Longrightarrow> mc_mem s x = fm x"
  shows "fl_read e dst off sz s =
    (True, s\<lparr>mc_mem := mwrite (mc_mem s) dst (mread fm (flash_addr off) (unat sz))\<rparr>)"
proof -
  have u: "unat (ucast sz :: u64) = unat sz" by (simp add: unat_ucast_up)
  have "\<not> in_region dst (flash_addr off) (unat sz)"
  proof
    assume h: "in_region dst (flash_addr off) (unat sz)"
    then have "in_region dst dst (unat sz)" by (auto simp: in_region_def)
    with assms(1) [OF h] assms(2) show False by blast
  qed
  then have "fwd_ok dst (flash_addr off) (unat (ucast sz :: u64))" by (simp add: fwd_ok_def u)
  moreover have "mread (mc_mem s) (flash_addr off) (unat sz) = mread fm (flash_addr off) (unat sz)"
    using assms(1,3) by (intro mread_cong) auto
  ultimately show ?thesis by (simp add: fl_read_def memcpy_mwrite u)
qed

lemma loader_inv_read:
  assumes "layout e boot_lits" and "loader_inv e ok fm offset s M"
    and "\<And>x. in_region x (flash_addr off) (unat sz) \<Longrightarrow> flash x"
    and "(\<forall>x. in_region x dst (unat sz) \<longrightarrow> \<not> reserved e boot_lits x) \<and>
           M' = mwrite M dst (mread fm (flash_addr off) (unat sz)) \<or>
         dst = en_ph e \<and> sz = 56 \<and> M' = M"
  shows "\<exists>s'. fl_read e dst off sz s = (True, s') \<and> loader_inv e ok fm offset s' M' \<and>
    mread (mc_mem s') dst (unat sz) = mread fm (flash_addr off) (unat sz)"
proof -
  let ?bs = "mread fm (flash_addr off) (unat sz)"
  let ?s = "s\<lparr>mc_mem := mwrite (mc_mem s) dst ?bs\<rparr>"
  have dst: "\<not> flash x \<and> \<not> lit_area e boot_lits x \<and> \<not> in_region x (en_ehdr e) 64" if "in_region x dst (unat sz)" for x
    using assms(1,4) that by (auto simp: layout_def reserved_def loader_area_def)
  note I = loader_invD [OF assms(2)]
  have "fl_read e dst off sz s = (True, ?s)"
    using assms(3) dst I(3) by (intro fl_read_mem) blast+
  moreover have other: "mc_mem ?s x = mc_mem s x" if "\<not> in_region x dst (unat sz)" for x
    using that by (simp add: mwrite_other)
  have "loader_inv e ok fm offset ?s M'"
  proof (rule loader_invI)
    show "ok (mc_con ?s)" using I(1) by simp
    show "print_ok e (mc_mem ?s) boot_lits"
      by (rule print_ok_lits [OF I(2)], rule other) (use dst in blast)
    show "mc_mem ?s x = fm x" if "flash x" for x
      using other [of x] dst [of x] that I(3) [of x] by metis
    show "mc_mem ?s x = M' x" if "\<not> reserved e boot_lits x" for x
    proof (cases "M' = M \<and> dst = en_ph e \<and> sz = 56")
      case True
      then have "\<not> in_region x dst (unat sz)" using that by (auto simp: reserved_def loader_area_def)
      from other [OF this] True I(4) [OF that] show ?thesis by simp
    next
      case False
      then have "M' = mwrite M dst ?bs" using assms(4) by blast
      then show ?thesis using I(4) [OF that] by (auto intro: mwrite_cong_at)
    qed
    have "mread (mc_mem ?s) (en_ehdr e) 64 = mread (mc_mem s) (en_ehdr e) 64"
      by (rule mread_cong, rule other) (use dst in blast)
    then show "mread (mc_mem ?s) (en_ehdr e) 64 = mread fm (flash_addr offset) 64" using I(5) by (rule trans)
  qed
  moreover have "mread (mc_mem ?s) dst (unat sz) = ?bs"
    using mread_mwrite [of ?bs "mc_mem s" dst] unsigned_less [of sz, where ?'a = nat] by simp
  ultimately show ?thesis by blast
qed


lemma boot_flash_step_skips:
  assumes lay: "layout e boot_lits" and I: "loader_inv e ok fm offset s M"
    and ph: "\<And>x. in_region x (flash_addr poff) 56 \<Longrightarrow> flash x"
    and t: "p_type fm (flash_addr poff) \<noteq> PT_LOAD"
  shows "\<exists>s'. boot_flash_step e offset i poff s = Some (Inr (poff, s')) \<and> loader_inv e ok fm offset s' M"
proof -
  have u: "unat (56 :: u32) = 56" by simp
  obtain s1 where s1: "fl_read e (en_ph e) poff 56 s = (True, s1)" "loader_inv e ok fm offset s1 M"
    "mread (mc_mem s1) (en_ph e) 56 = mread fm (flash_addr poff) 56"
    using loader_inv_read [OF lay I, of poff 56 "en_ph e" M] ph unfolding u by blast
  then have "p_type (mc_mem s1) (en_ph e) \<noteq> PT_LOAD" using t phdr_fields(1) [OF s1(3)] by simp
  with s1(1,2) show ?thesis by (simp add: boot_flash_step_def Let_def)
qed

lemma boot_flash_step_loads:
  assumes con: "console (en_bus e) ok sent incoming" and lay: "layout e boot_lits"
    and I: "loader_inv e ok fm offset s M"
    and seg: "segs_ok e boot_lits fm offset ent (Suc n) poff"
    and t: "p_type fm (flash_addr poff) = PT_LOAD"
    and ent: "ent = ucast (e_phentsize fm (flash_addr offset))"
  shows "\<exists>s'. boot_flash_step e offset i poff s = Some (Inr (poff + ent, s')) \<and>
    loader_inv e ok fm offset s' (mwrite M (p_vaddr fm (flash_addr poff))
      (mread fm (flash_addr (offset + ucast (p_offset fm (flash_addr poff))))
        (unat (ucast (p_filesz fm (flash_addr poff)) :: u32))))"
proof -
  let ?ph = "flash_addr poff"
  let ?sz = "ucast (p_filesz fm ?ph) :: u32" and ?off = "offset + ucast (p_offset fm ?ph)"
  have u: "unat (56 :: u32) = 56" by simp
  have ph: "\<And>x. in_region x ?ph 56 \<Longrightarrow> flash x"
    and src: "\<And>x. in_region x (flash_addr ?off) (unat ?sz) \<Longrightarrow> flash x"
    and dst: "\<forall>x. in_region x (p_vaddr fm ?ph) (unat ?sz) \<longrightarrow> \<not> reserved e boot_lits x"
    using seg t by (simp_all add: Let_def)
  obtain s1 where s1: "fl_read e (en_ph e) poff 56 s = (True, s1)" "loader_inv e ok fm offset s1 M"
    "mread (mc_mem s1) (en_ph e) 56 = mread fm ?ph 56"
    using loader_inv_read [OF lay I, of poff 56 "en_ph e" M] ph unfolding u by blast
  note F = phdr_fields [OF s1(3)]
  have lit: "''Copy segment %d (0x%x bytes) to %p'' @ [CHR 0x0A] \<in> boot_lits" by (simp add: boot_lits_def)
  obtain s2 where s2: "printf e (''Copy segment %d (0x%x bytes) to %p'' @ [CHR 0x0A])
      [ucast i, ucast ?sz, p_vaddr fm ?ph] s1 = Some s2" "loader_inv e ok fm offset s2 M"
    using loader_inv_printf [OF con lay s1(2) lit, of "[ucast i, ucast ?sz, p_vaddr fm ?ph]"] boot_lits_formats(4)
    by (auto simp: numeral_3_eq_3)
  obtain s3 where s3: "fl_read e (p_vaddr fm ?ph) ?off ?sz s2 = (True, s3)"
    "loader_inv e ok fm offset s3 (mwrite M (p_vaddr fm ?ph) (mread fm (flash_addr ?off) (unat ?sz)))"
    using loader_inv_read [OF lay s2(2) src] dst by blast
  have "e_phentsize (mc_mem s3) (en_ehdr e) = e_phentsize fm (flash_addr offset)"
    by (rule ehdr_fields(4) [OF loader_invD(5) [OF s3(2)]])
  with s1(1) s2(1) s3 F t ent show ?thesis by (simp add: boot_flash_step_def Let_def)
qed

lemma e_phnum_less: "unat (e_phnum m h) < 65536"
proof -
  have "e_phnum m h = take_bit 16 (e_phnum m h)"
    by (rule bit_word_eqI) (auto simp: e_phnum_def ld_def bit_take_bit_iff bit_le_val simp del: mread_numeral)
  then have "unat (e_phnum m h) = take_bit 16 (unat (e_phnum m h))" by (metis unsigned_take_bit_eq)
  then show ?thesis using take_bit_nat_less_exp [of 16 "unat (e_phnum m h)"] by simp
qed

lemma unat_phnum: "unat (ucast (e_phnum m h) :: u32) = unat (e_phnum m h)"
  using e_phnum_less [of m h] by (simp add: unsigned_ucast_eq take_bit_nat_eq_self)

lemma boot_flash_loop_loads:
  assumes con: "console (en_bus e) ok sent incoming" and lay: "layout e boot_lits"
    and "loader_inv e ok fm offset s M"
    and ent: "ent = ucast (e_phentsize fm (flash_addr offset))"
    and "segs_ok e boot_lits fm offset ent n poff"
    and "unat i + n = unat (e_phnum fm (flash_addr offset))"
  shows "\<exists>s'. boot_flash_loop e offset i poff s = Some (Inr s') \<and>
    loader_inv e ok fm offset s' (load_spec fm offset ent n poff M)"
  using assms(3,5,6)
proof (induction n arbitrary: i poff s M)
  case 0
  have "e_phnum (mc_mem s) (en_ehdr e) = e_phnum fm (flash_addr offset)"
    by (rule ehdr_fields(5) [OF loader_invD(5) [OF "0.prems"(1)]])
  then have "\<not> i < ucast (e_phnum (mc_mem s) (en_ehdr e))"
    using "0.prems"(3) unat_phnum [of fm "flash_addr offset"] by (simp add: word_less_nat_alt)
  with "0.prems"(1) show ?case by (subst boot_flash_loop.simps) simp
next
  case (Suc n)
  let ?ph = "flash_addr poff"
  have "e_phnum (mc_mem s) (en_ehdr e) = e_phnum fm (flash_addr offset)"
    by (rule ehdr_fields(5) [OF loader_invD(5) [OF Suc.prems(1)]])
  then have lt: "i < ucast (e_phnum (mc_mem s) (en_ehdr e))"
    using Suc.prems(3) unat_phnum [of fm "flash_addr offset"] by (simp add: word_less_nat_alt)
  have i: "unat (i + 1) + n = unat (e_phnum fm (flash_addr offset))"
    using Suc.prems(3) unat_succ_less [OF lt] by simp
  show ?case
  proof (cases "p_type fm ?ph = PT_LOAD")
    case True
    have rest: "segs_ok e boot_lits fm offset ent n (poff + ent)" using Suc.prems(2) True by (simp add: Let_def)
    obtain s' where s': "boot_flash_step e offset i poff s = Some (Inr (poff + ent, s'))"
      "loader_inv e ok fm offset s' (mwrite M (p_vaddr fm ?ph)
        (mread fm (flash_addr (offset + ucast (p_offset fm ?ph))) (unat (ucast (p_filesz fm ?ph) :: u32))))"
      using boot_flash_step_loads [OF con lay Suc.prems(1,2) True ent] by blast
    from Suc.IH [OF s'(2) rest i] s'(1) lt True
    show ?thesis by (subst boot_flash_loop.simps) (simp add: Let_def)
  next
    case False
    have ph: "\<And>x. in_region x ?ph 56 \<Longrightarrow> flash x" using Suc.prems(2) by (simp add: Let_def)
    obtain s' where s': "boot_flash_step e offset i poff s = Some (Inr (poff, s'))" "loader_inv e ok fm offset s' M"
      using boot_flash_step_skips [OF lay Suc.prems(1) ph False] by blast
    from Suc.IH [OF s'(2) segs_ok_stuck [OF False Suc.prems(2)] i] s'(1) lt
    show ?thesis by (subst boot_flash_loop.simps) (simp add: load_spec_stuck [OF False] False Let_def)
  qed
qed

lemma boot_flash_header:
  assumes con: "console (en_bus e) ok sent incoming" and lay: "layout e boot_lits"
    and ok: "ok (mc_con s)" and pr: "print_ok e (mc_mem s) boot_lits"
    and hdr: "\<And>x. in_region x (flash_addr offset) 64 \<Longrightarrow> flash x"
  shows "\<exists>s1 s2. printf e (''Trying flash...'' @ [CHR 0x0A]) [] s = Some s1 \<and>
    fl_read e (en_ehdr e) offset 64 s1 = (True, s2) \<and> loader_inv e ok (mc_mem s) offset s2 (mc_mem s)"
proof -
  have lit: "''Trying flash...'' @ [CHR 0x0A] \<in> boot_lits" by (simp add: boot_lits_def)
  obtain s1 where s1: "printf e (''Trying flash...'' @ [CHR 0x0A]) [] s = Some s1" "ok (mc_con s1)"
    and same: "\<And>x. \<not> scratch e x \<Longrightarrow> mc_mem s1 x = mc_mem s x"
    using printf_returns [OF con ok pr lit, of "[]"] boot_lits_formats(1) by auto
  have u: "unat (64 :: u32) = 64" by simp
  have area: "\<not> flash x \<and> \<not> lit_area e boot_lits x" if "loader_area e x" for x
    using lay that by (auto simp: layout_def)
  let ?bs = "mread (mc_mem s) (flash_addr offset) 64"
  let ?s2 = "s1\<lparr>mc_mem := mwrite (mc_mem s1) (en_ehdr e) ?bs\<rparr>"
  have fs: "mc_mem s1 x = mc_mem s x" if "flash x" for x
    using area that by (intro same) (auto simp: loader_area_def)
  have rd: "fl_read e (en_ehdr e) offset 64 s1 = (True, ?s2)"
    using fl_read_mem [of offset 64 "en_ehdr e" s1 "mc_mem s" e] hdr area fs unfolding u
    by (auto simp: loader_area_def simp del: mread_numeral)
  have other: "mc_mem ?s2 x = mc_mem s x" if "\<not> loader_area e x" for x
  proof -
    have "\<not> in_region x (en_ehdr e) (length ?bs)" using that by (simp add: loader_area_def del: mread_numeral)
    then show ?thesis using that same [of x] by (simp add: mwrite_other loader_area_def del: mread_numeral)
  qed
  have "loader_inv e ok (mc_mem s) offset ?s2 (mc_mem s)"
  proof (rule loader_invI)
    show "ok (mc_con ?s2)" using s1(2) by simp
    show "print_ok e (mc_mem ?s2) boot_lits"
      by (rule print_ok_lits [OF pr], rule other) (use area in blast)
    show "mc_mem ?s2 x = mc_mem s x" if "flash x" for x by (rule other) (use area that in blast)
    show "mc_mem ?s2 x = mc_mem s x" if "\<not> reserved e boot_lits x" for x
      by (rule other) (use that in \<open>auto simp: reserved_def\<close>)
    show "mread (mc_mem ?s2) (en_ehdr e) 64 = ?bs"
      using mread_mwrite [of ?bs "mc_mem s1" "en_ehdr e"] by (simp del: mread_numeral)
  qed
  with s1(1) rd show ?thesis by blast
qed

lemma boot_flash_dump_returns:
  assumes "console (en_bus e) ok sent incoming" and "layout e boot_lits" and "loader_inv e ok fm offset s M"
  shows "\<exists>s'. boot_flash_dump e s = Some (- 1, s') \<and> loader_inv e ok fm offset s' M"
proof -
  have lit: "''HDR: %02x %02x %02x %02x %02x %02x %02x %02x'' @ [CHR 0x0A] \<in> boot_lits"
    by (simp add: boot_lits_def)
  have "num_format (''HDR: %02x %02x %02x %02x %02x %02x %02x %02x'' @ [CHR 0x0A])
      (length (map (\<lambda>i. ucast (e_ident (mc_mem s) (en_ehdr e) i)) [0..<8]))"
    using boot_lits_formats(6) by simp
  from loader_inv_printf [OF assms lit this] show ?thesis by (auto simp: boot_flash_dump_def)
qed

section \<open>Properties\<close>

lemma boot_flash_loads:
  assumes "console (en_bus e) ok sent incoming" and "layout e boot_lits"
    and "ok (mc_con s)" and "print_ok e (mc_mem s) boot_lits"
    and "\<And>x. in_region x (flash_addr offset) 64 \<Longrightarrow> flash x"
    and "is_elf64 (mc_mem s) (flash_addr offset)" and "is_ppc64le (mc_mem s) (flash_addr offset)"
    and "n = unat (e_phnum (mc_mem s) (flash_addr offset))"
    and "ent = ucast (e_phentsize (mc_mem s) (flash_addr offset))"
    and "poff = offset + ucast (e_phoff (mc_mem s) (flash_addr offset))"
    and "segs_ok e boot_lits (mc_mem s) offset ent n poff"
  shows "\<exists>s'. boot_flash e offset s = Some (e_entry (mc_mem s) (flash_addr offset), s') \<and>
    (\<forall>x. \<not> reserved e boot_lits x \<longrightarrow> mc_mem s' x = load_spec (mc_mem s) offset ent n poff (mc_mem s) x)"
proof -
  let ?fm = "mc_mem s" and ?h = "flash_addr offset"
  obtain s1 s2 where s1: "printf e (''Trying flash...'' @ [CHR 0x0A]) [] s = Some s1"
    and s2: "fl_read e (en_ehdr e) offset 64 s1 = (True, s2)" and I2: "loader_inv e ok ?fm offset s2 ?fm"
    using boot_flash_header [OF assms(1-4) assms(5)] by blast
  note hb = loader_invD(5) [OF I2]
  obtain s3 where s3: "boot_flash_loop e offset 0 poff s2 = Some (Inr s3)"
    and I3: "loader_inv e ok ?fm offset s3 (load_spec ?fm offset ent n poff ?fm)"
    using boot_flash_loop_loads [OF assms(1,2) I2 assms(9,11), of 0] assms(8) by auto
  let ?arg = "[ucast (ucast (e_entry (mc_mem s3) (en_ehdr e)) :: u32)] :: u64 list"
  have lit: "''Booting from DRAM at %x'' @ [CHR 0x0A] \<in> boot_lits" by (simp add: boot_lits_def)
  obtain s4 where s4: "printf e (''Booting from DRAM at %x'' @ [CHR 0x0A]) ?arg s3 = Some s4"
    and I4: "loader_inv e ok ?fm offset s4 (load_spec ?fm offset ent n poff ?fm)"
    using loader_inv_printf [OF assms(1,2) I3 lit, of ?arg] boot_lits_formats(5) by auto
  have "boot_flash e offset s = Some (e_entry (mc_mem s4) (en_ehdr e), s4)"
    using s1 s2 s3 s4 is_elf64_block [OF hb] ehdr_fields(3) [OF hb] assms(6,7,10)
    by (simp add: boot_flash_def Let_def)
  then show ?thesis
    using ehdr_fields(2) [OF loader_invD(5) [OF I4]] loader_invD(4) [OF I4] by auto
qed

text \<open>C7: Loading a valid image, in the memory map of the firmware, whose window on the flash ends at \<open>DRAM_INIT_BASE\<close>, where its own
  code, data and stack begin: when the flash holds a little-endian 64-bit PowerPC ELF file whose
  headers and contents lie in the flash window and whose segments do not touch the loader's own
  memory, \<open>boot_flash\<close> returns the entry point, and the memory (outside what the loader reserves)
  is the old memory with the contents of the loadable segments at their addresses, up to the first
  program header that is not loadable.\<close>

theorem boot_flash_loads_image:
  assumes "console (en_bus e) ok sent incoming" and "layout e boot_lits"
    and "ok (mc_con s)" and "print_ok e (mc_mem s) boot_lits"
    and "\<And>x. in_region x (flash_addr offset) 64 \<Longrightarrow> flash x"
    and "is_elf64 (mc_mem s) (flash_addr offset)" and "is_ppc64le (mc_mem s) (flash_addr offset)"
    and "n = unat (e_phnum (mc_mem s) (flash_addr offset))"
    and "ent = ucast (e_phentsize (mc_mem s) (flash_addr offset))"
    and "poff = offset + ucast (e_phoff (mc_mem s) (flash_addr offset))"
    and "segs_ok e boot_lits (mc_mem s) offset ent n poff"
  shows "\<exists>s'. boot_flash e offset s = Some (e_entry (mc_mem s) (flash_addr offset), s') \<and>
    (\<forall>x. \<not> reserved e boot_lits x \<longrightarrow> mc_mem s' x = load_spec (mc_mem s) offset ent n poff (mc_mem s) x)"
  using boot_flash_loads [OF assms] .

section \<open>A concrete image\<close>

text \<open>A memory with given blocks, and how to read them back when the blocks are in order.\<close>

fun place :: "mem \<Rightarrow> (addr \<times> byte list) list \<Rightarrow> mem" where
  "place m [] = m"
| "place m ((a, bs) # r) = mwrite (place m r) a bs"

fun in_order :: "nat \<Rightarrow> (addr \<times> byte list) list \<Rightarrow> bool" where
  "in_order lo [] \<longleftrightarrow> True"
| "in_order lo ((a, bs) # r) \<longleftrightarrow> lo \<le> unat a \<and> unat a + length bs < 2 ^ 64 \<and> in_order (unat a + length bs) r"

lemma in_region_range:
  assumes "in_region x a n" and "unat a + n \<le> 2 ^ 64"
  shows "unat a \<le> unat x \<and> unat x < unat a + n"
proof -
  have "unat x = unat (a + of_nat (unat (x - a)))" by simp
  also have "\<dots> = unat a + unat (x - a)"
    using assms by (intro unat_add_of_nat) (simp add: in_region_def)
  finally show ?thesis using assms(1) by (simp add: in_region_def)
qed

lemma in_order_above: "in_order lo r \<Longrightarrow> (a, bs) \<in> set r \<Longrightarrow> lo \<le> unat a \<and> unat a + length bs < 2 ^ 64"
  by (induction lo r rule: in_order.induct) auto

lemma place_read: "in_order lo r \<Longrightarrow> (a, bs) \<in> set r \<Longrightarrow> mread (place m r) a (length bs) = bs"
proof (induction lo r rule: in_order.induct)
  case (2 lo b cs r)
  show ?case
  proof (cases "(a, bs) = (b, cs)")
    case True
    then have "length bs \<le> 2 ^ 64" using "2.prems"(1) by auto
    then show ?thesis using True mread_mwrite [of bs "place m r" a] by simp
  next
    case False
    then have mem: "(a, bs) \<in> set r" using "2.prems"(2) by auto
    have ab: "unat b + length cs \<le> unat a" "unat a + length bs < 2 ^ 64"
      using in_order_above [OF _ mem] "2.prems"(1) by auto
    have "mread (mwrite (place m r) b cs) a (length bs) = mread (place m r) a (length bs)"
    proof (rule mread_mwrite_other)
      fix x assume "in_region x a (length bs)"
      then have "unat a \<le> unat x" using ab(2) in_region_range [of x a "length bs"] by simp
      then show "\<not> in_region x b (length cs)"
        using ab(1) in_region_range [of x b "length cs"] "2.prems"(1) by auto
    qed
    then show ?thesis using "2.IH" "2.prems"(1) mem by simp
  qed
qed simp

text \<open>An ELF file with one loadable segment of four bytes.\<close>

definition demo_elf :: "byte list" where
  "demo_elf = [0x7f, 0x45, 0x4c, 0x46, 2, 1, 1, 0] @ replicate 8 0 @ [2, 0, 21, 0, 1, 0, 0, 0] @
     le_bytes 8 0x40000000 @ le_bytes 8 64 @ replicate 8 0 @ [0, 0, 0, 0, 64, 0, 56, 0, 1, 0, 0, 0, 0, 0, 0, 0] @
     [1, 0, 0, 0, 5, 0, 0, 0] @ le_bytes 8 120 @ le_bytes 8 0x40000000 @ le_bytes 8 0x40000000 @
     le_bytes 8 4 @ le_bytes 8 4 @ le_bytes 8 8 @ [0xde, 0xad, 0xbe, 0xef]"

text \<open>The literals and the stack are where the linker script and \<open>head.S\<close> put them: above \<open>DRAM_INIT_BASE\<close>, and below the top of the stack
  at \<open>0xff006000 - 0x100\<close>.\<close>

definition demo_lits :: "(string \<times> addr) list" where
  "demo_lits = [(''Trying flash...'' @ [CHR 0x0A], 0xff004000), (''Doesn'' @ [CHR 0x27] @ ''t look like an elf64'' @ [CHR 0x0A], 0xff004040),
     (''Not a ppc64le binary'' @ [CHR 0x0A], 0xff004080), (''Copy segment %d (0x%x bytes) to %p'' @ [CHR 0x0A], 0xff0040c0),
     (''Booting from DRAM at %x'' @ [CHR 0x0A], 0xff004100),
     (''HDR: %02x %02x %02x %02x %02x %02x %02x %02x'' @ [CHR 0x0A], 0xff004140),
     (''Copying payload to DRAM...'' @ [CHR 0x0A], 0xff004180), (''Booting from DRAM...'' @ [CHR 0x0A], 0xff0041c0)]"

definition demo_blocks :: "(addr \<times> byte list) list" where
  "demo_blocks = (0xf0000000, demo_elf) # (0xff003f00, ascii ''0x'' @ [0]) # map (\<lambda>(l, a). (a, ascii l @ [0])) demo_lits"

definition demo_mem :: mem where
  "demo_mem = place (\<lambda>_. 0) demo_blocks"

definition demo_env :: "uart_dev env" where
  "demo_env = \<lparr>en_bus = uart_16550_bus 1, en_frame = \<lparr>fr_formstr = 0xff005b00, fr_sizec = 0xff005c00, fr_0x = 0xff003f00\<rparr>,
     en_buffer = 0xff005a00, en_lit = (\<lambda>l. case map_of demo_lits l of None \<Rightarrow> 0 | Some a \<Rightarrow> a), en_sha1 = 0,
     en_ehdr = 0xff005d00, en_ph = 0xff005e00, en_sdram_init = Some, en_init_done = (\<lambda>s. (1, s))\<rparr>"

definition demo_state :: "uart_dev machine" where
  "demo_state = \<lparr>mc_mem = demo_mem, mc_con = \<lparr>uart_is_std = True, uart_base = UART_BASE,
     dev = \<lparr>ud_busy = 0, ud_sent = [], ud_in = []\<rparr>\<rparr>\<rparr>"

lemma boot_lits_demo: "boot_lits = fst ` set demo_lits"
  by (simp add: boot_lits_def demo_lits_def)

lemma demo_in_order: "in_order 0 demo_blocks"
  by (simp add: demo_blocks_def demo_lits_def demo_elf_def)

lemma demo_read: "(a, bs) \<in> set demo_blocks \<Longrightarrow> mread demo_mem a (length bs) = bs"
  unfolding demo_mem_def by (rule place_read [OF demo_in_order])

lemma demo_lit_addr: "(l, a) \<in> set demo_lits \<Longrightarrow> en_lit demo_env l = a \<and> 0xff004000 \<le> unat a \<and> unat a \<le> 0xff004400 \<and> length l < 128 \<and> 0 \<notin> set (ascii l)"
  by (auto simp: demo_env_def demo_lits_def)

lemma demo_ranges:
  "loader_area demo_env x \<Longrightarrow> 0xff005a00 \<le> unat x \<and> unat x < 0xff005f00"
  "lit_area demo_env boot_lits x \<Longrightarrow> 0xff003f00 \<le> unat x \<and> unat x < 0xff004600"
  "flash x \<Longrightarrow> 0xf0000000 \<le> unat x \<and> unat x < 0xff000000"
proof -
  show "0xff005a00 \<le> unat x \<and> unat x < 0xff005f00" if "loader_area demo_env x"
    using that by (auto simp: loader_area_def scratch_def demo_env_def dest!: in_region_range)
  show "0xff003f00 \<le> unat x \<and> unat x < 0xff004600" if lit: "lit_area demo_env boot_lits x"
  proof -
    consider "in_region x (fr_0x (en_frame demo_env)) 3"
      | l a where "(l, a) \<in> set demo_lits" "in_region x (en_lit demo_env l) (Suc (length l))"
      using lit by (force simp: lit_area_def boot_lits_demo)
    then show ?thesis
    proof cases
      case 1
      then show ?thesis by (auto simp: demo_env_def dest!: in_region_range)
    next
      case (2 l a)
      then show ?thesis using demo_lit_addr [OF 2(1)] in_region_range [of x a "Suc (length l)"] by auto
    qed
  qed
  show "0xf0000000 \<le> unat x \<and> unat x < 0xff000000" if "flash x"
    using that in_region_range [of x "0xf0000000" "0xf000000"] by (simp add: flash_eq)
qed

lemma flash_block:
  assumes "in_region x a n" and "0xf0000000 \<le> unat a" and "unat a + n \<le> 0xff000000"
  shows "flash x"
proof -
  have r: "unat a \<le> unat x" "unat x < unat a + n"
    using in_region_range [OF assms(1)] assms(3) by simp_all
  then have "unat (x - 0xf0000000) = unat x - 0xf0000000"
    using assms(2) by (simp add: unat_sub word_le_nat_alt)
  then show ?thesis using r assms(2,3) by (simp add: flash_eq in_region_def)
qed

lemma demo_stays:
  assumes "(a, t @ [0]) \<in> set demo_blocks" and "0 \<notin> set t" and "0xff003f00 \<le> unat a" and "unat a + length t < 0xff004600"
  shows "stays (en_frame demo_env) (en_buffer demo_env) 129 demo_mem a t"
proof -
  have "cstr demo_mem a t"
    using demo_read [OF assms(1)] assms(2) by (simp add: cstr_mread_iff)
  moreover have "apart a (Suc (length t)) b n" if "0xff004600 \<le> unat b" "unat b + n \<le> 2 ^ 64" for b n
    using in_region_range [of _ a "Suc (length t)"] in_region_range [of _ b n] assms(4) that
    by (force simp: apart_def)
  ultimately show ?thesis by (simp add: stays_def demo_env_def)
qed

lemma demo_print_ok: "print_ok demo_env demo_mem boot_lits"
proof -
  have "stays (en_frame demo_env) (en_buffer demo_env) 129 demo_mem 0xff003f00 (ascii ''0x'')"
    by (rule demo_stays) (simp_all add: demo_blocks_def)
  moreover have "lit_ok demo_env demo_mem l" if "(l, a) \<in> set demo_lits" for l a
  proof -
    have "(a, ascii l @ [0]) \<in> set demo_blocks" using that by (force simp: demo_blocks_def)
    then show ?thesis
      using demo_lit_addr [OF that] demo_stays [of a "ascii l"] by (simp add: lit_ok_def)
  qed
  moreover have "fmt_frame (en_frame demo_env) (en_buffer demo_env) 129"
    by (auto simp: fmt_frame_def apart_def demo_env_def dest!: in_region_range)
  ultimately show ?thesis by (auto simp: print_ok_def boot_lits_demo demo_env_def)
qed

lemma demo_layout: "layout demo_env boot_lits"
proof -
  have "\<not> scratch demo_env x \<and> \<not> in_region x (en_ph demo_env) 56" if "in_region x (en_ehdr demo_env) 64" for x
    using that by (auto simp: scratch_def demo_env_def dest!: in_region_range)
  then show ?thesis using demo_ranges by (force simp: layout_def)
qed

lemma demo_image: "mread demo_mem 0xf0000000 124 = demo_elf"
proof -
  have "(0xf0000000, demo_elf) \<in> set demo_blocks" by (simp add: demo_blocks_def)
  moreover have "length demo_elf = 124" by (simp add: demo_elf_def)
  ultimately show ?thesis using demo_read [of "0xf0000000" demo_elf] by (simp only:)
qed

text \<open>What any memory with this image at the start of the flash holds.\<close>

lemma demo_ld: "mread m 0xf0000000 124 = demo_elf \<Longrightarrow> k + n \<le> 124 \<Longrightarrow> ld m (0xf0000000 + of_nat k) n = le_val (take n (drop k demo_elf))"
  by (simp only: ld_def mread_sub [of k n 124])

lemma demo_fields:
  assumes "mread m 0xf0000000 124 = demo_elf"
  shows "e_machine m 0xf0000000 = 21" "e_entry m 0xf0000000 = 0x40000000"
  "e_phoff m 0xf0000000 = 64" "e_phentsize m 0xf0000000 = 56" "e_phnum m 0xf0000000 = 1"
  "p_type m 0xf0000040 = 1" "p_offset m 0xf0000040 = 120" "p_vaddr m 0xf0000040 = 0x40000000"
  "p_filesz m 0xf0000040 = 4"
  using demo_ld [OF assms, of 18 2] demo_ld [OF assms, of 24 8] demo_ld [OF assms, of 32 8] demo_ld [OF assms, of 54 2]
    demo_ld [OF assms, of 56 2] demo_ld [OF assms, of 64 4] demo_ld [OF assms, of 72 8] demo_ld [OF assms, of 80 8] demo_ld [OF assms, of 96 8]
  by (simp_all add: e_machine_def e_entry_def e_phoff_def e_phentsize_def e_phnum_def p_type_def p_offset_def
      p_vaddr_def p_filesz_def demo_elf_def del: mread_numeral)

lemma demo_ident:
  assumes "mread m 0xf0000000 124 = demo_elf"
  shows "is_elf64 m 0xf0000000" "is_ppc64le m 0xf0000000"
proof -
  have i: "e_ident m 0xf0000000 i = demo_elf ! i" if "i < 124" for i
    using mread_nth [OF that, of m "0xf0000000"] assms by (simp add: e_ident_def)
  show "is_elf64 m 0xf0000000" "is_ppc64le m 0xf0000000"
    by (simp_all add: is_elf64_def is_ppc64le_def i demo_fields(1) [OF assms]) (simp_all add: demo_elf_def)
qed

lemma demo_addr: "flash_addr 0 = 0xf0000000" "flash_addr 64 = 0xf0000040" "flash_addr 120 = 0xf0000078"
  by (simp_all add: flash_addr_def SPI_FLASH_BASE_def)

lemma demo_segs:
  assumes "mread m 0xf0000000 124 = demo_elf" and nr: "\<And>x. in_region x 0x40000000 4 \<Longrightarrow> \<not> reserved e boot_lits x"
  shows "segs_ok e boot_lits m 0 56 1 64" "load_spec m 0 56 1 64 M = mwrite M 0x40000000 [0xde, 0xad, 0xbe, 0xef]"
proof -
  have ph: "\<forall>x. in_region x 0xf0000040 56 \<longrightarrow> flash x" by (intro allI impI, erule flash_block) simp_all
  have src: "\<forall>x. in_region x 0xf0000078 4 \<longrightarrow> flash x" by (intro allI impI, erule flash_block) simp_all
  have u: "(0 :: u32) + ucast (120 :: u64) = 120" "unat (ucast (4 :: u64) :: u32) = 4" by simp_all
  show "segs_ok e boot_lits m 0 56 1 64"
    unfolding One_nat_def segs_ok.simps Let_def demo_addr demo_fields [OF assms(1)] u using ph src nr by blast
  have "mread m 0xf0000078 4 = [0xde, 0xad, 0xbe, 0xef]"
    using mread_sub [of 120 4 124 m "0xf0000000"] unfolding assms(1) by (simp add: demo_elf_def)
  then show "load_spec m 0 56 1 64 M = mwrite M 0x40000000 [0xde, 0xad, 0xbe, 0xef]"
    unfolding One_nat_def load_spec.simps Let_def demo_addr demo_fields [OF assms(1)] PT_LOAD_def by (simp add: demo_addr)
qed

lemma demo_header:
  assumes "mread m 0xf0000000 124 = demo_elf"
  shows "1 = unat (e_phnum m (flash_addr 0))" "56 = ucast (e_phentsize m (flash_addr 0))" "64 = 0 + ucast (e_phoff m (flash_addr 0))"
  unfolding demo_addr by (simp_all only: demo_fields [OF assms]) simp_all

theorem boot_flash_loads_image_witness:
  "\<exists>s'. boot_flash demo_env 0 demo_state = Some (0x40000000, s') \<and>
     mread (mc_mem s') 0x40000000 4 = [0xde, 0xad, 0xbe, 0xef]"
proof -
  let ?fm = "mc_mem demo_state"
  have im: "mread ?fm 0xf0000000 124 = demo_elf" by (simp add: demo_state_def demo_image del: mread_numeral)
  have nr: "\<not> reserved demo_env boot_lits x" if "in_region x 0x40000000 4" for x
    using in_region_range [OF that] demo_ranges [of x] by (force simp: reserved_def)
  have con: "console (en_bus demo_env) (\<lambda>s. uart_is_std s = True \<and> uart_base s = UART_BASE \<and> True)
      (\<lambda>s. ud_sent (dev s)) (\<lambda>s. ud_in (dev s))"
    using std_dev.std_console [of 1] by (simp add: demo_env_def)
  have ok: "uart_is_std (mc_con demo_state) = True \<and> uart_base (mc_con demo_state) = UART_BASE \<and> True"
    by (simp add: demo_state_def)
  have pr: "print_ok demo_env ?fm boot_lits" using demo_print_ok by (simp add: demo_state_def)
  have hd: "\<And>x. in_region x (flash_addr 0) 64 \<Longrightarrow> flash x"
    unfolding demo_addr by (erule flash_block) simp_all
  have id: "is_elf64 ?fm (flash_addr 0)" "is_ppc64le ?fm (flash_addr 0)" unfolding demo_addr using demo_ident [OF im] by blast+
  obtain s' where run: "boot_flash demo_env 0 demo_state = Some (e_entry ?fm (flash_addr 0), s')"
    and mem: "\<forall>x. \<not> reserved demo_env boot_lits x \<longrightarrow> mc_mem s' x = load_spec ?fm 0 56 1 64 ?fm x"
    using boot_flash_loads_image [OF con demo_layout ok pr hd id demo_header [OF im] demo_segs(1) [OF im nr]] by blast
  have "mread (mc_mem s') 0x40000000 4 = mread (mwrite ?fm 0x40000000 [0xde, 0xad, 0xbe, 0xef]) 0x40000000 4"
  proof (rule mread_cong)
    fix x assume "in_region x 0x40000000 4"
    from mem nr [OF this] show "mc_mem s' x = mwrite ?fm 0x40000000 [0xde, 0xad, 0xbe, 0xef] x"
      by (simp only: demo_segs(2) [OF im nr] simp_thms)
  qed
  also have "\<dots> = [0xde, 0xad, 0xbe, 0xef]"
    using mread_mwrite [of "[0xde, 0xad, 0xbe, 0xef]" ?fm "0x40000000"] by simp
  finally show ?thesis using run by (simp add: demo_addr demo_fields [OF im])
qed

lemma boot_flash_rejects:
  assumes "console (en_bus e) ok sent incoming" and "layout e boot_lits"
    and "ok (mc_con s)" and "print_ok e (mc_mem s) boot_lits"
    and "\<And>x. in_region x (flash_addr offset) 64 \<Longrightarrow> flash x"
    and "\<not> (is_elf64 (mc_mem s) (flash_addr offset) \<and> is_ppc64le (mc_mem s) (flash_addr offset))"
  shows "\<exists>s'. boot_flash e offset s = Some (- 1, s') \<and> loader_inv e ok (mc_mem s) offset s' (mc_mem s)"
proof -
  let ?fm = "mc_mem s"
  obtain s1 s2 where s1: "printf e (''Trying flash...'' @ [CHR 0x0A]) [] s = Some s1"
    and s2: "fl_read e (en_ehdr e) offset 64 s1 = (True, s2)" and I2: "loader_inv e ok ?fm offset s2 ?fm"
    using boot_flash_header [OF assms(1-4) assms(5)] by blast
  let ?l = "if is_elf64 ?fm (flash_addr offset) then ''Not a ppc64le binary'' @ [CHR 0x0A]
    else ''Doesn'' @ [CHR 0x27] @ ''t look like an elf64'' @ [CHR 0x0A]"
  have lit: "?l \<in> boot_lits" by (simp add: boot_lits_def)
  have "num_format ?l (length ([] :: u64 list))" using boot_lits_formats(2,3) by simp
  then obtain s3 where s3: "printf e ?l [] s2 = Some s3" and I3: "loader_inv e ok ?fm offset s3 ?fm"
    using loader_inv_printf [OF assms(1,2) I2 lit] by blast
  obtain s4 where s4: "boot_flash_dump e s3 = Some (- 1, s4)" and I4: "loader_inv e ok ?fm offset s4 ?fm"
    using boot_flash_dump_returns [OF assms(1,2) I3] by blast
  have "boot_flash e offset s = Some (- 1, s4)"
    using s1 s2 s3 s4 is_elf64_block [OF loader_invD(5) [OF I2]] assms(6)
    by (cases "is_elf64 ?fm (flash_addr offset)") (simp_all add: boot_flash_def Let_def)
  then show ?thesis using I4 by blast
qed

text \<open>A file that is no 64-bit ELF file, or not for little-endian 64-bit PowerPC, is refused:
  \<open>boot_flash\<close> returns the error value and leaves all memory that it does not reserve as it was.\<close>

theorem boot_flash_rejects_other_files:
  assumes "console (en_bus e) ok sent incoming" and "layout e boot_lits"
    and "ok (mc_con s)" and "print_ok e (mc_mem s) boot_lits"
    and "\<And>x. in_region x (flash_addr offset) 64 \<Longrightarrow> flash x"
    and "\<not> (is_elf64 (mc_mem s) (flash_addr offset) \<and> is_ppc64le (mc_mem s) (flash_addr offset))"
  shows "\<exists>s'. boot_flash e offset s = Some (- 1, s') \<and>
    (\<forall>x. \<not> reserved e boot_lits x \<longrightarrow> mc_mem s' x = mc_mem s x)"
  using boot_flash_rejects [OF assms] loader_invD(4) by blast

theorem boot_flash_rejects_other_files_witness:
  "\<exists>s'. boot_flash demo_env 4 demo_state = Some (- 1, s')"
proof -
  let ?fm = "mc_mem demo_state"
  have con: "console (en_bus demo_env) (\<lambda>s. uart_is_std s = True \<and> uart_base s = UART_BASE \<and> True)
      (\<lambda>s. ud_sent (dev s)) (\<lambda>s. ud_in (dev s))"
    using std_dev.std_console [of 1] by (simp add: demo_env_def)
  have ok: "uart_is_std (mc_con demo_state) = True \<and> uart_base (mc_con demo_state) = UART_BASE \<and> True"
    by (simp add: demo_state_def)
  have pr: "print_ok demo_env ?fm boot_lits" using demo_print_ok by (simp add: demo_state_def)
  have a: "flash_addr 4 = 0xf0000004" by (simp add: flash_addr_def SPI_FLASH_BASE_def)
  have hd: "\<And>x. in_region x (flash_addr 4) 64 \<Longrightarrow> flash x"
    unfolding a by (erule flash_block) simp_all
  have "demo_mem 0xf0000004 = 2"
    using mread_nth [of 4 124 demo_mem "0xf0000000"] demo_image by (simp add: demo_elf_def)
  then have no: "\<not> (is_elf64 ?fm (flash_addr 4) \<and> is_ppc64le ?fm (flash_addr 4))"
    by (simp add: a demo_state_def is_elf64_def e_ident_def)
  from boot_flash_rejects_other_files [OF con demo_layout ok pr hd no] show ?thesis by blast
qed
end
