(* ===== verification/Boot_Flash.thy ===== *)
theory Boot_Flash
  imports Boot_Load
begin

text \<open>
  The detection of the SPI flash chip at boot (\<open>check_flash\<close> of \<open>sdram_init/main.c\<close>).  The record \<open>spi_chip\<close> is a chip behind the flash
  controller, with the commands that the boot loader sends: reading the identification, the status and the
  configuration register, enabling and doing a write of the registers, which takes a while.  The locale \<open>flash_port\<close> says that the bus leads to
  such a chip and that printing leaves it alone; \<open>flash_setup\<close> is what the detection makes of the chip.
\<close>

section \<open>The chip\<close>

record spi_chip =
  sc_id :: "byte \<times> byte \<times> byte"
  sc_status :: byte
  sc_config :: byte
  sc_busy :: nat
  sc_wel :: bool
  sc_cs :: bool
  sc_sent :: "byte list"
  sc_got :: nat
  sc_autocfg :: u32

text \<open>At the end of a command, a write of the registers is done if it was enabled; bits 0 and 1 of the status cannot be written.  The
  number of polls until it is finished is the argument \<open>n\<close>.\<close>

definition chip_execute :: "nat \<Rightarrow> spi_chip \<Rightarrow> spi_chip" where
  "chip_execute n c =
     (case sc_sent c of
        [a] \<Rightarrow> if a = 0x06 \<and> sc_busy c = 0 then c\<lparr>sc_wel := True\<rparr> else c
      | [a, v] \<Rightarrow> if a = 0x01 \<and> sc_wel c \<and> sc_busy c = 0 then c\<lparr>sc_status := v AND 0xfc, sc_wel := False, sc_busy := n\<rparr> else c
      | [a, v, w] \<Rightarrow> if a = 0x01 \<and> sc_wel c \<and> sc_busy c = 0
                    then c\<lparr>sc_status := v AND 0xfc, sc_config := w, sc_wel := False, sc_busy := n\<rparr> else c
      | _ \<Rightarrow> c)"

definition chip_select :: "nat \<Rightarrow> bool \<Rightarrow> spi_chip \<Rightarrow> spi_chip" where
  "chip_select n q c =
     (if q = sc_cs c then c
      else if q then c\<lparr>sc_cs := True, sc_sent := [], sc_got := 0\<rparr>
      else (chip_execute n c)\<lparr>sc_cs := False, sc_sent := [], sc_got := 0\<rparr>)"

definition chip_put :: "byte \<Rightarrow> spi_chip \<Rightarrow> spi_chip" where
  "chip_put v c = (if sc_cs c then c\<lparr>sc_sent := sc_sent c @ [v]\<rparr> else c)"

definition chip_get :: "spi_chip \<Rightarrow> byte \<times> spi_chip" where
  "chip_get c =
     (if \<not> sc_cs c \<or> sc_sent c = [] then (0xff, c)
      else let c1 = c\<lparr>sc_got := Suc (sc_got c)\<rparr>; a = hd (sc_sent c)
           in if a = 0x9f then ((case sc_id c of (i, j, k) \<Rightarrow> if sc_got c = 0 then i else if sc_got c = 1 then j else k), c1)
              else if a = 0x05
              then (sc_status c OR (if sc_busy c = 0 then 0 else 1) OR (if sc_wel c then 2 else 0), c1\<lparr>sc_busy := sc_busy c - 1\<rparr>)
              else if a = 0x35 then (sc_config c, c1)
              else (0xff, c1))"

definition chip_idle :: "spi_chip \<Rightarrow> bool" where
  "chip_idle c \<longleftrightarrow> \<not> sc_cs c \<and> sc_sent c = [] \<and> sc_got c = 0 \<and> \<not> sc_wel c \<and> sc_busy c = 0 \<and> sc_status c AND 3 = 0"

section \<open>What the detection makes of the chip\<close>

definition spansion_quad :: "spi_chip \<Rightarrow> spi_chip" where
  "spansion_quad c = (if sc_config c AND 0x02 \<noteq> 0 then c else c\<lparr>sc_status := 0, sc_config := sc_config c OR 0x02\<rparr>)"

definition issi_quad :: "spi_chip \<Rightarrow> spi_chip" where
  "issi_quad c = c\<lparr>sc_status := sc_status c OR 0x40\<rparr>"

definition quad_reads :: "u32 \<Rightarrow> spi_chip \<Rightarrow> spi_chip" where
  "quad_reads cfg c = c\<lparr>sc_autocfg := (sc_autocfg c AND 0xff0000) OR cfg\<rparr>"

text \<open>Reads with four data lines: command \<open>0x6b\<close> with addresses of three bytes, or \<open>0x6c\<close> with addresses of four bytes, eight dummy
  cycles in both, and the end of an access after 32 cycles.\<close>

definition flash_setup :: "spi_chip \<Rightarrow> spi_chip" where
  "flash_setup c =
     (case sc_id c of (i, j, k) \<Rightarrow>
        if is_spansion i j k then quad_reads 0x20001f6b (spansion_quad c)
        else if is_micron i j k then quad_reads 0x20001f6b c
        else if is_issi i j k then quad_reads 0x20003f6c (issi_quad c)
        else c)"

definition flash_present :: "spi_chip \<Rightarrow> bool" where
  "flash_present c \<longleftrightarrow> sc_id c \<noteq> (0, 0, 0) \<and> sc_id c \<noteq> (0xff, 0xff, 0xff)"

section \<open>The contract of the port\<close>

definition flash_lits :: "string set" where
  "flash_lits = {''  SPI FLASH ID: %02x%02x%02x'', '' Cypress/Spansion (CF1=%02x)'', ''  enabling QUAD'', '' Micron'', '' ISSI'',
     '' [enabling quad]'', '' [quad IO mode]'', [CHR 0x0A]}"

lemma flash_lits_formats:
  "num_format ''  SPI FLASH ID: %02x%02x%02x'' 3" "num_format '' Cypress/Spansion (CF1=%02x)'' 1" "num_format ''  enabling QUAD'' 0"
  "num_format '' Micron'' 0" "num_format '' ISSI'' 0" "num_format '' [enabling quad]'' 0" "num_format '' [quad IO mode]'' 0"
  "num_format [CHR 0x0A] 0"
  by (simp_all add: num_format_def ends_spec_def)

text \<open>The configuration register of the controller has 30 bits.\<close>

locale flash_port =
  fixes e :: "'d env"
    and ok :: "'d con \<Rightarrow> bool"
    and sent :: "'d con \<Rightarrow> byte list"
    and incoming :: "'d con \<Rightarrow> byte list"
    and chip :: "'d \<Rightarrow> spi_chip"
    and wr_polls :: nat
  assumes console: "console (en_bus e) (\<lambda>c. ok c \<and> chip (dev c) = v) sent incoming"
    and ctrl: "ok c \<Longrightarrow> d = bus_write (en_bus e) 1 0xc0006004 x (dev c) \<Longrightarrow>
      ok (c\<lparr>dev := d\<rparr>) \<and> chip d = chip_select wr_polls (bit x 1) (chip (dev c))"
    and data_out: "ok c \<Longrightarrow> d = bus_write (en_bus e) 1 0xc0006000 x (dev c) \<Longrightarrow>
      ok (c\<lparr>dev := d\<rparr>) \<and> chip d = chip_put (ucast x) (chip (dev c))"
    and data_in: "ok c \<Longrightarrow> bus_read (en_bus e) 1 0xc0006000 (dev c) = (x, d) \<Longrightarrow>
      ok (c\<lparr>dev := d\<rparr>) \<and> chip_get (chip (dev c)) = (ucast x, chip d)"
    and cfg_in: "ok c \<Longrightarrow> bus_read (en_bus e) 4 0xc0006008 (dev c) = (x, d) \<Longrightarrow>
      ok (c\<lparr>dev := d\<rparr>) \<and> chip d = chip (dev c) \<and> ucast x = sc_autocfg (chip (dev c))"
    and cfg_out: "ok c \<Longrightarrow> take_bit 30 x = x \<Longrightarrow> d = bus_write (en_bus e) 4 0xc0006008 x (dev c) \<Longrightarrow>
      ok (c\<lparr>dev := d\<rparr>) \<and> chip d = (chip (dev c))\<lparr>sc_autocfg := ucast x\<rparr>"

context flash_port
begin

text \<open>The machine has the chip \<open>c\<close>, and its memory is \<open>m\<close> up to what printing changes.\<close>

definition at :: "spi_chip \<Rightarrow> mem \<Rightarrow> 'd machine \<Rightarrow> bool" where
  "at c m s \<longleftrightarrow> ok (mc_con s) \<and> chip (dev (mc_con s)) = c \<and> print_ok e (mc_mem s) flash_lits \<and>
     (\<forall>x. \<not> scratch e x \<longrightarrow> mc_mem s x = m x)"

lemma at_writeb:
  "at c m s \<Longrightarrow> at (chip_put v c) m (mc_writeb e v (SPI_FCTRL_BASE + SPI_REG_DATA) s)"
  "at c m s \<Longrightarrow> at (chip_select wr_polls (bit v 1) c) m (mc_writeb e v (SPI_FCTRL_BASE + SPI_REG_CTRL) s)"
  using data_out [of "mc_con s" _ "ucast v"] ctrl [of "mc_con s" _ "ucast v"]
  by (simp_all add: at_def mc_writeb_def writeb_def soc_consts bit_ucast_iff)

lemma at_cs:
  "at c m s \<Longrightarrow> at (chip_select wr_polls True c) m (fl_cs_on e s)"
  "at c m s \<Longrightarrow> at (chip_select wr_polls False c) m (fl_cs_off e s)"
  using at_writeb(2) [of c m s 2] at_writeb(2) [of c m s 0]
  by (simp_all add: fl_cs_on_def fl_cs_off_def SPI_REG_CTRL_MANUAL_CS_def)

lemma at_get:
  assumes "at c m s"
  shows "\<exists>s'. mc_readb e (SPI_FCTRL_BASE + SPI_REG_DATA) s = (fst (chip_get c), s') \<and> at (snd (chip_get c)) m s'"
proof -
  obtain x d where x: "bus_read (en_bus e) 1 0xc0006000 (dev (mc_con s)) = (x, d)" by fastforce
  then show ?thesis
    using data_in [OF _ x] assms by (auto simp: at_def mc_readb_def readb_def soc_consts)
qed

lemma at_printf:
  assumes "at c m s" and "l \<in> flash_lits" and "num_format l (length args)"
  shows "\<exists>s'. printf e l args s = Some s' \<and> at c m s'"
proof -
  have p: "print_ok e (mc_mem s) flash_lits" "ok (mc_con s) \<and> chip (dev (mc_con s)) = c" using assms(1) by (simp_all add: at_def)
  obtain s' where s': "printf e l args s = Some s'" "ok (mc_con s') \<and> chip (dev (mc_con s')) = c"
    "\<forall>x. \<not> scratch e x \<longrightarrow> mc_mem s' x = mc_mem s x"
    using printf_returns [OF console p(2,1) assms(2,3)] by blast
  with print_ok_scratch [OF p(1), of "mc_mem s'"] assms(1) show ?thesis by (auto simp: at_def)
qed

lemma at_cfg:
  assumes "at c m s"
  shows "\<exists>s'. mc_readl e (SPI_FCTRL_BASE + SPI_REG_AUTO_CFG) s = (sc_autocfg c, s') \<and> at c m s'"
    and "take_bit 30 v = v \<Longrightarrow> at (c\<lparr>sc_autocfg := v\<rparr>) m (mc_writel e v (SPI_FCTRL_BASE + SPI_REG_AUTO_CFG) s)"
proof -
  obtain x d where x: "bus_read (en_bus e) 4 0xc0006008 (dev (mc_con s)) = (x, d)" by fastforce
  then show "\<exists>s'. mc_readl e (SPI_FCTRL_BASE + SPI_REG_AUTO_CFG) s = (sc_autocfg c, s') \<and> at c m s'"
    using cfg_in [OF _ x] assms by (auto simp: at_def mc_readl_def readl_def soc_consts)
  assume v: "take_bit 30 v = v"
  then have "take_bit 30 (ucast v :: u64) = ucast v" by (metis unsigned_take_bit_eq)
  moreover have "(ucast (ucast v :: u64) :: u32) = v" by (rule bit_word_eqI) (simp add: bit_simps)
  ultimately show "at (c\<lparr>sc_autocfg := v\<rparr>) m (mc_writel e v (SPI_FCTRL_BASE + SPI_REG_AUTO_CFG) s)"
    using cfg_out [of "mc_con s" "ucast v"] assms by (simp add: at_def mc_writel_def writel_def soc_consts)
qed

text \<open>A command that reads one register: select, command, one byte, deselect.\<close>

lemma at_read_register:
  assumes "at c m s" and "chip_get (chip_put a (chip_select wr_polls True c)) = (v, c1)"
  shows "\<exists>s'. mc_readb e (SPI_FCTRL_BASE + SPI_REG_DATA) (mc_writeb e a (SPI_FCTRL_BASE + SPI_REG_DATA) (fl_cs_on e s)) = (v, s') \<and>
    at (chip_select wr_polls False c1) m (fl_cs_off e s')"
  using at_get [OF at_writeb(1) [OF at_cs(1) [OF assms(1)]], of a] at_cs(2) assms(2) by auto

end

lemmas chip_simps = chip_select_def chip_put_def chip_get_def chip_execute_def

context flash_port
begin

definition waiting :: "spi_chip \<Rightarrow> bool" where
  "waiting c \<longleftrightarrow> \<not> sc_cs c \<and> sc_sent c = [] \<and> sc_got c = 0 \<and> sc_status c AND 3 = 0"

lemma poll_status:
  assumes "waiting c"
  shows "\<exists>v c1. chip_get (chip_put 0x05 (chip_select wr_polls True c)) = (v, c1) \<and> (v AND 1 \<noteq> 0 \<longleftrightarrow> 0 < sc_busy c) \<and>
    chip_select wr_polls False c1 = c\<lparr>sc_busy := sc_busy c - 1\<rparr>"
proof -
  have "bit (sc_status c AND 3) 0 = bit (0 :: byte) 0" using assms by (simp add: waiting_def)
  then have "\<not> bit (sc_status c) 0" by (simp add: even_and_iff bit_0)
  then have "(sc_status c OR (if sc_busy c = 0 then 0 else 1) OR (if sc_wel c then 2 else 0)) AND 1 \<noteq> 0 \<longleftrightarrow> 0 < sc_busy c"
    by (auto simp: and_one_eq mod_2_eq_odd even_or_iff even_and_iff bit_0)
  then show ?thesis using assms by (simp add: waiting_def chip_simps)
qed

lemma at_wait_wip:
  "at c m s \<Longrightarrow> waiting c \<Longrightarrow> \<exists>s'. wait_wip e s = Some s' \<and> at (c\<lparr>sc_busy := 0\<rparr>) m s'"
proof (induction "sc_busy c" arbitrary: c s)
  case 0
  obtain v c1 where v: "chip_get (chip_put 0x05 (chip_select wr_polls True c)) = (v, c1)" "v AND 1 = 0"
    "chip_select wr_polls False c1 = c\<lparr>sc_busy := 0\<rparr>"
    using poll_status [OF 0(3)] 0(1) by auto
  from at_read_register [OF 0(2) v(1)] v(2,3) show ?case
    by (auto simp: wait_wip_def wip_poll_def SPI_CMD_RDSR_def wait_while.simps [of _ s])
next
  case (Suc n)
  obtain v c1 where v: "chip_get (chip_put 0x05 (chip_select wr_polls True c)) = (v, c1)" "v AND 1 \<noteq> 0"
    "chip_select wr_polls False c1 = c\<lparr>sc_busy := n\<rparr>"
    using poll_status [OF Suc(4)] Suc(2) by (metis diff_Suc_1 zero_less_Suc)
  obtain s1 where s1: "wip_poll e s = (True, s1)" "at (c\<lparr>sc_busy := n\<rparr>) m s1"
    using at_read_register [OF Suc(3) v(1)] v(2,3) by (auto simp: wip_poll_def SPI_CMD_RDSR_def)
  have "waiting (c\<lparr>sc_busy := n\<rparr>)" using Suc(4) by (simp add: waiting_def)
  from Suc(1) [OF _ s1(2) this] s1(1) show ?case
    by (simp add: wait_wip_def wait_while.simps [of _ s])
qed

end

text \<open>The status that a write gives back, with bits 0 and 1 clear.\<close>

lemma status_or: "(v :: byte) AND 3 = 0 \<Longrightarrow> (v OR 0x40) AND 0xfc = v OR 0x40 \<and> (v OR 0x40) AND 3 = 0"
proof -
  assume v: "v AND 3 = 0"
  have "(v AND 3) OR (v AND 0xfc) = v AND (3 OR 0xfc)" by (simp only: bit.conj_disj_distrib)
  moreover have "v AND 0xff = v"
    using take_bit_eq_mask [of 8 v] take_bit_word_eq_self [of 8 v] by (simp add: mask_eq_exp_minus_1)
  ultimately have "v AND 0xfc = v" using v by simp
  then show ?thesis using v by (simp add: bit.conj_disj_distrib2)
qed

context flash_port
begin

lemma waiting_idle: "chip_idle c \<Longrightarrow> waiting c"
  by (simp add: chip_idle_def waiting_def)

lemma at_wren:
  assumes "at c m s" "chip_idle c"
  shows "at (c\<lparr>sc_wel := True\<rparr>) m (send_wren e s)"
proof -
  have "chip_select wr_polls False (chip_put 6 (chip_select wr_polls True c)) = c\<lparr>sc_wel := True\<rparr>"
    using assms(2) by (simp add: chip_idle_def chip_simps)
  then show ?thesis
    using at_cs(2) [OF at_writeb(1) [OF at_cs(1) [OF assms(1)]], of 6] by (simp add: send_wren_def SPI_CMD_WREN_def)
qed

lemma at_spansion:
  assumes "at c m s" "chip_idle c"
  shows "\<exists>s'. check_spansion_quad_mode e s = Some s' \<and> at (spansion_quad c) m s' \<and> chip_idle (spansion_quad c)"
proof -
  have "chip_put 0x35 c = c" using assms(2) by (simp add: chip_idle_def chip_simps)
  then have s0: "at c m (mc_writeb e 0x35 (SPI_FCTRL_BASE + SPI_REG_DATA) s)" using at_writeb(1) [OF assms(1), of "0x35"] by simp
  obtain c1 where c1: "chip_get (chip_put 0x35 (chip_select wr_polls True c)) = (sc_config c, c1)" "chip_select wr_polls False c1 = c"
    using assms(2) by (auto simp: chip_idle_def chip_simps)
  obtain s2 where s2: "mc_readb e (SPI_FCTRL_BASE + SPI_REG_DATA) (mc_writeb e 0x35 (SPI_FCTRL_BASE + SPI_REG_DATA)
      (fl_cs_on e (mc_writeb e 0x35 (SPI_FCTRL_BASE + SPI_REG_DATA) s))) = (sc_config c, s2)" "at c m (fl_cs_off e s2)"
    using at_read_register [OF s0 c1(1)] c1(2) by auto
  obtain s3 where s3: "printf e '' Cypress/Spansion (CF1=%02x)'' [ucast (sc_config c)] (fl_cs_off e s2) = Some s3" "at c m s3"
    using at_printf [OF s2(2), of "'' Cypress/Spansion (CF1=%02x)''" "[ucast (sc_config c)]"] flash_lits_formats by (auto simp: flash_lits_def)
  obtain s4 where s4: "printf e ''  enabling QUAD'' [] s3 = Some s4" "at c m s4"
    using at_printf [OF s3(2), of "''  enabling QUAD''" "[]"] flash_lits_formats by (auto simp: flash_lits_def)
  let ?w = "chip_put (sc_config c OR 2) (chip_put 0 (chip_put 1 (chip_select wr_polls True (c\<lparr>sc_wel := True\<rparr>))))"
  let ?c = "c\<lparr>sc_status := 0, sc_config := sc_config c OR 2, sc_busy := wr_polls\<rparr>"
  have w: "chip_select wr_polls False (chip_select wr_polls False ?w) = ?c"
    using assms(2) by (simp add: chip_idle_def chip_simps)
  let ?s6 = "mc_writeb e 0 (SPI_FCTRL_BASE + SPI_REG_CTRL) (mc_writeb e (sc_config c OR 2) (SPI_FCTRL_BASE + SPI_REG_DATA)
      (mc_writeb e 0 (SPI_FCTRL_BASE + SPI_REG_DATA) (mc_writeb e 1 (SPI_FCTRL_BASE + SPI_REG_DATA) (fl_cs_on e (send_wren e s4)))))"
  have "at ?w m (mc_writeb e (sc_config c OR 2) (SPI_FCTRL_BASE + SPI_REG_DATA) (mc_writeb e 0 (SPI_FCTRL_BASE + SPI_REG_DATA)
      (mc_writeb e 1 (SPI_FCTRL_BASE + SPI_REG_DATA) (fl_cs_on e (send_wren e s4)))))"
    by (intro at_writeb(1) at_cs(1) at_wren s4(2) assms(2))
  from at_cs(2) [OF at_writeb(2) [OF this, of 0]] have s6: "at ?c m (fl_cs_off e ?s6)" using w by simp
  moreover have "waiting ?c" using assms(2) by (simp add: chip_idle_def waiting_def)
  ultimately obtain s7 where s7: "wait_wip e (fl_cs_off e ?s6) = Some s7" "at (?c\<lparr>sc_busy := 0\<rparr>) m s7"
    using at_wait_wip by blast
  have "spansion_quad c = ?c\<lparr>sc_busy := 0\<rparr>" if "sc_config c AND 2 = 0"
    using that assms(2) by (simp add: spansion_quad_def chip_idle_def)
  then show ?thesis
    using s2(1) s3 s4 s7 assms(2)
    by (cases "sc_config c AND 2 = 0")
      (auto simp: check_spansion_quad_mode_def SPI_CMD_RDCR_def SPI_CMD_WWR_def Let_def spansion_quad_def chip_idle_def)
qed

lemma at_issi:
  assumes "at c m s" "chip_idle c"
  shows "\<exists>s'. check_enable_issi_quad e s = Some (0x20003f6c, s') \<and> at (issi_quad c) m s' \<and> chip_idle (issi_quad c)"
proof -
  have cfg: "SPI_CMD_QUAD_FREAD_4BA OR push_bit SPI_REG_AUTO_CFG_DUMMIES_SHIFT 0x07 OR SPI_REG_AUT_CFG_MODE_QUAD OR SPI_REG_AUTO_CFG_ADDR4 OR
      push_bit SPI_REG_AUTO_CFG_CSTOUT_SHIFT 0x20 = (0x20003f6c :: u32)"
    by (simp add: soc_consts)
  note st = status_or [of "sc_status c"]
  obtain c1 where c1: "chip_get (chip_put 0x05 (chip_select wr_polls True c)) = (sc_status c, c1)" "chip_select wr_polls False c1 = c"
    using assms(2) by (auto simp: chip_idle_def chip_simps)
  obtain s1 where s1: "mc_readb e (SPI_FCTRL_BASE + SPI_REG_DATA) (mc_writeb e 0x05 (SPI_FCTRL_BASE + SPI_REG_DATA) (fl_cs_on e s)) =
      (sc_status c, s1)" "at c m (fl_cs_off e s1)"
    using at_read_register [OF assms(1) c1(1)] c1(2) by auto
  obtain s3 where s3: "printf e '' [enabling quad]'' [] (fl_cs_off e s1) = Some s3" "at c m s3"
    using at_printf [OF s1(2), of "'' [enabling quad]''" "[]"] flash_lits_formats by (auto simp: flash_lits_def)
  let ?s5 = "fl_cs_off e (mc_writeb e (sc_status c OR 0x40) (SPI_FCTRL_BASE + SPI_REG_DATA) (mc_writeb e 1 (SPI_FCTRL_BASE + SPI_REG_DATA)
      (fl_cs_on e (send_wren e s3))))"
  let ?w = "chip_select wr_polls False (chip_put (sc_status c OR 0x40) (chip_put 1 (chip_select wr_polls True (c\<lparr>sc_wel := True\<rparr>))))"
  let ?c = "c\<lparr>sc_status := sc_status c OR 0x40, sc_busy := wr_polls\<rparr>"
  have "at ?w m ?s5" by (intro at_writeb(1) at_cs at_wren s3(2) assms(2))
  moreover have "?w = ?c" using assms(2) st by (simp add: chip_idle_def chip_simps)
  moreover have "waiting ?c" using assms(2) st by (simp add: chip_idle_def waiting_def)
  ultimately obtain s6 where s6: "wait_wip e ?s5 = Some s6" "at (?c\<lparr>sc_busy := 0\<rparr>) m s6"
    using at_wait_wip by metis
  have "issi_quad c = ?c\<lparr>sc_busy := 0\<rparr>" using assms(2) by (simp add: issi_quad_def chip_idle_def)
  moreover have "chip_idle (issi_quad c)" using assms(2) st by (simp add: issi_quad_def chip_idle_def)
  moreover have "issi_quad c = c" if "sc_status c AND 0x40 \<noteq> 0"
  proof -
    have "bit (sc_status c) 6" using that and_exp_eq_0_iff_not_bit [of "sc_status c" 6] by simp
    then have "Bit_Operations.set_bit 6 (sc_status c) = sc_status c"
      by (intro bit_word_eqI) (auto simp: bit_set_bit_iff)
    then have "sc_status c OR 0x40 = sc_status c" by (simp add: set_bit_eq_or)
    then show ?thesis by (simp add: issi_quad_def)
  qed
  ultimately show ?thesis
    using s1 s3 s6 by (auto simp: check_enable_issi_quad_def SPI_CMD_RDSR_def SPI_CMD_WWR_def Let_def cfg)
qed

end

lemma or_zero: "(a :: byte) OR b = 0 \<longleftrightarrow> a = 0 \<and> b = 0"
  by (simp add: bit_eq_iff bit_or_iff) blast

lemma and_ones: "(a :: byte) AND b = 0xff \<longleftrightarrow> a = 0xff \<and> b = 0xff"
proof -
  have absorb: "v OR (v AND w) = v" for v w :: byte by (rule bit_word_eqI) (auto simp: bit_or_iff bit_and_iff)
  have ones: "(0xff :: byte) = - 1" by simp
  have "a = - 1" "b = - 1" if "a AND b = - 1"
    using absorb [of a b] absorb [of b a] that unfolding and.commute [of b a] by (metis bit.disj_one_right)+
  then show ?thesis unfolding ones by auto
qed

lemma present_ids: "(i OR j OR k = 0 \<or> i AND j AND k = 0xff) \<longleftrightarrow> (i, j, k) = (0, 0, 0) \<or> (i, j, k) = (0xff, 0xff, 0xff)"
  for i j k :: byte
  by (auto simp: or_zero and_ones)

lemma quad_idle [simp]: "chip_idle (quad_reads v c) = chip_idle c"
  by (simp add: quad_reads_def chip_idle_def)

context flash_port
begin

lemma at_identify:
  assumes "at c m s" "chip_idle c" "sc_id c = (i, j, k)"
  shows "\<exists>s1 s2 s3. mc_readb e (SPI_FCTRL_BASE + SPI_REG_DATA) (mc_writeb e 0x9f (SPI_FCTRL_BASE + SPI_REG_DATA) (fl_cs_on e s)) = (i, s1) \<and>
    mc_readb e (SPI_FCTRL_BASE + SPI_REG_DATA) s1 = (j, s2) \<and> mc_readb e (SPI_FCTRL_BASE + SPI_REG_DATA) s2 = (k, s3) \<and>
    at c m (fl_cs_off e s3)"
proof -
  let ?c = "\<lambda>n. c\<lparr>sc_cs := True, sc_sent := [0x9f], sc_got := n\<rparr>"
  have start: "chip_put 0x9f (chip_select wr_polls True c) = ?c 0"
    using assms(2) by (simp add: chip_idle_def chip_simps)
  have get: "chip_get (?c 0) = (i, ?c 1)" "chip_get (?c 1) = (j, ?c 2)" "chip_get (?c 2) = (k, ?c 3)"
    using assms(3) by (simp_all add: chip_get_def)
  have stop: "chip_select wr_polls False (?c 3) = c"
    using assms(2) by (simp add: chip_idle_def chip_simps)
  obtain s1 where s1: "mc_readb e (SPI_FCTRL_BASE + SPI_REG_DATA) (mc_writeb e 0x9f (SPI_FCTRL_BASE + SPI_REG_DATA) (fl_cs_on e s)) = (i, s1)"
    "at (?c 1) m s1"
    using at_get [OF at_writeb(1) [OF at_cs(1) [OF assms(1)]], of "0x9f"] unfolding start get by auto
  obtain s2 where s2: "mc_readb e (SPI_FCTRL_BASE + SPI_REG_DATA) s1 = (j, s2)" "at (?c 2) m s2"
    using at_get [OF s1(2)] unfolding get by auto
  obtain s3 where s3: "mc_readb e (SPI_FCTRL_BASE + SPI_REG_DATA) s2 = (k, s3)" "at (?c 3) m s3"
    using at_get [OF s2(2)] unfolding get by auto
  show ?thesis using s1(1) s2(1) s3(1) at_cs(2) [OF s3(2)] unfolding stop by blast
qed

lemma at_quad:
  assumes "at c m s" and "take_bit 30 v = v"
  shows "\<exists>s'. set_quad_mode e v s = Some s' \<and> at (quad_reads v c) m s'"
proof -
  obtain s1 where s1: "printf e '' [quad IO mode]'' [] s = Some s1" "at c m s1"
    using at_printf [OF assms(1), of "'' [quad IO mode]''" "[]"] flash_lits_formats by (auto simp: flash_lits_def)
  obtain s2 where s2: "mc_readl e (SPI_FCTRL_BASE + SPI_REG_AUTO_CFG) s1 = (sc_autocfg c, s2)" "at c m s2"
    using at_cfg(1) [OF s1(2)] by blast
  have "SPI_REG_AUTO_CFG_CKDIV_MASK = 0xff0000" by (simp add: soc_consts)
  moreover have "take_bit 30 ((sc_autocfg c AND 0xff0000) OR v) = (sc_autocfg c AND 0xff0000) OR v"
    using assms(2) by (simp add: take_bit_or) (simp add: take_bit_eq_mask mask_eq_exp_minus_1 and.assoc)
  ultimately show ?thesis
    using s1(1) s2(1) at_cfg(2) [OF s2(2), of "(sc_autocfg c AND 0xff0000) OR v"] by (auto simp: set_quad_mode_def quad_reads_def)
qed

text \<open>The part of \<open>check_flash\<close> after the identification.\<close>

lemma at_setup:
  assumes "at c m s" "chip_idle c" "sc_id c = (i, j, k)"
  shows "\<exists>s5 s6 cfg s7 s8. (if is_spansion i j k then check_spansion_quad_mode e s else Some s) = Some s5 \<and>
    (if is_micron i j k then printf e '' Micron'' [] s5 else Some s5) = Some s6 \<and>
    (if is_issi i j k then do { s' \<leftarrow> printf e '' ISSI'' [] s6; check_enable_issi_quad e s' } else Some (default_autocfg, s6)) = Some (cfg, s7) \<and>
    (if is_spansion i j k \<or> is_micron i j k \<or> is_issi i j k then set_quad_mode e cfg s7 else Some s7) = Some s8 \<and>
    at (flash_setup c) m s8 \<and> chip_idle (flash_setup c)"
proof -
  have def: "default_autocfg = 0x20001f6b" by (simp add: default_autocfg_def soc_consts)
  have lits: "'' Micron'' \<in> flash_lits" "'' ISSI'' \<in> flash_lits" by (simp_all add: flash_lits_def)
  consider (span) "is_spansion i j k" "\<not> is_micron i j k" "\<not> is_issi i j k" | (micr) "\<not> is_spansion i j k" "is_micron i j k" "\<not> is_issi i j k"
    | (issi) "\<not> is_spansion i j k" "\<not> is_micron i j k" "is_issi i j k" | (other) "\<not> is_spansion i j k" "\<not> is_micron i j k" "\<not> is_issi i j k"
    by (auto simp: is_spansion_def is_micron_def is_issi_def)
  then show ?thesis
  proof cases
    case span
    obtain s5 where s5: "check_spansion_quad_mode e s = Some s5" "at (spansion_quad c) m s5" "chip_idle (spansion_quad c)"
      using at_spansion [OF assms(1,2)] by blast
    then show ?thesis using at_quad [OF s5(2), of "0x20001f6b"] span assms(3) by (auto simp: flash_setup_def def)
  next
    case micr
    obtain s6 where s6: "printf e '' Micron'' [] s = Some s6" "at c m s6"
      using at_printf [OF assms(1) lits(1), of "[]"] flash_lits_formats by auto
    then show ?thesis using at_quad [OF s6(2), of "0x20001f6b"] micr assms(2,3) by (auto simp: flash_setup_def def)
  next
    case issi
    obtain s6 where s6: "printf e '' ISSI'' [] s = Some s6" "at c m s6"
      using at_printf [OF assms(1) lits(2), of "[]"] flash_lits_formats by auto
    obtain s7 where s7: "check_enable_issi_quad e s6 = Some (0x20003f6c, s7)" "at (issi_quad c) m s7" "chip_idle (issi_quad c)"
      using at_issi [OF s6(2) assms(2)] by blast
    then show ?thesis using s6(1) at_quad [OF s7(2), of "0x20003f6c"] issi assms(3) by (auto simp: flash_setup_def)
  next
    case other
    then show ?thesis using assms by (auto simp: flash_setup_def)
  qed
qed

lemma check_flash_at:
  assumes "at c m s" "chip_idle c"
  shows "\<exists>s'. check_flash e s = Some (flash_present c, s') \<and> at (if flash_present c then flash_setup c else c) m s'"
proof -
  obtain i j k where ids: "sc_id c = (i, j, k)" by (cases "sc_id c")
  obtain s1 s2 s3 where s3: "mc_readb e (SPI_FCTRL_BASE + SPI_REG_DATA) (mc_writeb e 0x9f (SPI_FCTRL_BASE + SPI_REG_DATA) (fl_cs_on e s)) = (i, s1)"
    "mc_readb e (SPI_FCTRL_BASE + SPI_REG_DATA) s1 = (j, s2)" "mc_readb e (SPI_FCTRL_BASE + SPI_REG_DATA) s2 = (k, s3)" "at c m (fl_cs_off e s3)"
    using at_identify [OF assms ids] by blast
  obtain s4 where s4: "printf e ''  SPI FLASH ID: %02x%02x%02x'' [ucast i, ucast j, ucast k] (fl_cs_off e s3) = Some s4" "at c m s4"
    using at_printf [OF s3(4), of "''  SPI FLASH ID: %02x%02x%02x''" "[ucast i, ucast j, ucast k]"] flash_lits_formats(1)
    by (auto simp: flash_lits_def numeral_3_eq_3)
  have present: "flash_present c \<longleftrightarrow> \<not> (i OR j OR k = 0 \<or> i AND j AND k = 0xff)"
    unfolding present_ids flash_present_def ids by simp
  obtain s5 s6 cfg s7 s8 where set: "(if is_spansion i j k then check_spansion_quad_mode e s4 else Some s4) = Some s5"
    "(if is_micron i j k then printf e '' Micron'' [] s5 else Some s5) = Some s6"
    "(if is_issi i j k then do { s' \<leftarrow> printf e '' ISSI'' [] s6; check_enable_issi_quad e s' } else Some (default_autocfg, s6)) = Some (cfg, s7)"
    "(if is_spansion i j k \<or> is_micron i j k \<or> is_issi i j k then set_quad_mode e cfg s7 else Some s7) = Some s8" "at (flash_setup c) m s8"
    using at_setup [OF s4(2) assms(2) ids] by blast
  obtain s9 where s9: "printf e [CHR 0x0A] [] s8 = Some s9" "at (flash_setup c) m s9"
    using at_printf [OF set(5), of "[CHR 0x0A]" "[]"] flash_lits_formats by (auto simp: flash_lits_def)
  show ?thesis
    unfolding check_flash_def Let_def SPI_CMD_RDID_def s3 split_conv s4(1) bind.simps
    using present s4(2) set(1-4) s9 by (cases "flash_present c") simp_all
qed

end

section \<open>A serial line and a chip on one bus\<close>

definition flash_bus :: "nat \<Rightarrow> nat \<Rightarrow> (uart_dev \<times> spi_chip) bus" where
  "flash_bus k n = \<lparr>
     bus_read = (\<lambda>w a (u, c).
       if a = 0xc0006000 then (case chip_get c of (v, c') \<Rightarrow> (ucast v, (u, c')))
       else if a = 0xc0006008 then (ucast (sc_autocfg c), (u, c))
       else (case bus_read (uart_16550_bus k) w a u of (v, u') \<Rightarrow> (v, (u', c)))),
     bus_write = (\<lambda>w a v (u, c).
       if a = 0xc0006000 then (u, chip_put (ucast v) c)
       else if a = 0xc0006004 then (u, chip_select n (bit v 1) c)
       else if a = 0xc0006008 then (u, c\<lparr>sc_autocfg := ucast v\<rparr>)
       else (bus_write (uart_16550_bus k) w a v u, c))\<rparr>"

lemma flash_bus_uart:
  "uart_16550 (flash_bus k n) (\<lambda>d. snd d = v) (\<lambda>d. ud_busy (fst d)) (\<lambda>_. 0) (\<lambda>d. ud_sent (fst d)) (\<lambda>d. ud_in (fst d))"
  by unfold_locales
    (auto simp: flash_bus_def uart_16550_bus_def soc_consts bit_simps split: if_splits list.splits prod.splits)

definition flash_ok :: "(uart_dev \<times> spi_chip) con \<Rightarrow> bool" where
  "flash_ok c \<longleftrightarrow> uart_is_std c \<and> uart_base c = UART_BASE"

lemma ucast_back32: "(ucast (ucast v :: u64) :: u32) = v" for v :: u32
  by (rule bit_word_eqI) (simp add: bit_simps)

lemma flash_bus_console:
  "console (flash_bus k n) (\<lambda>c. flash_ok c \<and> snd (dev c) = v) (\<lambda>c. ud_sent (fst (dev c))) (\<lambda>c. ud_in (fst (dev c)))"
  using uart_16550.std_console [OF flash_bus_uart [of k n v]] by (simp add: flash_ok_def conj_assoc)

interpretation chip_port: flash_port "e\<lparr>en_bus := flash_bus k n\<rparr>" flash_ok "\<lambda>c. ud_sent (fst (dev c))" "\<lambda>c. ud_in (fst (dev c))" snd n
  for e k n
  by (rule flash_port.intro)
    (auto simp: flash_bus_console, auto simp: flash_ok_def flash_bus_def ucast_back32 split: prod.splits)

section \<open>Property\<close>

text \<open>C8: The detection of the flash chip returns, however long the chip takes for a write of its registers.  It reports a chip exactly
  when the identification is neither all zeros nor all ones.  A supported chip is then set up for reads with four data lines: the bit for it
  is set in the chip's own registers, the controller gets the command, the length of the addresses and the dummy cycles, and
  keeps its clock divider.  Any other chip is left as it was, as is all memory that printing does not use.\<close>

theorem check_flash_sets_up_chip:
  assumes "flash_port e ok sent incoming chip n" and "ok (mc_con s)" and "print_ok e (mc_mem s) flash_lits"
    and "c = chip (dev (mc_con s))" and "chip_idle c"
  shows "\<exists>s'. check_flash e s = Some (flash_present c, s') \<and>
    chip (dev (mc_con s')) = (if flash_present c then flash_setup c else c) \<and>
    (\<forall>x. \<not> scratch e x \<longrightarrow> mc_mem s' x = mc_mem s x)"
proof -
  note def = flash_port.at_def [OF assms(1)]
  have "flash_port.at e ok chip c (mc_mem s) s" using assms(2-4) by (simp add: def)
  from flash_port.check_flash_at [OF assms(1) this assms(5)] show ?thesis by (auto simp: def)
qed

text \<open>Literals in the order of a list, as the linker could place them, and a frame for the printer.\<close>

definition flash_places :: "(string \<times> addr) list" where
  "flash_places = [(''  SPI FLASH ID: %02x%02x%02x'', 0x1000), ('' Cypress/Spansion (CF1=%02x)'', 0x1040), (''  enabling QUAD'', 0x1080),
     ('' Micron'', 0x10c0), ('' ISSI'', 0x1100), ('' [enabling quad]'', 0x1140), ('' [quad IO mode]'', 0x1180), ([CHR 0x0A], 0x11c0)]"

definition flash_blocks :: "(addr \<times> byte list) list" where
  "flash_blocks = (0xf00, ascii ''0x'' @ [0]) # map (\<lambda>(l, a). (a, ascii l @ [0])) flash_places"

definition flash_env :: "(uart_dev \<times> spi_chip) env" where
  "flash_env = \<lparr>en_bus = flash_bus 1 3, en_frame = \<lparr>fr_formstr = 0x2100, fr_sizec = 0x2200, fr_0x = 0xf00\<rparr>,
     en_buffer = 0x2000, en_lit = (\<lambda>l. case map_of flash_places l of None \<Rightarrow> 0 | Some a \<Rightarrow> a), en_sha1 = 0,
     en_ehdr = 0x2300, en_ph = 0x2400, en_sdram_init = Some, en_init_done = (\<lambda>s. (1, s))\<rparr>"

definition issi_chip :: spi_chip where
  "issi_chip = \<lparr>sc_id = (0x9d, 0x60, 0x19), sc_status = 0, sc_config = 0, sc_busy = 0, sc_wel = False, sc_cs = False, sc_sent = [], sc_got = 0,
     sc_autocfg = 0x00020003\<rparr>"

definition flash_state :: "(uart_dev \<times> spi_chip) machine" where
  "flash_state = \<lparr>mc_mem = place (\<lambda>_. 0) flash_blocks, mc_con = \<lparr>uart_is_std = True, uart_base = UART_BASE,
     dev = (\<lparr>ud_busy = 0, ud_sent = [], ud_in = []\<rparr>, issi_chip)\<rparr>\<rparr>"

lemma placed_stays:
  assumes "(a, t @ [0]) \<in> set flash_blocks" "0 \<notin> set t" "unat a + length t < 0x1600"
  shows "stays (en_frame flash_env) (en_buffer flash_env) 129 (place (\<lambda>_. 0) flash_blocks) a t"
proof -
  have "in_order 0 flash_blocks" by (simp add: flash_blocks_def flash_places_def)
  from place_read [OF this assms(1)] have "cstr (place (\<lambda>_. 0) flash_blocks) a t"
    using assms(2) by (simp add: cstr_mread_iff)
  moreover have "apart a (Suc (length t)) b n" if "0x1600 \<le> unat b" "unat b + n \<le> 2 ^ 64" for b n
    using in_region_range [of _ a "Suc (length t)"] in_region_range [of _ b n] assms(3) that by (force simp: apart_def)
  ultimately show ?thesis by (simp add: stays_def flash_env_def)
qed

lemma placed_print_ok: "print_ok flash_env (mc_mem flash_state) flash_lits"
proof -
  have lits: "flash_lits = fst ` set flash_places" by (simp add: flash_lits_def flash_places_def)
  have "stays (en_frame flash_env) (en_buffer flash_env) 129 (place (\<lambda>_. 0) flash_blocks) 0xf00 (ascii ''0x'')"
    by (rule placed_stays) (simp_all add: flash_blocks_def)
  moreover have "lit_ok flash_env (place (\<lambda>_. 0) flash_blocks) l" if "(l, a) \<in> set flash_places" for l a
  proof -
    have "(a, ascii l @ [0]) \<in> set flash_blocks" using that by (force simp: flash_blocks_def)
    moreover have "en_lit flash_env l = a \<and> unat a + length l < 0x1600 \<and> 0 \<notin> set (ascii l)"
      using that by (auto simp: flash_env_def flash_places_def)
    ultimately show ?thesis using placed_stays [of a "ascii l"] by (simp add: lit_ok_def)
  qed
  moreover have "fmt_frame (en_frame flash_env) (en_buffer flash_env) 129"
    by (auto simp: fmt_frame_def apart_def flash_env_def dest!: in_region_range)
  ultimately show ?thesis by (auto simp: print_ok_def lits flash_env_def flash_state_def)
qed

text \<open>A chip that is not yet in quad mode, found while three polls are needed for the write of its status.\<close>

theorem check_flash_sets_up_chip_witness:
  "\<exists>s'. check_flash flash_env flash_state = Some (True, s') \<and>
     snd (dev (mc_con s')) = issi_chip\<lparr>sc_status := 0x40, sc_autocfg := 0x20023f6c\<rparr>"
proof -
  have port: "flash_port flash_env flash_ok (\<lambda>c. ud_sent (fst (dev c))) (\<lambda>c. ud_in (fst (dev c))) snd 3"
    using chip_port.flash_port_axioms [where e = flash_env and k = 1 and n = 3] by (simp add: flash_env_def)
  have ok: "flash_ok (mc_con flash_state)" "issi_chip = snd (dev (mc_con flash_state))" "chip_idle issi_chip" "flash_present issi_chip"
    by (simp_all add: flash_state_def flash_ok_def chip_idle_def issi_chip_def flash_present_def)
  have "flash_setup issi_chip = issi_chip\<lparr>sc_status := 0x40, sc_autocfg := 0x20023f6c\<rparr>"
    by (simp add: flash_setup_def issi_chip_def is_spansion_def is_micron_def is_issi_def issi_quad_def quad_reads_def)
  then show ?thesis
    using check_flash_sets_up_chip [OF port ok(1) placed_print_ok ok(2,3)] ok(4) by auto
qed

end
