(* ===== verification/Boot_Main.thy ===== *)
theory Boot_Main
  imports Boot_Flash
begin

text \<open>
  The start of the system: \<open>main\<close> of \<open>sdram_init/main.c\<close> on a board with a serial line, a system controller, a flash chip and a memory.  The
  locale \<open>boot_board\<close> extends the port of the flash chip with what \<open>main\<close> needs of the rest of the board: that the initialisation makes the
  console usable, what the registers of the system controller read, and that the LiteX code for the memory returns and changes only the
  memory \<open>dram\<close> and what printing uses.
\<close>

section \<open>Literals\<close>

definition start_lits :: "string set" where
  "start_lits = {[CHR 0x0A, CHR 0x0A] @ ''Welcome to Microwatt !'' @ [CHR 0x0A, CHR 0x0A], '' Soc signature: %016llx'' @ [CHR 0x0A],
     ''  Soc features: '', ''UART '', ''DRAM '', ''BRAM '', ''SPIFLASH '', ''ETHERNET '', ''SDCARD '', [CHR 0x0A],
     ''          BRAM: %ld KB'' @ [CHR 0x0A], ''          DRAM: %ld MB'' @ [CHR 0x0A], ''     DRAM INIT: %ld KB'' @ [CHR 0x0A],
     ''           CLK: %ld MHz'' @ [CHR 0x0A], '' SPI FLASH OFF: 0x%x bytes'' @ [CHR 0x0A],
     ''LiteDRAM built from LiteX %s'' @ [CHR 0x0A], ''Booting from BRAM...'' @ [CHR 0x0A]}"

definition main_lits :: "string set" where
  "main_lits = start_lits \<union> boot_lits \<union> flash_lits"

lemma start_formats:
  "num_format ([CHR 0x0A, CHR 0x0A] @ ''Welcome to Microwatt !'' @ [CHR 0x0A, CHR 0x0A]) 0" "num_format ('' Soc signature: %016llx'' @ [CHR 0x0A]) 1"
  "num_format ''  Soc features: '' 0" "num_format ''UART '' 0" "num_format ''DRAM '' 0" "num_format ''BRAM '' 0" "num_format ''SPIFLASH '' 0"
  "num_format ''ETHERNET '' 0" "num_format ''SDCARD '' 0" "num_format (''          BRAM: %ld KB'' @ [CHR 0x0A]) 1"
  "num_format (''          DRAM: %ld MB'' @ [CHR 0x0A]) 1" "num_format (''     DRAM INIT: %ld KB'' @ [CHR 0x0A]) 1"
  "num_format (''           CLK: %ld MHz'' @ [CHR 0x0A]) 1" "num_format ('' SPI FLASH OFF: 0x%x bytes'' @ [CHR 0x0A]) 1"
  "num_format (''Booting from BRAM...'' @ [CHR 0x0A]) 0"
  by (simp_all add: num_format_def ends_spec_def)

lemma sha_format: "fmt_convs (ascii (''LiteDRAM built from LiteX %s'' @ [CHR 0x0A])) = Some [chr CHR ''s'']"
  by (simp add: ends_spec_def)

lemma print_ok_subset: "print_ok e m ls \<Longrightarrow> ls' \<subseteq> ls \<Longrightarrow> print_ok e m ls'"
  by (auto simp: print_ok_def)

section \<open>The board\<close>

text \<open>The registers of the system controller are doublewords.\<close>

definition sys_reg :: "u64 \<Rightarrow> bool" where [soc_consts]: "sys_reg r \<longleftrightarrow> r < 0x100 \<and> r AND 7 = 0"

locale boot_board = flash_port +
  fixes regs :: "u64 \<Rightarrow> u64"
    and fresh :: "'a con \<Rightarrow> bool"
    and dram :: "addr \<Rightarrow> bool"
  assumes init: "fresh c \<Longrightarrow> ok (console_init (en_bus e) c) \<and> chip_idle (chip (dev (console_init (en_bus e) c)))"
    and sys_in: "ok c \<Longrightarrow> sys_reg r \<Longrightarrow> bus_read (en_bus e) 8 (SYSCON_BASE + r) (dev c) = (v, d) \<Longrightarrow>
      ok (c\<lparr>dev := d\<rparr>) \<and> chip d = chip (dev c) \<and> (r \<noteq> SYS_REG_CTRL \<longrightarrow> v = regs r)"
    and sys_out: "ok c \<Longrightarrow> d = bus_write (en_bus e) 8 (SYSCON_BASE + SYS_REG_CTRL) v (dev c) \<Longrightarrow> ok (c\<lparr>dev := d\<rparr>) \<and> chip d = chip (dev c)"
    and init_done: "ok (mc_con s) \<Longrightarrow> en_init_done e s = (q, s') \<Longrightarrow>
      ok (mc_con s') \<and> chip (dev (mc_con s')) = chip (dev (mc_con s)) \<and> mc_mem s' = mc_mem s"
    and dram_init: "ok (mc_con s) \<Longrightarrow> print_ok e (mc_mem s) main_lits \<Longrightarrow> \<exists>s'. en_sdram_init e s = Some s' \<and> ok (mc_con s') \<and>
      chip (dev (mc_con s')) = chip (dev (mc_con s)) \<and> (\<forall>x. \<not> dram x \<longrightarrow> \<not> scratch e x \<longrightarrow> mc_mem s' x = mc_mem s x)"

text \<open>Where the payload is.\<close>

definition payload :: addr where
  "payload = DRAM_INIT_BASE + 0x6000"

text \<open>The memory \<open>dram\<close> that the initialisation may change, which includes the variables of its own code, has neither literals nor what
  printing uses; and the payload is apart from everything that the start-up program writes.\<close>

definition main_layout :: "'d env \<Rightarrow> byte list \<Rightarrow> (addr \<Rightarrow> bool) \<Rightarrow> bool" where
  "main_layout e sha dram \<longleftrightarrow> layout e boot_lits \<and>
     (\<forall>x. dram x \<longrightarrow> \<not> flash x \<and> \<not> scratch e x \<and> \<not> lit_area e main_lits x \<and> \<not> in_region x (en_sha1 e) (Suc (length sha))) \<and>
     (\<forall>x. in_region x payload 0xa000 \<longrightarrow> \<not> reserved e boot_lits x \<and> \<not> dram x)"

lemma stays_same:
  "stays fr b n m a t \<Longrightarrow> (\<And>x. in_region x a (Suc (length t)) \<Longrightarrow> m' x = m x) \<Longrightarrow> stays fr b n m' a t"
  using cstr_cong [of a t m m'] by (auto simp: stays_def)

context boot_board
begin

text \<open>The board is running with the chip \<open>c\<close>, and its memory is \<open>m\<close> except for the initialised memory and what printing uses.\<close>

definition up :: "byte list \<Rightarrow> spi_chip \<Rightarrow> mem \<Rightarrow> 'a machine \<Rightarrow> bool" where
  "up sha c m s \<longleftrightarrow> ok (mc_con s) \<and> chip (dev (mc_con s)) = c \<and> print_ok e (mc_mem s) main_lits \<and>
     stays (en_frame e) (en_buffer e) 129 (mc_mem s) (en_sha1 e) sha \<and> (\<forall>x. \<not> scratch e x \<longrightarrow> \<not> dram x \<longrightarrow> mc_mem s x = m x)"

lemma up_scratch:
  assumes "up sha c m s" "ok (mc_con s')" "chip (dev (mc_con s')) = c'" "\<And>x. \<not> scratch e x \<Longrightarrow> mc_mem s' x = mc_mem s x"
  shows "up sha c' m s'"
  using assms print_ok_scratch [of e "mc_mem s" main_lits "mc_mem s'"] stays_scratch [of e "mc_mem s" _ _ "mc_mem s'"] by (auto simp: up_def)

lemma up_ready:
  assumes "up sha c m s" and "fmt_ready (en_frame e) (en_buffer e) 128 (mc_mem s) (en_lit e l) (ascii l) args"
  shows "\<exists>s'. printf e l args s = Some s' \<and> up sha c m s'"
proof -
  have p: "print_ok e (mc_mem s) main_lits" "ok (mc_con s) \<and> chip (dev (mc_con s)) = c" using assms(1) by (simp_all add: up_def)
  obtain s' where "printf e l args s = Some s'" "ok (mc_con s') \<and> chip (dev (mc_con s')) = c" "\<forall>x. \<not> scratch e x \<longrightarrow> mc_mem s' x = mc_mem s x"
    using printf_ready [OF console p(2,1) assms(2)] by blast
  with up_scratch [OF assms(1)] show ?thesis by blast
qed

lemma up_printf:
  assumes "up sha c m s" and "l \<in> main_lits" and "num_format l (length args)"
  shows "\<exists>s'. printf e l args s = Some s' \<and> up sha c m s'"
  using up_ready [OF assms(1) print_ok_ready [OF _ assms(2,3)]] assms(1) by (auto simp: up_def)

lemma up_print_start:
  assumes "up sha c m s" and "l \<in> start_lits" and "num_format l (length args)"
  shows "\<exists>s'. printf e l args s = Some s' \<and> up sha c m s'"
  using up_printf [OF assms(1) _ assms(3)] assms(2) by (auto simp: main_lits_def)

lemma up_sha:
  assumes "up sha c m s"
  shows "\<exists>s'. printf e (''LiteDRAM built from LiteX %s'' @ [CHR 0x0A]) [en_sha1 e] s = Some s' \<and> up sha c m s'"
proof -
  let ?l = "''LiteDRAM built from LiteX %s'' @ [CHR 0x0A]"
  have "?l \<in> main_lits" by (simp add: main_lits_def start_lits_def)
  then have "lit_ok e (mc_mem s) ?l" "print_ok e (mc_mem s) main_lits" using assms by (auto simp: up_def print_ok_def)
  moreover have "Ex (stays (en_frame e) (en_buffer e) 128 (mc_mem s) (en_sha1 e))"
    using assms stays_mono [of "en_frame e" "en_buffer e" 129 "mc_mem s" "en_sha1 e" sha 128] by (auto simp: up_def)
  ultimately have "fmt_ready (en_frame e) (en_buffer e) 128 (mc_mem s) (en_lit e ?l) (ascii ?l) [en_sha1 e]"
    unfolding fmt_ready_def sha_format by (auto simp: print_ok_def lit_ok_def intro: stays_mono fmt_frame_mono)
  then show ?thesis by (rule up_ready [OF assms])
qed

lemma up_readq:
  assumes "up sha c m s" "sys_reg r"
  shows "\<exists>v s'. mc_readq e (SYSCON_BASE + r) s = (v, s') \<and> up sha c m s' \<and> (r \<noteq> SYS_REG_CTRL \<longrightarrow> v = regs r)"
proof -
  obtain v d where v: "bus_read (en_bus e) 8 (SYSCON_BASE + r) (dev (mc_con s)) = (v, d)" by fastforce
  have "ok (mc_con s)" "chip (dev (mc_con s)) = c" using assms(1) by (simp_all add: up_def)
  with sys_in [OF _ assms(2) v] v up_scratch [OF assms(1), of "s\<lparr>mc_con := (mc_con s)\<lparr>dev := d\<rparr>\<rparr>" c]
  show ?thesis by (simp add: mc_readq_def readq_def)
qed

lemma up_reg: "up sha c m s \<Longrightarrow> sys_reg r \<Longrightarrow> r \<noteq> SYS_REG_CTRL \<Longrightarrow> \<exists>s'. mc_readq e (SYSCON_BASE + r) s = (regs r, s') \<and> up sha c m s'"
  using up_readq [of sha c m s r] by auto

lemma up_ctrl: "up sha c m s \<Longrightarrow> up sha c m (mc_writeq e v (SYSCON_BASE + SYS_REG_CTRL) s)"
  using up_scratch [of sha c m s "mc_writeq e v (SYSCON_BASE + SYS_REG_CTRL) s" c] sys_out [of "mc_con s" _ v]
  by (auto simp: mc_writeq_def writeq_def up_def)

lemma up_feature:
  "up sha c m s \<Longrightarrow> l \<in> start_lits \<Longrightarrow> num_format l 0 \<Longrightarrow> \<exists>s'. print_feature e ftr flag l s = Some s' \<and> up sha c m s'"
  using up_print_start [of sha c m s l "[]"] by (auto simp: print_feature_def)

end

section \<open>The stages of the start\<close>

context boot_board
begin

lemma up_features:
  assumes "up sha c m s"
  shows "\<exists>s'. print_features e ftr s = Some s' \<and> up sha c m s'"
proof -
  have lits: "''UART '' \<in> start_lits" "''DRAM '' \<in> start_lits" "''BRAM '' \<in> start_lits" "''SPIFLASH '' \<in> start_lits"
    "''ETHERNET '' \<in> start_lits" "''SDCARD '' \<in> start_lits" "[CHR 0x0A] \<in> start_lits"
    by (simp_all add: start_lits_def)
  obtain s1 where s1: "print_feature e ftr SYS_REG_INFO_HAS_UART ''UART '' s = Some s1" "up sha c m s1"
    using up_feature [OF assms lits(1) start_formats(4)] by blast
  obtain s2 where s2: "print_feature e ftr SYS_REG_INFO_HAS_DRAM ''DRAM '' s1 = Some s2" "up sha c m s2"
    using up_feature [OF s1(2) lits(2) start_formats(5)] by blast
  obtain s3 where s3: "print_feature e ftr SYS_REG_INFO_HAS_BRAM ''BRAM '' s2 = Some s3" "up sha c m s3"
    using up_feature [OF s2(2) lits(3) start_formats(6)] by blast
  obtain s4 where s4: "print_feature e ftr SYS_REG_INFO_HAS_SPI_FLASH ''SPIFLASH '' s3 = Some s4" "up sha c m s4"
    using up_feature [OF s3(2) lits(4) start_formats(7)] by blast
  obtain s5 where s5: "print_feature e ftr SYS_REG_INFO_HAS_LITEETH ''ETHERNET '' s4 = Some s5" "up sha c m s5"
    using up_feature [OF s4(2) lits(5) start_formats(8)] by blast
  obtain s6 where s6: "print_feature e ftr SYS_REG_INFO_HAS_LITESDCARD ''SDCARD '' s5 = Some s6" "up sha c m s6"
    using up_feature [OF s5(2) lits(6) start_formats(9)] by blast
  show ?thesis
    using s1(1) s2(1) s3(1) s4(1) s5(1) s6(1) up_print_start [OF s6(2) lits(7), of "[]"] flash_lits_formats(8)
    by (auto simp: print_features_def)
qed

text \<open>Reading a register and printing what it says.\<close>

lemma up_report:
  assumes "up sha c m s" "sys_reg r" "r \<noteq> SYS_REG_CTRL" "l \<in> start_lits" "num_format l 1"
  shows "\<exists>s1 s2. mc_readq e (SYSCON_BASE + r) s = (regs r, s1) \<and> printf e l [f (regs r)] s1 = Some s2 \<and> up sha c m s2"
  using up_reg [OF assms(1-3)] up_print_start [OF _ assms(4), of sha c m _ "[f (regs r)]"] assms(5) by fastforce

lemma up_sizes:
  assumes "up sha c m s"
  shows "\<exists>s'. print_sizes e ftr s = Some s' \<and> up sha c m s'"
proof -
  have lits: "''          BRAM: %ld KB'' @ [CHR 0x0A] \<in> start_lits" "''          DRAM: %ld MB'' @ [CHR 0x0A] \<in> start_lits"
    "''     DRAM INIT: %ld KB'' @ [CHR 0x0A] \<in> start_lits" "''           CLK: %ld MHz'' @ [CHR 0x0A] \<in> start_lits"
    by (simp_all add: start_lits_def)
  have r: "sys_reg SYS_REG_BRAMINFO" "sys_reg SYS_REG_DRAMINFO" "sys_reg SYS_REG_DRAMINITINFO" "sys_reg SYS_REG_CLKINFO"
    "SYS_REG_BRAMINFO \<noteq> SYS_REG_CTRL" "SYS_REG_DRAMINFO \<noteq> SYS_REG_CTRL" "SYS_REG_DRAMINITINFO \<noteq> SYS_REG_CTRL" "SYS_REG_CLKINFO \<noteq> SYS_REG_CTRL"
    by (simp_all add: soc_consts)
  obtain z1 z2 where z: "mc_readq e (SYSCON_BASE + SYS_REG_BRAMINFO) s = (regs SYS_REG_BRAMINFO, z1)"
    "printf e (''          BRAM: %ld KB'' @ [CHR 0x0A]) [(regs SYS_REG_BRAMINFO AND SYS_REG_BRAMINFO_SIZE_MASK) div 1024] z1 = Some z2"
    "up sha c m z2"
    using up_report [OF assms r(1,5) lits(1) start_formats(10), of "\<lambda>v. (v AND SYS_REG_BRAMINFO_SIZE_MASK) div 1024"] by blast
  define s1 where "s1 = (if ftr AND SYS_REG_INFO_HAS_BRAM \<noteq> 0 then z2 else s)"
  have s1: "up sha c m s1" using z(3) assms by (simp add: s1_def)
  obtain a1 a2 where a: "mc_readq e (SYSCON_BASE + SYS_REG_DRAMINFO) s1 = (regs SYS_REG_DRAMINFO, a1)"
    "printf e (''          DRAM: %ld MB'' @ [CHR 0x0A]) [(regs SYS_REG_DRAMINFO AND SYS_REG_DRAMINFO_SIZE_MASK) div (1024 * 1024)] a1 = Some a2"
    "up sha c m a2"
    using up_report [OF s1 r(2,6) lits(2) start_formats(11), of "\<lambda>v. (v AND SYS_REG_DRAMINFO_SIZE_MASK) div (1024 * 1024)"] by blast
  obtain b1 b2 where b: "mc_readq e (SYSCON_BASE + SYS_REG_DRAMINITINFO) a2 = (regs SYS_REG_DRAMINITINFO, b1)"
    "printf e (''     DRAM INIT: %ld KB'' @ [CHR 0x0A]) [regs SYS_REG_DRAMINITINFO div 1024] b1 = Some b2" "up sha c m b2"
    using up_report [OF a(3) r(3,7) lits(3) start_formats(12), of "\<lambda>v. v div 1024"] by blast
  define s2 where "s2 = (if ftr AND SYS_REG_INFO_HAS_DRAM \<noteq> 0 then b2 else s1)"
  have "up sha c m s2" using b(3) s1 by (simp add: s2_def)
  then obtain d1 d2 where d: "mc_readq e (SYSCON_BASE + SYS_REG_CLKINFO) s2 = (regs SYS_REG_CLKINFO, d1)"
    "printf e (''           CLK: %ld MHz'' @ [CHR 0x0A]) [(regs SYS_REG_CLKINFO AND SYS_REG_CLKINFO_FREQ_MASK) div 1000000] d1 = Some d2"
    "up sha c m d2"
    using up_report [OF _ r(4,8) lits(4) start_formats(13), of sha c m s2 "\<lambda>v. (v AND SYS_REG_CLKINFO_FREQ_MASK) div 1000000"] by blast
  have "(if ftr AND SYS_REG_INFO_HAS_BRAM \<noteq> 0
      then do { let (v, s') = mc_readq e (SYSCON_BASE + SYS_REG_BRAMINFO) s;
                printf e (''          BRAM: %ld KB'' @ [CHR 0x0A]) [(v AND SYS_REG_BRAMINFO_SIZE_MASK) div 1024] s' }
      else Some s) = Some s1"
    using z(1,2) by (simp add: s1_def)
  moreover have "(if ftr AND SYS_REG_INFO_HAS_DRAM \<noteq> 0
      then do { let (v, s') = mc_readq e (SYSCON_BASE + SYS_REG_DRAMINFO) s1;
                s'' \<leftarrow> printf e (''          DRAM: %ld MB'' @ [CHR 0x0A]) [(v AND SYS_REG_DRAMINFO_SIZE_MASK) div (1024 * 1024)] s';
                let (w, t) = mc_readq e (SYSCON_BASE + SYS_REG_DRAMINITINFO) s'';
                printf e (''     DRAM INIT: %ld KB'' @ [CHR 0x0A]) [w div 1024] t }
      else Some s1) = Some s2"
    using a(1,2) b(1,2) by (simp add: s2_def)
  ultimately show ?thesis using d unfolding print_sizes_def by simp
qed

end

context boot_board
begin

lemma up_check_flash:
  assumes "up sha c m s" "chip_idle c"
  shows "\<exists>q c' s'. check_flash e s = Some (q, s') \<and> up sha c' m s'"
proof -
  have "at c (mc_mem s) s"
    using assms(1) print_ok_subset [of e "mc_mem s" main_lits flash_lits] by (auto simp: up_def at_def main_lits_def)
  from check_flash_at [OF this assms(2)] up_scratch [OF assms(1)] show ?thesis by (fastforce simp: at_def)
qed

text \<open>The offset of the image in the flash.\<close>

definition image_offset :: u32 where
  "image_offset = ucast (regs SYS_REG_SPI_INFO AND SYS_REG_SPI_INFO_FLASH_OFF_MASK)"

definition has :: "u64 \<Rightarrow> bool" where
  "has flag \<longleftrightarrow> regs SYS_REG_INFO AND flag \<noteq> 0"

lemma up_probe:
  assumes "up sha c m s" "chip_idle c"
  shows "\<exists>c' s'. probe_flash e (regs SYS_REG_INFO) s =
    Some (has SYS_REG_INFO_HAS_SPI_FLASH, if has SYS_REG_INFO_HAS_SPI_FLASH then image_offset else 0, s') \<and> up sha c' m s'"
proof -
  have lit: "'' SPI FLASH OFF: 0x%x bytes'' @ [CHR 0x0A] \<in> start_lits" by (simp add: start_lits_def)
  obtain s1 where s1: "mc_readq e (SYSCON_BASE + SYS_REG_SPI_INFO) s = (regs SYS_REG_SPI_INFO, s1)" "up sha c m s1"
    using up_reg [OF assms(1), of SYS_REG_SPI_INFO] by (auto simp: soc_consts)
  obtain q c' s2 where s2: "check_flash e s1 = Some (q, s2)" "up sha c' m s2"
    using up_check_flash [OF s1(2) assms(2)] by blast
  obtain s3 where s3: "printf e ('' SPI FLASH OFF: 0x%x bytes'' @ [CHR 0x0A]) [ucast image_offset] s2 = Some s3" "up sha c' m s3"
    using up_print_start [OF s2(2) lit, of "[ucast image_offset]"] start_formats(14) by auto
  show ?thesis
  proof (cases "has SYS_REG_INFO_HAS_SPI_FLASH")
    case True
    then show ?thesis
      using s1(1) s2(1) s3 by (simp add: probe_flash_def has_def Let_def image_offset_def) blast
  next
    case False
    then show ?thesis using assms(1) by (auto simp: probe_flash_def has_def)
  qed
qed

lemma up_init_dram:
  assumes "up sha c m s" "main_layout e sha dram"
  shows "\<exists>s'. init_dram e ftr s = Some s' \<and> up sha c m s'"
proof -
  obtain q s1 where q: "en_init_done e s = (q, s1)" by fastforce
  have s1: "up sha c m s1"
    using init_done [OF _ q] assms(1) by (intro up_scratch [OF assms(1)]) (auto simp: up_def)
  obtain s2 where s2: "printf e (''LiteDRAM built from LiteX %s'' @ [CHR 0x0A]) [en_sha1 e] s1 = Some s2" "up sha c m s2"
    using up_sha [OF s1] by blast
  obtain s3 where s3: "en_sdram_init e s2 = Some s3" "ok (mc_con s3)" "chip (dev (mc_con s3)) = c"
    and same: "\<And>x. \<not> dram x \<Longrightarrow> \<not> scratch e x \<Longrightarrow> mc_mem s3 x = mc_mem s2 x"
    using dram_init [of s2] s2(2) by (auto simp: up_def)
  have keep: "stays (en_frame e) (en_buffer e) 129 (mc_mem s3) a t" if "stays (en_frame e) (en_buffer e) 129 (mc_mem s2) a t"
    "\<And>x. in_region x a (Suc (length t)) \<Longrightarrow> \<not> dram x" for a t
    using that same by (intro stays_same [OF that(1)]) (auto simp: stays_def apart_def scratch_def)
  have "print_ok e (mc_mem s3) main_lits"
    unfolding print_ok_def lit_ok_def
  proof (intro conjI ballI keep)
    show "fmt_frame (en_frame e) (en_buffer e) 129" "en_buffer e \<noteq> 0"
      "stays (en_frame e) (en_buffer e) 129 (mc_mem s2) (fr_0x (en_frame e)) (ascii ''0x'')"
      "l \<in> main_lits \<Longrightarrow> stays (en_frame e) (en_buffer e) 129 (mc_mem s2) (en_lit e l) (ascii l)" for l
      using s2(2) by (auto simp: up_def print_ok_def lit_ok_def)
    show "in_region x (fr_0x (en_frame e)) (Suc (length (ascii ''0x''))) \<Longrightarrow> \<not> dram x" for x
      using assms(2) by (auto simp: main_layout_def lit_area_def numeral_3_eq_3)
    show "l \<in> main_lits \<Longrightarrow> in_region x (en_lit e l) (Suc (length (ascii l))) \<Longrightarrow> \<not> dram x" for l x
      using assms(2) by (auto simp: main_layout_def lit_area_def)
  qed
  moreover have "stays (en_frame e) (en_buffer e) 129 (mc_mem s3) (en_sha1 e) sha"
    using s2(2) assms(2) by (intro keep) (auto simp: up_def main_layout_def)
  ultimately have "up sha c m s3" using s2(2) s3(2,3) same by (auto simp: up_def)
  then show ?thesis using q s1 s2(1) s3(1) assms(1) by (auto simp: init_dram_def)
qed

end

section \<open>The whole start\<close>

context boot_board
begin

text \<open>Up to the choice of what to boot, \<open>main\<close> returns to its caller in every case.\<close>

lemma main_start:
  assumes "fresh (mc_con s)" "print_ok e (mc_mem s) main_lits" "stays (en_frame e) (en_buffer e) 129 (mc_mem s) (en_sha1 e) sha"
    "main_layout e sha dram"
  shows "\<exists>c s'. up sha c (mc_mem s) s' \<and> main_fn e s =
    (if has SYS_REG_INFO_HAS_BRAM then do { t \<leftarrow> printf e (''Booting from BRAM...'' @ [CHR 0x0A]) [] s'; Some (0, t) }
     else do { (val, t) \<leftarrow> (if has SYS_REG_INFO_HAS_SPI_FLASH then boot_flash e image_offset s' else Some (- 1, s'));
               (if has SYS_REG_INFO_HAS_SPI_FLASH \<and> val \<noteq> - 1 then Some (val, t)
                else do { t' \<leftarrow> boot_sdram e t; Some (0, t') }) })"
proof -
  have lits: "[CHR 0x0A, CHR 0x0A] @ ''Welcome to Microwatt !'' @ [CHR 0x0A, CHR 0x0A] \<in> start_lits"
    "'' Soc signature: %016llx'' @ [CHR 0x0A] \<in> start_lits" "''  Soc features: '' \<in> start_lits" "[CHR 0x0A] \<in> start_lits"
    by (simp_all add: start_lits_def)
  define s0 where "s0 = s\<lparr>mc_con := console_init (en_bus e) (mc_con s)\<rparr>"
  define c0 where "c0 = chip (dev (mc_con s0))"
  have s0: "up sha c0 (mc_mem s) s0" "chip_idle c0"
    using init [OF assms(1)] assms(2,3) by (simp_all add: up_def s0_def c0_def)
  obtain s1 where s1: "printf e ([CHR 0x0A, CHR 0x0A] @ ''Welcome to Microwatt !'' @ [CHR 0x0A, CHR 0x0A]) [] s0 = Some s1" "up sha c0 (mc_mem s) s1"
    using up_print_start [OF s0(1) lits(1), of "[]"] start_formats(1) by auto
  obtain s2 s3 where s3: "mc_readq e (SYSCON_BASE + SYS_REG_SIGNATURE) s1 = (regs SYS_REG_SIGNATURE, s2)"
    "printf e ('' Soc signature: %016llx'' @ [CHR 0x0A]) [regs SYS_REG_SIGNATURE] s2 = Some s3" "up sha c0 (mc_mem s) s3"
    using up_report [OF s1(2) _ _ lits(2) start_formats(2), of SYS_REG_SIGNATURE "\<lambda>v. v"] by (auto simp: soc_consts)
  obtain s4 where s4: "printf e ''  Soc features: '' [] s3 = Some s4" "up sha c0 (mc_mem s) s4"
    using up_print_start [OF s3(3) lits(3), of "[]"] start_formats(3) by auto
  obtain s5 where s5: "mc_readq e (SYSCON_BASE + SYS_REG_INFO) s4 = (regs SYS_REG_INFO, s5)" "up sha c0 (mc_mem s) s5"
    using up_reg [OF s4(2), of SYS_REG_INFO] by (auto simp: soc_consts)
  obtain s6 where s6: "print_features e (regs SYS_REG_INFO) s5 = Some s6" "up sha c0 (mc_mem s) s6" using up_features [OF s5(2)] by blast
  obtain s7 where s7: "print_sizes e (regs SYS_REG_INFO) s6 = Some s7" "up sha c0 (mc_mem s) s7" using up_sizes [OF s6(2)] by blast
  obtain c s8 where s8: "probe_flash e (regs SYS_REG_INFO) s7 = Some (has SYS_REG_INFO_HAS_SPI_FLASH,
      if has SYS_REG_INFO_HAS_SPI_FLASH then image_offset else 0, s8)" "up sha c (mc_mem s) s8"
    using up_probe [OF s7(2) s0(2)] by blast
  obtain s9 where s9: "printf e [CHR 0x0A] [] s8 = Some s9" "up sha c (mc_mem s) s9"
    using up_print_start [OF s8(2) lits(4), of "[]"] flash_lits_formats(8) by auto
  obtain s10 where s10: "init_dram e (regs SYS_REG_INFO) s9 = Some s10" "up sha c (mc_mem s) s10" using up_init_dram [OF s9(2) assms(4)] by blast
  obtain v s11 where s11: "mc_readq e (SYSCON_BASE + SYS_REG_CTRL) s10 = (v, s11)" "up sha c (mc_mem s) s11"
    using up_readq [OF s10(2), of SYS_REG_CTRL] by (auto simp: soc_consts)
  let ?s = "mc_writeq e (v AND NOT SYS_REG_CTRL_ALT_RESET) (SYSCON_BASE + SYS_REG_CTRL) s11"
  show ?thesis
    by (rule exI [of _ c], rule exI [of _ ?s], rule conjI [OF up_ctrl [OF s11(2)]])
      (simp only: main_fn_def Let_def s0_def [symmetric] s1(1) s3(1,2) s4(1) s5(1) s6(1) s7(1) s8(1) s9(1) s10(1) s11(1) bind.simps split_conv
        has_def if_cancel if_True simp_thms cong: if_cong)
qed

end

section \<open>The image depends on the flash only\<close>

lemma segs_flash:
  assumes "\<And>x. flash x \<Longrightarrow> fm' x = fm x"
  shows "segs_ok e ls fm offset ent n poff \<Longrightarrow>
    segs_ok e ls fm' offset ent n poff \<and> load_spec fm' offset ent n poff M = load_spec fm offset ent n poff M"
proof (induction n arbitrary: poff M)
  case (Suc n)
  let ?ph = "flash_addr poff"
  have "mread fm' ?ph 56 = mread fm ?ph 56"
    using Suc.prems by (intro mread_cong assms) (simp add: Let_def)
  note f = phdr_fields [OF this]
  show ?case
  proof (cases "p_type fm ?ph = PT_LOAD")
    case True
    have "mread fm' (flash_addr (offset + ucast (p_offset fm ?ph))) (unat (ucast (p_filesz fm ?ph) :: u32)) =
        mread fm (flash_addr (offset + ucast (p_offset fm ?ph))) (unat (ucast (p_filesz fm ?ph) :: u32))"
      using Suc.prems True by (intro mread_cong assms) (simp add: Let_def)
    then show ?thesis using Suc True f by (simp add: Let_def)
  next
    case False
    then show ?thesis using Suc.prems f by (simp add: Let_def)
  qed
qed simp

section \<open>The fall-back\<close>

lemma boot_sdram_copies:
  assumes con: "console (en_bus e) ok sent incoming" and "ok (mc_con s)" and pr: "print_ok e (mc_mem s) boot_lits"
    and pay: "\<And>x. in_region x payload 0xa000 \<Longrightarrow> \<not> scratch e x"
    and free: "\<And>x. in_region x DRAM_BASE 0xa000 \<Longrightarrow> \<not> scratch e x \<and> \<not> lit_area e boot_lits x"
  shows "\<exists>s'. boot_sdram e s = Some s' \<and> mread (mc_mem s') DRAM_BASE 0xa000 = mread (mc_mem s) payload 0xa000"
proof -
  have lits: "''Copying payload to DRAM...'' @ [CHR 0x0A] \<in> boot_lits" "''Booting from DRAM...'' @ [CHR 0x0A] \<in> boot_lits"
    by (simp_all add: boot_lits_def)
  obtain s1 where s1: "printf e (''Copying payload to DRAM...'' @ [CHR 0x0A]) [] s = Some s1" "ok (mc_con s1)"
    and same: "\<And>x. \<not> scratch e x \<Longrightarrow> mc_mem s1 x = mc_mem s x"
    using printf_returns [OF con assms(2) pr lits(1), of "[]"] boot_lits_formats(7) by auto
  define bs where "bs = mread (mc_mem s1) payload 0xa000"
  have len: "length bs = 0xa000" by (simp add: bs_def del: mread_numeral)
  let ?s2 = "s1\<lparr>mc_mem := mwrite (mc_mem s1) DRAM_BASE bs\<rparr>"
  have "fwd_ok DRAM_BASE payload (unat (0xa000 :: u64))" by (simp add: fwd_ok_def payload_def soc_consts in_region_def)
  then have cp: "snd (memcpy (mc_mem s1) DRAM_BASE payload 0xa000) = mwrite (mc_mem s1) DRAM_BASE bs"
    using memcpy_mwrite [of DRAM_BASE payload "0xa000" "mc_mem s1"] by (simp add: bs_def del: mread_numeral)
  have "print_ok e (mc_mem s1) boot_lits" by (rule print_ok_scratch [OF pr same])
  moreover have "mwrite (mc_mem s1) DRAM_BASE bs x = mc_mem s1 x" if "lit_area e boot_lits x" for x
    using that free [of x] mwrite_other [of x DRAM_BASE bs "mc_mem s1"] len by auto
  ultimately have pr2: "print_ok e (mc_mem ?s2) boot_lits" using print_ok_lits [of e "mc_mem s1" boot_lits] by simp
  obtain s3 where s3: "printf e (''Booting from DRAM...'' @ [CHR 0x0A]) [] ?s2 = Some s3"
    and same3: "\<And>x. \<not> scratch e x \<Longrightarrow> mc_mem s3 x = mc_mem ?s2 x"
    using printf_returns [OF con _ pr2 lits(2), of "[]"] boot_lits_formats(8) s1(2) by auto
  have "mread (mc_mem s3) DRAM_BASE (length bs) = mread (mc_mem ?s2) DRAM_BASE (length bs)"
    using free len by (intro mread_cong same3) simp
  also have "\<dots> = bs" using mread_mwrite [of bs "mc_mem s1" DRAM_BASE] len by (simp del: mread_numeral)
  also have "bs = mread (mc_mem s) payload 0xa000"
    unfolding bs_def by (intro mread_cong same pay)
  finally have "mread (mc_mem s3) DRAM_BASE 0xa000 = mread (mc_mem s) payload 0xa000" unfolding len .
  moreover have "boot_sdram e s = Some s3"
    using s1(1) s3 cp by (simp add: boot_sdram_def Let_def payload_def)
  ultimately show ?thesis by blast
qed

lemma flash_same: "main_layout e sha dram \<Longrightarrow> flash x \<Longrightarrow> \<not> scratch e x \<and> \<not> dram x"
  by (auto simp: main_layout_def layout_def loader_area_def)

context boot_board
begin

lemma up_flash: "up sha c m s \<Longrightarrow> main_layout e sha dram \<Longrightarrow> flash x \<Longrightarrow> mc_mem s x = m x"
  using flash_same [of e sha dram x] by (simp add: up_def)

lemma up_boot:
  assumes "up sha c m s"
  shows "ok (mc_con s) \<and> chip (dev (mc_con s)) = c" "print_ok e (mc_mem s) boot_lits"
  using assms print_ok_subset [of e "mc_mem s" main_lits boot_lits] by (auto simp: up_def main_lits_def)

lemma main_image:
  assumes start: "fresh (mc_con s)" "print_ok e (mc_mem s) main_lits" "stays (en_frame e) (en_buffer e) 129 (mc_mem s) (en_sha1 e) sha"
      "main_layout e sha dram"
    and "\<not> has SYS_REG_INFO_HAS_BRAM" "has SYS_REG_INFO_HAS_SPI_FLASH" "\<And>x. in_region x (flash_addr image_offset) 64 \<Longrightarrow> flash x"
    and elf: "is_elf64 (mc_mem s) (flash_addr image_offset)" "is_ppc64le (mc_mem s) (flash_addr image_offset)"
    and "segs_ok e boot_lits (mc_mem s) image_offset ent (unat (e_phnum (mc_mem s) (flash_addr image_offset))) poff"
    and "ent = ucast (e_phentsize (mc_mem s) (flash_addr image_offset))" "poff = image_offset + ucast (e_phoff (mc_mem s) (flash_addr image_offset))"
    and "e_entry (mc_mem s) (flash_addr image_offset) \<noteq> - 1"
  shows "\<exists>s' M. main_fn e s = Some (e_entry (mc_mem s) (flash_addr image_offset), s') \<and> (\<forall>x. \<not> scratch e x \<longrightarrow> \<not> dram x \<longrightarrow> M x = mc_mem s x) \<and>
    (\<forall>x. \<not> reserved e boot_lits x \<longrightarrow> mc_mem s' x =
      load_spec (mc_mem s) image_offset ent (unat (e_phnum (mc_mem s) (flash_addr image_offset))) poff M x)"
proof -
  obtain c t where t: "up sha c (mc_mem s) t" and main: "main_fn e s =
    (if has SYS_REG_INFO_HAS_BRAM then do { t \<leftarrow> printf e (''Booting from BRAM...'' @ [CHR 0x0A]) [] t; Some (0, t) }
     else do { (val, t) \<leftarrow> (if has SYS_REG_INFO_HAS_SPI_FLASH then boot_flash e image_offset t else Some (- 1, t));
               (if has SYS_REG_INFO_HAS_SPI_FLASH \<and> val \<noteq> - 1 then Some (val, t)
                else do { t' \<leftarrow> boot_sdram e t; Some (0, t') }) })"
    using main_start [OF start] by blast
  let ?h = "flash_addr image_offset"
  note fl = up_flash [OF t start(4)]
  have hb: "mread (mc_mem t) ?h 64 = mread (mc_mem s) ?h 64" using assms(7) fl by (intro mread_cong) blast
  note hf = ehdr_fields [OF hb] is_elf64_block [OF hb]
  have seg: "segs_ok e boot_lits (mc_mem t) image_offset ent (unat (e_phnum (mc_mem s) ?h)) poff"
    "load_spec (mc_mem t) image_offset ent (unat (e_phnum (mc_mem s) ?h)) poff M =
       load_spec (mc_mem s) image_offset ent (unat (e_phnum (mc_mem s) ?h)) poff M" for M
    using segs_flash [OF fl assms(10)] by auto
  have lay: "layout e boot_lits" using start(4) by (simp add: main_layout_def)
  obtain s' where "boot_flash e image_offset t = Some (e_entry (mc_mem t) ?h, s')"
    "\<forall>x. \<not> reserved e boot_lits x \<longrightarrow> mc_mem s' x = load_spec (mc_mem t) image_offset ent (unat (e_phnum (mc_mem s) ?h)) poff (mc_mem t) x"
    using boot_flash_loads [OF console lay up_boot [OF t] assms(7), where offset = image_offset and n = "unat (e_phnum (mc_mem s) ?h)" and ent = ent and poff = poff] elf seg(1) assms(11,12) hf by auto
  then show ?thesis
    using main assms(5,6,13) hf(2) seg(2) [of "mc_mem t"] t by (auto simp: up_def)
qed

lemma main_payload:
  assumes start: "fresh (mc_con s)" "print_ok e (mc_mem s) main_lits" "stays (en_frame e) (en_buffer e) 129 (mc_mem s) (en_sha1 e) sha"
      "main_layout e sha dram"
    and "\<not> has SYS_REG_INFO_HAS_BRAM" "\<And>x. in_region x (flash_addr image_offset) 64 \<Longrightarrow> flash x"
    and "has SYS_REG_INFO_HAS_SPI_FLASH \<longrightarrow> \<not> (is_elf64 (mc_mem s) (flash_addr image_offset) \<and> is_ppc64le (mc_mem s) (flash_addr image_offset))"
    and "\<And>x. in_region x DRAM_BASE 0xa000 \<Longrightarrow> dram x"
  shows "\<exists>s'. main_fn e s = Some (0, s') \<and> mread (mc_mem s') DRAM_BASE 0xa000 = mread (mc_mem s) payload 0xa000"
proof -
  obtain c t where t: "up sha c (mc_mem s) t" and main: "main_fn e s =
    (if has SYS_REG_INFO_HAS_BRAM then do { t \<leftarrow> printf e (''Booting from BRAM...'' @ [CHR 0x0A]) [] t; Some (0, t) }
     else do { (val, t) \<leftarrow> (if has SYS_REG_INFO_HAS_SPI_FLASH then boot_flash e image_offset t else Some (- 1, t));
               (if has SYS_REG_INFO_HAS_SPI_FLASH \<and> val \<noteq> - 1 then Some (val, t)
                else do { t' \<leftarrow> boot_sdram e t; Some (0, t') }) })"
    using main_start [OF start] by blast
  let ?h = "flash_addr image_offset"
  note fl = up_flash [OF t start(4)]
  have lay: "layout e boot_lits" using start(4) by (simp add: main_layout_def)
  have "mread (mc_mem t) ?h 64 = mread (mc_mem s) ?h 64" using assms(6) fl by (intro mread_cong) blast
  note elf = is_elf64_block [OF this]
  have pay: "\<not> reserved e boot_lits x" "\<not> scratch e x" "mc_mem t x = mc_mem s x" if "in_region x payload 0xa000" for x
    using start(4) t that by (auto simp: main_layout_def reserved_def loader_area_def up_def)
  have "\<exists>u. (if has SYS_REG_INFO_HAS_SPI_FLASH then boot_flash e image_offset t else Some (- 1, t)) = Some (- 1, u) \<and>
      ok (mc_con u) \<and> chip (dev (mc_con u)) = c \<and> print_ok e (mc_mem u) boot_lits \<and> (\<forall>x. in_region x payload 0xa000 \<longrightarrow> mc_mem u x = mc_mem s x)"
  proof (cases "has SYS_REG_INFO_HAS_SPI_FLASH")
    case True
    have no: "\<not> (is_elf64 (mc_mem t) ?h \<and> is_ppc64le (mc_mem t) ?h)" using assms(7) True elf by auto
    obtain u where u: "boot_flash e image_offset t = Some (- 1, u)"
      "loader_inv e (\<lambda>b. ok b \<and> chip (dev b) = c) (mc_mem t) image_offset u (mc_mem t)"
      using boot_flash_rejects [OF console lay up_boot [OF t] assms(6) no] by blast
    then show ?thesis using True loader_invD(1,2,4) [OF u(2)] pay by auto
  next
    case False
    then show ?thesis using up_boot [OF t] pay by auto
  qed
  then obtain u where u: "(if has SYS_REG_INFO_HAS_SPI_FLASH then boot_flash e image_offset t else Some (- 1, t)) = Some (- 1, u)"
    "ok (mc_con u) \<and> chip (dev (mc_con u)) = c" "print_ok e (mc_mem u) boot_lits" "\<forall>x. in_region x payload 0xa000 \<longrightarrow> mc_mem u x = mc_mem s x" by blast
  have "\<not> scratch e x \<and> \<not> lit_area e boot_lits x" if "in_region x DRAM_BASE 0xa000" for x
    using assms(8) [OF that] start(4) by (auto simp: main_layout_def lit_area_def main_lits_def)
  from boot_sdram_copies [OF console u(2,3) pay(2) this] obtain s' where
    s': "boot_sdram e u = Some s'" "mread (mc_mem s') DRAM_BASE 0xa000 = mread (mc_mem u) payload 0xa000" by blast
  moreover have "mread (mc_mem u) payload 0xa000 = mread (mc_mem s) payload 0xa000"
    using u(4) by (intro mread_cong) blast
  ultimately show ?thesis using main assms(5) u(1) by (simp del: mread_numeral)
qed

end


section \<open>A board\<close>

text \<open>A serial line with its divisor latch, a flash chip, and a system controller whose registers other than the control register are a
  table.  The memory test that ends the initialisation of the memory leaves a pattern at its start.\<close>

record board =
  bd_uart :: uart_dev
  bd_chip :: spi_chip
  bd_ctrl :: u64
  bd_dlab :: bool

definition board_bus :: "nat \<Rightarrow> nat \<Rightarrow> (u64 \<Rightarrow> u64) \<Rightarrow> board bus" where
  "board_bus k n regs = \<lparr>
     bus_read = (\<lambda>w a b.
       if a - SYSCON_BASE < 0x100 then ((if a - SYSCON_BASE = SYS_REG_CTRL then bd_ctrl b else regs (a - SYSCON_BASE)), b)
       else (case bus_read (flash_bus k n) w a (bd_uart b, bd_chip b) of (v, u, c) \<Rightarrow> (v, b\<lparr>bd_uart := u, bd_chip := c\<rparr>))),
     bus_write = (\<lambda>w a v b.
       if a = SYSCON_BASE + SYS_REG_CTRL then b\<lparr>bd_ctrl := v\<rparr>
       else if a = UART_BASE + UART_REG_LCR then b\<lparr>bd_dlab := bit v 7\<rparr>
       else if a = UART_BASE \<and> bd_dlab b then b
       else (case bus_write (flash_bus k n) w a v (bd_uart b, bd_chip b) of (u, c) \<Rightarrow> b\<lparr>bd_uart := u, bd_chip := c\<rparr>))\<rparr>"

definition board_ok :: "board con \<Rightarrow> bool" where
  "board_ok c \<longleftrightarrow> uart_is_std c \<and> uart_base c = UART_BASE \<and> \<not> bd_dlab (dev c)"

definition board_fresh :: "(u64 \<Rightarrow> u64) \<Rightarrow> board con \<Rightarrow> bool" where
  "board_fresh regs c \<longleftrightarrow> chip_idle (bd_chip (dev c)) \<and> regs SYS_REG_INFO AND SYS_REG_INFO_HAS_LARGE_SYSCON \<noteq> 0 \<and>
     regs SYS_REG_UART0_INFO AND SYS_REG_UART_IS_16550 \<noteq> 0"

definition board_dram :: "addr \<Rightarrow> bool" where
  "board_dram x \<longleftrightarrow> in_region x DRAM_BASE 0x10000000"

definition memory_test :: "'d machine \<Rightarrow> 'd machine option" where
  "memory_test s = Some (s\<lparr>mc_mem := mwrite (mc_mem s) DRAM_BASE [0xaa, 0xaa, 0xaa, 0xaa, 0x55, 0x55, 0x55, 0x55]\<rparr>)"

definition board_env :: "nat \<Rightarrow> nat \<Rightarrow> (u64 \<Rightarrow> u64) \<Rightarrow> board env \<Rightarrow> board env" where
  "board_env k n regs e = e\<lparr>en_bus := board_bus k n regs, en_sdram_init := memory_test, en_init_done := (\<lambda>s. (0, s))\<rparr>"

lemma board_bus_uart:
  "uart_16550 (board_bus k n regs) (\<lambda>d. \<not> bd_dlab d \<and> bd_chip d = v) (\<lambda>d. ud_busy (bd_uart d)) (\<lambda>_. 0)
     (\<lambda>d. ud_sent (bd_uart d)) (\<lambda>d. ud_in (bd_uart d))"
  by unfold_locales
    (auto simp: board_bus_def flash_bus_def uart_16550_bus_def soc_consts bit_simps split: if_splits list.splits prod.splits)

lemma board_bus_console:
  "console (board_bus k n regs) (\<lambda>c. board_ok c \<and> bd_chip (dev c) = v) (\<lambda>c. ud_sent (bd_uart (dev c))) (\<lambda>c. ud_in (bd_uart (dev c)))"
  using uart_16550.std_console [OF board_bus_uart [of k n regs v]] by (simp add: board_ok_def conj_assoc)

lemma board_init:
  assumes "board_fresh regs c"
  shows "board_ok (console_init (board_bus k n regs) c) \<and> bd_chip (dev (console_init (board_bus k n regs) c)) = bd_chip (dev c)"
  using assms by (simp add: board_fresh_def board_ok_def console_init_def std_uart_init_def readq_def writeb_def board_bus_def flash_bus_def
      uart_16550_bus_def Let_def SYSCON_BASE_def SYS_REG_CLKINFO_def SYS_REG_UART0_INFO_def SYS_REG_CTRL_def UART_BASE_def
      SYS_REG_INFO_def UART_REG_LCR_def UART_REG_DLL_def UART_REG_DLM_def UART_REG_MCR_def UART_REG_FCR_def UART_REG_LCR_DLAB_def
      UART_REG_LCR_8BIT_def UART_REG_TX_def bit_simps)

lemma memory_test_same:
  "\<exists>s'. memory_test s = Some s' \<and> mc_con s' = mc_con s \<and> (\<forall>x. \<not> board_dram x \<longrightarrow> mc_mem s' x = mc_mem s x)"
  using mwrite_other [of _ DRAM_BASE "[0xaa, 0xaa, 0xaa, 0xaa, 0x55, 0x55, 0x55, 0x55]" "mc_mem s"]
  by (auto simp: memory_test_def board_dram_def in_region_def simp del: mwrite.simps)

interpretation board_port: flash_port "board_env k n regs e" board_ok "\<lambda>c. ud_sent (bd_uart (dev c))" "\<lambda>c. ud_in (bd_uart (dev c))" bd_chip n
  for e k n regs
  by (rule flash_port.intro)
    (auto simp: board_env_def board_bus_console, auto simp: board_ok_def board_bus_def flash_bus_def soc_consts ucast_back32 split: prod.splits)

interpretation brd: boot_board "board_env k n regs e" board_ok "\<lambda>c. ud_sent (bd_uart (dev c))" "\<lambda>c. ud_in (bd_uart (dev c))" bd_chip n
  regs "board_fresh regs" board_dram for e k n regs
proof unfold_locales
  let ?e = "board_env k n regs e"
  show "board_ok (console_init (en_bus ?e) c) \<and> chip_idle (bd_chip (dev (console_init (en_bus ?e) c)))" if "board_fresh regs c" for c
    using board_init [OF that, of k n] that by (simp add: board_env_def board_fresh_def)
  show "board_ok (c\<lparr>dev := d\<rparr>) \<and> bd_chip d = bd_chip (dev c) \<and> (r \<noteq> SYS_REG_CTRL \<longrightarrow> v = regs r)"
    if "board_ok c" "sys_reg r" "bus_read (en_bus ?e) 8 (SYSCON_BASE + r) (dev c) = (v, d)" for c r v d
    using that by (auto simp: board_env_def board_bus_def board_ok_def sys_reg_def split: if_splits)
  show "board_ok (c\<lparr>dev := d\<rparr>) \<and> bd_chip d = bd_chip (dev c)"
    if "board_ok c" "d = bus_write (en_bus ?e) 8 (SYSCON_BASE + SYS_REG_CTRL) v (dev c)" for c d v
    using that by (simp add: board_env_def board_bus_def board_ok_def)
  show "board_ok (mc_con s') \<and> bd_chip (dev (mc_con s')) = bd_chip (dev (mc_con s)) \<and> mc_mem s' = mc_mem s"
    if "board_ok (mc_con s)" "en_init_done ?e s = (q, s')" for s q s'
    using that by (simp add: board_env_def)
  show "\<exists>s'. en_sdram_init ?e s = Some s' \<and> board_ok (mc_con s') \<and> bd_chip (dev (mc_con s')) = bd_chip (dev (mc_con s)) \<and>
      (\<forall>x. \<not> board_dram x \<longrightarrow> \<not> scratch ?e x \<longrightarrow> mc_mem s' x = mc_mem s x)" if "board_ok (mc_con s)" for s
    using that memory_test_same [of s] by (auto simp: board_env_def)
qed

section \<open>Properties\<close>

text \<open>C1: On a board without block RAM and with a flash chip that holds a bootable image at the offset that the system controller
  reports, the start-up program runs to its end: it sets up the console, reports the system, detects the chip, initialises the memory and returns
  the entry point of the image.  The memory, outside what the loader reserves, is then what the initialisation left with the loadable
  segments of the image at their addresses, whatever the serial line, the chip and the memory initialisation do within their contracts.  The stack,
  the literals and the payload of the program are above \<open>DRAM_INIT_BASE\<close>, where the linker script puts them, outside the window of the flash.\<close>

theorem main_boots_flash_image:
  assumes "boot_board e ok sent incoming chip n regs fresh dram"
    and "fresh (mc_con s)" and "print_ok e (mc_mem s) main_lits" and "stays (en_frame e) (en_buffer e) 129 (mc_mem s) (en_sha1 e) sha"
    and "main_layout e sha dram"
    and "regs SYS_REG_INFO AND SYS_REG_INFO_HAS_BRAM = 0" and "regs SYS_REG_INFO AND SYS_REG_INFO_HAS_SPI_FLASH \<noteq> 0"
    and "offset = ucast (regs SYS_REG_SPI_INFO AND SYS_REG_SPI_INFO_FLASH_OFF_MASK)" and "h = flash_addr offset"
    and "\<And>x. in_region x h 64 \<Longrightarrow> flash x" and "is_elf64 (mc_mem s) h" and "is_ppc64le (mc_mem s) h"
    and "segs_ok e boot_lits (mc_mem s) offset ent (unat (e_phnum (mc_mem s) h)) poff"
    and "ent = ucast (e_phentsize (mc_mem s) h)" and "poff = offset + ucast (e_phoff (mc_mem s) h)" and "e_entry (mc_mem s) h \<noteq> - 1"
  shows "\<exists>s' M. main_fn e s = Some (e_entry (mc_mem s) h, s') \<and> (\<forall>x. \<not> scratch e x \<longrightarrow> \<not> dram x \<longrightarrow> M x = mc_mem s x) \<and>
    (\<forall>x. \<not> reserved e boot_lits x \<longrightarrow> mc_mem s' x = load_spec (mc_mem s) offset ent (unat (e_phnum (mc_mem s) h)) poff M x)"
proof -
  have "offset = boot_board.image_offset regs" using assms(8) by (simp add: boot_board.image_offset_def [OF assms(1)])
  with boot_board.main_image [OF assms(1-5)] assms(6,7,9-16) show ?thesis by (simp add: boot_board.has_def [OF assms(1)])
qed

text \<open>C6: On a board without block RAM, when there is no flash chip or the flash holds something other than a 64-bit little-endian PowerPC
  ELF file, the start-up program falls back to its own payload: it returns 0, and the start of the memory is a copy of the payload.\<close>

theorem main_boots_payload:
  assumes "boot_board e ok sent incoming chip n regs fresh dram"
    and "fresh (mc_con s)" and "print_ok e (mc_mem s) main_lits" and "stays (en_frame e) (en_buffer e) 129 (mc_mem s) (en_sha1 e) sha"
    and "main_layout e sha dram"
    and "regs SYS_REG_INFO AND SYS_REG_INFO_HAS_BRAM = 0"
    and "h = flash_addr (ucast (regs SYS_REG_SPI_INFO AND SYS_REG_SPI_INFO_FLASH_OFF_MASK))" and "\<And>x. in_region x h 64 \<Longrightarrow> flash x"
    and "regs SYS_REG_INFO AND SYS_REG_INFO_HAS_SPI_FLASH = 0 \<or> \<not> is_elf64 (mc_mem s) h \<or> \<not> is_ppc64le (mc_mem s) h"
    and "\<And>x. in_region x DRAM_BASE 0xa000 \<Longrightarrow> dram x"
  shows "\<exists>s'. main_fn e s = Some (0, s') \<and> mread (mc_mem s') DRAM_BASE 0xa000 = mread (mc_mem s) (DRAM_INIT_BASE + 0x6000) 0xa000"
proof -
  have "h = flash_addr (boot_board.image_offset regs)" using assms(7) by (simp add: boot_board.image_offset_def [OF assms(1)])
  with boot_board.main_payload [OF assms(1-5)] assms(6,8-10) show ?thesis
    by (auto simp: boot_board.has_def [OF assms(1)] payload_def simp del: mread_numeral)
qed

lemma main_boots_block_ram:
  assumes "boot_board e ok sent incoming chip n regs fresh dram"
    and "fresh (mc_con s)" and "print_ok e (mc_mem s) main_lits" and "stays (en_frame e) (en_buffer e) 129 (mc_mem s) (en_sha1 e) sha"
    and "main_layout e sha dram" and "regs SYS_REG_INFO AND SYS_REG_INFO_HAS_BRAM \<noteq> 0"
  shows "\<exists>s'. main_fn e s = Some (0, s') \<and> (\<forall>x. \<not> scratch e x \<longrightarrow> \<not> dram x \<longrightarrow> mc_mem s' x = mc_mem s x)"
proof -
  have bram: "boot_board.has regs SYS_REG_INFO_HAS_BRAM" using assms(6) by (simp add: boot_board.has_def [OF assms(1)])
  have lit: "''Booting from BRAM...'' @ [CHR 0x0A] \<in> start_lits" by (simp add: start_lits_def)
  from boot_board.main_start [OF assms(1-5)] bram obtain c t where
    t: "boot_board.up e ok chip dram sha c (mc_mem s) t"
    "main_fn e s = do { t' \<leftarrow> printf e (''Booting from BRAM...'' @ [CHR 0x0A]) [] t; Some (0, t') }"
    by auto
  with boot_board.up_print_start [OF assms(1) t(1) lit, of "[]"] start_formats(15) show ?thesis
    by (auto simp: boot_board.up_def [OF assms(1)])
qed

text \<open>The literals of the start-up program in memory, an image at the start of the flash and a payload.\<close>

definition start_places :: "(string \<times> addr) list" where
  "start_places = [([CHR 0x0A, CHR 0x0A] @ ''Welcome to Microwatt !'' @ [CHR 0x0A, CHR 0x0A], 0xff004800), ('' Soc signature: %016llx'' @ [CHR 0x0A], 0xff004840),
     (''  Soc features: '', 0xff004880), (''UART '', 0xff0048c0), (''DRAM '', 0xff004900), (''BRAM '', 0xff004940), (''SPIFLASH '', 0xff004980), (''ETHERNET '', 0xff0049c0),
     (''SDCARD '', 0xff004a00), ([CHR 0x0A], 0xff004a40), (''          BRAM: %ld KB'' @ [CHR 0x0A], 0xff004a80),
     (''          DRAM: %ld MB'' @ [CHR 0x0A], 0xff004ac0), (''     DRAM INIT: %ld KB'' @ [CHR 0x0A], 0xff004b00),
     (''           CLK: %ld MHz'' @ [CHR 0x0A], 0xff004b40), ('' SPI FLASH OFF: 0x%x bytes'' @ [CHR 0x0A], 0xff004b80),
     (''LiteDRAM built from LiteX %s'' @ [CHR 0x0A], 0xff004bc0), (''Booting from BRAM...'' @ [CHR 0x0A], 0xff004c00)]"

definition main_places :: "(string \<times> addr) list" where
  "main_places = demo_lits @ map (\<lambda>(l, a). (l, a + 0xff003400)) flash_places @ start_places"

definition main_blocks :: "byte list \<Rightarrow> (addr \<times> byte list) list" where
  "main_blocks img = (0xf0000000, img) # (0xff003f00, ascii ''0x'' @ [0]) # (0xff003f80, ascii ''1a2b3c4d'' @ [0]) #
     map (\<lambda>(l, a). (a, ascii l @ [0])) main_places @ [(0xff006000, [0x48, 0, 0, 0])]"

definition main_env :: "(u64 \<Rightarrow> u64) \<Rightarrow> board env" where
  "main_env regs = board_env 1 3 regs \<lparr>en_bus = board_bus 1 3 regs, en_frame = \<lparr>fr_formstr = 0xff005b00, fr_sizec = 0xff005c00, fr_0x = 0xff003f00\<rparr>,
     en_buffer = 0xff005a00, en_lit = (\<lambda>l. case map_of main_places l of None \<Rightarrow> 0 | Some a \<Rightarrow> a), en_sha1 = 0xff003f80,
     en_ehdr = 0xff005d00, en_ph = 0xff005e00, en_sdram_init = Some, en_init_done = (\<lambda>s. (1, s))\<rparr>"

definition main_state :: "byte list \<Rightarrow> board machine" where
  "main_state img = \<lparr>mc_mem = place (\<lambda>_. 0) (main_blocks img), mc_con = \<lparr>uart_is_std = False, uart_base = 0,
     dev = \<lparr>bd_uart = \<lparr>ud_busy = 2, ud_sent = [], ud_in = []\<rparr>, bd_chip = issi_chip, bd_ctrl = 9, bd_dlab = False\<rparr>\<rparr>\<rparr>"

text \<open>A standard UART at 100 MHz, memory and a flash chip.\<close>

definition main_regs :: "u64 \<Rightarrow> u64" where
  "main_regs r = (if r = SYS_REG_INFO then 0x2b else if r = SYS_REG_UART0_INFO then 0x100000000 else if r = SYS_REG_CLKINFO then 100000000 else 0)"

lemma main_lits_places: "main_lits = fst ` set main_places"
proof -
  have "start_lits = fst ` set start_places" by (simp add: start_lits_def start_places_def)
  moreover have "flash_lits = fst ` set flash_places" by (simp add: flash_lits_def flash_places_def)
  moreover have "fst ` set (map (\<lambda>(l, a). (l, a + 0xff003400)) flash_places) = fst ` set flash_places"
    unfolding set_map image_image by (rule image_cong) auto
  ultimately show ?thesis by (simp only: main_lits_def main_places_def set_append image_Un boot_lits_demo) (simp only: ac_simps)
qed

lemma main_blocks_order: "unat (0xf0000000 :: addr) + length img \<le> 0xff003f00 \<Longrightarrow> in_order 0 (main_blocks img)"
  by (simp add: main_blocks_def main_places_def start_places_def demo_lits_def flash_places_def)

lemma main_lit_addr:
  assumes "l \<in> main_lits"
  shows "\<exists>a. en_lit (main_env regs) l = a \<and> (l, a) \<in> set main_places \<and> 0xff004000 \<le> unat a \<and> unat a + length l < 0xff004f00 \<and> 0 \<notin> set (ascii l)"
proof -
  obtain a where a: "map_of main_places l = Some a" "(l, a) \<in> set main_places"
    using assms map_of_SomeD [of main_places l] unfolding main_lits_places by (metis imageE map_of_eq_None_iff not_None_eq)
  from a(2) have "0xff004000 \<le> unat a \<and> unat a + length l < 0xff004f00 \<and> 0 \<notin> set (ascii l)"
    by (auto simp: main_places_def start_places_def demo_lits_def flash_places_def)
  with a show ?thesis by (simp add: main_env_def board_env_def)
qed

lemma main_stays:
  assumes "(a, t @ [0]) \<in> set (main_blocks img)" "0 \<notin> set t" "unat a + length t < 0xff004f00" "length img \<le> 0x1000"
  shows "stays (en_frame (main_env regs)) (en_buffer (main_env regs)) 129 (mc_mem (main_state img)) a t"
proof -
  have "in_order 0 (main_blocks img)" using assms(4) by (intro main_blocks_order) simp
  from place_read [OF this assms(1)] have "cstr (mc_mem (main_state img)) a t"
    using assms(2) by (simp add: cstr_mread_iff main_state_def)
  moreover have "apart a (Suc (length t)) b n" if "0xff004f00 \<le> unat b" "unat b + n \<le> 2 ^ 64" for b n
    using in_region_range [of _ a "Suc (length t)"] in_region_range [of _ b n] assms(3) that by (force simp: apart_def)
  ultimately show ?thesis by (simp add: stays_def main_env_def board_env_def)
qed

lemma main_print_ok:
  assumes "length img \<le> 0x1000"
  shows "print_ok (main_env regs) (mc_mem (main_state img)) main_lits"
    and "stays (en_frame (main_env regs)) (en_buffer (main_env regs)) 129 (mc_mem (main_state img)) (en_sha1 (main_env regs)) (ascii ''1a2b3c4d'')"
proof -
  note st = main_stays [OF _ _ _ assms]
  have "stays (en_frame (main_env regs)) (en_buffer (main_env regs)) 129 (mc_mem (main_state img)) 0xff003f00 (ascii ''0x'')"
    by (rule st) (simp_all add: main_blocks_def)
  moreover have "lit_ok (main_env regs) (mc_mem (main_state img)) l" if l: "l \<in> main_lits" for l
  proof -
    obtain a where a: "en_lit (main_env regs) l = a" "(l, a) \<in> set main_places" "unat a + length l < 0xff004f00" "0 \<notin> set (ascii l)"
      using main_lit_addr [OF l, of regs] by blast
    then have "(a, ascii l @ [0]) \<in> set (main_blocks img)" by (force simp: main_blocks_def)
    then show ?thesis using a st [of a "ascii l"] by (simp add: lit_ok_def)
  qed
  moreover have "fmt_frame (en_frame (main_env regs)) (en_buffer (main_env regs)) 129"
    by (auto simp: fmt_frame_def apart_def main_env_def board_env_def dest!: in_region_range)
  ultimately show "print_ok (main_env regs) (mc_mem (main_state img)) main_lits"
    by (auto simp: print_ok_def main_env_def board_env_def)
  have "stays (en_frame (main_env regs)) (en_buffer (main_env regs)) 129 (mc_mem (main_state img)) 0xff003f80 (ascii ''1a2b3c4d'')"
    by (rule st) (simp_all add: main_blocks_def)
  then show "stays (en_frame (main_env regs)) (en_buffer (main_env regs)) 129 (mc_mem (main_state img)) (en_sha1 (main_env regs)) (ascii ''1a2b3c4d'')"
    by (simp add: main_env_def board_env_def)
qed

lemma main_ranges:
  "loader_area (main_env regs) x \<Longrightarrow> 0xff005a00 \<le> unat x \<and> unat x < 0xff005f00"
  "lit_area (main_env regs) main_lits x \<Longrightarrow> 0xff003f00 \<le> unat x \<and> unat x < 0xff004f00"
  "board_dram x \<Longrightarrow> 0x40000000 \<le> unat x \<and> unat x < 0x50000000"
proof -
  show "0xff005a00 \<le> unat x \<and> unat x < 0xff005f00" if "loader_area (main_env regs) x"
    using that by (auto simp: loader_area_def scratch_def main_env_def board_env_def dest!: in_region_range)
  show "0x40000000 \<le> unat x \<and> unat x < 0x50000000" if "board_dram x"
    using that in_region_range [of x DRAM_BASE "0x10000000"] by (simp add: board_dram_def DRAM_BASE_def)
  show "0xff003f00 \<le> unat x \<and> unat x < 0xff004f00" if lit: "lit_area (main_env regs) main_lits x"
  proof (cases "in_region x (fr_0x (en_frame (main_env regs))) 3")
    case True
    then show ?thesis by (auto simp: main_env_def board_env_def dest!: in_region_range)
  next
    case False
    then obtain l where l: "l \<in> main_lits" "in_region x (en_lit (main_env regs) l) (Suc (length l))"
      using lit by (auto simp: lit_area_def)
    obtain a where "en_lit (main_env regs) l = a" "0xff004000 \<le> unat a" "unat a + length l < 0xff004f00"
      using main_lit_addr [OF l(1), of regs] by blast
    then show ?thesis using l(2) in_region_range [of x a "Suc (length l)"] by simp
  qed
qed

lemma lit_area_mono: "ls \<subseteq> ls' \<Longrightarrow> lit_area e ls x \<Longrightarrow> lit_area e ls' x"
  by (auto simp: lit_area_def)

lemma main_env_layout: "main_layout (main_env regs) (ascii ''1a2b3c4d'') board_dram"
proof -
  note r = main_ranges(1,2) [of regs] main_ranges(3) demo_ranges(3)
  have lits: "lit_area (main_env regs) boot_lits x \<Longrightarrow> lit_area (main_env regs) main_lits x" for x
    by (rule lit_area_mono) (auto simp: main_lits_def)
  have "\<not> scratch (main_env regs) x \<and> \<not> in_region x (en_ph (main_env regs)) 56" if "in_region x (en_ehdr (main_env regs)) 64" for x
    using that by (auto simp: scratch_def main_env_def board_env_def dest!: in_region_range)
  then have "layout (main_env regs) boot_lits" using r lits by (force simp: layout_def)
  moreover have "\<not> in_region x (en_sha1 (main_env regs)) (Suc (length (ascii ''1a2b3c4d'')))" if "board_dram x" for x
    using r(3) [OF that] by (auto simp: main_env_def board_env_def dest!: in_region_range)
  moreover have "\<not> flash x \<and> \<not> scratch (main_env regs) x \<and> \<not> lit_area (main_env regs) main_lits x" if "board_dram x" for x
    using r(1,2,4) [of x] r(3) [OF that] by (force simp: loader_area_def)
  moreover have "\<not> reserved (main_env regs) boot_lits x \<and> \<not> board_dram x" if "in_region x payload 0xa000" for x
  proof -
    have "0xff006000 \<le> unat x" using in_region_range [OF that] by (simp add: payload_def DRAM_INIT_BASE_def)
    then show ?thesis using r [of x] lits [of x] by (force simp: reserved_def)
  qed
  ultimately show ?thesis by (auto simp: main_layout_def)
qed

lemma main_board:
  "boot_board (main_env regs) board_ok (\<lambda>c. ud_sent (bd_uart (dev c))) (\<lambda>c. ud_in (bd_uart (dev c))) bd_chip 3 regs (board_fresh regs) board_dram"
  unfolding main_env_def by (rule brd.boot_board_axioms)

lemma main_fresh: "board_fresh main_regs (mc_con (main_state img))"
  by (simp add: board_fresh_def main_state_def main_regs_def chip_idle_def issi_chip_def soc_consts)

lemma main_features:
  "main_regs SYS_REG_INFO AND SYS_REG_INFO_HAS_BRAM = 0" "main_regs SYS_REG_INFO AND SYS_REG_INFO_HAS_SPI_FLASH \<noteq> 0"
  "0 = (ucast (main_regs SYS_REG_SPI_INFO AND SYS_REG_SPI_INFO_FLASH_OFF_MASK) :: u32)"
  by (simp_all add: main_regs_def soc_consts)

lemma main_header: "in_region x (flash_addr 0) 64 \<Longrightarrow> flash x"
  unfolding demo_addr by (erule flash_block) simp_all

lemma main_img:
  assumes "length img \<le> 0x1000"
  shows "mread (mc_mem (main_state img)) 0xf0000000 (length img) = img" "mread (mc_mem (main_state img)) 0xff006000 4 = [0x48, 0, 0, 0]"
proof -
  have o: "in_order 0 (main_blocks img)" using assms by (intro main_blocks_order) simp
  have "(0xf0000000, img) \<in> set (main_blocks img)" "(0xff006000, [0x48, 0, 0, 0]) \<in> set (main_blocks img)" by (simp_all add: main_blocks_def)
  from place_read [OF o this(1)] place_read [OF o this(2)]
  show "mread (mc_mem (main_state img)) 0xf0000000 (length img) = img" "mread (mc_mem (main_state img)) 0xff006000 4 = [0x48, 0, 0, 0]"
    by (simp_all add: main_state_def)
qed

theorem main_boots_flash_image_witness:
  "\<exists>s'. main_fn (main_env main_regs) (main_state demo_elf) = Some (0x40000000, s') \<and>
     mread (mc_mem s') 0x40000000 4 = [0xde, 0xad, 0xbe, 0xef]"
proof -
  let ?e = "main_env main_regs" and ?s = "main_state demo_elf"
  have len: "length demo_elf = 124" by (simp add: demo_elf_def)
  then have sz: "length demo_elf \<le> 0x1000" by simp
  have im: "mread (mc_mem ?s) 0xf0000000 124 = demo_elf" using main_img(1) [OF sz] unfolding len .
  have nr: "\<not> reserved ?e boot_lits x" if "in_region x 0x40000000 4" for x
    using in_region_range [OF that] main_ranges(1,2) [of main_regs x] demo_ranges(3) [of x] lit_area_mono [of boot_lits main_lits ?e x]
    by (force simp: reserved_def main_lits_def)
  have id: "is_elf64 (mc_mem ?s) (flash_addr 0)" "is_ppc64le (mc_mem ?s) (flash_addr 0)"
    unfolding demo_addr using demo_ident [OF im] by blast+
  have en: "e_entry (mc_mem ?s) (flash_addr 0) = 0x40000000" unfolding demo_addr by (rule demo_fields(2) [OF im])
  then have ne: "e_entry (mc_mem ?s) (flash_addr 0) \<noteq> - 1" by simp
  note seg = demo_segs(1) [OF im nr, unfolded demo_header(1) [OF im]]
  obtain s' M where run: "main_fn ?e ?s = Some (e_entry (mc_mem ?s) (flash_addr 0), s')"
    and mem: "\<forall>x. \<not> reserved ?e boot_lits x \<longrightarrow> mc_mem s' x = load_spec (mc_mem ?s) 0 56 1 64 M x"
    using main_boots_flash_image [OF main_board main_fresh main_print_ok(1) [OF sz] main_print_ok(2) [OF sz] main_env_layout main_features refl
        main_header id seg demo_header(2,3) [OF im] ne] unfolding demo_header(1) [OF im, symmetric] by blast
  have "mread (mc_mem s') 0x40000000 4 = mread (mwrite M 0x40000000 [0xde, 0xad, 0xbe, 0xef]) 0x40000000 4"
  proof (rule mread_cong)
    fix x assume "in_region x 0x40000000 4"
    from mem nr [OF this] show "mc_mem s' x = mwrite M 0x40000000 [0xde, 0xad, 0xbe, 0xef] x"
      by (simp only: demo_segs(2) [OF im nr] simp_thms)
  qed
  also have "\<dots> = [0xde, 0xad, 0xbe, 0xef]"
    using mread_mwrite [of "[0xde, 0xad, 0xbe, 0xef]" M "0x40000000"] by simp
  finally show ?thesis using run en by simp
qed

text \<open>With a flash that holds no ELF file, the payload is started.\<close>

theorem main_boots_payload_witness:
  "\<exists>s'. main_fn (main_env main_regs) (main_state [0xff, 0xff]) = Some (0, s') \<and> mc_mem s' 0x40000000 = 0x48"
proof -
  let ?e = "main_env main_regs" and ?s = "main_state [0xff, 0xff]"
  have sz: "length [0xff, 0xff :: byte] \<le> 0x1000" by simp
  have "mc_mem ?s 0xf0000000 = 0xff" using main_img(1) [OF sz] by simp
  then have "\<not> is_elf64 (mc_mem ?s) (flash_addr 0)" unfolding demo_addr by (simp add: is_elf64_def e_ident_def)
  then have no: "main_regs SYS_REG_INFO AND SYS_REG_INFO_HAS_SPI_FLASH = 0 \<or> \<not> is_elf64 (mc_mem ?s) (flash_addr 0) \<or>
      \<not> is_ppc64le (mc_mem ?s) (flash_addr 0)" by blast
  have dr: "in_region x DRAM_BASE 0xa000 \<Longrightarrow> board_dram x" for x by (simp add: board_dram_def in_region_def)
  obtain s' where run: "main_fn ?e ?s = Some (0, s')" "mread (mc_mem s') DRAM_BASE 0xa000 = mread (mc_mem ?s) (DRAM_INIT_BASE + 0x6000) 0xa000"
    using main_boots_payload [OF main_board main_fresh main_print_ok(1) [OF sz] main_print_ok(2) [OF sz] main_env_layout main_features(1)
        arg_cong [OF main_features(3)] main_header no dr] by blast
  then have "mc_mem s' DRAM_BASE = mc_mem ?s (DRAM_INIT_BASE + 0x6000)"
    using mread_nth [of 0 "0xa000" "mc_mem s'" DRAM_BASE] mread_nth [of 0 "0xa000" "mc_mem ?s" "DRAM_INIT_BASE + 0x6000"] by (simp del: mread_numeral)
  also have "\<dots> = 0x48" using main_img(2) [OF sz] by (simp add: DRAM_INIT_BASE_def)
  finally show ?thesis using run(1) by (simp add: DRAM_BASE_def)
qed
end
