(* ===== verification/Soc_Boot.thy ===== *)
theory Soc_Boot
  imports Syscon Boot_Main
begin

text \<open>
  The start of a configured system: the start-up program on a board whose system controller is the one of the design.  The contract \<open>boot_board\<close>
  holds for every configuration with a standard UART, so that what the program does is determined by the configuration.
\<close>

section \<open>The devices next to the system controller\<close>

lemma decode_rest:
  assumes "0xc0001000 \<le> a" and "a < 0x100000000"
  shows "soc_decode g z a \<noteq> Syscon"
proof -
  have "0xc0001000 \<le> unat a" "unat a < 0x100000000" using assms by (simp_all add: word_le_nat_alt word_less_nat_alt)
  then show ?thesis by (simp add: soc_decode_ranges [OF refl] io_decode_ranges)
qed

lemma soc_rest_read: "0xc0001000 \<le> a \<Longrightarrow> a < 0x100000000 \<Longrightarrow>
  bus_read (soc_bus g git rest) w a d = (case bus_read rest w a (soc_rest d) of (v, b) \<Rightarrow> (v, d\<lparr>soc_rest := b\<rparr>))"
  by (simp add: soc_bus_def decode_rest)

lemma soc_rest_write: "0xc0001000 \<le> a \<Longrightarrow> a < 0x100000000 \<Longrightarrow>
  bus_write (soc_bus g git rest) w a v d = d\<lparr>soc_rest := bus_write rest w a v (soc_rest d)\<rparr>"
  by (simp add: soc_bus_def decode_rest)

text \<open>A UART keeps its contract on the bus of the system.\<close>

lemma soc_uart:
  assumes "uart_16550 rest dok dtx drx dsent dinc"
  shows "uart_16550 (soc_bus g git rest) (\<lambda>d. dok (soc_rest d) \<and> P (soc_sys d)) (\<lambda>d. dtx (soc_rest d)) (\<lambda>d. drx (soc_rest d))
    (\<lambda>d. dsent (soc_rest d)) (\<lambda>d. dinc (soc_rest d))"
proof -
  have a: "0xc0001000 \<le> UART_BASE + UART_REG_LSR" "UART_BASE + UART_REG_LSR < 0x100000000" "0xc0001000 \<le> UART_BASE + UART_REG_RX"
    "UART_BASE + UART_REG_RX < 0x100000000" "0xc0001000 \<le> UART_BASE + UART_REG_TX" "UART_BASE + UART_REG_TX < 0x100000000"
    by (simp_all add: soc_consts)
  show ?thesis
  proof
    fix d d' :: "'a soc" and v
    assume d: "dok (soc_rest d) \<and> P (soc_sys d)"
    show "(dok (soc_rest d') \<and> P (soc_sys d')) \<and> dsent (soc_rest d') = dsent (soc_rest d) \<and> dinc (soc_rest d') = dinc (soc_rest d) \<and>
        (bit v 5 \<longleftrightarrow> dtx (soc_rest d) = 0) \<and> (bit v 0 \<longleftrightarrow> dinc (soc_rest d) \<noteq> [] \<and> drx (soc_rest d) = 0) \<and>
        dtx (soc_rest d') \<le> dtx (soc_rest d) - 1 \<and> drx (soc_rest d') \<le> drx (soc_rest d) - 1"
      if "bus_read (soc_bus g git rest) 1 (UART_BASE + UART_REG_LSR) d = (v, d')"
    proof -
      obtain w b where w: "bus_read rest 1 (UART_BASE + UART_REG_LSR) (soc_rest d) = (w, b)" by fastforce
      then have "v = w" "d' = d\<lparr>soc_rest := b\<rparr>" using that by (simp_all add: soc_rest_read a)
      then show ?thesis using uart_16550.lsr [OF assms _ w] d by simp
    qed
    show "(dok (soc_rest d') \<and> P (soc_sys d')) \<and> ucast v = c \<and> dsent (soc_rest d') = dsent (soc_rest d) \<and> dinc (soc_rest d') = cs"
      if "drx (soc_rest d) = 0" "dinc (soc_rest d) = c # cs" "bus_read (soc_bus g git rest) 1 (UART_BASE + UART_REG_RX) d = (v, d')" for c cs
    proof -
      obtain w b where w: "bus_read rest 1 (UART_BASE + UART_REG_RX) (soc_rest d) = (w, b)" by fastforce
      then have "v = w" "d' = d\<lparr>soc_rest := b\<rparr>" using that(3) by (simp_all add: soc_rest_read a)
      then show ?thesis using uart_16550.rx [OF assms _ that(1,2) w] d by simp
    qed
    show "(dok (soc_rest d') \<and> P (soc_sys d')) \<and> dsent (soc_rest d') = dsent (soc_rest d) @ [c] \<and> dinc (soc_rest d') = dinc (soc_rest d)"
      if "dtx (soc_rest d) = 0" "d' = bus_write (soc_bus g git rest) 1 (UART_BASE + UART_REG_TX) (ucast c) d" for c
      using uart_16550.tx [OF assms _ that(1) refl] d that(2) by (simp add: soc_rest_write a)
  qed
qed

section \<open>The board\<close>

definition sys_running :: "syscon \<Rightarrow> bool" where
  "sys_running s \<longleftrightarrow> cpu_enable s = 1 \<and> \<not> tb_rdprot s \<and> \<not> tb_freeze s"

definition soc_ok :: "board soc con \<Rightarrow> bool" where
  "soc_ok c \<longleftrightarrow> uart_is_std c \<and> uart_base c = UART_BASE \<and> \<not> bd_dlab (soc_rest (dev c)) \<and> sys_running (soc_sys (dev c))"

definition soc_fresh :: "soc_gen \<Rightarrow> board soc con \<Rightarrow> bool" where
  "soc_fresh g c \<longleftrightarrow> UART0_IS_16550 g \<and> chip_idle (bd_chip (soc_rest (dev c))) \<and> sys_running (soc_sys (dev c))"

definition soc_regs :: "soc_gen \<Rightarrow> revision \<Rightarrow> u64 \<Rightarrow> u64" where
  "soc_regs g git r = reg_out g git (syscon_reset g) (unat r div 8)"

definition soc_env :: "nat \<Rightarrow> nat \<Rightarrow> soc_gen \<Rightarrow> revision \<Rightarrow> board soc env \<Rightarrow> board soc env" where
  "soc_env k n g git e =
     e\<lparr>en_bus := soc_bus g git (board_bus k n (\<lambda>_. 0)), en_sdram_init := memory_test, en_init_done := (\<lambda>s. (0, s))\<rparr>"

lemma running_idle4: "sys_running (idle4 g s) = sys_running s"
  by (simp add: sys_running_def idle4_def)

lemma running_regs: "sys_running s \<Longrightarrow> i \<noteq> 5 \<Longrightarrow> reg_out g git s i = reg_out g git (syscon_reset g) i"
  by (rule reg_high(2)) (simp_all add: sys_running_def syscon_reset_def)

lemma soc_console:
  "console (soc_bus g git (board_bus k n regs)) (\<lambda>c. soc_ok c \<and> bd_chip (soc_rest (dev c)) = v)
     (\<lambda>c. ud_sent (bd_uart (soc_rest (dev c)))) (\<lambda>c. ud_in (bd_uart (soc_rest (dev c))))"
proof -
  have "(\<lambda>s. uart_is_std s = True \<and> uart_base s = UART_BASE \<and> (\<not> bd_dlab (soc_rest (dev s)) \<and> bd_chip (soc_rest (dev s)) = v) \<and> sys_running (soc_sys (dev s))) =
      (\<lambda>c. soc_ok c \<and> bd_chip (soc_rest (dev c)) = v)"
    by (rule ext) (auto simp: soc_ok_def)
  then show ?thesis using uart_16550.std_console [OF soc_uart [OF board_bus_uart [of k n regs v], of g git sys_running]] by simp
qed

text \<open>The initialisation of the console finds the UART and the clock of the configuration.\<close>

lemma soc_console_init:
  "console_init (soc_bus g git rest) c =
     (let c' = c\<lparr>uart_base := UART_BASE, dev := (dev c)\<lparr>soc_sys := idle4 g (idle4 g (idle4 g (soc_sys (dev c))))\<rparr>, uart_is_std := UART0_IS_16550 g\<rparr>;
          f = to_unsigned (CLK_FREQ g) 40 AND SYS_REG_CLKINFO_FREQ_MASK
      in if UART0_IS_16550 g then std_uart_init (soc_bus g git rest) f c' else potato_uart_init (soc_bus g git rest) f c')"
proof -
  have r: "SYS_REG_CLKINFO < 0x200" "SYS_REG_CLKINFO AND 7 = 0" "unat SYS_REG_CLKINFO div 8 = 4" "SYS_REG_INFO < 0x200" "SYS_REG_INFO AND 7 = 0"
    "unat SYS_REG_INFO div 8 = 1" "SYS_REG_UART0_INFO < 0x200" "SYS_REG_UART0_INFO AND 7 = 0" "unat SYS_REG_UART0_INFO div 8 = 8"
    by (simp_all add: soc_consts)
  have "reg_out g git s 4 = to_unsigned (CLK_FREQ g) 40" for s by (simp add: reg_out_def)
  moreover have "reg_out g git s 1 AND SYS_REG_INFO_HAS_LARGE_SYSCON \<noteq> 0" for s
    unfolding SYS_REG_INFO_HAS_LARGE_SYSCON_def and_flag by (simp add: reg_out_def info_bits)
  moreover have "reg_out g git s 8 AND SYS_REG_UART_IS_16550 = 0 \<longleftrightarrow> \<not> UART0_IS_16550 g" for s
    unfolding SYS_REG_UART_IS_16550_def and_flag by (simp add: reg_out_def bit_or_iff bit_flag to_unsigned_def bit_simps)
  ultimately show ?thesis
    by (simp add: console_init_def Let_def soc_readq [OF r(1,2)] soc_readq [OF r(4,5)] soc_readq [OF r(7,8)] r(3,6,9))
qed

lemma soc_init:
  assumes "soc_fresh g c"
  shows "soc_ok (console_init (soc_bus g git (board_bus k n regs)) c) \<and>
    bd_chip (soc_rest (dev (console_init (soc_bus g git (board_bus k n regs)) c))) = bd_chip (soc_rest (dev c))"
  using assms
  by (simp add: soc_console_init soc_fresh_def soc_ok_def running_idle4 std_uart_init_def writeb_def soc_rest_write board_bus_def flash_bus_def
      uart_16550_bus_def Let_def SYSCON_BASE_def SYS_REG_CTRL_def UART_BASE_def UART_REG_LCR_def UART_REG_DLL_def UART_REG_DLM_def UART_REG_MCR_def
      UART_REG_FCR_def UART_REG_LCR_DLAB_def UART_REG_LCR_8BIT_def UART_REG_TX_def bit_simps)

interpretation soc_port: flash_port "soc_env k n g git e" soc_ok "\<lambda>c. ud_sent (bd_uart (soc_rest (dev c)))"
  "\<lambda>c. ud_in (bd_uart (soc_rest (dev c)))" "\<lambda>d. bd_chip (soc_rest d)" n for e k n g git
  by (rule flash_port.intro)
    (auto simp: soc_env_def soc_console,
     auto simp: soc_ok_def soc_rest_read soc_rest_write board_bus_def flash_bus_def soc_consts ucast_back32 split: prod.splits)

text \<open>The design's system controller meets the contract of the start-up program, with the registers that it has after its reset.\<close>

interpretation soc_brd: boot_board "soc_env k n g git e" soc_ok "\<lambda>c. ud_sent (bd_uart (soc_rest (dev c)))"
  "\<lambda>c. ud_in (bd_uart (soc_rest (dev c)))" "\<lambda>d. bd_chip (soc_rest d)" n "soc_regs g git" "soc_fresh g" board_dram for e k n g git
proof unfold_locales
  let ?e = "soc_env k n g git e"
  show "soc_ok (console_init (en_bus ?e) c) \<and> chip_idle (bd_chip (soc_rest (dev (console_init (en_bus ?e) c))))" if "soc_fresh g c" for c
    using soc_init [OF that, of git k n] that by (simp add: soc_env_def soc_fresh_def)
  show "soc_ok (c\<lparr>dev := d\<rparr>) \<and> bd_chip (soc_rest d) = bd_chip (soc_rest (dev c)) \<and> (r \<noteq> SYS_REG_CTRL \<longrightarrow> v = soc_regs g git r)"
    if "soc_ok c" "sys_reg r" "bus_read (en_bus ?e) 8 (SYSCON_BASE + r) (dev c) = (v, d)" for c r v d
  proof -
    have r: "r < 0x200" "r AND 7 = 0" using that(2) by (auto simp: sys_reg_def intro: order.strict_trans)
    have "unat r div 8 \<noteq> 5" if "r \<noteq> SYS_REG_CTRL" using sys_reg_index [OF r(2)] that by (auto simp: SYS_REG_CTRL_def)
    then show ?thesis using that(1,3) soc_readq [OF r, of g git "board_bus k n (\<lambda>_. 0)" "dev c"] running_regs [of "soc_sys (dev c)" "unat r div 8" g git]
      by (auto simp: readq_def soc_env_def soc_ok_def running_idle4 soc_regs_def)
  qed
  show "soc_ok (c\<lparr>dev := d\<rparr>) \<and> bd_chip (soc_rest d) = bd_chip (soc_rest (dev c))"
    if "soc_ok c" "d = bus_write (en_bus ?e) 8 (SYSCON_BASE + SYS_REG_CTRL) v (dev c)" for c d v
  proof -
    have r: "SYS_REG_CTRL < 0x200" "SYS_REG_CTRL AND 7 = 0" "unat SYS_REG_CTRL div 8 = 5" by (simp_all add: soc_consts)
    show ?thesis using that soc_writeq [OF r(1,2) refl, of g git "board_bus k n (\<lambda>_. 0)" v "dev c"]
      by (simp add: writeq_def soc_env_def r(3) soc_ok_def sys_running_def ctrl_write)
  qed
  show "soc_ok (mc_con s') \<and> bd_chip (soc_rest (dev (mc_con s'))) = bd_chip (soc_rest (dev (mc_con s))) \<and> mc_mem s' = mc_mem s"
    if "soc_ok (mc_con s)" "en_init_done ?e s = (q, s')" for s q s'
    using that by (simp add: soc_env_def)
  show "\<exists>s'. en_sdram_init ?e s = Some s' \<and> soc_ok (mc_con s') \<and> bd_chip (soc_rest (dev (mc_con s'))) = bd_chip (soc_rest (dev (mc_con s))) \<and>
      (\<forall>x. \<not> board_dram x \<longrightarrow> \<not> scratch ?e x \<longrightarrow> mc_mem s' x = mc_mem s x)" if "soc_ok (mc_con s)" for s
    using that memory_test_same [of s] by (auto simp: soc_env_def)
qed

section \<open>Properties\<close>

text \<open>What the two initialisations write.\<close>

lemma uart_init_log:
  assumes "uart_base c = UART_BASE"
  shows "dev (std_uart_init (soc_bus g git (log_bus regs)) f c) = (dev c)\<lparr>soc_rest := soc_rest (dev c) @
      [(1, UART_BASE + 12, 0x80), (1, UART_BASE, ucast (ucast (uart_divisor f UART_BAUDS AND 0xff) :: byte)),
       (1, UART_BASE + 4, ucast (ucast (drop_bit 8 (uart_divisor f UART_BAUDS)) :: byte)), (1, UART_BASE + 12, 3), (1, UART_BASE + 16, 3), (1, UART_BASE + 8, 7)]\<rparr>"
    "dev (potato_uart_init (soc_bus g git (log_bus regs)) f c) =
      (dev c)\<lparr>soc_rest := soc_rest (dev c) @ [(8, UART_BASE + 24, uart_divisor f UART_BAUDS - 1)]\<rparr>"
  using assms by (simp_all add: Let_def std_uart_init_def potato_uart_init_def potato_uart_reg_write_def io_defs soc_rest_write log_bus_def soc_consts)

lemma idle12: "idle4 g (idle4 g (idle4 g s)) = (syscon_clk g None ^^ 12) s"
  by (simp add: idle4_def eval_nat_numeral)

lemma divisor_halves:
  fixes v :: u64
  assumes "unat v < 65536"
  shows "ucast (ucast (v AND 0xff) :: byte) = (of_nat (unat v mod 256) :: u64)"
    "ucast (ucast (drop_bit 8 v) :: byte) = (of_nat (unat v div 256) :: u64)"
proof -
  have "unat (ucast v :: byte) = unat v mod 256" by (simp add: unsigned_ucast_eq take_bit_eq_mod)
  then show "ucast (ucast (v AND 0xff) :: byte) = (of_nat (unat v mod 256) :: u64)" unfolding ucast_and_255 by (metis of_nat_unat)
  have "unat (ucast (drop_bit 8 v) :: byte) = unat v div 256"
    using assms by (simp add: unsigned_ucast_eq take_bit_eq_mod drop_bit_eq_div unat_div less_mult_imp_div_less)
  then show "ucast (ucast (drop_bit 8 v) :: byte) = (of_nat (unat v div 256) :: u64)" by (metis of_nat_unat)
qed

text \<open>C11: The console of a configured system gets its speed from the clock that the design was built with.  \<open>console_init\<close>, which reads the
  clock and the kind of the UART from the system controller, programs the largest divisor for which the line is not slower than 115200
  baud: into the two latch bytes of a standard UART, which is then set to characters of eight bits with its queues on, and less one into
  the divider of the other one.  It writes nothing else: the devices get exactly these writes, and for the system controller only the clocks of
  its three reads pass, without a write.\<close>

theorem console_speed_from_configuration:
  assumes "CLK_FREQ g < 65536 * (16 * 115200)"
  shows "\<exists>d. d * (16 * 115200) \<le> CLK_FREQ g \<and> CLK_FREQ g < Suc d * (16 * 115200) \<and>
    dev (console_init (soc_bus g git (log_bus regs)) c) =
      \<lparr>soc_sys = (syscon_clk g None ^^ 12) (soc_sys (dev c)),
       soc_rest = soc_rest (dev c) @
        (if UART0_IS_16550 g
         then [(1, UART_BASE + 12, 0x80), (1, UART_BASE, of_nat (d mod 256)), (1, UART_BASE + 4, of_nat (d div 256)), (1, UART_BASE + 12, 3),
               (1, UART_BASE + 16, 3), (1, UART_BASE + 8, 7)]
         else [(8, UART_BASE + 24, of_nat d - 1)])\<rparr>"
proof -
  let ?f = "to_unsigned (CLK_FREQ g) 40 AND SYS_REG_CLKINFO_FREQ_MASK"
  let ?v = "uart_divisor ?f UART_BAUDS"
  have "?f = of_nat (CLK_FREQ g)" using assms by (simp add: info_masks to_unsigned_fits fits_mask)
  then have f: "unat ?f = CLK_FREQ g" using assms by (simp add: unsigned_of_nat take_bit_nat_eq_self)
  note b = uart_divisor_bounds [of ?f, unfolded f]
  have lt: "unat ?v < 65536" using b assms by linarith
  show ?thesis
    using b divisor_halves [OF lt] by (intro exI [of _ "unat ?v"]) (simp add: soc_console_init Let_def uart_init_log idle12)
qed

theorem console_speed_from_configuration_witness:
  "soc_rest (dev (console_init (soc_bus demo_gen (0, False) (log_bus (\<lambda>_. 0)))
     \<lparr>uart_is_std = False, uart_base = 0, dev = \<lparr>soc_sys = syscon_reset demo_gen, soc_rest = []\<rparr>\<rparr>)) =
   [(1, UART_BASE + 12, 0x80), (1, UART_BASE, 54), (1, UART_BASE + 4, 0), (1, UART_BASE + 12, 3), (1, UART_BASE + 16, 3), (1, UART_BASE + 8, 7)]"
proof -
  let ?c = "\<lparr>uart_is_std = False, uart_base = 0, dev = \<lparr>soc_sys = syscon_reset demo_gen, soc_rest = []\<rparr>\<rparr>"
  have g: "CLK_FREQ demo_gen = 100000000" "UART0_IS_16550 demo_gen" by (simp_all add: demo_gen_def)
  obtain d where d: "d * 1843200 \<le> 100000000" "100000000 < Suc d * 1843200"
    "soc_rest (dev (console_init (soc_bus demo_gen (0, False) (log_bus (\<lambda>_. 0))) ?c)) =
      [(1, UART_BASE + 12, 0x80), (1, UART_BASE, of_nat (d mod 256)), (1, UART_BASE + 4, of_nat (d div 256)), (1, UART_BASE + 12, 3),
       (1, UART_BASE + 16, 3), (1, UART_BASE + 8, 7)]"
    using console_speed_from_configuration [of demo_gen "(0, False)" "\<lambda>_. 0" ?c] by (auto simp: g)
  have "d = 54" using d(1,2) by simp
  then show ?thesis using d(3) by simp
qed

text \<open>The start of a system without block RAM from its flash, in terms of the configuration: the start-up program finds the image at the
  configured offset.\<close>

lemma configured_system_boots_image:
  assumes "BRAM_SIZE g = 0" and "HAS_SPI_FLASH g" and "UART0_IS_16550 g" and "SPI_FLASH_OFFSET g < 2 ^ 32"
    and "e' = soc_env k n g git e" and "chip_idle (bd_chip (soc_rest (dev (mc_con s))))" and "sys_running (soc_sys (dev (mc_con s)))"
    and "print_ok e' (mc_mem s) main_lits" and "stays (en_frame e') (en_buffer e') 129 (mc_mem s) (en_sha1 e') sha" and "main_layout e' sha board_dram"
    and "offset = of_nat (SPI_FLASH_OFFSET g)" and "h = flash_addr offset" and "\<And>x. in_region x h 64 \<Longrightarrow> flash x"
    and "is_elf64 (mc_mem s) h" and "is_ppc64le (mc_mem s) h" and "segs_ok e' boot_lits (mc_mem s) offset ent (unat (e_phnum (mc_mem s) h)) poff"
    and "ent = ucast (e_phentsize (mc_mem s) h)" and "poff = offset + ucast (e_phoff (mc_mem s) h)" and "e_entry (mc_mem s) h \<noteq> - 1"
  shows "\<exists>s' M. main_fn e' s = Some (e_entry (mc_mem s) h, s') \<and> (\<forall>x. \<not> scratch e' x \<longrightarrow> \<not> board_dram x \<longrightarrow> M x = mc_mem s x) \<and>
    (\<forall>x. \<not> reserved e' boot_lits x \<longrightarrow> mc_mem s' x = load_spec (mc_mem s) offset ent (unat (e_phnum (mc_mem s) h)) poff M x)"
proof -
  have r: "soc_regs g git SYS_REG_INFO = reg_info g" "soc_regs g git SYS_REG_SPI_INFO = to_unsigned (SPI_FLASH_OFFSET g) 32"
    by (simp_all add: soc_regs_def reg_out_def soc_consts)
  have "\<not> soc_brd.has g git SYS_REG_INFO_HAS_BRAM" "soc_brd.has g git SYS_REG_INFO_HAS_SPI_FLASH"
    unfolding soc_brd.has_def r(1) SYS_REG_INFO_HAS_BRAM_def SYS_REG_INFO_HAS_SPI_FLASH_def and_flag using assms(1,2) by (simp_all add: info_bits)
  moreover have "(ucast (of_nat x :: u64) :: u32) = of_nat x" for x by (rule bit_word_eqI) (auto simp: bit_simps bit_of_nat_iff)
  then have "offset = soc_brd.image_offset g git"
    using assms(4,11) by (simp add: soc_brd.image_offset_def r(2) info_masks to_unsigned_fits fits_mask)
  moreover have "soc_fresh g (mc_con s)" using assms(3,6,7) by (simp add: soc_fresh_def)
  ultimately show ?thesis using soc_brd.main_image [of g s k n git e sha] assms(8-10,12-19) unfolding assms(5) by simp
qed
end
