(* ===== verification/Elf64.thy ===== *)
theory Elf64
  imports Boot_Load
begin

text \<open>
  The declarations of \<open>elf64.h\<close> and the general part of \<open>elf_common.h\<close>: the types, the structures, the identification bytes and
  the macros that pack several values into one field.  A structure is the list of its members; \<open>members\<close> computes where a C compiler
  puts them, each at the next multiple of its alignment.  The boot loader reads the two headers at those places.
\<close>

section \<open>The layout of structures\<close>

text \<open>A type is given by its size and its alignment.\<close>

type_synonym c_type = "nat \<times> nat"
type_synonym c_struct = "(string \<times> c_type) list"

definition c_scalar :: "nat \<Rightarrow> c_type" where
  "c_scalar n = (n, n)"

definition c_array :: "nat \<Rightarrow> c_type \<Rightarrow> c_type" where
  "c_array k t = (k * fst t, snd t)"

definition c_union :: "c_type \<Rightarrow> c_type \<Rightarrow> c_type" where
  "c_union t u = (max (fst t) (fst u), max (snd t) (snd u))"

definition pad_up :: "nat \<Rightarrow> nat \<Rightarrow> nat" where
  "pad_up a n = (n + a - 1) div a * a"

fun members :: "nat \<Rightarrow> c_struct \<Rightarrow> (string \<times> nat \<times> nat) list" where
  "members off [] = []"
| "members off ((f, n, a) # r) = (f, pad_up a off, n) # members (pad_up a off + n) r"

fun extent :: "nat \<Rightarrow> c_struct \<Rightarrow> nat" where
  "extent off [] = off"
| "extent off ((f, n, a) # r) = extent (pad_up a off + n) r"

definition c_align :: "c_struct \<Rightarrow> nat" where
  "c_align s = foldr (\<lambda>(f, n, a) k. max a k) s 1"

definition c_sizeof :: "c_struct \<Rightarrow> nat" where
  "c_sizeof s = pad_up (c_align s) (extent 0 s)"

definition member :: "c_struct \<Rightarrow> string \<Rightarrow> (nat \<times> nat) option" where
  "member s f = map_of (members 0 s) f"

text \<open>The value of a member of at most eight bytes, as a compiled field access reads it.\<close>

definition get_member :: "mem \<Rightarrow> addr \<Rightarrow> c_struct \<Rightarrow> string \<Rightarrow> u64 option" where
  "get_member m p s f = map_option (\<lambda>(off, n). ld m (p + of_nat off) n) (member s f)"

section \<open>Types and structures\<close>

definition Elf64_Addr :: c_type where "Elf64_Addr = c_scalar 8"
definition Elf64_Half :: c_type where "Elf64_Half = c_scalar 2"
definition Elf64_Off :: c_type where "Elf64_Off = c_scalar 8"
definition Elf64_Sword :: c_type where "Elf64_Sword = c_scalar 4"
definition Elf64_Sxword :: c_type where "Elf64_Sxword = c_scalar 8"
definition Elf64_Word :: c_type where "Elf64_Word = c_scalar 4"
definition Elf64_Lword :: c_type where "Elf64_Lword = c_scalar 8"
definition Elf64_Xword :: c_type where "Elf64_Xword = c_scalar 8"
definition Elf64_Hashelt :: c_type where "Elf64_Hashelt = Elf64_Word"
definition Elf64_Size :: c_type where "Elf64_Size = Elf64_Xword"
definition Elf64_Ssize :: c_type where "Elf64_Ssize = Elf64_Sxword"
definition Elf64_Versym :: c_type where "Elf64_Versym = Elf64_Half"
definition EI_NIDENT :: nat where "EI_NIDENT = 16"
definition uchar :: c_type where "uchar = c_scalar 1"

lemmas elf_types = Elf64_Addr_def Elf64_Half_def Elf64_Off_def Elf64_Sword_def Elf64_Sxword_def Elf64_Word_def Elf64_Lword_def Elf64_Xword_def
  Elf64_Hashelt_def Elf64_Size_def Elf64_Ssize_def Elf64_Versym_def EI_NIDENT_def uchar_def c_scalar_def c_array_def c_union_def

definition Elf64_Ehdr :: c_struct where
  "Elf64_Ehdr = [(''e_ident'', c_array EI_NIDENT uchar), (''e_type'', Elf64_Half), (''e_machine'', Elf64_Half), (''e_version'', Elf64_Word),
     (''e_entry'', Elf64_Addr), (''e_phoff'', Elf64_Off), (''e_shoff'', Elf64_Off), (''e_flags'', Elf64_Word), (''e_ehsize'', Elf64_Half),
     (''e_phentsize'', Elf64_Half), (''e_phnum'', Elf64_Half), (''e_shentsize'', Elf64_Half), (''e_shnum'', Elf64_Half),
     (''e_shstrndx'', Elf64_Half)]"

definition Elf64_Shdr :: c_struct where
  "Elf64_Shdr = [(''sh_name'', Elf64_Word), (''sh_type'', Elf64_Word), (''sh_flags'', Elf64_Xword), (''sh_addr'', Elf64_Addr),
     (''sh_offset'', Elf64_Off), (''sh_size'', Elf64_Xword), (''sh_link'', Elf64_Word), (''sh_info'', Elf64_Word),
     (''sh_addralign'', Elf64_Xword), (''sh_entsize'', Elf64_Xword)]"

definition Elf64_Phdr :: c_struct where
  "Elf64_Phdr = [(''p_type'', Elf64_Word), (''p_flags'', Elf64_Word), (''p_offset'', Elf64_Off), (''p_vaddr'', Elf64_Addr),
     (''p_paddr'', Elf64_Addr), (''p_filesz'', Elf64_Xword), (''p_memsz'', Elf64_Xword), (''p_align'', Elf64_Xword)]"

definition Elf64_Dyn :: c_struct where
  "Elf64_Dyn = [(''d_tag'', Elf64_Sxword), (''d_un'', c_union Elf64_Xword Elf64_Addr)]"

definition Elf64_Rel :: c_struct where
  "Elf64_Rel = [(''r_offset'', Elf64_Addr), (''r_info'', Elf64_Xword)]"

definition Elf64_Rela :: c_struct where
  "Elf64_Rela = [(''r_offset'', Elf64_Addr), (''r_info'', Elf64_Xword), (''r_addend'', Elf64_Sxword)]"

definition Elf_Note :: c_struct where
  "Elf_Note = [(''n_namesz'', c_scalar 4), (''n_descsz'', c_scalar 4), (''n_type'', c_scalar 4)]"

definition Elf64_Nhdr :: c_struct where
  "Elf64_Nhdr = Elf_Note"

definition Elf_GNU_Hash_Header :: c_struct where
  "Elf_GNU_Hash_Header = [(''gh_nbuckets'', c_scalar 4), (''gh_symndx'', c_scalar 4), (''gh_maskwords'', c_scalar 4), (''gh_shift2'', c_scalar 4)]"

definition Elf64_Move :: c_struct where
  "Elf64_Move = [(''m_value'', Elf64_Lword), (''m_info'', Elf64_Xword), (''m_poffset'', Elf64_Xword), (''m_repeat'', Elf64_Half),
     (''m_stride'', Elf64_Half)]"

definition Elf64_Cap :: c_struct where
  "Elf64_Cap = [(''c_tag'', Elf64_Xword), (''c_un'', c_union Elf64_Xword Elf64_Addr)]"

definition Elf64_Sym :: c_struct where
  "Elf64_Sym = [(''st_name'', Elf64_Word), (''st_info'', uchar), (''st_other'', uchar), (''st_shndx'', Elf64_Half), (''st_value'', Elf64_Addr),
     (''st_size'', Elf64_Xword)]"

definition Elf64_Verdef :: c_struct where
  "Elf64_Verdef = [(''vd_version'', Elf64_Half), (''vd_flags'', Elf64_Half), (''vd_ndx'', Elf64_Half), (''vd_cnt'', Elf64_Half),
     (''vd_hash'', Elf64_Word), (''vd_aux'', Elf64_Word), (''vd_next'', Elf64_Word)]"

definition Elf64_Verdaux :: c_struct where
  "Elf64_Verdaux = [(''vda_name'', Elf64_Word), (''vda_next'', Elf64_Word)]"

definition Elf64_Verneed :: c_struct where
  "Elf64_Verneed = [(''vn_version'', Elf64_Half), (''vn_cnt'', Elf64_Half), (''vn_file'', Elf64_Word), (''vn_aux'', Elf64_Word),
     (''vn_next'', Elf64_Word)]"

definition Elf64_Vernaux :: c_struct where
  "Elf64_Vernaux = [(''vna_hash'', Elf64_Word), (''vna_flags'', Elf64_Half), (''vna_other'', Elf64_Half), (''vna_name'', Elf64_Word),
     (''vna_next'', Elf64_Word)]"

definition Elf64_Syminfo :: c_struct where
  "Elf64_Syminfo = [(''si_boundto'', Elf64_Half), (''si_flags'', Elf64_Half)]"

lemmas elf_structs = Elf64_Ehdr_def Elf64_Shdr_def Elf64_Phdr_def Elf64_Dyn_def Elf64_Rel_def Elf64_Rela_def Elf64_Nhdr_def Elf_Note_def
  Elf_GNU_Hash_Header_def Elf64_Move_def Elf64_Cap_def Elf64_Sym_def Elf64_Verdef_def Elf64_Verdaux_def Elf64_Verneed_def Elf64_Vernaux_def
  Elf64_Syminfo_def

definition elf_declared :: "c_struct list" where
  "elf_declared = [Elf64_Ehdr, Elf64_Shdr, Elf64_Phdr, Elf64_Dyn, Elf64_Rel, Elf64_Rela, Elf64_Nhdr, Elf_GNU_Hash_Header, Elf64_Move, Elf64_Cap,
     Elf64_Sym, Elf64_Verdef, Elf64_Verdaux, Elf64_Verneed, Elf64_Vernaux, Elf64_Syminfo]"

text \<open>The sizes that the ELF specification gives for the entries of its tables.\<close>

lemma elf_sizes:
  "map c_sizeof elf_declared = [64, 64, 56, 16, 16, 24, 12, 16, 32, 16, 24, 20, 8, 16, 16, 4]"
  by code_simp


section \<open>Members do not overlap\<close>

definition wf_struct :: "c_struct \<Rightarrow> bool" where
  "wf_struct s \<longleftrightarrow> distinct (map fst s) \<and> (\<forall>(f, n, a) \<in> set s. 0 < a \<and> a dvd n)"

lemma pad_up_bounds: "0 < a \<Longrightarrow> n \<le> pad_up a n \<and> a dvd pad_up a n \<and> pad_up a n < n + a"
proof -
  assume a: "0 < a"
  have "pad_up a n + (n + a - 1) mod a = n + a - 1" unfolding pad_up_def by (rule div_mult_mod_eq)
  moreover have "(n + a - 1) mod a < a" using a by simp
  ultimately have "n \<le> pad_up a n \<and> pad_up a n < n + a" using a by linarith
  then show ?thesis by (simp add: pad_up_def)
qed

lemma extent_grows: "\<forall>(f, n, a) \<in> set s. 0 < a \<Longrightarrow> off \<le> extent off s"
proof (induction off s rule: extent.induct)
  case (2 off f n a r)
  then have "off \<le> pad_up a off" "pad_up a off + n \<le> extent (pad_up a off + n) r" using pad_up_bounds [of a off] by auto
  then show ?case by simp
qed simp

text \<open>Every member lies between the start and the extent, at a multiple of its alignment.\<close>

lemma members_in_range:
  "\<forall>(f, n, a) \<in> set s. 0 < a \<Longrightarrow> (g, p, k) \<in> set (members off s) \<Longrightarrow> off \<le> p \<and> p + k \<le> extent off s"
proof (induction off s rule: members.induct)
  case (2 off f n a r)
  show ?case
  proof (cases "(g, p, k) = (f, pad_up a off, n)")
    case True
    then show ?thesis using 2(2) pad_up_bounds [of a off] extent_grows [of r "pad_up a off + n"] by auto
  next
    case False
    then show ?thesis using 2 pad_up_bounds [of a off] by fastforce
  qed
qed simp

lemma members_apart:
  "\<forall>(f, n, a) \<in> set s. 0 < a \<Longrightarrow> (g, p, k) \<in> set (members off s) \<Longrightarrow> (h, q, l) \<in> set (members off s) \<Longrightarrow> g \<noteq> h \<Longrightarrow> p + k \<le> q \<or> q + l \<le> p"
proof (induction off s rule: members.induct)
  case (2 off f n a r)
  have later: "pad_up a off + n \<le> p'" if "(g', p', k') \<in> set (members (pad_up a off + n) r)" for g' p' k'
    using members_in_range [of r g' p' k' "pad_up a off + n"] that 2(2) by auto
  consider "(g, p, k) = (f, pad_up a off, n)" "(h, q, l) \<in> set (members (pad_up a off + n) r)"
    | "(h, q, l) = (f, pad_up a off, n)" "(g, p, k) \<in> set (members (pad_up a off + n) r)"
    | "(g, p, k) \<in> set (members (pad_up a off + n) r)" "(h, q, l) \<in> set (members (pad_up a off + n) r)"
    using 2(3-5) by auto
  then show ?case
  proof cases
    case 1
    then show ?thesis using later [OF 1(2)] by simp
  next
    case 2
    then show ?thesis using later [OF 2(2)] by simp
  next
    case 3
    then show ?thesis using 2(1) [OF _ 3 2(5)] 2(2) by simp
  qed
qed simp

lemma extent_sizeof: "wf_struct s \<Longrightarrow> extent 0 s \<le> c_sizeof s"
proof -
  have "0 < c_align s" by (induction s) (auto simp: c_align_def)
  then show ?thesis using pad_up_bounds [of "c_align s" "extent 0 s"] by (simp add: c_sizeof_def)
qed

lemma member_place: "member s f = Some (off, n) \<Longrightarrow> (f, off, n) \<in> set (members 0 s)"
  by (simp add: member_def map_of_SomeD)

lemma wf_aligned: "wf_struct s \<Longrightarrow> \<forall>(f, n, a) \<in> set s. 0 < a"
  by (auto simp: wf_struct_def)

lemma elf_wf: "list_all (\<lambda>s. wf_struct s \<and> c_sizeof s \<le> 64) elf_declared"
  unfolding wf_struct_def by code_simp


text \<open>In every declared structure the members lie inside the structure, and two of them do not overlap.\<close>

lemma declared_members_apart:
  assumes "s \<in> set elf_declared" and "member s f = Some (p, k)"
  shows "p + k \<le> c_sizeof s" and "member s g = Some (q, l) \<Longrightarrow> g \<noteq> f \<Longrightarrow> p + k \<le> q \<or> q + l \<le> p"
proof -
  have w: "wf_struct s" using elf_wf assms(1) by (auto simp: list_all_iff)
  show "p + k \<le> c_sizeof s"
    using members_in_range [OF wf_aligned [OF w] member_place [OF assms(2)]] extent_sizeof [OF w] by simp
  show "p + k \<le> q \<or> q + l \<le> p" if "member s g = Some (q, l)" "g \<noteq> f"
    using members_apart [OF wf_aligned [OF w] member_place [OF assms(2)] member_place [OF that(1)]] that(2) by simp
qed

section \<open>The identification\<close>

definition EI_MAG0 :: nat where "EI_MAG0 = 0"
definition EI_MAG1 :: nat where "EI_MAG1 = 1"
definition EI_MAG2 :: nat where "EI_MAG2 = 2"
definition EI_MAG3 :: nat where "EI_MAG3 = 3"
definition EI_CLASS :: nat where "EI_CLASS = 4"
definition EI_DATA :: nat where "EI_DATA = 5"
definition ELFMAG0 :: byte where "ELFMAG0 = 0x7f"
definition ELFMAG1 :: byte where "ELFMAG1 = chr CHR ''E''"
definition ELFMAG2 :: byte where "ELFMAG2 = chr CHR ''L''"
definition ELFMAG3 :: byte where "ELFMAG3 = chr CHR ''F''"
definition ELFCLASS64 :: byte where "ELFCLASS64 = 2"
definition ELFDATA2LSB :: byte where "ELFDATA2LSB = 1"
definition EM_PPC64 :: u64 where "EM_PPC64 = 21"

definition IS_ELF :: "mem \<Rightarrow> addr \<Rightarrow> bool" where
  "IS_ELF m h \<longleftrightarrow> e_ident m h EI_MAG0 = ELFMAG0 \<and> e_ident m h EI_MAG1 = ELFMAG1 \<and> e_ident m h EI_MAG2 = ELFMAG2 \<and>
     e_ident m h EI_MAG3 = ELFMAG3"

lemmas elf_ident = EI_MAG0_def EI_MAG1_def EI_MAG2_def EI_MAG3_def EI_CLASS_def EI_DATA_def ELFMAG0_def ELFMAG1_def ELFMAG2_def ELFMAG3_def
  ELFCLASS64_def ELFDATA2LSB_def EM_PPC64_def IS_ELF_def

section \<open>Packed fields\<close>

text \<open>The macros for relocations work on 64-bit values, those for symbols on \<open>int\<close> values, to which an \<open>unsigned char\<close> is promoted.\<close>

definition ELF64_R_SYM :: "u64 \<Rightarrow> u64" where "ELF64_R_SYM info = drop_bit 32 info"
definition ELF64_R_TYPE :: "u64 \<Rightarrow> u64" where "ELF64_R_TYPE info = info AND 0xffffffff"
definition ELF64_R_INFO :: "u64 \<Rightarrow> u64 \<Rightarrow> u64" where "ELF64_R_INFO sy ty = push_bit 32 sy + (ty AND 0xffffffff)"
definition ELF64_R_TYPE_DATA :: "u64 \<Rightarrow> u64" where "ELF64_R_TYPE_DATA info = drop_bit 40 (push_bit 32 info)"
definition ELF64_R_TYPE_ID :: "u64 \<Rightarrow> u64" where "ELF64_R_TYPE_ID info = drop_bit 56 (push_bit 56 info)"
definition ELF64_R_TYPE_INFO :: "u64 \<Rightarrow> u64 \<Rightarrow> u64" where "ELF64_R_TYPE_INFO data ty = push_bit 8 data + ty"
definition ELF64_M_SYM :: "u64 \<Rightarrow> u64" where "ELF64_M_SYM info = drop_bit 8 info"
definition ELF64_M_SIZE :: "u64 \<Rightarrow> byte" where "ELF64_M_SIZE info = ucast info"
definition ELF64_M_INFO :: "u64 \<Rightarrow> u64 \<Rightarrow> u64" where "ELF64_M_INFO sy sz = push_bit 8 sy + ucast (ucast sz :: byte)"
definition ELF64_ST_BIND :: "int \<Rightarrow> int" where "ELF64_ST_BIND info = drop_bit 4 info"
definition ELF64_ST_TYPE :: "int \<Rightarrow> int" where "ELF64_ST_TYPE info = info AND 0xf"
definition ELF64_ST_INFO :: "int \<Rightarrow> int \<Rightarrow> int" where "ELF64_ST_INFO bnd ty = push_bit 4 bnd + (ty AND 0xf)"
definition ELF64_ST_VISIBILITY :: "int \<Rightarrow> int" where "ELF64_ST_VISIBILITY oth = oth AND 0x3"
definition STV_EXPORTED :: int where "STV_EXPORTED = 4"
definition STV_DEFAULT :: int where "STV_DEFAULT = 0"

text \<open>A sum whose second operand is below the shifted one is a disjunction of their bits.\<close>

lemma packed_or: "push_bit k a + (b AND mask k) = push_bit k a OR (b AND mask k)" for a b :: "'w::len word"
  by (rule disjunctive_add) (auto simp: bit_simps)

lemma low_mask: "(0xffffffff :: u64) = mask 32" "(0xff :: u64) = mask 8"
  by (simp_all add: mask_eq_exp_minus_1)

lemma relocation_roundtrip:
  "ELF64_R_SYM (ELF64_R_INFO sy ty) = take_bit 32 sy" "ELF64_R_TYPE (ELF64_R_INFO sy ty) = take_bit 32 ty"
  "ELF64_R_INFO (ELF64_R_SYM info) (ELF64_R_TYPE info) = info"
  unfolding ELF64_R_SYM_def ELF64_R_INFO_def ELF64_R_TYPE_def low_mask packed_or
  by (rule bit_word_eqI, auto simp: bit_simps)+

lemma shifted_back: "drop_bit 40 (push_bit 32 v) = take_bit 24 (drop_bit 8 v)" "drop_bit 56 (push_bit 56 v) = take_bit 8 v" for v :: u64
  by (rule bit_word_eqI; auto simp: bit_simps)+

lemma relocation_type_roundtrip:
  "ELF64_R_TYPE_DATA (ELF64_R_TYPE_INFO d (take_bit 8 t)) = take_bit 24 d" "ELF64_R_TYPE_ID (ELF64_R_TYPE_INFO d t) = take_bit 8 t"
proof -
  show "ELF64_R_TYPE_DATA (ELF64_R_TYPE_INFO d (take_bit 8 t)) = take_bit 24 d"
    unfolding ELF64_R_TYPE_DATA_def ELF64_R_TYPE_INFO_def shifted_back take_bit_eq_mask [of 8] packed_or
    by (rule bit_word_eqI) (auto simp: bit_simps)
  have "take_bit 8 (push_bit 8 d + t) = take_bit 8 t"
    by transfer (simp add: take_bit_eq_mod push_bit_eq_mult mod_mod_cancel)
  then show "ELF64_R_TYPE_ID (ELF64_R_TYPE_INFO d t) = take_bit 8 t"
    unfolding ELF64_R_TYPE_ID_def ELF64_R_TYPE_INFO_def shifted_back .
qed

lemma move_roundtrip:
  "ELF64_M_SYM (ELF64_M_INFO sy sz) = take_bit 56 sy" "ELF64_M_SIZE (ELF64_M_INFO sy sz) = ucast sz"
proof -
  have "(ucast (ucast sz :: byte) :: u64) = sz AND mask 8" by (rule bit_word_eqI) (auto simp: bit_simps)
  then have info: "ELF64_M_INFO sy sz = push_bit 8 sy + (sz AND mask 8)" by (simp add: ELF64_M_INFO_def)
  show "ELF64_M_SYM (ELF64_M_INFO sy sz) = take_bit 56 sy" "ELF64_M_SIZE (ELF64_M_INFO sy sz) = ucast sz"
    unfolding info packed_or ELF64_M_SYM_def ELF64_M_SIZE_def by (rule bit_word_eqI, auto simp: bit_simps)+
qed

lemma symbol_roundtrip:
  assumes "0 \<le> b" "b < 16"
  shows "ELF64_ST_BIND (uint (of_int (ELF64_ST_INFO b ty) :: byte)) = b"
    and "ELF64_ST_TYPE (uint (of_int (ELF64_ST_INFO b ty) :: byte)) = ty AND 0xf"
proof -
  have m: "ty AND 0xf = ty mod 16" using take_bit_eq_mask [of 4 ty] by (simp add: mask_eq_exp_minus_1 take_bit_eq_mod)
  have r: "0 \<le> ty mod 16" "ty mod 16 < 16" by simp_all
  have "uint (of_int (ELF64_ST_INFO b ty) :: byte) = (b * 16 + ty mod 16) mod 256"
    unfolding uint_word_of_int_eq by (simp add: ELF64_ST_INFO_def m push_bit_eq_mult take_bit_eq_mod)
  also have "\<dots> = b * 16 + ty mod 16" using assms r by (intro mod_pos_pos_trivial) linarith+
  finally have u: "uint (of_int (ELF64_ST_INFO b ty) :: byte) = b * 16 + ty mod 16" .
  show "ELF64_ST_BIND (uint (of_int (ELF64_ST_INFO b ty) :: byte)) = b"
    using r unfolding u ELF64_ST_BIND_def by (simp add: drop_bit_eq_div)
  have "(b * 16 + ty mod 16) AND 0xf = (b * 16 + ty mod 16) mod 16"
    using take_bit_eq_mask [of 4 "b * 16 + ty mod 16"] by (simp add: mask_eq_exp_minus_1 take_bit_eq_mod)
  then show "ELF64_ST_TYPE (uint (of_int (ELF64_ST_INFO b ty) :: byte)) = ty AND 0xf"
    unfolding u ELF64_ST_TYPE_def m by simp
qed

text \<open>The mask for the visibility has two bits, but the visibilities from \<open>STV_EXPORTED\<close> on need three.\<close>

lemma visibility_cut: "ELF64_ST_VISIBILITY STV_EXPORTED = STV_DEFAULT"
  by (simp add: ELF64_ST_VISIBILITY_def STV_EXPORTED_def STV_DEFAULT_def)

section \<open>The loader and the declarations\<close>

text \<open>The boot loader reads the headers of an ELF file where the declarations put them: the structures have the sizes that it
  copies, each of its field reads is the read of the declared member, with the offset and the width that the C layout gives it, and its
  two tests of the file are those on the declared identification.\<close>

lemma loader_reads_declared_members:
  "c_sizeof Elf64_Ehdr = 64 \<and> c_sizeof Elf64_Phdr = 56 \<and>
   get_member m h Elf64_Ehdr ''e_machine'' = Some (e_machine m h) \<and> get_member m h Elf64_Ehdr ''e_entry'' = Some (e_entry m h) \<and>
   get_member m h Elf64_Ehdr ''e_phoff'' = Some (e_phoff m h) \<and> get_member m h Elf64_Ehdr ''e_phentsize'' = Some (e_phentsize m h) \<and>
   get_member m h Elf64_Ehdr ''e_phnum'' = Some (e_phnum m h) \<and> get_member m h Elf64_Phdr ''p_type'' = Some (p_type m h) \<and>
   get_member m h Elf64_Phdr ''p_offset'' = Some (p_offset m h) \<and> get_member m h Elf64_Phdr ''p_vaddr'' = Some (p_vaddr m h) \<and>
   get_member m h Elf64_Phdr ''p_filesz'' = Some (p_filesz m h) \<and>
   (is_elf64 m h \<longleftrightarrow> IS_ELF m h \<and> e_ident m h EI_CLASS = ELFCLASS64) \<and>
   (is_ppc64le m h \<longleftrightarrow> e_ident m h EI_DATA = ELFDATA2LSB \<and> e_machine m h = EM_PPC64)"
proof -
  have sizes: "c_sizeof Elf64_Ehdr = 64" "c_sizeof Elf64_Phdr = 56" using elf_sizes by (simp_all add: elf_declared_def)
  have e: "members 0 Elf64_Ehdr = [(''e_ident'', 0, 16), (''e_type'', 16, 2), (''e_machine'', 18, 2), (''e_version'', 20, 4), (''e_entry'', 24, 8),
      (''e_phoff'', 32, 8), (''e_shoff'', 40, 8), (''e_flags'', 48, 4), (''e_ehsize'', 52, 2), (''e_phentsize'', 54, 2), (''e_phnum'', 56, 2),
      (''e_shentsize'', 58, 2), (''e_shnum'', 60, 2), (''e_shstrndx'', 62, 2)]"
    "members 0 Elf64_Phdr = [(''p_type'', 0, 4), (''p_flags'', 4, 4), (''p_offset'', 8, 8), (''p_vaddr'', 16, 8), (''p_paddr'', 24, 8),
      (''p_filesz'', 32, 8), (''p_memsz'', 40, 8), (''p_align'', 48, 8)]"
    by code_simp+
  show ?thesis
    using sizes by (simp add: get_member_def member_def e e_machine_def e_entry_def e_phoff_def e_phentsize_def e_phnum_def p_type_def p_offset_def
        p_vaddr_def p_filesz_def is_elf64_def is_ppc64le_def elf_ident conj_assoc)
qed

end
