(* ===== verification/Vhpi.thy ===== *)
theory Vhpi
  imports Prelude
begin

text \<open>
  Values at the boundary between the VHDL simulator and the C helpers (\<open>sim_vhpi_c.c\<close>): strings
  and vectors of logic values, most significant bit first.

  The codes of the two logic values, \<open>vhpi0\<close> and \<open>vhpi1\<close>, come from a header that is not part of
  the repository; they are the record \<open>vhpi_codes\<close>, and the properties that decode need them to be
  different.  The helpers run on the host: a run ends with a value, with a call of \<open>exit\<close>, or in
  an access outside an object (\<open>Fault\<close>).  Messages to the standard error stream are not modelled.

  The locale \<open>bit_codec\<close> is what a pair of conversions between words and vectors of a fixed width
  promises; every such pair of the repository is shown to be one.
\<close>

datatype 'a outcome = Done 'a | Exit int | Fault

primrec obind :: "'a outcome \<Rightarrow> ('a \<Rightarrow> 'b outcome) \<Rightarrow> 'b outcome" where
  "obind (Done x) f = f x"
| "obind (Exit n) f = Exit n"
| "obind Fault f = Fault"

lemma obind_Done_iff: "obind x f = Done y \<longleftrightarrow> (\<exists>z. x = Done z \<and> f z = Done y)"
  by (cases x) auto

record vhpi_codes =
  vhpi0 :: byte
  vhpi1 :: byte

section \<open>Strings\<close>

record int_bounds =
  ib_left :: int
  ib_right :: int
  ib_dir :: byte
  ib_len :: u32

record fat_pointer =
  fp_base :: "byte list"
  fp_bounds :: int_bounds

text \<open>The first argument says whether \<open>malloc\<close> succeeds.\<close>

definition from_string :: "bool \<Rightarrow> fat_pointer \<Rightarrow> byte list outcome" where
  "from_string malloc_ok p =
     (let len = unat (ib_len (fp_bounds p))
      in if \<not> malloc_ok then Exit 1
         else if len \<le> length (fp_base p) then Done (take len (fp_base p) @ [0])
         else Fault)"

section \<open>Logic vectors\<close>

definition slv_bit :: "vhpi_codes \<Rightarrow> byte \<Rightarrow> u64" where
  "slv_bit vh c = (if c = vhpi0 vh then 0 else if c = vhpi1 vh then 1 else 0)"

fun from_slv_loop :: "vhpi_codes \<Rightarrow> byte list \<Rightarrow> nat \<Rightarrow> u64 \<Rightarrow> u64 outcome" where
  "from_slv_loop vh p 0 ret = Done ret"
| "from_slv_loop vh [] (Suc n) ret = Fault"
| "from_slv_loop vh (c # p) (Suc n) ret = from_slv_loop vh p n (push_bit 1 ret OR slv_bit vh c)"

definition from_std_logic_vector :: "vhpi_codes \<Rightarrow> byte list \<Rightarrow> u64 \<Rightarrow> u64 outcome" where
  "from_std_logic_vector vh p len =
     (if len > 64 then Exit 1 else from_slv_loop vh p (unat len) 0)"

text \<open>The loop writes the first \<open>len\<close> elements of the array; the argument \<open>n\<close> counts down \<open>len - i\<close>.\<close>

fun to_slv_loop :: "vhpi_codes \<Rightarrow> u64 \<Rightarrow> byte list \<Rightarrow> nat \<Rightarrow> byte list outcome" where
  "to_slv_loop vh val p 0 = Done p"
| "to_slv_loop vh val [] (Suc n) = Fault"
| "to_slv_loop vh val (c # p) (Suc n) =
     obind (to_slv_loop vh val p n)
       (\<lambda>q. Done ((if drop_bit n val AND 1 \<noteq> 0 then vhpi1 vh else vhpi0 vh) # q))"

definition to_std_logic_vector :: "vhpi_codes \<Rightarrow> u64 \<Rightarrow> byte list \<Rightarrow> u64 \<Rightarrow> byte list outcome" where
  "to_std_logic_vector vh val p len =
     (if len > 64 then Exit 1 else to_slv_loop vh val p (unat len))"

section \<open>Fixed-width codecs\<close>

text \<open>A word and its vector of \<open>width\<close> elements determine each other.\<close>

locale bit_codec =
  fixes width :: nat and enc :: "u64 \<Rightarrow> 'c list" and dec :: "'c list \<Rightarrow> u64" and valid :: "'c \<Rightarrow> bool"
  assumes length_enc: "length (enc v) = width"
    and enc_valid: "list_all valid (enc v)"
    and dec_enc: "dec (enc v) = take_bit width v"
    and enc_dec: "length cs = width \<Longrightarrow> list_all valid cs \<Longrightarrow> enc (dec cs) = cs"
begin

lemma enc_eq_iff: "enc v = enc w \<longleftrightarrow> take_bit width v = take_bit width w"
proof
  assume "enc v = enc w"
  then have "dec (enc v) = dec (enc w)" by simp
  then show "take_bit width v = take_bit width w" by (simp only: dec_enc)
next
  assume "take_bit width v = take_bit width w"
  then have "dec (enc v) = dec (enc w)" by (simp only: dec_enc)
  moreover have "enc (dec (enc v)) = enc v" "enc (dec (enc w)) = enc w"
    by (simp_all add: enc_dec length_enc enc_valid)
  ultimately show "enc v = enc w" by metis
qed

lemma dec_inject:
  "length cs = width \<Longrightarrow> length ds = width \<Longrightarrow> list_all valid cs \<Longrightarrow> list_all valid ds \<Longrightarrow>
   dec cs = dec ds \<longleftrightarrow> cs = ds"
  by (metis enc_dec)

lemma dec_range: "length cs = width \<Longrightarrow> list_all valid cs \<Longrightarrow> dec cs = take_bit width (dec cs)"
  using dec_enc [of "dec cs"] by (simp add: enc_dec)

end

section \<open>Logic vectors as numbers\<close>

definition slv_enc :: "vhpi_codes \<Rightarrow> nat \<Rightarrow> u64 \<Rightarrow> byte list" where
  "slv_enc vh n v = map (\<lambda>i. if bit v (n - 1 - i) then vhpi1 vh else vhpi0 vh) [0..<n]"

fun slv_val :: "vhpi_codes \<Rightarrow> byte list \<Rightarrow> u64" where
  "slv_val vh [] = 0"
| "slv_val vh (c # p) = push_bit (length p) (slv_bit vh c) OR slv_val vh p"

lemma slv_enc_Suc: "slv_enc vh (Suc n) v = (if bit v n then vhpi1 vh else vhpi0 vh) # slv_enc vh n v"
proof -
  have "[0..<Suc n] = 0 # map Suc [0..<n]" by (simp add: upt_conv_Cons map_Suc_upt)
  then show ?thesis by (simp add: slv_enc_def)
qed

lemma length_slv_enc [simp]: "length (slv_enc vh n v) = n"
  by (simp add: slv_enc_def)

lemma to_slv_loop_enc:
  "n \<le> length p \<Longrightarrow> n \<le> 64 \<Longrightarrow> to_slv_loop vh v p n = Done (slv_enc vh n v @ drop n p)"
proof (induction vh v p n rule: to_slv_loop.induct)
  case (3 vh val c p n)
  have "drop_bit n val AND 1 \<noteq> 0 \<longleftrightarrow> bit val n"
    using and_exp_eq_0_iff_not_bit [of "drop_bit n val" 0] by (simp add: bit_drop_bit_eq)
  with 3 show ?case by (simp add: slv_enc_Suc)
qed (simp_all add: slv_enc_def)

lemma from_slv_loop_val:
  "n \<le> length p \<Longrightarrow> from_slv_loop vh p n r = Done (push_bit n r OR slv_val vh (take n p))"
proof (induction vh p n r rule: from_slv_loop.induct)
  case (3 vh c p n r)
  then show ?case by (simp add: push_bit_or ac_simps or.assoc)
qed simp_all

lemma to_slv_ok:
  "unat len \<le> length p \<Longrightarrow> len \<le> 64 \<Longrightarrow>
   to_std_logic_vector vh v p len = Done (slv_enc vh (unat len) v @ drop (unat len) p)"
  using to_slv_loop_enc [of "unat len" p vh v] by (simp add: to_std_logic_vector_def word_le_nat_alt word_less_nat_alt)

lemma from_slv_ok:
  "unat len \<le> length p \<Longrightarrow> len \<le> 64 \<Longrightarrow>
   from_std_logic_vector vh p len = Done (slv_val vh (take (unat len) p))"
  by (simp add: from_std_logic_vector_def from_slv_loop_val)

lemma slv_val_enc:
  assumes "vhpi0 vh \<noteq> vhpi1 vh"
  shows "slv_val vh (slv_enc vh n v) = take_bit n v"
proof (induction n)
  case 0
  then show ?case by (simp add: slv_enc_def)
next
  case (Suc n)
  have "push_bit n (if bit v n then 1 else 0 :: u64) OR take_bit n v = take_bit (Suc n) v"
    by (rule bit_word_eqI) (auto simp: bit_simps less_Suc_eq)
  with Suc assms show ?case by (cases "bit v n") (simp_all add: slv_enc_Suc slv_bit_def)
qed

lemma bit_slv_val: "bit (slv_val vh p) i \<Longrightarrow> i < length p"
proof (induction vh p rule: slv_val.induct)
  case (2 vh c p)
  then show ?case by (cases "slv_bit vh c = 0") (auto simp: bit_simps slv_bit_def split: if_splits)
qed simp

lemma slv_enc_val:
  assumes "vhpi0 vh \<noteq> vhpi1 vh" and "list_all (\<lambda>c. c = vhpi0 vh \<or> c = vhpi1 vh) p" and "length p \<le> 64"
  shows "slv_enc vh (length p) (slv_val vh p) = p"
  using assms(2,3)
proof (induction p)
  case Nil
  then show ?case by (simp add: slv_enc_def)
next
  case (Cons c p)
  have same: "slv_enc vh (length p) (push_bit (length p) b OR slv_val vh p) = slv_enc vh (length p) (slv_val vh p)" for b
    unfolding slv_enc_def by (intro map_cong refl if_cong) (auto simp: bit_simps)
  have "\<not> bit (slv_val vh p) (length p)" using bit_slv_val by blast
  then have "bit (push_bit (length p) (slv_bit vh c) OR slv_val vh p) (length p) \<longleftrightarrow> c = vhpi1 vh"
    using Cons.prems assms(1) by (auto simp: bit_simps slv_bit_def)
  with Cons same show ?case by (auto simp: slv_enc_Suc)
qed

text \<open>The two conversions of the repository, at any width up to 64.\<close>

definition slv_write :: "vhpi_codes \<Rightarrow> u64 \<Rightarrow> u64 \<Rightarrow> byte list" where
  "slv_write vh len v =
     (case to_std_logic_vector vh v (replicate (unat len) 0) len of Done p \<Rightarrow> p | _ \<Rightarrow> [])"

definition slv_read :: "vhpi_codes \<Rightarrow> u64 \<Rightarrow> byte list \<Rightarrow> u64" where
  "slv_read vh len p = (case from_std_logic_vector vh p len of Done v \<Rightarrow> v | _ \<Rightarrow> 0)"

locale vhpi_distinct =
  fixes vh :: vhpi_codes
  assumes codes_differ: "vhpi0 vh \<noteq> vhpi1 vh"

sublocale vhpi_distinct \<subseteq> slv: bit_codec 64 "slv_write vh 64" "slv_read vh 64"
  "\<lambda>c. c = vhpi0 vh \<or> c = vhpi1 vh"
proof
  have w: "slv_write vh 64 v = slv_enc vh 64 v" for v by (simp add: slv_write_def to_slv_ok)
  have r: "slv_read vh 64 p = slv_val vh p" if "length p = 64" for p
    using that by (simp add: slv_read_def from_slv_ok)
  fix v
  show "length (slv_write vh 64 v) = 64" by (simp add: w)
  show "list_all (\<lambda>c. c = vhpi0 vh \<or> c = vhpi1 vh) (slv_write vh 64 v)"
    by (auto simp: w slv_enc_def list_all_iff)
  show "slv_read vh 64 (slv_write vh 64 v) = take_bit 64 v" by (simp add: w r slv_val_enc codes_differ)
  fix cs assume "length cs = 64" "list_all (\<lambda>c. c = vhpi0 vh \<or> c = vhpi1 vh) cs"
  then show "slv_write vh 64 (slv_read vh 64 cs) = cs"
    using slv_enc_val [of vh cs] by (simp add: w r codes_differ)
qed

text \<open>The positions of \<open>'0'\<close> and \<open>'1'\<close> in the enumeration type of VHDL's logic values.\<close>

interpretation vhdl: vhpi_distinct "\<lparr>vhpi0 = 2, vhpi1 = 3\<rparr>"
  by unfold_locales simp

section \<open>Properties\<close>

text \<open>C30: Writing a value into a logic vector of at most 64 elements and reading it back gives the
  value modulo two to the width, and the rest of the array is not touched; a longer vector ends
  the program with status 1.\<close>

theorem std_logic_vector_roundtrip:
  assumes "vhpi0 vh \<noteq> vhpi1 vh" and "unat len \<le> length p"
  shows "if len \<le> 64
    then \<exists>q. to_std_logic_vector vh v p len = Done q \<and> length q = length p \<and>
           drop (unat len) q = drop (unat len) p \<and>
           from_std_logic_vector vh q len = Done (take_bit (unat len) v)
    else to_std_logic_vector vh v p len = Exit 1 \<and> from_std_logic_vector vh p len = Exit 1"
proof (cases "len \<le> 64")
  case True
  with assms show ?thesis by (auto simp: to_slv_ok from_slv_ok slv_val_enc)
next
  case False
  then show ?thesis by (simp add: to_std_logic_vector_def from_std_logic_vector_def not_le)
qed

theorem std_logic_vector_roundtrip_witness:
  "\<exists>q. to_std_logic_vector \<lparr>vhpi0 = 2, vhpi1 = 3\<rparr> 5 [9, 9, 9, 9, 9] 4 = Done q \<and> drop 4 q = [9] \<and>
     from_std_logic_vector \<lparr>vhpi0 = 2, vhpi1 = 3\<rparr> q 4 = Done 5"
  using std_logic_vector_roundtrip [of "\<lparr>vhpi0 = 2, vhpi1 = 3\<rparr>" 4 "[9, 9, 9, 9, 9]" 5] by auto

end
