(* ===== verification/Sim_Bram.thy ===== *)
theory Sim_Bram
  imports Vhpi
begin

text \<open>
  The simulated block memories (\<open>sim_bram_helpers_c.c\<close>): regions of host memory, initialised from
  files, that the VHDL model reads and writes in 64-bit words with byte enables.

  A region holds its size and the bytes that are mapped for it; an access outside the mapped
  bytes, or through the null pointer of a region that was never initialised, is a \<open>Fault\<close>.  The
  system calls are the record \<open>bram_os\<close>.
\<close>

definition MAX_REGIONS :: nat where "MAX_REGIONS = 128"

definition ALIGN_UP :: "u64 \<Rightarrow> u64 \<Rightarrow> u64" where
  "ALIGN_UP VAL SIZE = (VAL + (SIZE - 1)) AND NOT (SIZE - 1)"

record ram_behavioural =
  rb_filename :: "byte list"
  rb_size :: u64
  rb_m :: "byte list"

text \<open>The static array of regions: those initialised so far; \<open>region_nr\<close> is their number.\<close>

type_synonym bram = "ram_behavioural list"

definition null_region :: ram_behavioural where
  "null_region = \<lparr>rb_filename = [], rb_size = 0, rb_m = []\<rparr>"

record bram_os =
  os_malloc_ok :: bool
  os_pagesize :: u64
  os_open :: "byte list \<Rightarrow> byte list option"
  os_fstat_ok :: bool
  os_mmap_ok :: bool

text \<open>The bytes of a mapping of \<open>n\<close> bytes of a file: its contents, then zeros.\<close>

definition map_file :: "byte list \<Rightarrow> nat \<Rightarrow> byte list" where
  "map_file contents n = take n contents @ replicate (n - length contents) 0"

definition behavioural_initialize ::
  "bram_os \<Rightarrow> fat_pointer \<Rightarrow> u64 \<Rightarrow> bram \<Rightarrow> (u64 \<times> bram) outcome" where
  "behavioural_initialize os f sz st =
     (if length st = MAX_REGIONS then Exit 1
      else obind (from_string (os_malloc_ok os) f) (\<lambda>name.
        let rsize = ALIGN_UP sz (os_pagesize os)
        in case os_open os name of
             None \<Rightarrow> Exit 1
           | Some contents \<Rightarrow>
               if \<not> os_fstat_ok os then Exit 1
               else
                 let tmp_size = ALIGN_UP (of_nat (length contents)) (os_pagesize os) in
                 if \<not> os_mmap_ok os then Exit 1
                 else if rsize > tmp_size then
                   Done (of_nat (length st), st @ [\<lparr>rb_filename = name, rb_size = rsize,
                     rb_m = map_file contents (unat tmp_size) @ replicate (unat rsize - unat tmp_size) 0\<rparr>])
                 else if tmp_size = 0 then Exit 1
                 else Done (of_nat (length st), st @ [\<lparr>rb_filename = name, rb_size = rsize,
                        rb_m = map_file contents (unat tmp_size)\<rparr>])))"

text \<open>The test \<open>identifier > region_nr\<close> compares as \<open>unsigned long\<close>; it lets the first unused region
  pass, whose pointer is null.\<close>

definition region_of :: "bram \<Rightarrow> int \<Rightarrow> ram_behavioural outcome" where
  "region_of st identifier =
     (let n = of_int identifier :: u64
      in if n > of_nat (length st) then Exit 1
         else if unat n < length st then Done (st ! unat n)
         else if unat n < MAX_REGIONS then Done null_region else Fault)"

text \<open>The loops over the eight bytes; \<open>k\<close> is the number of iterations left.\<close>

fun read_loop :: "ram_behavioural \<Rightarrow> u64 \<Rightarrow> nat \<Rightarrow> nat \<Rightarrow> u64 \<Rightarrow> u64 outcome" where
  "read_loop r addr i 0 val = Done val"
| "read_loop r addr i (Suc k) val =
     (let a = addr + of_nat i
      in if a > rb_size r then Exit 1
         else if unat a < length (rb_m r)
         then read_loop r addr (Suc i) k (val OR push_bit (i * 8) (ucast (rb_m r ! unat a)))
         else Fault)"

definition behavioural_read ::
  "vhpi_codes \<Rightarrow> bram \<Rightarrow> byte list \<Rightarrow> byte list \<Rightarrow> u64 \<Rightarrow> int \<Rightarrow> byte list outcome" where
  "behavioural_read vh st val_p addr_p sel identifier =
     obind (from_std_logic_vector vh addr_p 64) (\<lambda>addr.
     obind (region_of st identifier) (\<lambda>r.
     obind (read_loop r addr 0 8 0) (\<lambda>val.
     to_std_logic_vector vh val val_p 64)))"

fun write_loop :: "ram_behavioural \<Rightarrow> u64 \<Rightarrow> u64 \<Rightarrow> u32 \<Rightarrow> nat \<Rightarrow> nat \<Rightarrow> ram_behavioural outcome" where
  "write_loop r addr val sel i 0 = Done r"
| "write_loop r addr val sel i (Suc k) =
     (let a = addr + of_nat i
      in if (ucast sel :: u64) AND push_bit i 1 = 0 then write_loop r addr val sel (Suc i) k
         else if a > rb_size r then Exit 1
         else if unat a < length (rb_m r)
         then write_loop (r\<lparr>rb_m := (rb_m r)[unat a := ucast (drop_bit (i * 8) val AND 0xff)]\<rparr>) addr val sel (Suc i) k
         else Fault)"

definition behavioural_write ::
  "vhpi_codes \<Rightarrow> bram \<Rightarrow> byte list \<Rightarrow> byte list \<Rightarrow> u32 \<Rightarrow> int \<Rightarrow> bram outcome" where
  "behavioural_write vh st val_p addr_p sel identifier =
     obind (from_std_logic_vector vh val_p 64) (\<lambda>val.
     obind (from_std_logic_vector vh addr_p 64) (\<lambda>addr.
     obind (region_of st identifier) (\<lambda>r.
     obind (write_loop r addr val sel 0 8) (\<lambda>r'.
     Done (st[unat (of_int identifier :: u64) := r'])))))"

section \<open>The loops\<close>

text \<open>An access of eight bytes that lies in the region and in its mapping.\<close>

definition in_bram :: "ram_behavioural \<Rightarrow> u64 \<Rightarrow> bool" where
  "in_bram r addr \<longleftrightarrow> unat addr + 8 \<le> length (rb_m r) \<and> unat addr + 7 \<le> unat (rb_size r)"

lemma in_bram_index:
  assumes "in_bram r addr" and "i < 8"
  shows "unat (addr + of_nat i) = unat addr + i" and "\<not> addr + of_nat i > rb_size r"
    and "unat addr + i < length (rb_m r)"
proof -
  have "unat addr + 7 < 18446744073709551616"
    using assms(1) unat_lt_64(1) [of "rb_size r"] unfolding in_bram_def by linarith
  then show u: "unat (addr + of_nat i) = unat addr + i" using assms(2) by (intro unat_add_of_nat) simp
  show "\<not> addr + of_nat i > rb_size r" using assms by (simp add: word_less_nat_alt u in_bram_def)
  show "unat addr + i < length (rb_m r)" using assms by (simp add: in_bram_def)
qed

lemma read_loop_word:
  "in_bram r addr \<Longrightarrow> i + k = 8 \<Longrightarrow>
   read_loop r addr i k val = Done (val OR push_bit (i * 8) (le_val (take k (drop (unat addr + i) (rb_m r)))))"
proof (induction k arbitrary: i val)
  case 0
  then show ?case by simp
next
  case (Suc k)
  then have i: "i < 8" by simp
  note x = in_bram_index [OF Suc.prems(1) i]
  have d: "drop (unat addr + i) (rb_m r) = rb_m r ! (unat addr + i) # drop (unat addr + Suc i) (rb_m r)"
    using x(3) by (simp add: Cons_nth_drop_Suc)
  have p: "8 + i * 8 = i * 8 + 8" by simp
  show ?case
    using Suc.IH [of "Suc i"] Suc.prems x
    by (simp add: Let_def d push_bit_or or.assoc p del: drop_Suc)
qed

lemma sel_bit: "(ucast sel :: u64) AND 2 ^ i = 0 \<longleftrightarrow> \<not> bit sel i" if "i < 8" for sel :: u32
  using and_exp_eq_0_iff_not_bit [of "ucast sel :: u64" i] that by (simp add: bit_simps)

text \<open>The bytes after a write of \<open>val\<close>: those enabled by \<open>sel\<close> come from \<open>val\<close>.\<close>

definition merge_bytes :: "u32 \<Rightarrow> u64 \<Rightarrow> byte list \<Rightarrow> byte list" where
  "merge_bytes sel val old = map (\<lambda>i. if bit sel i then ucast (drop_bit (i * 8) val) else old ! i) [0..<8]"

lemma ucast_mask_byte: "(ucast (v AND 0xff :: u64) :: byte) = ucast v"
proof -
  have "v AND 0xff = take_bit 8 v" by (simp add: take_bit_eq_mask mask_eq_exp_minus_1)
  then show ?thesis by (intro bit_word_eqI) (simp add: bit_simps)
qed

lemma write_loop_word:
  "in_bram r addr \<Longrightarrow> i + k = 8 \<Longrightarrow>
   \<exists>r'. write_loop r addr val sel i k = Done r' \<and> rb_size r' = rb_size r \<and> length (rb_m r') = length (rb_m r) \<and>
     (\<forall>j < length (rb_m r). rb_m r' ! j =
        (if unat addr + i \<le> j \<and> j < unat addr + 8 \<and> bit sel (j - unat addr)
         then ucast (drop_bit ((j - unat addr) * 8) val) else rb_m r ! j))"
proof (induction k arbitrary: i r)
  case 0
  then show ?case by auto
next
  case (Suc k)
  then have i: "i < 8" by simp
  note x = in_bram_index [OF Suc.prems(1) i]
  have k: "Suc i + k = 8" using Suc.prems(2) by simp
  show ?case
  proof (cases "bit sel i")
    case False
    from Suc.IH [OF Suc.prems(1) k] obtain r' where "write_loop r addr val sel (Suc i) k = Done r'"
      "rb_size r' = rb_size r \<and> length (rb_m r') = length (rb_m r)"
      and j: "\<forall>j < length (rb_m r). rb_m r' ! j =
        (if unat addr + Suc i \<le> j \<and> j < unat addr + 8 \<and> bit sel (j - unat addr)
         then ucast (drop_bit ((j - unat addr) * 8) val) else rb_m r ! j)" by blast
    moreover have "(unat addr + i \<le> j \<and> j < unat addr + 8 \<and> bit sel (j - unat addr)) =
        (unat addr + Suc i \<le> j \<and> j < unat addr + 8 \<and> bit sel (j - unat addr))" for j
      using False by (cases "j = unat addr + i") auto
    ultimately show ?thesis using False i by (simp add: sel_bit Let_def)
  next
    case True
    let ?r = "r\<lparr>rb_m := (rb_m r)[unat addr + i := ucast (drop_bit (i * 8) val)]\<rparr>"
    have "in_bram ?r addr" using Suc.prems(1) by (simp add: in_bram_def)
    from Suc.IH [OF this k] obtain r' where w: "write_loop ?r addr val sel (Suc i) k = Done r'"
      and s: "rb_size r' = rb_size r" "length (rb_m r') = length (rb_m r)"
      and j: "\<forall>j < length (rb_m r). rb_m r' ! j =
        (if unat addr + Suc i \<le> j \<and> j < unat addr + 8 \<and> bit sel (j - unat addr)
         then ucast (drop_bit ((j - unat addr) * 8) val) else rb_m ?r ! j)" by auto
    have "rb_m r' ! j = (if unat addr + i \<le> j \<and> j < unat addr + 8 \<and> bit sel (j - unat addr)
         then ucast (drop_bit ((j - unat addr) * 8) val) else rb_m r ! j)" if "j < length (rb_m r)" for j
      using j that True i by (cases "j = unat addr + i") (auto simp: nth_list_update)
    with w s x True i show ?thesis by (simp add: sel_bit Let_def ucast_mask_byte)
  qed
qed


lemma region_of_ok: "0 \<le> identifier \<Longrightarrow> nat identifier < length st \<Longrightarrow> length st \<le> MAX_REGIONS \<Longrightarrow>
   region_of st identifier = Done (st ! nat identifier) \<and> unat (of_int identifier :: u64) = nat identifier"
proof -
  assume a: "0 \<le> identifier" "nat identifier < length st" "length st \<le> MAX_REGIONS"
  then have b: "nat identifier < 128" "length st \<le> 128" by (simp_all add: MAX_REGIONS_def)
  have e: "(of_int identifier :: u64) = of_nat (nat identifier)" using a(1) by simp
  have u: "unat (of_int identifier :: u64) = nat identifier"
    unfolding e using b(1) by (simp add: unat_of_nat take_bit_nat_eq_self)
  have "unat (of_nat (length st) :: u64) = length st"
    using b(2) by (simp add: unat_of_nat take_bit_nat_eq_self)
  with u a(2) show ?thesis by (simp add: region_of_def Let_def word_less_nat_alt)
qed

lemma behavioural_read_word:
  assumes "vhpi0 vh \<noteq> vhpi1 vh" and "region_of st identifier = Done r" and "in_bram r addr"
    and "length val_p = 64"
  shows "behavioural_read vh st val_p (slv_enc vh 64 addr) sel identifier =
    Done (slv_enc vh 64 (le_val (take 8 (drop (unat addr) (rb_m r)))))"
  using assms by (simp add: behavioural_read_def from_slv_ok to_slv_ok slv_val_enc read_loop_word)

section \<open>Properties\<close>

text \<open>C23: Reading back a written word: for an access inside an initialised region, a write succeeds,
  and a read at the same address then delivers the bytes of the written value that the byte
  enables select and the old bytes elsewhere; no byte outside the word changes.\<close>

theorem bram_read_after_write:
  assumes "vhpi0 vh \<noteq> vhpi1 vh" and "0 \<le> identifier" and "nat identifier < length st"
    and "length st \<le> MAX_REGIONS" and "in_bram (st ! nat identifier) addr" and "length val_p = 64"
  shows "\<exists>st'. behavioural_write vh st (slv_enc vh 64 val) (slv_enc vh 64 addr) sel identifier = Done st' \<and>
    behavioural_read vh st' val_p (slv_enc vh 64 addr) rsel identifier =
      Done (slv_enc vh 64 (le_val (merge_bytes sel val (take 8 (drop (unat addr) (rb_m (st ! nat identifier))))))) \<and>
    (\<forall>j. j < unat addr \<or> unat addr + 8 \<le> j \<longrightarrow> j < length (rb_m (st ! nat identifier)) \<longrightarrow>
       rb_m (st' ! nat identifier) ! j = rb_m (st ! nat identifier) ! j)"
proof -
  let ?r = "st ! nat identifier"
  note reg = region_of_ok [OF assms(2-4)]
  obtain r' where w: "write_loop ?r addr val sel 0 8 = Done r'" "rb_size r' = rb_size ?r"
    "length (rb_m r') = length (rb_m ?r)"
    and j: "\<forall>j < length (rb_m ?r). rb_m r' ! j =
        (if unat addr + 0 \<le> j \<and> j < unat addr + 8 \<and> bit sel (j - unat addr)
         then ucast (drop_bit ((j - unat addr) * 8) val) else rb_m ?r ! j)"
    using write_loop_word [OF assms(5), of 0 8 val sel] by auto
  let ?st = "st[nat identifier := r']"
  have "behavioural_write vh st (slv_enc vh 64 val) (slv_enc vh 64 addr) sel identifier = Done ?st"
    using reg w(1) assms(1) by (simp add: behavioural_write_def from_slv_ok slv_val_enc)
  moreover have "region_of ?st identifier = Done r'"
    using region_of_ok [of "identifier" ?st] assms(2-4) by simp
  moreover have "take 8 (drop (unat addr) (rb_m r')) = merge_bytes sel val (take 8 (drop (unat addr) (rb_m ?r)))"
    using assms(5) w(3) j
    by (intro nth_equalityI) (auto simp: merge_bytes_def in_bram_def simp del: upt_rec_numeral)
  moreover have "in_bram r' addr" using assms(5) w by (simp add: in_bram_def)
  ultimately show ?thesis
    using behavioural_read_word [OF assms(1), of ?st "identifier" r' addr val_p rsel] assms(3,6) j
    by (intro exI [of _ ?st]) auto
qed

theorem bram_read_after_write_witness:
  "\<exists>st'. behavioural_write \<lparr>vhpi0 = 2, vhpi1 = 3\<rparr> [\<lparr>rb_filename = [], rb_size = 8, rb_m = [1, 2, 3, 4, 5, 6, 7, 8]\<rparr>]
      (slv_enc \<lparr>vhpi0 = 2, vhpi1 = 3\<rparr> 64 0xffff) (slv_enc \<lparr>vhpi0 = 2, vhpi1 = 3\<rparr> 64 0) 1 0 = Done st' \<and>
    behavioural_read \<lparr>vhpi0 = 2, vhpi1 = 3\<rparr> st' (replicate 64 0) (slv_enc \<lparr>vhpi0 = 2, vhpi1 = 3\<rparr> 64 0) 0 0 =
      Done (slv_enc \<lparr>vhpi0 = 2, vhpi1 = 3\<rparr> 64 0x08070605040302ff)"
proof -
  have m: "le_val (merge_bytes 1 0xffff [1, 2, 3, 4, 5, 6, 7, 8]) = 0x08070605040302ff"
    by (simp add: merge_bytes_def upt_conv_Cons)
  show ?thesis
    using bram_read_after_write [of "\<lparr>vhpi0 = 2, vhpi1 = 3\<rparr>" 0
        "[\<lparr>rb_filename = [], rb_size = 8, rb_m = [1, 2, 3, 4, 5, 6, 7, 8]\<rparr>]" 0 "replicate 64 0" "0xffff" 1 0] m
    by (auto simp: MAX_REGIONS_def in_bram_def simp del: replicate_numeral)
qed

text \<open>C34: The bounds checks are off by one: a word whose last byte is the first byte after the region
  passes the check, and when no more than the region is mapped the read faults instead of ending
  with the error status; so does a read at address 0 of the first region that was not initialised, whose size is 0.\<close>

theorem bram_read_past_end_faults:
  assumes "vhpi0 vh \<noteq> vhpi1 vh" and "region_of st identifier = Done r"
    and "length (rb_m r) = unat (rb_size r)" and "unat addr + 7 = unat (rb_size r) \<or> r = null_region \<and> addr = 0"
  shows "behavioural_read vh st val_p (slv_enc vh 64 addr) sel identifier = Fault"
  using assms(4)
proof
  assume e: "unat addr + 7 = unat (rb_size r)"
  have idx: "unat (addr + of_nat i) = unat addr + i" if "i \<le> 7" for i
  proof -
    have "unat addr + i < 18446744073709551616" using e that unat_lt_64(1) [of "rb_size r"] by linarith
    then show ?thesis by (intro unat_add_of_nat) simp
  qed
  have "read_loop r addr i (Suc k) val = Fault" if "i + k = 7" for i k val
    using that
  proof (induction k arbitrary: i val)
    case 0
    then show ?case using e assms(3) idx [of i] by (simp add: Let_def word_less_nat_alt)
  next
    case (Suc k)
    then have "unat (addr + of_nat i) < unat (rb_size r)" using idx [of i] e by simp
    then show ?case using Suc.IH [of "Suc i"] Suc.prems assms(3)
      by (subst read_loop.simps) (simp add: Let_def word_less_nat_alt)
  qed
  from this [of 0 7] have "read_loop r addr 0 8 0 = Fault" by (simp add: numeral_eq_Suc)
  with assms(1,2) show ?thesis by (simp add: behavioural_read_def from_slv_ok slv_val_enc)
next
  assume "r = null_region \<and> addr = 0"
  then have "read_loop r addr 0 8 0 = Fault" by (simp add: null_region_def numeral_eq_Suc)
  with assms(1,2) show ?thesis by (simp add: behavioural_read_def from_slv_ok slv_val_enc)
qed

theorem bram_read_past_end_faults_witness:
  "behavioural_read \<lparr>vhpi0 = 2, vhpi1 = 3\<rparr> [\<lparr>rb_filename = [], rb_size = 8, rb_m = replicate 8 0\<rparr>]
     (replicate 64 0) (slv_enc \<lparr>vhpi0 = 2, vhpi1 = 3\<rparr> 64 1) 255 0 = Fault"
  using bram_read_past_end_faults [of "\<lparr>vhpi0 = 2, vhpi1 = 3\<rparr>"
      "[\<lparr>rb_filename = [], rb_size = 8, rb_m = replicate 8 0\<rparr>]" 0
      "\<lparr>rb_filename = [], rb_size = 8, rb_m = replicate 8 0\<rparr>" 1 "replicate 64 0" 255]
  by (simp add: region_of_def del: replicate_numeral)
end
