(* ===== verification/Terminal.thy ===== *)
theory Terminal
  imports Prelude
begin

text \<open>
  The terminal of a simulator.  Both simulators switch it to raw mode at their first access, with the same code in
  \<open>sim_console_c.c\<close> and in \<open>uart-verilator.c\<close>, and restore it with a handler that they register for the exit of the process.  The record
  \<open>tty\<close> holds the settings of the terminal, the static variables of that code, and how often the handler is registered.

  The locale \<open>tty_user\<close> is what a simulator does to its terminal; it gives that a process which exits leaves the terminal as it found it.
\<close>

section \<open>Settings\<close>

record termios =
  c_iflag :: u32
  c_oflag :: u32
  c_cflag :: u32
  c_lflag :: u32
  c_vmin :: byte
  c_vtime :: byte

text \<open>The flags of Linux that \<open>cfmakeraw\<close> changes: \<open>IGNBRK\<close>, \<open>BRKINT\<close>, \<open>PARMRK\<close>, \<open>ISTRIP\<close>, \<open>INLCR\<close>, \<open>IGNCR\<close>, \<open>ICRNL\<close> and \<open>IXON\<close> of the
  input, \<open>OPOST\<close> of the output, \<open>ISIG\<close>, \<open>ICANON\<close>, \<open>ECHO\<close>, \<open>ECHONL\<close> and \<open>IEXTEN\<close> of the local modes, and characters of eight bits
  without parity.\<close>

definition ISIG :: u32 where "ISIG = 0x1"
definition ICANON :: u32 where "ICANON = 0x2"
definition ECHO :: u32 where "ECHO = 0x8"

definition cfmakeraw :: "termios \<Rightarrow> termios" where
  "cfmakeraw t = t\<lparr>c_iflag := c_iflag t AND NOT 0x5eb, c_oflag := c_oflag t AND NOT 0x1, c_lflag := c_lflag t AND NOT 0x804b,
     c_cflag := (c_cflag t AND NOT 0x130) OR 0x30, c_vmin := 1, c_vtime := 0\<rparr>"

section \<open>Raw mode\<close>

record tty =
  tty_now :: termios
  oldt :: termios
  tty_initialized :: bool
  tty_atexit :: nat

definition disable_raw_mode :: "tty \<Rightarrow> tty" where
  "disable_raw_mode t = t\<lparr>tty_now := oldt t\<rparr>"

definition enable_raw_mode :: "tty \<Rightarrow> tty" where
  "enable_raw_mode t =
     (if \<not> tty_initialized t
      then let old = tty_now t; newt = cfmakeraw old; newt' = newt\<lparr>c_lflag := c_lflag newt OR ISIG\<rparr>
           in t\<lparr>oldt := old, tty_now := newt', tty_initialized := True, tty_atexit := Suc (tty_atexit t)\<rparr>
      else t)"

text \<open>A process that calls \<open>exit\<close> or returns from \<open>main\<close> runs the handlers.  One that a signal ends does not: this is how the interrupt
  character ends a simulator, and also a crash.\<close>

datatype ending = By_Exit | By_Signal

definition process_end :: "ending \<Rightarrow> tty \<Rightarrow> tty" where
  "process_end how t = (case how of By_Exit \<Rightarrow> (disable_raw_mode ^^ tty_atexit t) t | By_Signal \<Rightarrow> t)"

text \<open>The terminal of a process that was started with the settings \<open>mode\<close>.\<close>

definition raw_of :: "termios \<Rightarrow> termios" where
  "raw_of mode = (cfmakeraw mode)\<lparr>c_lflag := c_lflag (cfmakeraw mode) OR ISIG\<rparr>"

definition tty_start :: "termios \<Rightarrow> tty \<Rightarrow> bool" where
  "tty_start mode t \<longleftrightarrow> \<not> tty_initialized t \<and> tty_atexit t = 0 \<and> tty_now t = mode"

definition tty_inv :: "termios \<Rightarrow> tty \<Rightarrow> bool" where
  "tty_inv mode t \<longleftrightarrow> tty_start mode t \<or> (tty_initialized t \<and> tty_atexit t = 1 \<and> tty_now t = raw_of mode \<and> oldt t = mode)"

lemma enable_inv: "tty_inv mode t \<Longrightarrow> tty_inv mode (enable_raw_mode t) \<and> tty_now (enable_raw_mode t) = raw_of mode"
  by (auto simp: tty_inv_def tty_start_def enable_raw_mode_def raw_of_def Let_def)

lemma enable_twice: "enable_raw_mode (enable_raw_mode t) = enable_raw_mode t"
  by (simp add: enable_raw_mode_def Let_def)

lemma exit_restores: "tty_inv mode t \<Longrightarrow> tty_now (process_end By_Exit t) = mode"
  by (auto simp: tty_inv_def tty_start_def process_end_def disable_raw_mode_def)

text \<open>In raw mode there is no echo and no line editing, but the interrupt character still raises a signal.\<close>

lemma raw_flags:
  "c_lflag (raw_of mode) AND ECHO = 0" "c_lflag (raw_of mode) AND ICANON = 0" "c_lflag (raw_of mode) AND ISIG = ISIG"
proof -
  have "c_lflag (raw_of mode) = (c_lflag mode AND NOT 0x804b) OR 1" by (simp add: raw_of_def cfmakeraw_def ISIG_def)
  then show "c_lflag (raw_of mode) AND ECHO = 0" "c_lflag (raw_of mode) AND ICANON = 0" "c_lflag (raw_of mode) AND ISIG = ISIG"
    by (simp_all add: bit.conj_disj_distrib2 and.assoc ECHO_def ICANON_def ISIG_def)
qed

section \<open>What a simulator does to its terminal\<close>

locale tty_user =
  fixes act :: "'a \<Rightarrow> 's \<Rightarrow> 's"
    and tty_of :: "'s \<Rightarrow> tty"
  assumes act_tty: "tty_of (act a s) = tty_of s \<or> tty_of (act a s) = enable_raw_mode (tty_of s)"
begin

lemma acts_inv: "tty_inv mode (tty_of s) \<Longrightarrow> tty_inv mode (tty_of (fold act as s))"
proof (induction as arbitrary: s)
  case (Cons a as)
  have "tty_inv mode (tty_of (act a s))" using act_tty [of a s] enable_inv [OF Cons.prems] Cons.prems by auto
  then show ?case by (simp add: Cons.IH)
qed simp

lemma acts_restore: "tty_start mode (tty_of s) \<Longrightarrow> tty_now (process_end By_Exit (tty_of (fold act as s))) = mode"
  by (rule exit_restores, rule acts_inv) (simp add: tty_inv_def)

end

end
