(* ===== verification/Sim_Console.thy ===== *)
theory Sim_Console
  imports Vhpi Terminal
begin

text \<open>
  The console of the simulator (\<open>sim_console_c.c\<close>): characters between the host's terminal and
  64-bit logic vectors.  The state is the terminal and what \<open>sim_console_write\<close> wrote to it; the results of \<open>read\<close> (the byte, when
  exactly one was read) and of \<open>poll\<close> (its result and whether input is flagged) are arguments.  The host is little-endian.
\<close>

record term_state =
  ts_tty :: tty
  ts_out :: "byte list"

definition raw_mode :: "term_state \<Rightarrow> term_state" where
  "raw_mode s = s\<lparr>ts_tty := enable_raw_mode (ts_tty s)\<rparr>"

definition sim_console_read :: "vhpi_codes \<Rightarrow> byte option \<Rightarrow> byte list \<Rightarrow> term_state \<Rightarrow> byte list outcome \<times> term_state" where
  "sim_console_read vh inp rt s =
     (let s' = raw_mode s
      in (case inp of None \<Rightarrow> Exit 1 | Some c \<Rightarrow> to_std_logic_vector vh (ucast c) rt 64, s'))"

definition sim_console_poll :: "vhpi_codes \<Rightarrow> int \<Rightarrow> bool \<Rightarrow> byte list \<Rightarrow> term_state \<Rightarrow> byte list outcome \<times> term_state" where
  "sim_console_poll vh ret pollin rt s =
     (let s' = raw_mode s; val = (if ret = 1 then (if pollin then 1 else 0) else 0)
      in (to_std_logic_vector vh val rt 64, s'))"

definition sim_console_write :: "vhpi_codes \<Rightarrow> byte list \<Rightarrow> term_state \<Rightarrow> unit outcome \<times> term_state" where
  "sim_console_write vh rs s =
     (case from_std_logic_vector vh rs 64 of
        Done v \<Rightarrow> (Done (), s\<lparr>ts_out := ts_out s @ [ucast v]\<rparr>)
      | Exit n \<Rightarrow> (Exit n, s)
      | Fault \<Rightarrow> (Fault, s))"

text \<open>A character that is read and written back is echoed.\<close>

lemma sim_console_echo:
  assumes "vhpi0 vh \<noteq> vhpi1 vh" and "length rt = 64"
  shows "\<exists>v. sim_console_read vh (Some c) rt s = (Done v, raw_mode s) \<and>
    sim_console_write vh v (raw_mode s) = (Done (), (raw_mode s)\<lparr>ts_out := ts_out s @ [c]\<rparr>)"
proof -
  have "(ucast (ucast c :: u64) :: byte) = c" by (rule bit_word_eqI) (simp add: bit_simps)
  with assms show ?thesis
    by (auto simp: sim_console_read_def sim_console_write_def raw_mode_def to_slv_ok from_slv_ok slv_val_enc)
qed

section \<open>Sessions\<close>

text \<open>The calls of the simulator, each with its vector and with what the host answers.\<close>

datatype console_call = Con_Read "byte option" "byte list" | Con_Poll int bool "byte list" | Con_Write "byte list"

fun console_act :: "vhpi_codes \<Rightarrow> console_call \<Rightarrow> term_state \<Rightarrow> unit outcome \<times> term_state" where
  "console_act vh (Con_Read inp rt) s = (case sim_console_read vh inp rt s of (r, s') \<Rightarrow> (obind r (\<lambda>_. Done ()), s'))"
| "console_act vh (Con_Poll ret pollin rt) s = (case sim_console_poll vh ret pollin rt s of (r, s') \<Rightarrow> (obind r (\<lambda>_. Done ()), s'))"
| "console_act vh (Con_Write rs) s = sim_console_write vh rs s"

fun console_session :: "vhpi_codes \<Rightarrow> console_call list \<Rightarrow> term_state \<Rightarrow> unit outcome \<times> term_state" where
  "console_session vh [] s = (Done (), s)"
| "console_session vh (c # cs) s =
     (case console_act vh c s of
        (Done _, s') \<Rightarrow> console_session vh cs s'
      | (Exit n, s') \<Rightarrow> (Exit n, s')
      | (Fault, s') \<Rightarrow> (Fault, s'))"

fun reads_terminal :: "console_call \<Rightarrow> bool" where
  "reads_terminal (Con_Read inp rt) = True"
| "reads_terminal (Con_Poll ret pollin rt) = True"
| "reads_terminal (Con_Write rs) = False"

lemma console_act_tty:
  "ts_tty (snd (console_act vh c s)) = (if reads_terminal c then enable_raw_mode (ts_tty s) else ts_tty s)"
  by (cases c) (auto simp: sim_console_read_def sim_console_poll_def sim_console_write_def raw_mode_def Let_def split: outcome.split)

interpretation console_tty: tty_user "\<lambda>c s. snd (console_act vh c s)" ts_tty for vh
  by unfold_locales (simp add: console_act_tty)

text \<open>A session does the calls up to the first one that ends the process.\<close>

lemma session_calls: "\<exists>k. snd (console_session vh cs s) = fold (\<lambda>c s. snd (console_act vh c s)) (take k cs) s"
proof (induction cs arbitrary: s)
  case (Cons c cs)
  obtain r s' where r: "console_act vh c s = (r, s')" by fastforce
  obtain k where k: "snd (console_session vh cs s') = fold (\<lambda>c s. snd (console_act vh c s)) (take k cs) s'" using Cons by blast
  show ?case
  proof (cases r)
    case (Done x)
    then show ?thesis using r k by (intro exI [of _ "Suc k"]) simp
  next
    case (Exit n)
    then show ?thesis using r by (intro exI [of _ 1]) simp
  next
    case Fault
    then show ?thesis using r by (intro exI [of _ 1]) simp
  qed
qed simp

lemma session_raw:
  "fst (console_session vh cs s) = Done () \<Longrightarrow> tty_inv mode (ts_tty s) \<Longrightarrow> tty_now (ts_tty s) = raw_of mode \<or> list_ex reads_terminal cs \<Longrightarrow>
   tty_now (ts_tty (snd (console_session vh cs s))) = raw_of mode"
proof (induction cs arbitrary: s)
  case (Cons c cs)
  obtain r s' where r: "console_act vh c s = (r, s')" by fastforce
  then have d: "r = Done ()" using Cons.prems(1) by (cases r) auto
  have t: "ts_tty s' = (if reads_terminal c then enable_raw_mode (ts_tty s) else ts_tty s)" using console_act_tty [of vh c s] r by simp
  have "tty_inv mode (ts_tty s')" using t enable_inv [OF Cons.prems(2)] Cons.prems(2) by simp
  moreover have "tty_now (ts_tty s') = raw_of mode \<or> list_ex reads_terminal cs"
    using t enable_inv [OF Cons.prems(2)] Cons.prems(3) by auto
  ultimately show ?case using Cons.IH [of s'] Cons.prems(1) r d by simp
qed simp

section \<open>Property\<close>

text \<open>C31: A simulation that exits leaves the terminal as it found it: whatever calls of the console it makes, and also when a failing \<open>read\<close>
  ends it early, the settings after the exit are those of the start.  From the first access on the terminal is in raw mode with
  the interrupt character enabled, so that the simulation can be interrupted; it then ends by the signal, no handler runs, and the terminal stays in raw
  mode.\<close>

theorem console_session_restores_terminal:
  assumes "tty_start mode (ts_tty s)"
  shows "(fst (console_session vh cs s) \<noteq> Fault \<longrightarrow> tty_now (process_end By_Exit (ts_tty (snd (console_session vh cs s)))) = mode) \<and>
    (fst (console_session vh cs s) = Done () \<and> list_ex reads_terminal cs \<longrightarrow>
      c_lflag (tty_now (ts_tty (snd (console_session vh cs s)))) AND ISIG = ISIG \<and>
      tty_now (process_end By_Signal (ts_tty (snd (console_session vh cs s)))) = raw_of mode)"
proof -
  obtain k where "snd (console_session vh cs s) = fold (\<lambda>c s. snd (console_act vh c s)) (take k cs) s" using session_calls by blast
  then show ?thesis
    using console_tty.acts_restore [OF assms] session_raw [of vh cs s mode] assms raw_flags(3) [of mode] by (auto simp: tty_inv_def process_end_def)
qed

text \<open>The settings of a shell, a poll, and a read that fails.\<close>

definition shell_mode :: termios where
  "shell_mode = \<lparr>c_iflag = 0x500, c_oflag = 5, c_cflag = 0xbf, c_lflag = 0x8a3b, c_vmin = 1, c_vtime = 0\<rparr>"

definition shell_state :: term_state where
  "shell_state = \<lparr>ts_tty = \<lparr>tty_now = shell_mode, oldt = cfmakeraw shell_mode, tty_initialized = False, tty_atexit = 0\<rparr>, ts_out = []\<rparr>"

theorem console_session_restores_terminal_witness:
  "\<exists>s. console_session \<lparr>vhpi0 = 2, vhpi1 = 3\<rparr> [Con_Poll 1 True (replicate 64 2), Con_Read None []] shell_state = (Exit 1, s) \<and>
     c_lflag (tty_now (ts_tty s)) = 0xa31 \<and> tty_now (process_end By_Exit (ts_tty s)) = shell_mode"
proof -
  let ?vh = "\<lparr>vhpi0 = 2, vhpi1 = 3\<rparr>" and ?cs = "[Con_Poll 1 True (replicate 64 2), Con_Read None []]"
  have run: "console_session ?vh ?cs shell_state = (Exit 1, raw_mode (raw_mode shell_state))"
    by (simp add: sim_console_poll_def sim_console_read_def to_slv_ok Let_def del: replicate_numeral)
  have "tty_start shell_mode (ts_tty shell_state)" by (simp add: tty_start_def shell_state_def)
  from console_session_restores_terminal [OF this, of ?vh ?cs] run show ?thesis
    by (simp del: replicate_numeral)
      (simp add: raw_mode_def enable_raw_mode_def shell_state_def shell_mode_def cfmakeraw_def ISIG_def Let_def)
qed

end
