(* ===== verification/Sim_Jtag.thy ===== *)
theory Sim_Jtag
  imports Vhpi
begin

text \<open>
  The debug socket of the simulator (\<open>sim_jtag_socket_c.c\<close>): packets from a TCP connection become
  the bits of the simulated JTAG port, and the bits of the port become packets.

  A packet is a byte with the number of bits and the bits, least significant first in each byte.
  The results of the system calls are the record \<open>jtag_os\<close>; the two static file descriptors are
  the record \<open>jtag_sock\<close>.
\<close>

definition MAX_PACKET :: nat where "MAX_PACKET = 32"

record jtag_sock =
  js_fd :: int
  js_cfd :: int

record jtag_os =
  jo_socket :: int
  jo_bind :: int
  jo_listen :: int
  jo_accept :: int
  jo_poll :: int
  jo_read :: "byte list option"

definition open_socket :: "jtag_os \<Rightarrow> jtag_sock \<Rightarrow> jtag_sock" where
  "open_socket os st =
     (if js_fd st \<ge> 0 \<or> js_fd st < - 1 then st
      else if jo_socket os < 0 \<or> jo_bind os < 0 \<or> jo_listen os < 0 then st\<lparr>js_fd := - 2\<rparr>
      else st\<lparr>js_fd := jo_socket os\<rparr>)"

definition check_connection :: "jtag_os \<Rightarrow> jtag_sock \<Rightarrow> jtag_sock" where
  "check_connection os st = st\<lparr>js_cfd := jo_accept os\<rparr>"

section \<open>Receiving\<close>

text \<open>The loop over the bits; \<open>k\<close> iterations are left.\<close>

fun msg_bits_loop :: "vhpi_codes \<Rightarrow> byte list \<Rightarrow> byte list \<Rightarrow> nat \<Rightarrow> nat \<Rightarrow> byte list outcome" where
  "msg_bits_loop vh dat out_msg i 0 = Done out_msg"
| "msg_bits_loop vh dat out_msg i (Suc k) =
     (if i div 8 + 1 < length dat \<and> i < length out_msg
      then msg_bits_loop vh dat
             (out_msg[i := (if dat ! (i div 8 + 1) AND push_bit (i mod 8) 1 \<noteq> 0 then vhpi1 vh else vhpi0 vh)])
             (i + 1) k
      else Fault)"

text \<open>What is done with a packet of \<open>rc\<close> bytes: the number of bits and the message.\<close>

definition decode_packet :: "vhpi_codes \<Rightarrow> byte list \<Rightarrow> byte list \<Rightarrow> (nat \<times> byte list) outcome" where
  "decode_packet vh dat out_msg =
     (let size0 = unat (hd dat); rc = length dat
      in if size0 = 255 then Done (255, out_msg)
         else let sz = (if (rc - 1) * 8 < size0 then (rc - 1) * 8 else size0)
              in obind (msg_bits_loop vh dat out_msg 0 sz) (\<lambda>out. Done (sz, out)))"

definition sim_jtag_read_msg ::
  "vhpi_codes \<Rightarrow> jtag_os \<Rightarrow> jtag_sock \<Rightarrow> byte list \<Rightarrow> byte list \<Rightarrow> (jtag_sock \<times> byte list \<times> byte list) outcome" where
  "sim_jtag_read_msg vh os st out_msg out_size =
     (let finish = (\<lambda>st sz out. obind (to_std_logic_vector vh (of_nat sz) out_size 8) (\<lambda>o_sz. Done (st, out, o_sz)));
          st1 = (if js_fd st = - 1 then open_socket os st else st)
      in if js_fd st1 < 0 then finish st1 0 out_msg
         else let st2 = (if js_cfd st1 < 0 then check_connection os st1 else st1)
              in if js_cfd st2 < 0 then finish st2 0 out_msg
                 else if jo_poll os \<le> 0 then finish st2 0 out_msg
                 else (case jo_read os of
                         None \<Rightarrow> finish (st2\<lparr>js_cfd := - 1\<rparr>) 0 out_msg
                       | Some [] \<Rightarrow> finish (st2\<lparr>js_cfd := - 1\<rparr>) 0 out_msg
                       | Some dat \<Rightarrow> obind (decode_packet vh dat out_msg) (\<lambda>(sz, out). finish st2 sz out)))"

section \<open>Sending\<close>

fun pack_loop :: "vhpi_codes \<Rightarrow> byte list \<Rightarrow> byte list \<Rightarrow> nat \<Rightarrow> nat \<Rightarrow> byte list outcome" where
  "pack_loop vh in_msg dat i 0 = Done dat"
| "pack_loop vh in_msg dat i (Suc k) =
     (if i div 8 + 1 < length dat \<and> i < length in_msg
      then pack_loop vh in_msg
             (dat[i div 8 + 1 := (if in_msg ! i = vhpi1 vh then dat ! (i div 8 + 1) OR push_bit (i mod 8) 1
                                  else dat ! (i div 8 + 1) AND NOT (push_bit (i mod 8) 1))])
             (i + 1) k
      else Fault)"

text \<open>The bytes passed to \<open>write\<close>; \<open>dat0\<close> is the uninitialised local array.\<close>

definition sim_jtag_write_msg :: "vhpi_codes \<Rightarrow> byte list \<Rightarrow> byte list \<Rightarrow> byte list \<Rightarrow> byte list outcome" where
  "sim_jtag_write_msg vh dat0 in_msg in_size =
     obind (from_std_logic_vector vh in_size 8) (\<lambda>v.
     let sz = unat (ucast v :: byte)
     in obind (pack_loop vh in_msg (dat0[0 := of_nat sz]) 0 sz) (\<lambda>dat.
        Done (take ((sz + 7) div 8) dat)))"

section \<open>The loops\<close>

text \<open>Bit \<open>q\<close> of a byte sequence, least significant bit first.\<close>

definition nth_bit :: "byte list \<Rightarrow> nat \<Rightarrow> bool" where
  "nth_bit bs q = bit (bs ! (q div 8)) (q mod 8)"

lemma and_bit_byte: "b AND 2 ^ n = 0 \<longleftrightarrow> \<not> bit b n" for b :: byte
  by (rule and_exp_eq_0_iff_not_bit)

lemma msg_bits_loop_bits:
  "i + k \<le> 8 * (length dat - 1) \<Longrightarrow> i + k \<le> length out_msg \<Longrightarrow>
   msg_bits_loop vh dat out_msg i k =
     Done (take i out_msg @ map (\<lambda>q. if nth_bit (tl dat) q then vhpi1 vh else vhpi0 vh) [i..<i + k] @ drop (i + k) out_msg)"
proof (induction k arbitrary: i out_msg)
  case 0
  then show ?case by simp
next
  case (Suc k)
  let ?v = "if nth_bit (tl dat) i then vhpi1 vh else vhpi0 vh"
  have i: "i div 8 + 1 < length dat" "i < length out_msg" using Suc.prems by auto
  then have nth: "dat ! (i div 8 + 1) = tl dat ! (i div 8)" by (cases dat) auto
  have "msg_bits_loop vh dat out_msg i (Suc k) = msg_bits_loop vh dat (out_msg[i := ?v]) (i + 1) k"
    using i nth by (simp add: nth_bit_def and_bit_byte)
  also have "\<dots> = Done (take (i + 1) (out_msg[i := ?v]) @
      map (\<lambda>q. if nth_bit (tl dat) q then vhpi1 vh else vhpi0 vh) [i + 1..<i + 1 + k] @ drop (i + 1 + k) (out_msg[i := ?v]))"
    using Suc.prems by (intro Suc.IH) auto
  also have "take (i + 1) (out_msg[i := ?v]) = take i out_msg @ [?v]"
    using i(2) by (simp add: take_Suc_conv_app_nth)
  also have "(take i out_msg @ [?v]) @ map (\<lambda>q. if nth_bit (tl dat) q then vhpi1 vh else vhpi0 vh) [i + 1..<i + 1 + k] @
      drop (i + 1 + k) (out_msg[i := ?v]) =
    take i out_msg @ map (\<lambda>q. if nth_bit (tl dat) q then vhpi1 vh else vhpi0 vh) [i..<i + Suc k] @ drop (i + Suc k) out_msg"
    by (simp add: upt_conv_Cons [of i "Suc (i + k)"] del: upt_Suc)
  finally show ?case .
qed

lemma pack_loop_bits:
  "i + k \<le> 8 * (length dat - 1) \<Longrightarrow> i + k \<le> length in_msg \<Longrightarrow> dat \<noteq> [] \<Longrightarrow>
   \<exists>d. pack_loop vh in_msg dat i k = Done d \<and> length d = length dat \<and> hd d = hd dat \<and>
     (\<forall>q < 8 * (length dat - 1). nth_bit (tl d) q \<longleftrightarrow>
        (if i \<le> q \<and> q < i + k then in_msg ! q = vhpi1 vh else nth_bit (tl dat) q))"
proof (induction k arbitrary: i dat)
  case 0
  then show ?case by simp
next
  case (Suc k)
  let ?j = "Suc (i div 8)" and ?b = "in_msg ! i = vhpi1 vh"
  define x where "x = (if ?b then dat ! ?j OR push_bit (i mod 8) 1 else dat ! ?j AND NOT (push_bit (i mod 8) 1))"
  have i: "?j < length dat" "i < length in_msg" using Suc.prems by auto
  have nth: "dat ! ?j = tl dat ! (i div 8)" using i by (cases dat) auto
  have tl: "tl (dat[?j := x]) = (tl dat)[i div 8 := x]" "hd (dat[?j := x]) = hd dat"
    using Suc.prems(3) by (cases dat; simp)+
  have bits: "nth_bit ((tl dat)[i div 8 := x]) q \<longleftrightarrow> (if q = i then ?b else nth_bit (tl dat) q)"
    if "q < 8 * (length dat - 1)" for q
  proof (cases "q div 8 = i div 8")
    case True
    then have "q = i \<longleftrightarrow> q mod 8 = i mod 8" by (metis div_mod_decomp)
    with True that i nth show ?thesis by (auto simp: nth_bit_def bit_simps x_def)
  next
    case False
    then show ?thesis by (auto simp: nth_bit_def)
  qed
  have "\<exists>d. pack_loop vh in_msg (dat[?j := x]) (i + 1) k = Done d \<and> length d = length (dat[?j := x]) \<and>
      hd d = hd (dat[?j := x]) \<and>
      (\<forall>q < 8 * (length (dat[?j := x]) - 1). nth_bit (tl d) q \<longleftrightarrow>
        (if i + 1 \<le> q \<and> q < i + 1 + k then in_msg ! q = vhpi1 vh else nth_bit (tl (dat[?j := x])) q))"
    using Suc.prems by (intro Suc.IH) auto
  then obtain d where d: "pack_loop vh in_msg (dat[?j := x]) (i + 1) k = Done d" "length d = length dat" "hd d = hd dat"
    and q: "\<forall>q < 8 * (length dat - 1). nth_bit (tl d) q \<longleftrightarrow>
        (if i + 1 \<le> q \<and> q < i + 1 + k then in_msg ! q = vhpi1 vh else nth_bit ((tl dat)[i div 8 := x]) q)"
    unfolding tl length_list_update by blast
  have "pack_loop vh in_msg dat i (Suc k) = Done d" using i d(1) by (cases ?b) (simp_all add: x_def)
  moreover have "nth_bit (tl d) q \<longleftrightarrow> (if i \<le> q \<and> q < i + Suc k then in_msg ! q = vhpi1 vh else nth_bit (tl dat) q)"
    if "q < 8 * (length dat - 1)" for q
    using q bits that by (cases "q = i") auto
  ultimately show ?case using d by blast
qed


lemma decode_packet_bits:
  assumes "dat = of_nat n # bs" and "n < 255" and "n \<le> 8 * length bs" and "n \<le> length out_msg"
  shows "decode_packet vh dat out_msg =
    Done (n, map (\<lambda>q. if nth_bit bs q then vhpi1 vh else vhpi0 vh) [0..<n] @ drop n out_msg)"
proof -
  have "unat (of_nat n :: byte) = n" using assms(2) by (simp add: unat_of_nat take_bit_nat_eq_self)
  with assms show ?thesis
    by (simp add: decode_packet_def Let_def msg_bits_loop_bits)
qed

lemma sim_jtag_read_msg_connected:
  assumes "js_fd st \<ge> 0" and "js_cfd st \<ge> 0" and "jo_poll os > 0" and "jo_read os = Some dat" and "dat \<noteq> []"
    and "decode_packet vh dat out_msg = Done (n, out)" and "length out_size = 8"
  shows "sim_jtag_read_msg vh os st out_msg out_size = Done (st, out, slv_enc vh 8 (of_nat n))"
  using assms by (cases dat) (simp_all add: sim_jtag_read_msg_def Let_def to_slv_ok)

lemma from_slv_byte:
  "vhpi0 vh \<noteq> vhpi1 vh \<Longrightarrow> n < 256 \<Longrightarrow> from_std_logic_vector vh (slv_enc vh 8 (of_nat n)) 8 = Done (of_nat n)"
proof -
  assume a: "vhpi0 vh \<noteq> vhpi1 vh" "n < 256"
  have "take_bit 8 (of_nat n :: u64) = of_nat (take_bit 8 n)" by (simp add: take_bit_of_nat)
  then have "take_bit 8 (of_nat n :: u64) = of_nat n" using a(2) by (simp add: take_bit_nat_eq_self)
  then show ?thesis using a(1) by (simp add: from_slv_ok slv_val_enc)
qed

text \<open>What is sent for a message of \<open>n\<close> bits: the length byte and the first bytes, one too few.\<close>

lemma sim_jtag_write_msg_bits:
  assumes "vhpi0 vh \<noteq> vhpi1 vh" and "length dat0 = MAX_PACKET" and "0 < n" and "n \<le> 248" and "n \<le> length in_msg"
  shows "\<exists>d. sim_jtag_write_msg vh dat0 in_msg (slv_enc vh 8 (of_nat n)) = Done (of_nat n # take ((n - 1) div 8) d) \<and>
    length d = 31 \<and> (\<forall>q < n. nth_bit d q \<longleftrightarrow> in_msg ! q = vhpi1 vh)"
proof -
  have n: "unat (ucast (of_nat n :: u64) :: byte) = n"
    using assms(4) by (simp add: unsigned_ucast_eq unsigned_of_nat take_bit_nat_eq_self)
  have n': "(ucast (of_nat n :: u64) :: byte) = of_nat n"
    using arg_cong [OF n, of "of_nat :: nat \<Rightarrow> byte"] by simp
  let ?d0 = "dat0[0 := of_nat n]"
  have len: "length ?d0 = 32" "?d0 \<noteq> []" "hd ?d0 = of_nat n"
    using assms(2) by (cases dat0; simp add: MAX_PACKET_def)+
  have "0 + n \<le> 8 * (length ?d0 - 1)" "0 + n \<le> length in_msg" using assms(4,5) len by auto
  from pack_loop_bits [OF this len(2), of vh] obtain d where d: "pack_loop vh in_msg ?d0 0 n = Done d"
    "length d = 32" "hd d = of_nat n"
    and q: "\<forall>q < 8 * (length ?d0 - 1). nth_bit (tl d) q \<longleftrightarrow>
      (if 0 \<le> q \<and> q < 0 + n then in_msg ! q = vhpi1 vh else nth_bit (tl ?d0) q)"
    using len by auto
  have "(n + 7) div 8 = Suc ((n - 1) div 8)" using assms(3) by (simp add: div_if)
  moreover have "d = of_nat n # tl d" using d(2,3) by (cases d) auto
  ultimately have "take ((n + 7) div 8) d = of_nat n # take ((n - 1) div 8) (tl d)"
    by (metis take_Suc_Cons)
  then have "sim_jtag_write_msg vh dat0 in_msg (slv_enc vh 8 (of_nat n)) = Done (of_nat n # take ((n - 1) div 8) (tl d))"
    using from_slv_byte [OF assms(1), of n] assms(4) d(1) n n' by (simp add: sim_jtag_write_msg_def Let_def)
  moreover have "\<forall>q < n. nth_bit (tl d) q \<longleftrightarrow> in_msg ! q = vhpi1 vh" using q assms(4) len(1) by auto
  ultimately show ?thesis using d(2) by (intro exI [of _ "tl d"]) simp
qed

section \<open>Properties\<close>

text \<open>A packet that says its number of bits (fewer than 255) and holds them is decoded bit by bit:
  the message receives the logic value of each bit, least significant bit of each byte first, and
  the size port receives the number of bits; the rest of the message buffer is not touched.\<close>

theorem sim_jtag_read_msg_decodes:
  assumes "js_fd st \<ge> 0" and "js_cfd st \<ge> 0" and "jo_poll os > 0" and "jo_read os = Some (of_nat n # bs)"
    and "n < 255" and "n \<le> 8 * length bs" and "n \<le> length out_msg" and "length out_size = 8"
  shows "sim_jtag_read_msg vh os st out_msg out_size =
    Done (st, map (\<lambda>q. if bit (bs ! (q div 8)) (q mod 8) then vhpi1 vh else vhpi0 vh) [0..<n] @ drop n out_msg,
          slv_enc vh 8 (of_nat n))"
  using sim_jtag_read_msg_connected [OF assms(1-4) _ decode_packet_bits [OF refl assms(5-7)] assms(8)]
  by (simp add: nth_bit_def)

theorem sim_jtag_read_msg_decodes_witness:
  "sim_jtag_read_msg \<lparr>vhpi0 = 2, vhpi1 = 3\<rparr> \<lparr>jo_socket = 3, jo_bind = 0, jo_listen = 0, jo_accept = 4, jo_poll = 1,
     jo_read = Some [3, 5]\<rparr> \<lparr>js_fd = 3, js_cfd = 4\<rparr> [9, 9, 9, 9] (replicate 8 0) =
   Done (\<lparr>js_fd = 3, js_cfd = 4\<rparr>, [3, 2, 3, 9], slv_enc \<lparr>vhpi0 = 2, vhpi1 = 3\<rparr> 8 3)"
  using sim_jtag_read_msg_decodes [of "\<lparr>js_fd = 3, js_cfd = 4\<rparr>" "\<lparr>jo_socket = 3, jo_bind = 0, jo_listen = 0,
      jo_accept = 4, jo_poll = 1, jo_read = Some [3, 5]\<rparr>" 3 "[5]" "[9, 9, 9, 9]" "replicate 8 0" "\<lparr>vhpi0 = 2, vhpi1 = 3\<rparr>"]
  by (simp add: upt_conv_Cons bit_numeral_rec del: replicate_numeral)

text \<open>C35: A response is cut short: of a message of \<open>n\<close> bits (up to 248) only the length byte and
  \<open>(n - 1) div 8\<close> of the \<open>(n + 7) div 8\<close> bytes with bits are passed to the socket, so a receiver gets
  fewer bits than the length byte says.\<close>

theorem sim_jtag_write_msg_truncates:
  assumes "vhpi0 vh \<noteq> vhpi1 vh" and "length dat0 = MAX_PACKET" and "0 < n" and "n \<le> 248" and "n \<le> length in_msg"
  shows "\<exists>bs. sim_jtag_write_msg vh dat0 in_msg (slv_enc vh 8 (of_nat n)) = Done (of_nat n # bs) \<and>
    8 * length bs < n \<and> (\<forall>q < 8 * length bs. bit (bs ! (q div 8)) (q mod 8) \<longleftrightarrow> in_msg ! q = vhpi1 vh)"
proof -
  obtain d where d: "sim_jtag_write_msg vh dat0 in_msg (slv_enc vh 8 (of_nat n)) = Done (of_nat n # take ((n - 1) div 8) d)"
    "length d = 31" and q: "\<forall>q < n. nth_bit d q \<longleftrightarrow> in_msg ! q = vhpi1 vh"
    using sim_jtag_write_msg_bits [OF assms] by blast
  have l: "length (take ((n - 1) div 8) d) = (n - 1) div 8" using d(2) assms(4) by simp
  have "8 * ((n - 1) div 8) < n" using assms(3) by linarith
  moreover have "bit (take ((n - 1) div 8) d ! (q div 8)) (q mod 8) \<longleftrightarrow> in_msg ! q = vhpi1 vh"
    if "q < 8 * ((n - 1) div 8)" for q
  proof -
    have "q div 8 < (n - 1) div 8" and "q < n" using that assms(3) by linarith+
    then show ?thesis using q by (simp add: nth_bit_def)
  qed
  ultimately show ?thesis using d(1) l by (intro exI [of _ "take ((n - 1) div 8) d"]) simp
qed

theorem sim_jtag_write_msg_truncates_witness:
  "\<exists>bs. sim_jtag_write_msg \<lparr>vhpi0 = 2, vhpi1 = 3\<rparr> (replicate MAX_PACKET 0) (replicate 74 3)
     (slv_enc \<lparr>vhpi0 = 2, vhpi1 = 3\<rparr> 8 74) = Done (74 # bs) \<and> 8 * length bs < 74"
  using sim_jtag_write_msg_truncates [of "\<lparr>vhpi0 = 2, vhpi1 = 3\<rparr>" "replicate MAX_PACKET 0" 74 "replicate 74 3"]
  by (auto simp del: replicate_numeral)
end
