(* ===== verification/Dmi_Sim.thy ===== *)
theory Dmi_Sim
  imports Sim_Jtag
begin

text \<open>
  The simulation backend of the debug tool (\<open>scripts/mw_debug/mw_debug.c\<close>): packing bit fields
  into bytes, least significant bit first, and the exchange of one debug request over the socket.

  The connection is a function that takes the bytes written and gives the result of \<open>write\<close>, the
  result of \<open>read\<close> (\<open>None\<close> for an error, the empty list at the end of the connection) and the new
  state of the far side.
\<close>

section \<open>Bit fields\<close>

text \<open>The buffer, the position \<open>p\<close> of the current byte and the bit \<open>b\<close> in it; \<open>md\<close> and \<open>ms\<close> are the
  masks of the code; \<open>c\<close> bits are left.\<close>

fun add_bits_loop ::
  "byte list \<Rightarrow> nat \<Rightarrow> nat \<Rightarrow> u64 \<Rightarrow> byte \<Rightarrow> u64 \<Rightarrow> nat \<Rightarrow> (byte list \<times> nat \<times> nat) outcome" where
  "add_bits_loop buf p b d md ms 0 = Done (buf, p, b)"
| "add_bits_loop buf p b d md ms (Suc c) =
     (if d AND ms \<noteq> 0 \<and> length buf \<le> p then Fault
      else let buf' = (if d AND ms \<noteq> 0 then buf[p := buf ! p OR md] else buf)
           in if b = 7 then add_bits_loop buf' (p + 1) 0 d 1 (push_bit 1 ms) c
              else add_bits_loop buf' p (b + 1) d (push_bit 1 md) (push_bit 1 ms) c)"

definition add_bits :: "byte list \<Rightarrow> nat \<Rightarrow> nat \<Rightarrow> u64 \<Rightarrow> nat \<Rightarrow> (byte list \<times> nat \<times> nat) outcome" where
  "add_bits buf p b d c = add_bits_loop buf p b d (push_bit b 1) 1 c"

fun read_bits_loop ::
  "byte list \<Rightarrow> nat \<Rightarrow> nat \<Rightarrow> byte \<Rightarrow> u64 \<Rightarrow> u64 \<Rightarrow> nat \<Rightarrow> (u64 \<times> nat \<times> nat) outcome" where
  "read_bits_loop buf p b ms md d 0 = Done (d, p, b)"
| "read_bits_loop buf p b ms md d (Suc c) =
     (if length buf \<le> p then Fault
      else let d' = (if buf ! p AND ms \<noteq> 0 then d OR md else d)
           in if b = 7 then read_bits_loop buf (p + 1) 0 1 (push_bit 1 md) d' c
              else read_bits_loop buf p (b + 1) (push_bit 1 ms) (push_bit 1 md) d' c)"

definition read_bits :: "byte list \<Rightarrow> nat \<Rightarrow> nat \<Rightarrow> nat \<Rightarrow> (u64 \<times> nat \<times> nat) outcome" where
  "read_bits buf p b c = read_bits_loop buf p b (push_bit b 1) 1 0 c"

section \<open>One request\<close>

type_synonym 's link = "byte list \<Rightarrow> 's \<Rightarrow> int \<times> byte list option \<times> 's"

text \<open>The bytes of a request.\<close>

definition sim_request :: "byte \<Rightarrow> byte \<Rightarrow> u64 \<Rightarrow> (byte list \<times> nat) outcome" where
  "sim_request op addr d =
     obind (add_bits (replicate 16 0) 1 0 (ucast op) 2) (\<lambda>(b1, p1, i1).
     obind (add_bits b1 p1 i1 d 64) (\<lambda>(b2, p2, i2).
     obind (add_bits b2 p2 i2 (ucast addr) 8) (\<lambda>(b3, p3, i3).
     Done (b3[0 := 74], if i3 \<noteq> 0 then p3 + 1 else p3))))"

text \<open>What \<open>read\<close> leaves in the buffer: the bytes received over the old ones.\<close>

definition recv_into :: "byte list option \<Rightarrow> byte list \<Rightarrow> byte list" where
  "recv_into r buf = (case r of None \<Rightarrow> buf | Some bs \<Rightarrow> take 16 bs @ drop (length (take 16 bs)) buf)"

definition sim_command ::
  "'s link \<Rightarrow> byte \<Rightarrow> byte \<Rightarrow> u64 option \<Rightarrow> 's \<Rightarrow> (int \<times> u64 option \<times> 's) outcome" where
  "sim_command lnk op addr data s =
     (let d = (case data of None \<Rightarrow> 0 | Some v \<Rightarrow> v)
      in obind (sim_request op addr d) (\<lambda>(buf, len).
         let (w, r, s') = lnk (take len buf) s
         in if w < 0 then Done (- 1, data, s')
            else let buf' = recv_into r buf
                 in obind (read_bits buf' 1 0 2) (\<lambda>(rc, p, b).
                    (case data of
                       None \<Rightarrow> Done (uint rc, None, s')
                     | Some _ \<Rightarrow> obind (read_bits buf' p b 64) (\<lambda>(v, _, _). Done (uint rc, Some v, s'))))))"

section \<open>Bit fields as bit sequences\<close>

lemma nth_bit_upd:
  "p < length buf \<Longrightarrow> b < 8 \<Longrightarrow>
   nth_bit (buf[p := buf ! p OR push_bit b 1]) q \<longleftrightarrow> q = 8 * p + b \<or> nth_bit buf q"
proof (cases "q div 8 = p")
  case True
  assume "p < length buf" "b < 8"
  moreover have "q = 8 * p + b \<longleftrightarrow> q mod 8 = b" using True \<open>b < 8\<close> by presburger
  ultimately show ?thesis using True by (auto simp: nth_bit_def bit_simps)
next
  case False
  assume "b < 8"
  with False have "q \<noteq> 8 * p + b" by auto
  with False show ?thesis by (simp add: nth_bit_def)
qed

lemma add_bits_loop_bits:
  "b < 8 \<Longrightarrow> k + c \<le> 64 \<Longrightarrow> 8 * p + b + c \<le> 8 * length buf \<Longrightarrow>
   \<exists>buf'. add_bits_loop buf p b d (push_bit b 1) (push_bit k 1) c =
       Done (buf', (8 * p + b + c) div 8, (8 * p + b + c) mod 8) \<and> length buf' = length buf \<and>
     (\<forall>q. nth_bit buf' q \<longleftrightarrow> nth_bit buf q \<or> 8 * p + b \<le> q \<and> q < 8 * p + b + c \<and> bit d (q - (8 * p + b) + k))"
proof (induction c arbitrary: buf p b k)
  case 0
  then show ?case by auto
next
  case (Suc c)
  have p: "p < length buf" using Suc.prems by linarith
  have bit: "d AND 2 ^ k \<noteq> 0 \<longleftrightarrow> bit d k" using and_exp_eq_0_iff_not_bit [of d k] by blast
  define buf1 where "buf1 = (if bit d k then buf[p := buf ! p OR push_bit b 1] else buf)"
  define p1 where "p1 = (if b = 7 then p + 1 else p)"
  define b1 where "b1 = (if b = 7 then 0 else b + 1)"
  have pos: "8 * p1 + b1 = 8 * p + b + 1" "b1 < 8" using Suc.prems(1) by (auto simp: p1_def b1_def)
  have n1: "nth_bit buf1 q \<longleftrightarrow> nth_bit buf q \<or> q = 8 * p + b \<and> bit d k" for q
    using nth_bit_upd [OF p Suc.prems(1)] by (auto simp: buf1_def)
  have "\<exists>buf'. add_bits_loop buf1 p1 b1 d (push_bit b1 1) (push_bit (k + 1) 1) c =
       Done (buf', (8 * p1 + b1 + c) div 8, (8 * p1 + b1 + c) mod 8) \<and> length buf' = length buf1 \<and>
     (\<forall>q. nth_bit buf' q \<longleftrightarrow> nth_bit buf1 q \<or>
        8 * p1 + b1 \<le> q \<and> q < 8 * p1 + b1 + c \<and> bit d (q - (8 * p1 + b1) + (k + 1)))"
    using Suc.prems pos by (intro Suc.IH) (auto simp: buf1_def)
  then obtain buf' where r: "add_bits_loop buf1 p1 b1 d (push_bit b1 1) (push_bit (k + 1) 1) c =
       Done (buf', (8 * p + b + Suc c) div 8, (8 * p + b + Suc c) mod 8)" "length buf' = length buf"
    and q: "\<forall>q. nth_bit buf' q \<longleftrightarrow> nth_bit buf1 q \<or>
        8 * p + b + 1 \<le> q \<and> q < 8 * p + b + Suc c \<and> bit d (q - (8 * p + b + 1) + (k + 1))"
    using pos by (auto simp: buf1_def)
  have "add_bits_loop buf p b d (push_bit b 1) (push_bit k 1) (Suc c) =
      add_bits_loop buf1 p1 b1 d (push_bit b1 1) (push_bit (k + 1) 1) c"
    using p by (simp add: bit Let_def buf1_def p1_def b1_def mult.commute)
  moreover have "nth_bit buf' x \<longleftrightarrow> nth_bit buf x \<or>
      8 * p + b \<le> x \<and> x < 8 * p + b + Suc c \<and> bit d (x - (8 * p + b) + k)" for x
  proof (cases "8 * p + b + 1 \<le> x")
    case True
    then have "x - (8 * p + b + 1) + (k + 1) = x - (8 * p + b) + k" by simp
    with True q n1 show ?thesis by auto
  next
    case False
    with q n1 show ?thesis by (auto simp: le_less_Suc_eq)
  qed
  ultimately show ?case using r by auto
qed


lemma add_bits_bits:
  assumes "b < 8" and "c \<le> 64" and "8 * p + b + c \<le> 8 * length buf"
  shows "\<exists>buf'. add_bits buf p b d c = Done (buf', (8 * p + b + c) div 8, (8 * p + b + c) mod 8) \<and>
    length buf' = length buf \<and>
    (\<forall>q. nth_bit buf' q \<longleftrightarrow> nth_bit buf q \<or> 8 * p + b \<le> q \<and> q < 8 * p + b + c \<and> bit d (q - (8 * p + b)))"
  using add_bits_loop_bits [of b 0 c p buf d] assms by (simp add: add_bits_def)

lemma read_bits_loop_bits:
  "b < 8 \<Longrightarrow> k + c \<le> 64 \<Longrightarrow> 8 * p + b + c \<le> 8 * length buf \<Longrightarrow>
   \<exists>v. read_bits_loop buf p b (push_bit b 1) (push_bit k 1) d c =
       Done (v, (8 * p + b + c) div 8, (8 * p + b + c) mod 8) \<and>
     (\<forall>i < 64. bit v i \<longleftrightarrow> bit d i \<or> k \<le> i \<and> i < k + c \<and> nth_bit buf (8 * p + b + (i - k)))"
proof (induction c arbitrary: p b k d)
  case 0
  then show ?case by auto
next
  case (Suc c)
  have p: "p < length buf" using Suc.prems by linarith
  have bit: "buf ! p AND 2 ^ b \<noteq> 0 \<longleftrightarrow> nth_bit buf (8 * p + b)"
    using Suc.prems(1) and_bit_byte [of "buf ! p" b] by (simp add: nth_bit_def)
  define d1 where "d1 = (if nth_bit buf (8 * p + b) then d OR push_bit k 1 else d)"
  define p1 where "p1 = (if b = 7 then p + 1 else p)"
  define b1 where "b1 = (if b = 7 then 0 else b + 1)"
  have pos: "8 * p1 + b1 = 8 * p + b + 1" "b1 < 8" using Suc.prems(1) by (auto simp: p1_def b1_def)
  have n1: "bit d1 i \<longleftrightarrow> bit d i \<or> i = k \<and> nth_bit buf (8 * p + b)" if "i < 64" for i
    using that Suc.prems(2) by (auto simp: d1_def bit_simps)
  have "\<exists>v. read_bits_loop buf p1 b1 (push_bit b1 1) (push_bit (k + 1) 1) d1 c =
       Done (v, (8 * p1 + b1 + c) div 8, (8 * p1 + b1 + c) mod 8) \<and>
     (\<forall>i < 64. bit v i \<longleftrightarrow> bit d1 i \<or> k + 1 \<le> i \<and> i < k + 1 + c \<and> nth_bit buf (8 * p1 + b1 + (i - (k + 1))))"
    using Suc.prems pos by (intro Suc.IH) auto
  then obtain v where r: "read_bits_loop buf p1 b1 (push_bit b1 1) (push_bit (k + 1) 1) d1 c =
       Done (v, (8 * p + b + Suc c) div 8, (8 * p + b + Suc c) mod 8)"
    and v: "\<forall>i < 64. bit v i \<longleftrightarrow> bit d1 i \<or> k + 1 \<le> i \<and> i < k + Suc c \<and> nth_bit buf (8 * p + b + 1 + (i - (k + 1)))"
    using pos by auto
  have "read_bits_loop buf p b (push_bit b 1) (push_bit k 1) d (Suc c) =
      read_bits_loop buf p1 b1 (push_bit b1 1) (push_bit (k + 1) 1) d1 c"
    using p by (simp add: bit Let_def d1_def p1_def b1_def mult.commute)
  moreover have "bit v i \<longleftrightarrow> bit d i \<or> k \<le> i \<and> i < k + Suc c \<and> nth_bit buf (8 * p + b + (i - k))" if "i < 64" for i
  proof (cases "k + 1 \<le> i")
    case True
    then have "8 * p + b + 1 + (i - (k + 1)) = 8 * p + b + (i - k)" by simp
    with True v n1 that show ?thesis by auto
  next
    case False
    with v n1 that show ?thesis by (auto simp: le_less_Suc_eq)
  qed
  ultimately show ?case using r by auto
qed

lemma read_bits_bits:
  assumes "b < 8" and "c \<le> 64" and "8 * p + b + c \<le> 8 * length buf"
  shows "\<exists>v. read_bits buf p b c = Done (v, (8 * p + b + c) div 8, (8 * p + b + c) mod 8) \<and>
    (\<forall>i < 64. bit v i \<longleftrightarrow> i < c \<and> nth_bit buf (8 * p + b + i))"
  using read_bits_loop_bits [of b 0 c p buf 0] assms by (simp add: read_bits_def)

text \<open>The bits of a request, counted from the byte after the length.\<close>

definition request_bit :: "byte \<Rightarrow> byte \<Rightarrow> u64 \<Rightarrow> nat \<Rightarrow> bool" where
  "request_bit op addr d q \<longleftrightarrow>
     (if q < 2 then bit op q else if q < 66 then bit d (q - 2) else bit addr (q - 66))"

lemma sim_request_bits:
  "\<exists>buf. sim_request op addr d = Done (buf, 11) \<and> length buf = 16 \<and> hd buf = 74 \<and>
     (\<forall>q < 74. nth_bit (tl buf) q \<longleftrightarrow> request_bit op addr d q) \<and>
     (\<forall>q. 74 \<le> q \<and> q < 120 \<longrightarrow> \<not> nth_bit (tl buf) q)"
proof -
  let ?z = "replicate 16 0 :: byte list"
  have z: "\<not> nth_bit ?z q" if "q < 128" for q
    using that by (simp add: nth_bit_def del: replicate_numeral)
  obtain b1 where b1: "add_bits ?z 1 0 (ucast op) 2 = Done (b1, 1, 2)" "length b1 = 16"
    and q1: "\<forall>q. nth_bit b1 q \<longleftrightarrow> nth_bit ?z q \<or> 8 \<le> q \<and> q < 10 \<and> bit (ucast op :: u64) (q - 8)"
    using add_bits_bits [of 0 2 1 ?z "ucast op"] by (auto simp del: replicate_numeral)
  obtain b2 where b2: "add_bits b1 1 2 d 64 = Done (b2, 9, 2)" "length b2 = 16"
    and q2: "\<forall>q. nth_bit b2 q \<longleftrightarrow> nth_bit b1 q \<or> 10 \<le> q \<and> q < 74 \<and> bit d (q - 10)"
    using add_bits_bits [of 2 64 1 b1 d] b1(2) by auto
  obtain b3 where b3: "add_bits b2 9 2 (ucast addr) 8 = Done (b3, 10, 2)" "length b3 = 16"
    and q3: "\<forall>q. nth_bit b3 q \<longleftrightarrow> nth_bit b2 q \<or> 74 \<le> q \<and> q < 82 \<and> bit (ucast addr :: u64) (q - 74)"
    using add_bits_bits [of 2 8 9 b2 "ucast addr"] b2(2) by auto
  let ?buf = "b3[0 := 74]"
  have "sim_request op addr d = Done (?buf, 11)"
    using b1(1) b2(1) b3(1) by (simp add: sim_request_def del: replicate_numeral)
  moreover have "length ?buf = 16" "hd ?buf = 74" using b3(2) by (cases b3; simp)+
  moreover have tl: "nth_bit (tl ?buf) q \<longleftrightarrow> nth_bit b3 (q + 8)" if "q < 120" for q
  proof -
    have "(q + 8) div 8 = Suc (q div 8)" "(q + 8) mod 8 = q mod 8" by simp_all
    with b3(2) show ?thesis by (cases b3) (auto simp: nth_bit_def)
  qed
  have "nth_bit (tl ?buf) q \<longleftrightarrow> request_bit op addr d q" if "q < 74" for q
    using that tl [of q] q1 q2 q3 z [of "q + 8"] by (auto simp: request_bit_def bit_simps)
  moreover have "\<not> nth_bit (tl ?buf) q" if "74 \<le> q" "q < 120" for q
    using that tl [of q] q1 q2 q3 z [of "q + 8"] by auto
  ultimately show ?thesis by blast
qed

section \<open>Replies\<close>

lemma read_bits_value:
  assumes "b < 8" and "c \<le> 64" and "8 * p + b + c \<le> 8 * length buf"
    and "\<And>i. i < 64 \<Longrightarrow> bit v i \<longleftrightarrow> i < c \<and> nth_bit buf (8 * p + b + i)"
  shows "read_bits buf p b c = Done (v, (8 * p + b + c) div 8, (8 * p + b + c) mod 8)"
proof -
  obtain w where w: "read_bits buf p b c = Done (w, (8 * p + b + c) div 8, (8 * p + b + c) mod 8)"
    "\<forall>i < 64. bit w i \<longleftrightarrow> i < c \<and> nth_bit buf (8 * p + b + i)"
    using read_bits_bits [OF assms(1-3)] by blast
  have "w = v" using w(2) assms(4) by (intro bit_word_eqI) simp
  with w(1) show ?thesis by simp
qed

text \<open>The status and the data that a buffer of bits after the length byte stands for.\<close>

definition reply_holds :: "byte list \<Rightarrow> u64 \<Rightarrow> u64 \<Rightarrow> bool" where
  "reply_holds bs rc v \<longleftrightarrow> rc < 4 \<and> (\<forall>i < 2. bit rc i \<longleftrightarrow> nth_bit bs i) \<and> (\<forall>i < 64. bit v i \<longleftrightarrow> nth_bit bs (i + 2))"

lemma less_4_bits: "rc < 4 \<Longrightarrow> 2 \<le> i \<Longrightarrow> \<not> bit rc i" for rc :: u64
proof -
  assume "rc < 4" "2 \<le> i"
  then have "take_bit 2 rc = rc" by (simp add: word_less_nat_alt word_unat_eq_iff unsigned_take_bit_eq take_bit_nat_eq_self)
  with \<open>2 \<le> i\<close> show ?thesis by (metis bit_take_bit_iff not_le)
qed

lemma nth_bit_Cons: "nth_bit (x # bs) (q + 8) = nth_bit bs q"
proof -
  have "(q + 8) div 8 = Suc (q div 8)" "(q + 8) mod 8 = q mod 8" by simp_all
  then show ?thesis by (simp add: nth_bit_def)
qed

lemma sim_command_reply:
  assumes "sim_request op addr (case data of None \<Rightarrow> 0 | Some v \<Rightarrow> v) = Done (buf, len)"
    and "lnk (take len buf) s = (w, r, s')" and "0 \<le> w"
    and "recv_into r buf = n # bs" and "length bs = 15" and "reply_holds bs rc v"
  shows "sim_command lnk op addr data s = Done (uint rc, map_option (\<lambda>_. v) data, s')"
proof -
  have nb: "nth_bit (n # bs) (8 + i) = nth_bit bs i" for i by (metis add.commute nth_bit_Cons)
  have nb': "nth_bit (n # bs) (10 + i) = nth_bit bs (i + 2)" for i
    using nb [of "i + 2"] by (simp add: add.commute add.left_commute)
  have "read_bits (n # bs) 1 0 2 = Done (rc, (8 * 1 + 0 + 2) div 8, (8 * 1 + 0 + 2) mod 8)"
  proof (intro read_bits_value)
    have rc: "rc < 4" "\<forall>i < 2. bit rc i \<longleftrightarrow> nth_bit bs i" using assms(6) by (auto simp: reply_holds_def)
    show "bit rc i \<longleftrightarrow> i < 2 \<and> nth_bit (n # bs) (8 * 1 + 0 + i)" for i
      using rc less_4_bits [OF rc(1), of i] by (cases "i < 2") (auto simp: nb)
  qed (use assms(5) in auto)
  moreover have "read_bits (n # bs) 1 2 64 = Done (v, (8 * 1 + 2 + 64) div 8, (8 * 1 + 2 + 64) mod 8)"
    using assms(5,6) by (intro read_bits_value) (auto simp: nb' reply_holds_def)
  ultimately show ?thesis using assms(1-4) by (cases data) (simp_all add: sim_command_def)
qed

section \<open>Both directions\<close>

lemma decode_request:
  assumes "74 \<le> length out_msg"
  shows "\<exists>buf. sim_request op addr d = Done (buf, 11) \<and> length buf = 16 \<and> take 11 buf \<noteq> [] \<and>
    decode_packet vh (take 11 buf) out_msg =
      Done (74, map (\<lambda>x. if x then vhpi1 vh else vhpi0 vh)
                  (map (bit op) [0..<2] @ map (bit d) [0..<64] @ map (bit addr) [0..<8]) @ drop 74 out_msg)"
proof -
  obtain buf where buf: "sim_request op addr d = Done (buf, 11)" "length buf = 16" "hd buf = 74"
    and q: "\<forall>q < 74. nth_bit (tl buf) q \<longleftrightarrow> request_bit op addr d q"
    using sim_request_bits [of op addr d] by blast
  let ?bs = "take 10 (tl buf)"
  have tk: "take 11 buf = of_nat 74 # ?bs" using buf(2,3) by (cases buf) auto
  have bits: "nth_bit ?bs i \<longleftrightarrow> request_bit op addr d i" if "i < 74" for i
    using q that by (auto simp: nth_bit_def)
  have "map (\<lambda>i. if nth_bit ?bs i then vhpi1 vh else vhpi0 vh) [0..<74] =
      map (\<lambda>x. if x then vhpi1 vh else vhpi0 vh) (map (request_bit op addr d) [0..<74])"
    using bits by (simp del: upt_rec_numeral)
  also have "map (request_bit op addr d) [0..<74] =
      map (bit op) [0..<2] @ map (bit d) [0..<64] @ map (bit addr) [0..<8]"
    by (rule nth_equalityI) (auto simp: nth_append request_bit_def simp del: upt_rec_numeral)
  finally have m: "map (\<lambda>i. if nth_bit ?bs i then vhpi1 vh else vhpi0 vh) [0..<74] =
    map (\<lambda>x. if x then vhpi1 vh else vhpi0 vh) (map (bit op) [0..<2] @ map (bit d) [0..<64] @ map (bit addr) [0..<8])" .
  have "74 \<le> 8 * length ?bs" using buf(2) by simp
  from decode_packet_bits [OF refl _ this assms, of vh]
  have "decode_packet vh (take 11 buf) out_msg =
      Done (74, map (\<lambda>i. if nth_bit ?bs i then vhpi1 vh else vhpi0 vh) [0..<74] @ drop 74 out_msg)"
    unfolding tk by simp
  with buf(1,2) tk show ?thesis unfolding m by (intro exI [of _ buf]) simp
qed

lemma decode_reply:
  fixes rc v :: u64
  assumes "vhpi0 vh \<noteq> vhpi1 vh" and "length dat0 = MAX_PACKET" and "74 \<le> length in_msg" and "rc < 4"
    and "take 66 in_msg = map (\<lambda>x. if x then vhpi1 vh else vhpi0 vh) (map (bit rc) [0..<2] @ map (bit v) [0..<64])"
    and "sim_jtag_write_msg vh dat0 in_msg (slv_enc vh 8 74) = Done reply"
    and "sim_request op addr (case data of None \<Rightarrow> 0 | Some v \<Rightarrow> v) = Done (buf, len)" and "length buf = 16"
    and "lnk (take len buf) s = (w, Some reply, s')" and "0 \<le> w"
  shows "sim_command lnk op addr data s = Done (uint rc, map_option (\<lambda>_. v) data, s')"
proof -
  obtain e where e: "reply = 74 # take 9 e" "length e = 31" "\<forall>q < 74. nth_bit e q \<longleftrightarrow> in_msg ! q = vhpi1 vh"
    using sim_jtag_write_msg_bits [OF assms(1,2), of 74 in_msg] assms(3,6) by auto
  let ?bs = "take 9 e @ drop 10 buf"
  have "recv_into (Some reply) buf = 74 # ?bs" using e(1,2) by (simp add: recv_into_def)
  moreover have "length ?bs = 15" using e(2) assms(8) by simp
  moreover have "reply_holds ?bs rc v"
  proof -
    have n: "nth_bit ?bs i \<longleftrightarrow> take 66 in_msg ! i = vhpi1 vh" if "i < 66" for i
    proof -
      have "i div 8 < 9" using that by linarith
      with that e(2,3) show ?thesis by (simp add: nth_bit_def nth_append)
    qed
    have "nth_bit ?bs i \<longleftrightarrow> (map (bit rc) [0..<2] @ map (bit v) [0..<64]) ! i" if "i < 66" for i
      using n [OF that] that assms(1) unfolding assms(5) by (simp add: nth_append del: upt_rec_numeral)
    with assms(4) show ?thesis by (simp add: reply_holds_def nth_append del: upt_rec_numeral)
  qed
  ultimately show ?thesis by (rule sim_command_reply [where lnk = lnk and s = s, OF assms(7,9,10)])
qed

section \<open>Properties\<close>

text \<open>The request of the debug tool is what the simulator's JTAG port receives: for every operation,
  address and data word the 11 bytes written to the socket are decoded by \<open>sim_jtag_read_msg\<close> into
  74 bits, the two low bits of the operation, then the 64 data bits and the 8 address bits.\<close>

theorem sim_request_received:
  assumes "js_fd st \<ge> 0" and "js_cfd st \<ge> 0" and "jo_poll os > 0" and "74 \<le> length out_msg" and "length out_size = 8"
  shows "\<exists>buf. sim_request op addr d = Done (buf, 11) \<and>
    sim_jtag_read_msg vh (os\<lparr>jo_read := Some (take 11 buf)\<rparr>) st out_msg out_size =
      Done (st, map (\<lambda>x. if x then vhpi1 vh else vhpi0 vh)
                  (map (bit op) [0..<2] @ map (bit d) [0..<64] @ map (bit addr) [0..<8]) @ drop 74 out_msg,
            slv_enc vh 8 74)"
proof -
  obtain buf where buf: "sim_request op addr d = Done (buf, 11)" "take 11 buf \<noteq> []"
    and dec: "decode_packet vh (take 11 buf) out_msg = Done (74, map (\<lambda>x. if x then vhpi1 vh else vhpi0 vh)
        (map (bit op) [0..<2] @ map (bit d) [0..<64] @ map (bit addr) [0..<8]) @ drop 74 out_msg)"
    using decode_request [OF assms(4)] by blast
  from sim_jtag_read_msg_connected [OF assms(1,2), of "os\<lparr>jo_read := Some (take 11 buf)\<rparr>", OF _ _ buf(2) dec assms(5)]
    assms(3) buf(1) show ?thesis by (simp del: upt_rec_numeral)
qed

theorem sim_request_received_witness:
  "\<exists>buf. sim_request 1 17 5 = Done (buf, 11) \<and>
    sim_jtag_read_msg \<lparr>vhpi0 = 2, vhpi1 = 3\<rparr> (\<lparr>jo_socket = 3, jo_bind = 0, jo_listen = 0, jo_accept = 4, jo_poll = 1,
       jo_read = Some (take 11 buf)\<rparr>) \<lparr>js_fd = 3, js_cfd = 4\<rparr> (replicate 80 0) (replicate 8 0) =
      Done (\<lparr>js_fd = 3, js_cfd = 4\<rparr>,
            map (\<lambda>x. if x then 3 else 2)
                (map (bit (1 :: byte)) [0..<2] @ map (bit (5 :: u64)) [0..<64] @ map (bit (17 :: byte)) [0..<8]) @ replicate 6 0,
            slv_enc \<lparr>vhpi0 = 2, vhpi1 = 3\<rparr> 8 74)"
  using sim_request_received [of "\<lparr>js_fd = 3, js_cfd = 4\<rparr>" "\<lparr>jo_socket = 3, jo_bind = 0, jo_listen = 0, jo_accept = 4,
      jo_poll = 1, jo_read = None\<rparr>" "replicate 80 0" "replicate 8 0" 1 17 5 "\<lparr>vhpi0 = 2, vhpi1 = 3\<rparr>"]
  by (simp del: upt_rec_numeral replicate_numeral cong: if_cong)

text \<open>The reply of the simulator reaches the debug tool: although \<open>sim_jtag_write_msg\<close> sends only the
  first nine bytes of the 74 bits, the status in the first two bits and the data in the next 64 are
  what \<open>sim_command\<close> returns.\<close>

theorem sim_reply_received:
  fixes rc v :: u64
  assumes "vhpi0 vh \<noteq> vhpi1 vh" and "length dat0 = MAX_PACKET" and "74 \<le> length in_msg" and "rc < 4"
    and "take 66 in_msg = map (\<lambda>x. if x then vhpi1 vh else vhpi0 vh) (map (bit rc) [0..<2] @ map (bit v) [0..<64])"
    and "sim_jtag_write_msg vh dat0 in_msg (slv_enc vh 8 74) = Done reply"
  shows "sim_command (\<lambda>req s. (int (length req), Some reply, s)) op addr (Some d) s = Done (uint rc, Some v, s)"
proof -
  obtain buf where buf: "sim_request op addr d = Done (buf, 11)" "length buf = 16"
    using sim_request_bits [of op addr d] by blast
  with decode_reply [OF assms, of op addr "Some d" buf 11 "\<lambda>req s. (int (length req), Some reply, s)" s 11 s] show ?thesis by simp
qed

theorem sim_reply_received_witness:
  "\<exists>reply. sim_jtag_write_msg \<lparr>vhpi0 = 2, vhpi1 = 3\<rparr> (replicate MAX_PACKET 0) ([3, 3] @ replicate 64 2 @ replicate 8 3)
       (slv_enc \<lparr>vhpi0 = 2, vhpi1 = 3\<rparr> 8 74) = Done reply \<and>
     sim_command (\<lambda>req s. (int (length req), Some reply, s)) 0 0 (Some 9) () = Done (3, Some 0, ())"
proof -
  let ?m = "[3, 3] @ replicate 64 2 @ replicate 8 3 :: byte list" and ?vh = "\<lparr>vhpi0 = 2, vhpi1 = 3\<rparr>"
  obtain d where d: "sim_jtag_write_msg ?vh (replicate MAX_PACKET 0) ?m (slv_enc ?vh 8 74) = Done (74 # take 9 d)"
    using sim_jtag_write_msg_bits [of ?vh "replicate MAX_PACKET 0" 74 ?m] by (auto simp del: replicate_numeral)
  have "take 66 ?m = map (\<lambda>x. if x then vhpi1 ?vh else vhpi0 ?vh) (map (bit (3 :: u64)) [0..<2] @ map (bit (0 :: u64)) [0..<64])"
    by (simp add: upt_conv_Cons bit_numeral_rec map_replicate_const)
  with d sim_reply_received [of ?vh "replicate MAX_PACKET 0" ?m 3 0 "74 # take 9 d" 0 0 9 "()"]
  show ?thesis by (auto simp del: replicate_numeral upt_rec_numeral)
qed

section \<open>No reply\<close>

text \<open>When \<open>read\<close> fails or the connection is closed, the request in the buffer is decoded as the reply.\<close>

lemma sim_command_no_reply:
  assumes "r = None \<or> r = Some []"
  shows "sim_command (\<lambda>req s. (int (length req), r, s)) op addr data s = Done (uint op mod 4, data, s)"
proof -
  let ?d = "case data of None \<Rightarrow> 0 | Some v \<Rightarrow> v"
  obtain buf where buf: "sim_request op addr ?d = Done (buf, 11)" "length buf = 16" "hd buf = 74"
    and q: "\<forall>q < 74. nth_bit (tl buf) q \<longleftrightarrow> request_bit op addr ?d q"
    using sim_request_bits [of op addr ?d] by blast
  have b: "recv_into r buf = 74 # tl buf" "length (tl buf) = 15"
    using assms buf by (cases buf; auto simp: recv_into_def)+
  define rc where "rc = (ucast (take_bit 2 op) :: u64)"
  have u: "uint rc = uint op mod 4"
  proof -
    have "uint rc = take_bit 64 (take_bit 2 (uint op))"
      unfolding rc_def by (simp add: unsigned_ucast_eq unsigned_take_bit_eq del: take_bit_64)
    then show ?thesis by (simp add: take_bit_eq_mod del: take_bit_64)
  qed
  have "rc < 4" by (simp add: word_less_def u)
  moreover have "bit rc i \<longleftrightarrow> i < 2 \<and> bit op i" if "i < 64" for i
    using that by (auto simp: rc_def bit_simps)
  ultimately have "reply_holds (tl buf) rc ?d" using q by (auto simp: reply_holds_def request_bit_def)
  from sim_command_reply [of op addr data buf 11 "\<lambda>req s. (int (length req), r, s)" s 11 r s, OF _ _ _ b this]
  show ?thesis using buf(1,2) u by (cases data) simp_all
qed

end
