(* ===== verification/Mw_Backend.thy ===== *)
theory Mw_Backend
  imports Dmi_Sim
begin

text \<open>
  The debug tool (\<open>scripts/mw_debug/mw_debug.c\<close>), first part: the state of a run, the text the tool
  prints, and the two kinds of backends through which it reaches a target.

  A run of a function is a state transformer: from a state it gives \<open>None\<close> when it does not return,
  and otherwise how it ended (with a value, with \<open>exit\<close>, or in undefined behaviour) and the state it
  left.  The state holds the two global variables, what was written to the standard streams and to the
  output file, and the target.  An uninitialised local variable has the value that \<open>db_junk\<close> gives for
  its name.

  The functions of the JTAG library that the tool is linked with are the record \<open>urj\<close> of functions on
  the state of the target; the system calls for the connection are the record \<open>sim_net\<close>.
\<close>

section \<open>Runs\<close>

text \<open>The file that is open for writing: the bytes before the current position and those after it.\<close>

type_synonym file_pos = "byte list \<times> byte list"

definition file_bytes :: "file_pos \<Rightarrow> byte list" where
  "file_bytes f = fst f @ snd f"

definition put_bytes :: "byte list \<Rightarrow> file_pos \<Rightarrow> file_pos" where
  "put_bytes bs f = (fst f @ bs, drop (length bs) (snd f))"

lemma put_bytes_simps [simp]: "put_bytes [] f = f" "put_bytes ys (put_bytes xs f) = put_bytes (xs @ ys) f"
  by (simp_all add: put_bytes_def ac_simps)

lemma put_bytes_start: "file_bytes (put_bytes bs ([], old)) = bs @ drop (length bs) old"
  by (simp add: put_bytes_def file_bytes_def)

record 's dbg =
  db_core :: u32
  db_debug :: bool
  db_out :: string
  db_err :: string
  db_file :: file_pos
  db_junk :: "string \<Rightarrow> u64"
  db_target :: 's

type_synonym ('s, 'a) prog = "'s dbg \<Rightarrow> ('a outcome \<times> 's dbg) option"

definition ret :: "'a \<Rightarrow> ('s, 'a) prog" where
  "ret x st = Some (Done x, st)"

definition halt :: "int \<Rightarrow> ('s, 'a) prog" where
  "halt n st = Some (Exit n, st)"

definition undef :: "('s, 'a) prog" where
  "undef st = Some (Fault, st)"

definition seq :: "('s, 'a) prog \<Rightarrow> ('a \<Rightarrow> ('s, 'b) prog) \<Rightarrow> ('s, 'b) prog" where
  "seq p f st =
     (case p st of
        None \<Rightarrow> None
      | Some (Done x, st') \<Rightarrow> f x st'
      | Some (Exit n, st') \<Rightarrow> Some (Exit n, st')
      | Some (Fault, st') \<Rightarrow> Some (Fault, st'))"

definition out :: "string \<Rightarrow> ('s, unit) prog" where
  "out s st = Some (Done (), st\<lparr>db_out := db_out st @ s\<rparr>)"

definition err :: "string \<Rightarrow> ('s, unit) prog" where
  "err s st = Some (Done (), st\<lparr>db_err := db_err st @ s\<rparr>)"

definition check :: "int \<Rightarrow> string \<Rightarrow> ('s, unit) prog" where
  "check r failstr =
     (if r \<ge> 0 then ret ()
      else seq (err (''Error '' @ failstr @ [CHR 0x0A])) (\<lambda>_. halt 1))"

named_theorems run_simps \<open>running the statements of the debug tool\<close>

lemma seq_Done [run_simps]: "p st = Some (Done x, st') \<Longrightarrow> seq p f st = f x st'"
  by (simp add: seq_def)

lemma seq_Exit [run_simps]: "p st = Some (Exit n, st') \<Longrightarrow> seq p f st = Some (Exit n, st')"
  by (simp add: seq_def)

lemma seq_None [run_simps]: "p st = None \<Longrightarrow> seq p f st = None"
  by (simp add: seq_def)

lemma seq_assoc: "seq (seq p f) g = seq p (\<lambda>x. seq (f x) g)"
  by (rule ext) (simp add: seq_def split: option.split prod.split outcome.split)

lemma run_basic [run_simps]:
  "seq (ret x) f st = f x st"
  "seq (out s) g st = g () (st\<lparr>db_out := db_out st @ s\<rparr>)"
  "seq (err s) g st = g () (st\<lparr>db_err := db_err st @ s\<rparr>)"
  "ret x st = Some (Done x, st)"
  "halt n st = Some (Exit n, st)"
  "undef st = Some (Fault, st)"
  "out s st = Some (Done (), st\<lparr>db_out := db_out st @ s\<rparr>)"
  "err s st = Some (Done (), st\<lparr>db_err := db_err st @ s\<rparr>)"
  "r \<ge> 0 \<Longrightarrow> check r msg = ret ()"
  by (simp_all add: seq_def ret_def halt_def undef_def out_def err_def check_def)

section \<open>Numbers as text\<close>

text \<open>The conversions of the host's \<open>printf\<close> and \<open>strtoul\<close> that the tool uses.\<close>

definition host_digit :: "nat \<Rightarrow> char" where
  "host_digit d = (''0123456789abcdef'' ! d)"

fun num_str :: "nat \<Rightarrow> nat \<Rightarrow> string" where
  "num_str b n = (if n < b \<or> b < 2 then [host_digit n] else num_str b (n div b) @ [host_digit (n mod b)])"

declare num_str.simps [simp del]

definition hex :: "u64 \<Rightarrow> string" where
  "hex v = num_str 16 (unat v)"

definition dec :: "u64 \<Rightarrow> string" where
  "dec v = num_str 10 (unat v)"

definition zero_pad :: "nat \<Rightarrow> string \<Rightarrow> string" where
  "zero_pad w s = replicate (w - length s) CHR ''0'' @ s"

definition int_dec :: "int \<Rightarrow> string" where
  "int_dec i = (if i < 0 then CHR ''-'' # num_str 10 (nat (- i)) else num_str 10 (nat i))"

definition host_isspace :: "char \<Rightarrow> bool" where
  "host_isspace ch \<longleftrightarrow> ch = CHR '' '' \<or> (9 \<le> (of_char ch :: nat) \<and> (of_char ch :: nat) \<le> 13)"

definition host_isdigit :: "char \<Rightarrow> bool" where
  "host_isdigit ch \<longleftrightarrow> 48 \<le> (of_char ch :: nat) \<and> (of_char ch :: nat) \<le> 57"

definition digit_val :: "char \<Rightarrow> nat option" where
  "digit_val ch =
     (let n = of_char ch :: nat
      in if 48 \<le> n \<and> n \<le> 57 then Some (n - 48)
         else if 97 \<le> n \<and> n \<le> 122 then Some (n - 87)
         else if 65 \<le> n \<and> n \<le> 90 then Some (n - 55)
         else None)"

definition in_base :: "nat \<Rightarrow> char \<Rightarrow> bool" where
  "in_base b ch = (case digit_val ch of None \<Rightarrow> False | Some d \<Rightarrow> d < b)"

definition host_isxdigit :: "char \<Rightarrow> bool" where
  "host_isxdigit ch = in_base 16 ch"

definition digits_val :: "nat \<Rightarrow> string \<Rightarrow> nat" where
  "digits_val b ds = foldl (\<lambda>a ch. a * b + the (digit_val ch)) 0 ds"

text \<open>The sign and the magnitude of the number at the start of a string.\<close>

definition scan_number :: "nat \<Rightarrow> string \<Rightarrow> bool \<times> nat" where
  "scan_number b s =
     (let s1 = dropWhile host_isspace s;
          neg = (s1 \<noteq> [] \<and> hd s1 = CHR ''-'');
          s2 = (if s1 \<noteq> [] \<and> hd s1 \<in> {CHR ''-'', CHR ''+''} then tl s1 else s1);
          s3 = (if b = 16 \<and> length s2 > 2 \<and> s2 ! 0 = CHR ''0'' \<and> s2 ! 1 \<in> {CHR ''x'', CHR ''X''} \<and> in_base 16 (s2 ! 2)
                then drop 2 s2 else s2)
      in (neg, digits_val b (takeWhile (in_base b) s3)))"

definition host_strtoul :: "nat \<Rightarrow> string \<Rightarrow> u64" where
  "host_strtoul b s =
     (let (neg, n) = scan_number b s
      in if n \<ge> 2 ^ 64 then - 1 else if neg then - of_nat n else of_nat n)"

definition host_atoi :: "string \<Rightarrow> u32" where
  "host_atoi s =
     (let (neg, n) = scan_number 10 s;
          v = (if neg then max (- (2 ^ 63)) (- int n) else min (2 ^ 63 - 1) (int n))
      in of_int v)"


section \<open>The simulation backend\<close>

record 's backend =
  be_init :: "string option \<Rightarrow> int \<Rightarrow> ('s, int) prog"
  be_reset :: "('s, int) prog"
  be_command :: "byte \<Rightarrow> byte \<Rightarrow> u64 option \<Rightarrow> 's \<Rightarrow> (int \<times> u64 option \<times> 's) outcome"

record sim_net =
  sn_socket :: int
  sn_gethostbyname :: "string \<Rightarrow> bool"
  sn_connect :: "string \<Rightarrow> u16 \<Rightarrow> int"
  sn_strerror :: string

text \<open>With no colon in the target the difference of pointers is larger than any string, and the whole
  target is copied as the host name.\<close>

definition sim_init :: "sim_net \<Rightarrow> string option \<Rightarrow> int \<Rightarrow> ('s, int) prog" where
  "sim_init net target freq st =
     (let tgt = (case target of None \<Rightarrow> ''localhost:13245'' | Some t \<Rightarrow> t);
          host = takeWhile (\<lambda>ch. ch \<noteq> CHR '':'') tgt;
          p = (case dropWhile (\<lambda>ch. ch \<noteq> CHR '':'') tgt of [] \<Rightarrow> ''13245'' | _ # r \<Rightarrow> r);
          port = ucast (host_strtoul 10 p) :: u32
      in seq (if db_debug st
              then out (''Opening sim backend host '' @ [CHR 0x27] @ host @ [CHR 0x27] @ '' port '' @
                        int_dec (sint port) @ [CHR 0x0A])
              else ret ()) (\<lambda>_.
         if sn_socket net < 0
         then seq (err (''Error opening socket: '' @ sn_strerror net @ [CHR 0x0A])) (\<lambda>_. ret (- 1))
         else if \<not> sn_gethostbyname net host
         then seq (err (''Unknown host '' @ [CHR 0x27] @ host @ [CHR 0x27] @ [CHR 0x0A])) (\<lambda>_. ret (- 1))
         else if sn_connect net host (ucast port) < 0
         then seq (err (''Connection to '' @ [CHR 0x27] @ host @ [CHR 0x27] @ '' failed: '' @ sn_strerror net @ [CHR 0x0A]))
                (\<lambda>_. ret (- 1))
         else ret 0) st)"

definition sim_reset :: "('s, int) prog" where
  "sim_reset = ret 0"

definition sim_backend :: "sim_net \<Rightarrow> 's link \<Rightarrow> 's backend" where
  "sim_backend net lnk = \<lparr>be_init = sim_init net, be_reset = sim_reset, be_command = sim_command lnk\<rparr>"

section \<open>The JTAG backends\<close>

record 's urj =
  uj_chain_alloc :: "'s \<Rightarrow> bool \<times> 's"
  uj_usb_probe :: "'s \<Rightarrow> int \<times> string \<times> 's"
  uj_chain_connect :: "string \<Rightarrow> string list \<Rightarrow> 's \<Rightarrow> int \<times> 's"
  uj_set_frequency :: "int \<Rightarrow> 's \<Rightarrow> 's"
  uj_manual_add :: "int \<Rightarrow> 's \<Rightarrow> int \<times> 's"
  uj_parts_len :: "'s \<Rightarrow> nat option"
  uj_parts_set_instruction :: "string \<Rightarrow> 's \<Rightarrow> 's"
  uj_set_active_part :: "int \<Rightarrow> 's \<Rightarrow> 's"
  uj_active_part :: "'s \<Rightarrow> bool"
  uj_register_define :: "string \<Rightarrow> int \<Rightarrow> 's \<Rightarrow> int \<times> 's"
  uj_instruction_define :: "string \<Rightarrow> string \<Rightarrow> string \<Rightarrow> 's \<Rightarrow> bool \<times> 's"
  uj_set_instruction :: "string \<Rightarrow> 's \<Rightarrow> 's"
  uj_shift_instructions :: "'s \<Rightarrow> 's"
  uj_shift_data :: "'s \<Rightarrow> int \<times> 's"
  uj_get_value :: "'s \<Rightarrow> u64"
  uj_has_instruction :: "'s \<Rightarrow> bool"
  uj_has_register :: "'s \<Rightarrow> bool"
  uj_set_bits :: "u64 \<Rightarrow> int \<Rightarrow> int \<Rightarrow> 's \<Rightarrow> int \<times> 's"
  uj_get_bits :: "int \<Rightarrow> int \<Rightarrow> 's \<Rightarrow> u64"
  uj_error :: "'s \<Rightarrow> string"

text \<open>A call into the library, and a step that only changes the target.\<close>

definition urj_call :: "('s \<Rightarrow> 'r \<times> 's) \<Rightarrow> ('s, 'r) prog" where
  "urj_call f st = (let (r, t) = f (db_target st) in Some (Done r, st\<lparr>db_target := t\<rparr>))"

definition urj_do :: "('s \<Rightarrow> 's) \<Rightarrow> ('s, unit) prog" where
  "urj_do f st = Some (Done (), st\<lparr>db_target := f (db_target st)\<rparr>)"

definition urj_get :: "('s \<Rightarrow> 'r) \<Rightarrow> ('s, 'r) prog" where
  "urj_get f st = Some (Done (f (db_target st)), st)"

definition fail :: "string \<Rightarrow> ('s, int) prog" where
  "fail msg = seq (err (msg @ [CHR 0x0A])) (\<lambda>_. ret (- 1))"

definition fail_urj :: "'s urj \<Rightarrow> string \<Rightarrow> ('s, int) prog" where
  "fail_urj uj msg = seq (urj_get (uj_error uj)) (\<lambda>e. fail (msg @ e))"

text \<open>The parameters of the cable: the text after each space of the target, up to the next one.\<close>

fun split_spaces :: "string \<Rightarrow> string list" where
  "split_spaces [] = []"
| "split_spaces (ch # cs) =
     (if ch = CHR '' '' then takeWhile (\<lambda>x. x \<noteq> CHR '' '') cs # split_spaces cs else split_spaces cs)"

definition max_params :: nat where "max_params = 20"

definition common_jtag_init :: "'s urj \<Rightarrow> string option \<Rightarrow> int \<Rightarrow> ('s, int) prog" where
  "common_jtag_init uj target freq st =
     (let tgt = (case target of None \<Rightarrow> ''probe'' | Some t \<Rightarrow> t);
          cable = takeWhile (\<lambda>ch. ch \<noteq> CHR '' '') tgt;
          params = split_spaces (dropWhile (\<lambda>ch. ch \<noteq> CHR '' '') tgt);
          connect = (\<lambda>cable. seq (urj_call (uj_chain_connect uj cable params)) (\<lambda>rc.
            if rc \<noteq> 0 then fail_urj uj ''JTAG cable detect failed: ''
            else seq (if freq \<noteq> 0 then urj_do (uj_set_frequency uj freq) else ret ()) (\<lambda>_. ret 0)))
      in if length params > max_params then fail ''Too many jtag cable params'' st
         else seq (if db_debug st
                   then out (''Opening jtag backend cable '' @ [CHR 0x27] @ cable @ [CHR 0x27] @ [CHR 0x0A])
                   else ret ()) (\<lambda>_.
              seq (urj_call (uj_chain_alloc uj)) (\<lambda>ok.
              if \<not> ok then fail ''Failed to alloc JTAG''
              else if cable = ''probe''
              then seq (urj_call (\<lambda>t. let (rc, name, t') = uj_usb_probe uj t in ((rc, name), t'))) (\<lambda>(rc, name).
                   if rc \<noteq> 0 then fail_urj uj ''JTAG cable probe failed: '' else connect name)
              else connect cable)) st)"

text \<open>What both kinds of device do once the instructions are known: read the identification, then
  select the debug register.\<close>

definition select_user2 :: "'s urj \<Rightarrow> ('s, int) prog" where
  "select_user2 uj =
     seq (urj_do (uj_set_instruction uj ''IDCODE'')) (\<lambda>_.
     seq (urj_do (uj_shift_instructions uj)) (\<lambda>_.
     seq (urj_call (uj_shift_data uj)) (\<lambda>_.
     seq (urj_get (uj_get_value uj)) (\<lambda>v.
     seq (out (''Found device ID: 0x'' @ zero_pad 8 (hex (take_bit 32 v)) @ [CHR 0x0A])) (\<lambda>_.
     seq (urj_do (uj_set_instruction uj ''USER2'')) (\<lambda>_.
     seq (urj_do (uj_shift_instructions uj)) (\<lambda>_.
     ret 0)))))))"

definition bscane2_init :: "'s urj \<Rightarrow> string option \<Rightarrow> int \<Rightarrow> ('s, int) prog" where
  "bscane2_init uj target freq =
     seq (common_jtag_init uj target freq) (\<lambda>rc.
     if rc < 0 then ret rc else
     seq (urj_call (uj_manual_add uj 6)) (\<lambda>rc.
     if rc < 0 then fail ''JTAG failed to add part !'' else
     seq (urj_get (uj_parts_len uj)) (\<lambda>len.
     if len = None \<or> len = Some 0 then fail (''JTAG Something'' @ [CHR 0x27] @ ''s wrong after adding part !'') else
     seq (urj_do (uj_parts_set_instruction uj ''BYPASS'')) (\<lambda>_.
     seq (urj_do (uj_set_active_part uj 0)) (\<lambda>_.
     seq (urj_get (uj_active_part uj)) (\<lambda>p.
     if \<not> p then fail ''Failed to get active JTAG part'' else
     seq (urj_call (uj_register_define uj ''IDCODE_REG'' 32)) (\<lambda>rc.
     if rc \<noteq> 0 then fail ''JTAG failed to add IDCODE_REG register !'' else
     seq (urj_call (uj_instruction_define uj ''IDCODE'' ''001001'' ''IDCODE_REG'')) (\<lambda>ok.
     if \<not> ok then fail ''JTAG failed to add IDCODE instruction !'' else
     seq (urj_call (uj_register_define uj ''USER2_REG'' 74)) (\<lambda>rc.
     if rc \<noteq> 0 then fail ''JTAG failed to add USER2_REG register !'' else
     seq (urj_call (uj_instruction_define uj ''USER2'' ''000011'' ''USER2_REG'')) (\<lambda>ok.
     if \<not> ok then fail ''JTAG failed to add USER2 instruction !'' else select_user2 uj))))))))))"

definition ecp5_init :: "'s urj \<Rightarrow> string option \<Rightarrow> int \<Rightarrow> ('s, int) prog" where
  "ecp5_init uj target freq =
     seq (common_jtag_init uj target freq) (\<lambda>rc.
     if rc < 0 then ret rc else
     seq (urj_call (uj_manual_add uj 8)) (\<lambda>rc.
     if rc < 0 then fail_urj uj ''JTAG failed to add part! : '' else
     seq (urj_get (uj_parts_len uj)) (\<lambda>len.
     if len = None \<or> len = Some 0
     then fail_urj uj (''JTAG Something'' @ [CHR 0x27] @ ''s wrong after adding part! : '') else
     seq (urj_do (uj_parts_set_instruction uj ''BYPASS'')) (\<lambda>_.
     seq (urj_do (uj_set_active_part uj 0)) (\<lambda>_.
     seq (urj_get (uj_active_part uj)) (\<lambda>p.
     if \<not> p then fail ''Failed to get active JTAG part'' else
     seq (urj_call (uj_register_define uj ''IDCODE_REG'' 32)) (\<lambda>rc.
     if rc \<noteq> 0 then fail_urj uj ''JTAG failed to add IDCODE_REG register! : '' else
     seq (urj_call (uj_instruction_define uj ''IDCODE'' ''11100000'' ''IDCODE_REG'')) (\<lambda>ok.
     if \<not> ok then fail_urj uj ''JTAG failed to add IDCODE instruction! : '' else
     seq (urj_call (uj_register_define uj ''USER2_REG'' 74)) (\<lambda>rc.
     if rc \<noteq> 0 then fail ''JTAG failed to add USER2_REG register !'' else
     seq (urj_call (uj_instruction_define uj ''USER2'' ''00110010'' ''USER2_REG'')) (\<lambda>ok.
     if \<not> ok then fail ''JTAG failed to add USER2 instruction !'' else select_user2 uj))))))))))"

definition jtag_reset :: "('s, int) prog" where
  "jtag_reset = ret 0"

definition jtag_command ::
  "'s urj \<Rightarrow> byte \<Rightarrow> byte \<Rightarrow> u64 option \<Rightarrow> 's \<Rightarrow> (int \<times> u64 option \<times> 's) outcome" where
  "jtag_command uj op addr data t =
     (let d = (case data of None \<Rightarrow> 0 | Some v \<Rightarrow> v)
      in if \<not> uj_active_part uj t \<or> \<not> uj_has_instruction uj t \<or> \<not> uj_has_register uj t then Done (- 1, data, t)
         else let (rc1, t1) = uj_set_bits uj (ucast op) 1 0 t in
         if rc1 \<noteq> 0 then Done (- 1, data, t1)
         else let (rc2, t2) = uj_set_bits uj d 65 2 t1 in
         if rc2 \<noteq> 0 then Done (- 1, data, t2)
         else let (rc3, t3) = uj_set_bits uj (ucast addr) 73 66 t2 in
         if rc3 \<noteq> 0 then Done (- 1, data, t3)
         else let (rc4, t4) = uj_shift_data uj t3 in
         if rc4 \<noteq> 0 then Done (- 1, data, t4)
         else Done (sint (ucast (uj_get_bits uj 1 0 t4) :: u32), map_option (\<lambda>_. uj_get_bits uj 65 2 t4) data, t4))"

definition bscane2_backend :: "'s urj \<Rightarrow> 's backend" where
  "bscane2_backend uj = \<lparr>be_init = bscane2_init uj, be_reset = jtag_reset, be_command = jtag_command uj\<rparr>"

definition ecp5_backend :: "'s urj \<Rightarrow> 's backend" where
  "ecp5_backend uj = \<lparr>be_init = ecp5_init uj, be_reset = jtag_reset, be_command = jtag_command uj\<rparr>"
end
