(* ===== verification/Mw_Debug.thy ===== *)
theory Mw_Debug
  imports Mw_Backend
begin

text \<open>
  The debug tool (\<open>scripts/mw_debug/mw_debug.c\<close>), second part: reads and writes of the debug registers
  and the commands of the tool built from them.

  \<open>dmi_read\<close> and \<open>dmi_write\<close> poll until the target is no longer busy; a target that stays busy makes
  them run for ever, which is the value \<open>None\<close>.  The other loops are counted.  The locale \<open>dmi_target\<close> is
  what a backend promises to these functions: a started transaction is busy for a finite number of
  polls and then delivers its result.

  The results of the system calls on files are the record \<open>host_fs\<close>: for a file that is read, the
  results of the successive calls of \<open>read\<close>; for the file that is written, the result of each call.
  The host is little-endian.
\<close>

section \<open>Registers\<close>

definition DBG_WB_ADDR :: byte where "DBG_WB_ADDR = 0x00"
definition DBG_WB_DATA :: byte where "DBG_WB_DATA = 0x01"
definition DBG_WB_CTRL :: byte where "DBG_WB_CTRL = 0x02"

definition DBG_CORE_CTRL :: "u32 \<Rightarrow> byte" where "DBG_CORE_CTRL core = ucast (0x10 + push_bit 4 core)"
definition DBG_CORE_STAT :: "u32 \<Rightarrow> byte" where "DBG_CORE_STAT core = ucast (0x11 + push_bit 4 core)"
definition DBG_CORE_NIA :: "u32 \<Rightarrow> byte" where "DBG_CORE_NIA core = ucast (0x12 + push_bit 4 core)"
definition DBG_CORE_MSR :: "u32 \<Rightarrow> byte" where "DBG_CORE_MSR core = ucast (0x13 + push_bit 4 core)"
definition DBG_CORE_GSPR_INDEX :: "u32 \<Rightarrow> byte" where "DBG_CORE_GSPR_INDEX core = ucast (0x14 + push_bit 4 core)"
definition DBG_CORE_GSPR_DATA :: "u32 \<Rightarrow> byte" where "DBG_CORE_GSPR_DATA core = ucast (0x15 + push_bit 4 core)"
definition DBG_LOG_ADDR :: "u32 \<Rightarrow> byte" where "DBG_LOG_ADDR core = ucast (0x16 + push_bit 4 core)"
definition DBG_LOG_DATA :: "u32 \<Rightarrow> byte" where "DBG_LOG_DATA core = ucast (0x17 + push_bit 4 core)"
definition DBG_LOG_TRIGGER :: "u32 \<Rightarrow> byte" where "DBG_LOG_TRIGGER core = ucast (0x18 + push_bit 4 core)"
definition DBG_LOG_MTRIGGER :: "u32 \<Rightarrow> byte" where "DBG_LOG_MTRIGGER core = ucast (0x19 + push_bit 4 core)"

definition DBG_CORE_CTRL_STOP :: u64 where "DBG_CORE_CTRL_STOP = push_bit 0 1"
definition DBG_CORE_CTRL_RESET :: u64 where "DBG_CORE_CTRL_RESET = push_bit 1 1"
definition DBG_CORE_CTRL_ICRESET :: u64 where "DBG_CORE_CTRL_ICRESET = push_bit 2 1"
definition DBG_CORE_CTRL_STEP :: u64 where "DBG_CORE_CTRL_STEP = push_bit 3 1"
definition DBG_CORE_CTRL_START :: u64 where "DBG_CORE_CTRL_START = push_bit 4 1"

definition DBG_CORE_STAT_STOPPING :: u64 where "DBG_CORE_STAT_STOPPING = push_bit 0 1"
definition DBG_CORE_STAT_STOPPED :: u64 where "DBG_CORE_STAT_STOPPED = push_bit 1 1"
definition DBG_CORE_STAT_TERM :: u64 where "DBG_CORE_STAT_TERM = push_bit 2 1"

definition LOG_STOP :: u64 where "LOG_STOP = 0x80000000"

section \<open>Register accesses\<close>

text \<open>The variable behind the pointer that is passed to \<open>command\<close>.\<close>

definition stored :: "u64 \<Rightarrow> u64 option \<Rightarrow> u64" where
  "stored d d' = (case d' of None \<Rightarrow> d | Some v \<Rightarrow> v)"

definition unknown_status :: "int \<Rightarrow> string" where
  "unknown_status rc = ''Unknown status code '' @ int_dec rc @ '' !'' @ [CHR 0x0A]"

partial_function (option) dmi_read_poll ::
  "'s backend \<Rightarrow> u64 \<Rightarrow> 's dbg \<Rightarrow> ((int \<times> u64) outcome \<times> 's dbg) option" where
  "dmi_read_poll b d st =
     (case be_command b 0 0 (Some d) (db_target st) of
        Done r \<Rightarrow>
          (case r of (rc, d', t) \<Rightarrow>
             if rc < 0 then Some (Done (rc, stored d d'), st\<lparr>db_target := t\<rparr>)
             else if rc = 0 then Some (Done (0, stored d d'), st\<lparr>db_target := t\<rparr>)
             else if rc \<noteq> 3 then dmi_read_poll b (stored d d') (st\<lparr>db_target := t, db_err := db_err st @ unknown_status rc\<rparr>)
             else dmi_read_poll b (stored d d') (st\<lparr>db_target := t\<rparr>))
      | Exit n \<Rightarrow> Some (Exit n, st)
      | Fault \<Rightarrow> Some (Fault, st))"

definition dmi_read :: "'s backend \<Rightarrow> byte \<Rightarrow> u64 \<Rightarrow> ('s, int \<times> u64) prog" where
  "dmi_read b addr d st =
     (case be_command b 1 addr (Some d) (db_target st) of
        Done (rc, d', t) \<Rightarrow>
          if rc < 0 then Some (Done (rc, stored d d'), st\<lparr>db_target := t\<rparr>)
          else dmi_read_poll b (stored d d') (st\<lparr>db_target := t\<rparr>)
      | Exit n \<Rightarrow> Some (Exit n, st)
      | Fault \<Rightarrow> Some (Fault, st))"

partial_function (option) dmi_write_poll :: "'s backend \<Rightarrow> 's dbg \<Rightarrow> (int outcome \<times> 's dbg) option" where
  "dmi_write_poll b st =
     (case be_command b 0 0 None (db_target st) of
        Done r \<Rightarrow>
          (case r of (rc, _, t) \<Rightarrow>
             if rc < 0 then Some (Done rc, st\<lparr>db_target := t\<rparr>)
             else if rc = 0 then Some (Done 0, st\<lparr>db_target := t\<rparr>)
             else if rc \<noteq> 3 then dmi_write_poll b (st\<lparr>db_target := t, db_err := db_err st @ unknown_status rc\<rparr>)
             else dmi_write_poll b (st\<lparr>db_target := t\<rparr>))
      | Exit n \<Rightarrow> Some (Exit n, st)
      | Fault \<Rightarrow> Some (Fault, st))"

definition dmi_write :: "'s backend \<Rightarrow> byte \<Rightarrow> u64 \<Rightarrow> ('s, int) prog" where
  "dmi_write b addr d st =
     (case be_command b 2 addr (Some d) (db_target st) of
        Done (rc, _, t) \<Rightarrow>
          if rc < 0 then Some (Done rc, st\<lparr>db_target := t\<rparr>) else dmi_write_poll b (st\<lparr>db_target := t\<rparr>)
      | Exit n \<Rightarrow> Some (Exit n, st)
      | Fault \<Rightarrow> Some (Fault, st))"

text \<open>An access whose failure ends the program.\<close>

definition check_read :: "'s backend \<Rightarrow> byte \<Rightarrow> u64 \<Rightarrow> string \<Rightarrow> ('s, u64) prog" where
  "check_read b addr d failstr = seq (dmi_read b addr d) (\<lambda>(rc, v). seq (check rc failstr) (\<lambda>_. ret v))"

definition check_write :: "'s backend \<Rightarrow> byte \<Rightarrow> u64 \<Rightarrow> string \<Rightarrow> ('s, unit) prog" where
  "check_write b addr d failstr = seq (dmi_write b addr d) (\<lambda>rc. check rc failstr)"

text \<open>The value of the global variable \<open>core\<close>, and of an uninitialised local variable.\<close>

definition get_core :: "('s, u32) prog" where
  "get_core st = Some (Done (db_core st), st)"

definition uninit :: "string \<Rightarrow> ('s, u64) prog" where
  "uninit var st = Some (Done (db_junk st var), st)"

section \<open>The core\<close>

definition status_text :: "u64 \<Rightarrow> string \<times> string" where
  "status_text stat =
     (if stat AND DBG_CORE_STAT_STOPPED \<noteq> 0
      then (''stopped'',
            if stat AND DBG_CORE_STAT_STOPPING = 0 then '' (restarting?)''
            else if stat AND DBG_CORE_STAT_TERM \<noteq> 0 then '' (terminated)'' else '''')
      else if stat AND DBG_CORE_STAT_STOPPING \<noteq> 0
      then (''stopping'', if stat AND DBG_CORE_STAT_TERM \<noteq> 0 then '' (terminated)'' else '''')
      else if stat AND DBG_CORE_STAT_TERM \<noteq> 0 then (''odd state (TERM but no STOP)'', '''')
      else (''running'', ''''))"

definition core_status :: "'s backend \<Rightarrow> ('s, unit) prog" where
  "core_status b st0 =
     seq get_core (\<lambda>core.
     seq (uninit ''stat'') (\<lambda>j1. seq (check_read b (DBG_CORE_STAT core) j1 ''reading core status'') (\<lambda>stat.
     seq (uninit ''nia'') (\<lambda>j2. seq (check_read b (DBG_CORE_NIA core) j2 ''reading core NIA'') (\<lambda>nia.
     seq (uninit ''msr'') (\<lambda>j3. seq (check_read b (DBG_CORE_MSR core) j3 ''reading core MSR'') (\<lambda>msr.
     seq (if db_debug st0 then out (''Core status = 0x'' @ hex stat @ [CHR 0x0A]) else ret ()) (\<lambda>_.
     seq (out (''Core'' @ dec (ucast core) @ '': '' @ fst (status_text stat) @ snd (status_text stat) @ [CHR 0x0A])) (\<lambda>_.
     seq (out ('' NIA: '' @ zero_pad 16 (hex nia) @ [CHR 0x0A])) (\<lambda>_.
     out ('' MSR: '' @ zero_pad 16 (hex msr) @ [CHR 0x0A]))))))))))) st0"

definition core_stop :: "'s backend \<Rightarrow> ('s, unit) prog" where
  "core_stop b = seq get_core (\<lambda>core. check_write b (DBG_CORE_CTRL core) DBG_CORE_CTRL_STOP ''stopping core'')"

definition core_start :: "'s backend \<Rightarrow> ('s, unit) prog" where
  "core_start b = seq get_core (\<lambda>core. check_write b (DBG_CORE_CTRL core) DBG_CORE_CTRL_START ''starting core'')"

definition core_reset :: "'s backend \<Rightarrow> ('s, unit) prog" where
  "core_reset b = seq get_core (\<lambda>core. check_write b (DBG_CORE_CTRL core) DBG_CORE_CTRL_RESET ''resetting core'')"

definition core_step :: "'s backend \<Rightarrow> ('s, unit) prog" where
  "core_step b =
     seq get_core (\<lambda>core. seq (uninit ''stat'') (\<lambda>j.
     seq (check_read b (DBG_CORE_STAT core) j ''reading core status'') (\<lambda>stat.
     if stat AND DBG_CORE_STAT_STOPPED = 0 then out (''Core not stopped !'' @ [CHR 0x0A])
     else check_write b (DBG_CORE_CTRL core) DBG_CORE_CTRL_STEP ''stepping core'')))"

definition icache_reset :: "'s backend \<Rightarrow> ('s, unit) prog" where
  "icache_reset b = seq get_core (\<lambda>core. check_write b (DBG_CORE_CTRL core) DBG_CORE_CTRL_ICRESET ''resetting icache'')"

section \<open>Registers of the core\<close>

definition fast_spr_names :: "string list" where
  "fast_spr_names =
     [''lr'', ''ctr'', ''srr0'', ''srr1'', ''hsrr0'', ''hsrr1'', ''sprg0'', ''sprg1'', ''sprg2'', ''sprg3'',
      ''hsprg0'', ''hsprg1'', ''xer'', ''tar'', ''fscr'', ''lpcr'', ''heir'', ''cfar'']"

definition ldst_spr_names :: "string list" where
  "ldst_spr_names = [''pidr'', ''ptcr'', ''dsisr'', ''dar'']"

text \<open>\<open>PRId64\<close> prints the word as a signed number.\<close>

definition gpr_name :: "u64 \<Rightarrow> string" where
  "gpr_name reg =
     (if reg \<le> 31 then ''r'' @ int_dec (sint reg)
      else if reg - 32 < of_nat (length fast_spr_names) then fast_spr_names ! unat (reg - 32)
      else if reg < 60 then ''gspr'' @ int_dec (sint reg)
      else if reg < 64 then ldst_spr_names ! unat (reg - 60)
      else ''FPR'' @ int_dec (sint (reg - 64)))"

definition gpr_step :: "'s backend \<Rightarrow> u64 \<Rightarrow> ('s, unit) prog" where
  "gpr_step b reg =
     seq get_core (\<lambda>core.
     seq (check_write b (DBG_CORE_GSPR_INDEX core) reg ''setting GPR index'') (\<lambda>_.
     seq (check_read b (DBG_CORE_GSPR_DATA core) 0xdeadbeef ''reading GPR data'') (\<lambda>v.
     seq (out (gpr_name reg)) (\<lambda>_.
     out ('':'' @ [CHR 0x09] @ zero_pad 16 (hex v) @ [CHR 0x0A])))))"

text \<open>\<open>k\<close> is the value of \<open>count\<close>.\<close>

fun gpr_loop :: "'s backend \<Rightarrow> u64 \<Rightarrow> nat \<Rightarrow> ('s, unit) prog" where
  "gpr_loop b reg 0 = ret ()"
| "gpr_loop b reg (Suc k) = seq (gpr_step b reg) (\<lambda>_. gpr_loop b (reg + 1) k)"

definition gpr_count :: "u64 \<Rightarrow> u64 \<Rightarrow> u64" where
  "gpr_count reg count = (if reg + count > 96 then 96 - reg else count)"

definition gpr_read :: "'s backend \<Rightarrow> u64 \<Rightarrow> u64 \<Rightarrow> ('s, unit) prog" where
  "gpr_read b reg count =
     (let r = reg AND 0x7f in gpr_loop b r (unat (gpr_count r count)))"


section \<open>Memory\<close>

definition printable :: "byte \<Rightarrow> char" where
  "printable c = (if 0x20 \<le> c \<and> c < 0x7f then char_of (unat c) else CHR ''.'')"

definition mem_line :: "u64 \<Rightarrow> u64 \<Rightarrow> string" where
  "mem_line addr v =
     zero_pad 16 (hex addr) @ '': '' @ zero_pad 16 (hex v) @ ''  '' @
     map (\<lambda>j. printable (ucast (drop_bit (8 * j) v))) [0..<8] @ [CHR 0x0A]"

text \<open>\<open>k\<close> is the number of iterations left; \<open>i\<close> is the counter, an \<open>int\<close>; \<open>d\<close> the local variable.\<close>

fun mem_read_loop :: "'s backend \<Rightarrow> u64 \<Rightarrow> u64 \<Rightarrow> int \<Rightarrow> nat \<Rightarrow> ('s, unit) prog" where
  "mem_read_loop b addr d i 0 = ret ()"
| "mem_read_loop b addr d i (Suc k) =
     seq (dmi_read b DBG_WB_DATA d) (\<lambda>(rc, v).
     if rc < 0 then ret ()
     else seq (out (mem_line addr v)) (\<lambda>_.
          if i = INT_MAX then undef else mem_read_loop b (addr + 8) v (i + 1) k))"

definition mem_read :: "'s backend \<Rightarrow> u64 \<Rightarrow> u64 \<Rightarrow> ('s, unit) prog" where
  "mem_read b addr count =
     seq (dmi_write b DBG_WB_CTRL 0x7ff) (\<lambda>rc. if rc < 0 then ret () else
     seq (dmi_write b DBG_WB_ADDR addr) (\<lambda>rc. if rc < 0 then ret () else
     seq (uninit ''u'') (\<lambda>j. mem_read_loop b addr j 0 (unat count))))"

definition mem_write :: "'s backend \<Rightarrow> u64 \<Rightarrow> u64 \<Rightarrow> ('s, unit) prog" where
  "mem_write b addr v =
     seq (check_write b DBG_WB_CTRL 0x7ff ''writing WB_CTRL'') (\<lambda>_.
     seq (check_write b DBG_WB_ADDR addr ''writing WB_ADDR'') (\<lambda>_.
     check_write b DBG_WB_DATA v ''writing WB_DATA''))"

section \<open>Files\<close>

record host_fs =
  hf_open :: "string \<Rightarrow> byte list list option"
  hf_create :: "string \<Rightarrow> byte list option"
  hf_write :: "nat \<Rightarrow> int"
  hf_fwrite :: "nat \<Rightarrow> int"
  hf_strerror :: string

definition open_failed :: "host_fs \<Rightarrow> string \<Rightarrow> string \<Rightarrow> ('s, 'a) prog" where
  "open_failed fs what name =
     seq (err (''Failed to '' @ what @ '' '' @ [CHR 0x27] @ name @ [CHR 0x27] @ '': '' @ hf_strerror fs @ [CHR 0x0A]))
       (\<lambda>_. halt 1)"

definition progress :: "int \<Rightarrow> ('s, unit) prog" where
  "progress count = (if count mod 1024 = 0 then out (hex (of_int count) @ ''...'' @ [CHR 0x0D]) else ret ())"

text \<open>A call of \<open>read\<close> stores its bytes at the start of the variable, which was set to 0.\<close>

fun load_loop :: "'s backend \<Rightarrow> byte list list \<Rightarrow> int \<Rightarrow> ('s, int) prog" where
  "load_loop b [] count = ret count"
| "load_loop b (bs # rest) count =
     (if bs = [] then ret count
      else seq (check_write b DBG_WB_DATA (le_val (take 8 bs)) ''writing WB_DATA'') (\<lambda>_.
           if count + 8 > INT_MAX then undef
           else seq (progress (count + 8)) (\<lambda>_. load_loop b rest (count + 8))))"

definition load :: "host_fs \<Rightarrow> 's backend \<Rightarrow> string \<Rightarrow> u64 \<Rightarrow> ('s, unit) prog" where
  "load fs b filename addr =
     (case hf_open fs filename of
        None \<Rightarrow> open_failed fs ''open'' filename
      | Some reads \<Rightarrow>
          seq (check_write b DBG_WB_CTRL 0x7ff ''writing WB_CTRL'') (\<lambda>_.
          seq (check_write b DBG_WB_ADDR addr ''writing WB_ADDR'') (\<lambda>_.
          seq (load_loop b reads 0) (\<lambda>count.
          out (hex (of_int count) @ '' done.'' @ [CHR 0x0A])))))"

text \<open>Opening a file for writing gives the bytes that it had, none when it is created.  A call of \<open>write\<close> puts as many bytes of the variable
  at the current position as it returns.\<close>

definition open_file :: "byte list \<Rightarrow> ('s, unit) prog" where
  "open_file old st = Some (Done (), st\<lparr>db_file := ([], old)\<rparr>)"

definition put_file :: "nat \<Rightarrow> u64 \<Rightarrow> ('s, unit) prog" where
  "put_file n v st = Some (Done (), st\<lparr>db_file := put_bytes (take n (le_bytes 8 v)) (db_file st)\<rparr>)"

function save_loop :: "host_fs \<Rightarrow> 's backend \<Rightarrow> u64 \<Rightarrow> u64 \<Rightarrow> int \<Rightarrow> ('s, int) prog" where
  "save_loop fs b sz d count =
     seq (check_read b DBG_WB_DATA d ''reading WB_DATA'') (\<lambda>v.
     if hf_write fs (nat count div 8) \<le> 0
     then seq (err (''Failed to write: '' @ hf_strerror fs @ [CHR 0x0A])) (\<lambda>_. ret count)
     else seq (put_file (nat (hf_write fs (nat count div 8))) v) (\<lambda>_.
          if count + 8 > INT_MAX then undef
          else seq (progress (count + 8)) (\<lambda>_.
               if of_int (count + 8) \<ge> sz then ret (count + 8) else save_loop fs b sz v (count + 8))))"
  by pat_completeness auto
termination by (relation "measure (\<lambda>(fs, b, sz, d, count). nat (INT_MAX - count))") auto

declare save_loop.simps [simp del]

text \<open>\<open>save\<close> opens the file without truncating it.\<close>

definition save :: "host_fs \<Rightarrow> 's backend \<Rightarrow> string \<Rightarrow> u64 \<Rightarrow> u64 \<Rightarrow> ('s, unit) prog" where
  "save fs b filename addr sz =
     (case hf_create fs filename of
        None \<Rightarrow> open_failed fs ''open'' filename
      | Some old \<Rightarrow>
          seq (open_file old) (\<lambda>_.
          seq (check_write b DBG_WB_CTRL 0x7ff ''writing WB_CTRL'') (\<lambda>_.
          seq (check_write b DBG_WB_ADDR addr ''writing WB_ADDR'') (\<lambda>_.
          seq (uninit ''data'') (\<lambda>j.
          seq (save_loop fs b sz j 0) (\<lambda>count.
          out (hex (of_int count) @ '' done.'' @ [CHR 0x0A])))))))"

section \<open>The log\<close>

definition log_start :: "'s backend \<Rightarrow> ('s, unit) prog" where
  "log_start b = seq get_core (\<lambda>core. check_write b (DBG_LOG_ADDR core) 0 ''writing LOG_ADDR'')"

text \<open>The loop ends at the latest when all bits are shifted out.\<close>

lemma shift_left_count:
  fixes l :: u64
  assumes "l \<noteq> 0"
  shows "(LEAST n. push_bit n (push_bit 1 l) = 0) < (LEAST n. push_bit n l = 0)"
proof -
  have "push_bit 64 l = 0" by (rule bit_word_eqI) (simp add: bit_simps)
  moreover have "push_bit 0 l \<noteq> 0" using assms by simp
  ultimately have "(LEAST n. push_bit n l = 0) = Suc (LEAST n. push_bit (Suc n) l = 0)"
    by (rule Least_Suc)
  moreover have "push_bit (Suc n) l = push_bit n (push_bit 1 l)" for n
    by (simp only: push_bit_push_bit) simp
  ultimately show ?thesis by simp
qed

function lsize_loop :: "u64 \<Rightarrow> u64 \<Rightarrow> u64" where
  "lsize_loop waddr lsize =
     (if lsize = 0 then 0
      else if drop_bit 1 waddr < lsize then lsize
      else lsize_loop waddr (push_bit 1 lsize))"
  by pat_completeness auto
termination
proof (relation "measure (\<lambda>(waddr, lsize). LEAST n. push_bit n lsize = 0)")
  fix waddr lsize :: u64
  assume "lsize \<noteq> 0"
  then show "((waddr, push_bit 1 lsize), (waddr, lsize)) \<in> measure (\<lambda>(waddr, lsize). LEAST n. push_bit n lsize = 0)"
    unfolding in_measure split by (rule shift_left_count)
qed simp

declare lsize_loop.simps [simp del]

definition log_size :: "u64 \<Rightarrow> u64" where
  "log_size waddr = lsize_loop waddr 1"

definition log_wptr :: "u64 \<Rightarrow> u64" where
  "log_wptr waddr = waddr AND NOT (log_size waddr)"

definition log_stop :: "'s backend \<Rightarrow> ('s, unit) prog" where
  "log_stop b =
     seq get_core (\<lambda>core.
     seq (check_write b (DBG_LOG_ADDR core) LOG_STOP ''writing LOG_ADDR'') (\<lambda>_.
     seq (uninit ''laddr'') (\<lambda>j.
     seq (check_read b (DBG_LOG_ADDR core) j ''reading LOG_ADDR'') (\<lambda>laddr.
     let waddr = drop_bit 32 laddr
     in seq (out (''Log size = '' @ dec (log_size waddr) @ '' entries, '')) (\<lambda>_.
        out (''write ptr = '' @ hex (log_wptr waddr) @ [CHR 0x0A]))))))"

text \<open>The loop of the dump: \<open>k\<close> iterations are left, \<open>i\<close> is the counter.\<close>

fun dump_loop :: "host_fs \<Rightarrow> 's backend \<Rightarrow> string \<Rightarrow> u64 \<Rightarrow> u64 \<Rightarrow> nat \<Rightarrow> ('s, unit) prog" where
  "dump_loop fs b filename d i 0 = ret ()"
| "dump_loop fs b filename d i (Suc k) =
     seq get_core (\<lambda>core.
     seq (check_read b (DBG_LOG_DATA core) d ''reading LOG_DATA'') (\<lambda>v.
     if hf_fwrite fs (unat i) \<noteq> 1
     then seq (err (''Write error on '' @ filename @ [CHR 0x0A])) (\<lambda>_. halt 1)
     else seq (put_file 8 v) (\<lambda>_.
          seq (if i mod 128 = 0 then out (dec (i * 8) @ ''...'' @ [CHR 0x0D]) else ret ()) (\<lambda>_.
          dump_loop fs b filename v (i + 1) k))))"

definition log_dump :: "host_fs \<Rightarrow> 's backend \<Rightarrow> string \<Rightarrow> ('s, unit) prog" where
  "log_dump fs b filename =
     (case hf_create fs filename of
        None \<Rightarrow> open_failed fs ''create'' filename
      | Some _ \<Rightarrow>
        seq (open_file []) (\<lambda>_.
        seq get_core (\<lambda>core.
        seq (uninit ''orig_laddr'') (\<lambda>j.
        seq (check_read b (DBG_LOG_ADDR core) j ''reading LOG_ADDR'') (\<lambda>orig_laddr.
        seq (if orig_laddr AND LOG_STOP = 0
             then check_write b (DBG_LOG_ADDR core) LOG_STOP ''writing LOG_ADDR'' else ret ()) (\<lambda>_.
        let waddr = drop_bit 32 orig_laddr; lsize = log_size waddr
        in seq (out (''Log size = '' @ dec lsize @ '' entries'' @ [CHR 0x0A])) (\<lambda>_.
           seq (check_write b (DBG_LOG_ADDR core) (LOG_STOP OR push_bit 2 (log_wptr waddr)) ''writing LOG_ADDR'') (\<lambda>_.
           seq (uninit ''ldata'') (\<lambda>j2.
           seq (dump_loop fs b filename j2 0 (unat (lsize * 4))) (\<lambda>_.
           seq (out (dec (lsize * 32) @ '' done'' @ [CHR 0x0A])) (\<lambda>_.
           check_write b (DBG_LOG_ADDR core) orig_laddr ''writing LOG_ADDR'')))))))))))"

text \<open>The two triggers; the text and the register differ.\<close>

definition trig_text :: "string \<Rightarrow> u64 \<Rightarrow> string" where
  "trig_text what trig =
     (if trig AND 1 \<noteq> 0 then what @ '' stop trigger at '' @ hex (trig AND NOT 3) else what @ '' stop trigger disabled'') @
     '', '' @ (if trig AND 2 \<noteq> 0 then '''' else ''not '') @ ''triggered'' @ [CHR 0x0A]"

definition ltrig_show :: "'s backend \<Rightarrow> ('s, unit) prog" where
  "ltrig_show b =
     seq get_core (\<lambda>core. seq (uninit ''trig'') (\<lambda>j.
     seq (check_read b (DBG_LOG_TRIGGER core) j ''reading LOG_TRIGGER'') (\<lambda>trig. out (trig_text ''log'' trig))))"

definition ltrig_off :: "'s backend \<Rightarrow> ('s, unit) prog" where
  "ltrig_off b = seq get_core (\<lambda>core. check_write b (DBG_LOG_TRIGGER core) 0 ''writing LOG_TRIGGER'')"

definition trig_value :: "u64 \<Rightarrow> u64" where
  "trig_value addr = (addr AND NOT 2) OR 1"

definition ltrig_set :: "'s backend \<Rightarrow> u64 \<Rightarrow> ('s, unit) prog" where
  "ltrig_set b addr =
     seq get_core (\<lambda>core. check_write b (DBG_LOG_TRIGGER core) (trig_value addr) ''writing LOG_TRIGGER'')"

definition mtrig_show :: "'s backend \<Rightarrow> ('s, unit) prog" where
  "mtrig_show b =
     seq get_core (\<lambda>core. seq (uninit ''trig'') (\<lambda>j.
     seq (check_read b (DBG_LOG_MTRIGGER core) j ''reading LOG_MTRIGGER'') (\<lambda>trig. out (trig_text ''log memory'' trig))))"

definition mtrig_off :: "'s backend \<Rightarrow> ('s, unit) prog" where
  "mtrig_off b = seq get_core (\<lambda>core. check_write b (DBG_LOG_MTRIGGER core) 0 ''writing LOG_MTRIGGER'')"

definition mtrig_set :: "'s backend \<Rightarrow> u64 \<Rightarrow> ('s, unit) prog" where
  "mtrig_set b addr =
     seq get_core (\<lambda>core. check_write b (DBG_LOG_MTRIGGER core) (trig_value addr) ''writing LOG_MTRIGGER'')"

section \<open>What a target promises\<close>

text \<open>\<open>rd\<close> and \<open>wr\<close> are the effects of a register read and write on a target that is ready;
  \<open>pending n v t s\<close> says that the target \<open>s\<close> has a transaction in progress that answers busy to \<open>n\<close> more
  polls and then delivers \<open>v\<close> and is \<open>t\<close>.\<close>

locale dmi_target =
  fixes b :: "'s backend"
    and ready :: "'s \<Rightarrow> bool"
    and rd :: "byte \<Rightarrow> 's \<Rightarrow> u64 \<times> 's"
    and wr :: "byte \<Rightarrow> u64 \<Rightarrow> 's \<Rightarrow> 's"
    and pending :: "nat \<Rightarrow> u64 \<Rightarrow> 's \<Rightarrow> 's \<Rightarrow> bool"
  assumes start_read: "ready s \<Longrightarrow> \<exists>n rc d' s'. be_command b 1 a (Some d) s = Done (rc, d', s') \<and> 0 \<le> rc \<and>
      pending n (fst (rd a s)) (snd (rd a s)) s'"
    and start_write: "ready s \<Longrightarrow> \<exists>n v rc d' s'. be_command b 2 a (Some d) s = Done (rc, d', s') \<and> 0 \<le> rc \<and>
      pending n v (wr a d s) s'"
    and poll_busy: "pending (Suc n) v t s \<Longrightarrow> \<exists>d' s'. be_command b 0 0 data s = Done (3, d', s') \<and> pending n v t s'"
    and poll_done: "pending 0 v t s \<Longrightarrow> be_command b 0 0 data s = Done (0, map_option (\<lambda>_. v) data, t)"
    and ready_rd: "ready s \<Longrightarrow> ready (snd (rd a s))"
    and ready_wr: "ready s \<Longrightarrow> ready (wr a d s)"
begin

lemma read_poll_ok:
  "pending n v t (db_target st) \<Longrightarrow> dmi_read_poll b d st = Some (Done (0, v), st\<lparr>db_target := t\<rparr>)"
proof (induction n arbitrary: d st)
  case 0
  then show ?case using poll_done [of v t "db_target st" "Some d"] by (simp add: dmi_read_poll.simps stored_def)
next
  case (Suc n)
  then obtain d' s' where s': "be_command b 0 0 (Some d) (db_target st) = Done (3, d', s')" "pending n v t s'"
    using poll_busy [of n v t "db_target st" "Some d"] by blast
  have "dmi_read_poll b d st = dmi_read_poll b (stored d d') (st\<lparr>db_target := s'\<rparr>)"
    using s'(1) by (subst dmi_read_poll.simps) simp
  with Suc.IH [of "st\<lparr>db_target := s'\<rparr>"] s'(2) show ?case by simp
qed

lemma write_poll_ok:
  "pending n v t (db_target st) \<Longrightarrow> dmi_write_poll b st = Some (Done 0, st\<lparr>db_target := t\<rparr>)"
proof (induction n arbitrary: st)
  case 0
  then show ?case using poll_done [of v t "db_target st" None] by (simp add: dmi_write_poll.simps)
next
  case (Suc n)
  then obtain d' s' where s': "be_command b 0 0 None (db_target st) = Done (3, d', s')" "pending n v t s'"
    using poll_busy [of n v t "db_target st" None] by blast
  have "dmi_write_poll b st = dmi_write_poll b (st\<lparr>db_target := s'\<rparr>)"
    using s'(1) by (subst dmi_write_poll.simps) simp
  with Suc.IH [of "st\<lparr>db_target := s'\<rparr>"] s'(2) show ?case by simp
qed

text \<open>A read returns with the register's value and a write with its effect, after finitely many polls.\<close>

lemma dmi_read_ok:
  assumes "ready (db_target st)"
  shows "dmi_read b a d st =
    Some (Done (0, fst (rd a (db_target st))), st\<lparr>db_target := snd (rd a (db_target st))\<rparr>)"
proof -
  obtain n rc d' s' where s': "be_command b 1 a (Some d) (db_target st) = Done (rc, d', s')" "0 \<le> rc"
    "pending n (fst (rd a (db_target st))) (snd (rd a (db_target st))) s'"
    using start_read [OF assms, of a d] by blast
  with read_poll_ok [of n _ _ "st\<lparr>db_target := s'\<rparr>"] show ?thesis by (simp add: dmi_read_def)
qed

lemma dmi_write_ok:
  assumes "ready (db_target st)"
  shows "dmi_write b a d st = Some (Done 0, st\<lparr>db_target := wr a d (db_target st)\<rparr>)"
proof -
  obtain n v rc d' s' where s': "be_command b 2 a (Some d) (db_target st) = Done (rc, d', s')" "0 \<le> rc"
    "pending n v (wr a d (db_target st)) s'"
    using start_write [OF assms, of a d] by blast
  with write_poll_ok [of n _ _ "st\<lparr>db_target := s'\<rparr>"] show ?thesis by (simp add: dmi_write_def)
qed

lemma check_read_ok:
  "ready (db_target st) \<Longrightarrow> check_read b a d msg st =
    Some (Done (fst (rd a (db_target st))), st\<lparr>db_target := snd (rd a (db_target st))\<rparr>)"
  by (simp add: check_read_def run_simps dmi_read_ok)

lemma check_write_ok:
  "ready (db_target st) \<Longrightarrow> check_write b a d msg st = Some (Done (), st\<lparr>db_target := wr a d (db_target st)\<rparr>)"
  by (simp add: check_write_def run_simps dmi_write_ok)

lemmas access_ok = dmi_read_ok dmi_write_ok check_read_ok check_write_ok ready_rd ready_wr

lemma core_stop_ok:
  "ready (db_target st) \<Longrightarrow> core_stop b st =
    Some (Done (), st\<lparr>db_target := wr (DBG_CORE_CTRL (db_core st)) DBG_CORE_CTRL_STOP (db_target st)\<rparr>)"
  by (simp add: core_stop_def get_core_def run_simps access_ok)

lemma core_step_ok:
  assumes "ready (db_target st)" and "rd (DBG_CORE_STAT (db_core st)) (db_target st) = (stat, t)"
  shows "core_step b st =
    (if stat AND DBG_CORE_STAT_STOPPED = 0
     then Some (Done (), st\<lparr>db_out := db_out st @ ''Core not stopped !'' @ [CHR 0x0A], db_target := t\<rparr>)
     else Some (Done (), st\<lparr>db_target := wr (DBG_CORE_CTRL (db_core st)) DBG_CORE_CTRL_STEP t\<rparr>))"
  using assms ready_rd [OF assms(1), of "DBG_CORE_STAT (db_core st)"]
  by (simp add: core_step_def get_core_def uninit_def run_simps access_ok)

end

section \<open>Properties\<close>

lemma unat_le_127: "r \<le> 127 \<Longrightarrow> unat r \<le> 127" for r :: u64
  by (simp add: word_le_nat_alt)

text \<open>C36: The number of registers that \<open>gpr_read\<close> reads: from a register up to 96 on it stops at register
  96 as intended (when the sum does not wrap around), but for a register from 97 to 127 the difference wraps
  around and at least \<open>2 ^ 64 - 31\<close> registers are read.\<close>

theorem gpr_read_count:
  assumes "unat (reg AND 0x7f) + unat count < 2 ^ 64"
  shows "\<exists>n. gpr_read b reg count = gpr_loop b (reg AND 0x7f) n \<and>
    (if reg AND 0x7f \<le> 96 then unat (reg AND 0x7f) + n = min (unat (reg AND 0x7f) + unat count) 96
     else 2 ^ 64 - 31 \<le> n)"
proof -
  define r where "r = reg AND 0x7f"
  have "r \<le> 127" unfolding r_def by (rule word_and_le1)
  then have r: "unat r \<le> 127" by (rule unat_le_127)
  have sum: "unat (r + count) = unat r + unat count"
    using assms by (simp add: r_def unat_word_ariths)
  have le: "r \<le> 96 \<longleftrightarrow> unat r \<le> 96" by (simp add: word_le_nat_alt)
  have gt: "96 < r + count \<longleftrightarrow> 96 < unat r + unat count" by (simp add: word_less_nat_alt sum)
  have "if r \<le> 96 then unat r + unat (gpr_count r count) = min (unat r + unat count) 96
    else 2 ^ 64 - 31 \<le> unat (gpr_count r count)"
  proof (cases "r \<le> 96")
    case True
    then have "unat (96 - r) = 96 - unat r" by (simp add: unat_sub)
    with True le gt show ?thesis by (simp add: gpr_count_def)
  next
    case False
    then have "unat r > 96" using le by simp
    then have "unat (96 - r) = 2 ^ 64 + 96 - unat r"
      using unat_sub_if' [of 96 r] by simp
    with False gt \<open>unat r > 96\<close> r show ?thesis by (simp add: gpr_count_def)
  qed
  then show ?thesis unfolding gpr_read_def Let_def r_def [symmetric] by blast
qed

theorem gpr_read_count_witness:
  "\<exists>n. gpr_read \<lparr>be_init = \<lambda>_ _. ret 0, be_reset = ret 0, be_command = \<lambda>_ _ d s. Done (0, d, s :: unit)\<rparr> 90 10 =
     gpr_loop \<lparr>be_init = \<lambda>_ _. ret 0, be_reset = ret 0, be_command = \<lambda>_ _ d s. Done (0, d, s)\<rparr> 90 n \<and> n = 6"
  using gpr_read_count [of 90 10 "\<lparr>be_init = \<lambda>_ _. ret 0, be_reset = ret 0, be_command = \<lambda>_ _ d s. Done (0, d, s :: unit)\<rparr>"]
  by auto

lemma unat_power_2: "j < 64 \<Longrightarrow> unat (2 ^ j :: u64) = 2 ^ j"
proof -
  assume j: "j < 64"
  then have "(2 :: nat) ^ j < 2 ^ 64" by (intro power_strict_increasing) simp_all
  then have "unat (of_nat (2 ^ j) :: u64) = 2 ^ j" using j unfolding unsigned_of_nat by (simp add: take_bit_nat_eq_self del: take_bit_64)
  then show ?thesis by simp
qed

lemma lsize_loop_power:
  fixes w :: u64
  assumes "k < 63" and "unat w < 2 ^ k" and "j \<le> k"
  shows "lsize_loop (2 ^ k + w) (2 ^ j) = 2 ^ k"
proof -
  let ?W = "2 ^ k + w"
  have "(2 :: nat) ^ k \<le> 2 ^ 62" using assms(1) by (intro power_increasing) simp_all
  then have small: "2 ^ k + unat w < 2 ^ 64" using assms(2) by simp
  then have W: "unat ?W = 2 ^ k + unat w"
    using assms(1) by (simp add: unat_word_ariths unat_power_2)
  have half: "unat (drop_bit 1 ?W) = (2 ^ k + unat w) div 2" unfolding unsigned_drop_bit_eq W using small by (simp add: drop_bit_eq_div take_bit_nat_eq_self del: take_bit_64)
  have step: "lsize_loop ?W (2 ^ i) = (if i < k then lsize_loop ?W (2 ^ Suc i) else 2 ^ i)" if "i \<le> k" for i
  proof -
    have i: "unat (2 ^ i :: u64) = 2 ^ i" "(2 ^ i :: u64) \<noteq> 0"
      using that assms(1) by (simp_all add: unat_power_2 flip: unat_gt_0)
    have "drop_bit 1 ?W < 2 ^ i \<longleftrightarrow> \<not> i < k"
    proof (cases "i < k")
      case True
      then have "(2 :: nat) ^ Suc i \<le> 2 ^ k" by (intro power_increasing) auto
      with True show ?thesis unfolding word_less_nat_alt half i(1) by simp
    next
      case False
      with that have "i = k" by simp
      with assms(2) show ?thesis unfolding word_less_nat_alt half i(1) by simp
    qed
    then show ?thesis using i(2) by (subst lsize_loop.simps) (simp add: mult.commute)
  qed
  from assms(3) show ?thesis
    by (induction j rule: inc_induct) (simp_all add: step [of k] step [simplified])
qed

lemma and_not_power:
  fixes w :: u64
  assumes "k < 64" and "unat w < 2 ^ k"
  shows "(2 ^ k + w) AND NOT (2 ^ k) = w"
proof -
  have bits: "\<not> bit w n" if "k \<le> n" for n
  proof -
    have "take_bit k w = w" using assms by (simp add: word_unat_eq_iff unsigned_take_bit_eq take_bit_nat_eq_self)
    with that show ?thesis by (metis bit_take_bit_iff not_le)
  qed
  then have "2 ^ k + w = 2 ^ k OR w"
    by (intro disjunctive_add) (auto simp: bit_simps)
  then show ?thesis using bits by (intro bit_word_eqI) (auto simp: bit_simps)
qed

text \<open>The size and the write pointer of the log are decoded from the address register: when the log has
  \<open>2 ^ k\<close> entries and the register holds the write pointer \<open>w\<close> with the bit \<open>2 ^ k\<close> above it, the loop ends
  with the size \<open>2 ^ k\<close> and the mask leaves \<open>w\<close>.\<close>

theorem log_size_and_pointer:
  fixes w :: u64
  assumes "k < 32" and "unat w < 2 ^ k"
  shows "log_size (2 ^ k + w) = 2 ^ k \<and> log_wptr (2 ^ k + w) = w"
  using lsize_loop_power [of k w 0] and_not_power [of k w] assms by (simp add: log_size_def log_wptr_def)

theorem log_size_and_pointer_witness: "log_size (2 ^ 11 + 5) = 2 ^ 11 \<and> log_wptr (2 ^ 11 + 5) = 5"
  using log_size_and_pointer [of 11 5] by simp

text \<open>C37: A debug tool whose simulator has gone away reports success: when every \<open>read\<close> of the socket fails
  or finds the end of the connection, \<open>dmi_read\<close> returns status 0 with the value its variable already had,
  and \<open>dmi_write\<close> returns status 0.\<close>

theorem lost_connection_reports_success:
  assumes "r = None \<or> r = Some []"
  shows "dmi_read (sim_backend net (\<lambda>req s. (int (length req), r, s))) a d st = Some (Done (0, d), st) \<and>
    dmi_write (sim_backend net (\<lambda>req s. (int (length req), r, s))) a d st = Some (Done 0, st)"
  by (simp add: sim_command_no_reply [OF assms] dmi_read_def dmi_write_def dmi_read_poll.simps dmi_write_poll.simps sim_backend_def stored_def)

theorem lost_connection_reports_success_witness:
  "dmi_read (sim_backend \<lparr>sn_socket = 3, sn_gethostbyname = \<lambda>_. True, sn_connect = \<lambda>_ _. 0, sn_strerror = []\<rparr>
       (\<lambda>req s. (int (length req), Some [], s))) 0x11 9
     \<lparr>db_core = 0, db_debug = False, db_out = [], db_err = [], db_file = ([], []), db_junk = \<lambda>_. 0, db_target = ()\<rparr> =
   Some (Done (0, 9), \<lparr>db_core = 0, db_debug = False, db_out = [], db_err = [], db_file = ([], []), db_junk = \<lambda>_. 0, db_target = ()\<rparr>)"
  using lost_connection_reports_success [of "Some []"] by blast
end
