(* ===== verification/Mw_Memory.thy ===== *)
theory Mw_Memory
  imports Mw_Debug
begin

text \<open>
  The commands of the debug tool that read and write the memory of the target.

  The locale \<open>wb_target\<close> extends the contract of a debug target by what its memory window promises: once
  the control register selects all bytes and an increment by eight, each access of the data register
  transfers the 64-bit word at the address register and advances the address.  Memory is indexed by
  bits 3 to 31 of the address, the address lines of the bus.
\<close>

definition cell :: "u64 \<Rightarrow> 29 word" where
  "cell a = ucast (drop_bit 3 a)"

fun store_words :: "(29 word \<Rightarrow> u64) \<Rightarrow> u64 \<Rightarrow> u64 list \<Rightarrow> 29 word \<Rightarrow> u64" where
  "store_words m a [] = m"
| "store_words m a (v # vs) = store_words (m(cell a := v)) (a + 8) vs"

definition fetch_words :: "(29 word \<Rightarrow> u64) \<Rightarrow> u64 \<Rightarrow> nat \<Rightarrow> u64 list" where
  "fetch_words m a n = map (\<lambda>k. m (cell (a + 8 * of_nat k))) [0..<n]"

section \<open>Cells\<close>

lemma cell_add: "cell (a + 8 * of_nat k) = cell a + of_nat k"
proof -
  have "unat (cell (a + 8 * of_nat k)) = ((unat a + 8 * k) mod 2 ^ 64) div 8 mod 2 ^ 29"
    by (simp add: cell_def unsigned_ucast_eq unsigned_drop_bit_eq drop_bit_eq_div take_bit_eq_mod
        unat_word_ariths unsigned_of_nat mod_simps)
  also have "\<dots> = (unat a div 8 + k) mod 2 ^ 29"
  proof -
    have "(y mod 2 ^ 64) div 8 mod 2 ^ 29 = y div 8 mod 2 ^ 29" for y :: nat
    proof -
      have "(y mod 2 ^ 64) div 8 = y div 8 mod 2 ^ 61"
        using drop_bit_take_bit [of 3 64 y] by (simp add: drop_bit_eq_div take_bit_eq_mod del: take_bit_64)
      then show ?thesis by (simp add: mod_mod_cancel)
    qed
    then show ?thesis by (simp add: add.commute)
  qed
  also have "\<dots> = unat (cell a + of_nat k)"
  proof -
    have "unat a div 8 < 18446744073709551616" using unat_lt_64(1) [of a] by linarith
    then show ?thesis
    by (simp add: cell_def unsigned_ucast_eq unsigned_drop_bit_eq drop_bit_eq_div take_bit_eq_mod
        unat_word_ariths unsigned_of_nat mod_simps)
  qed
  finally show ?thesis by (simp add: word_unat_eq_iff)
qed

lemma cell_inj: "j < 2 ^ 29 \<Longrightarrow> k < 2 ^ 29 \<Longrightarrow> cell (a + 8 * of_nat j) = cell (a + 8 * of_nat k) \<longleftrightarrow> j = k"
proof -
  assume "j < 2 ^ 29" "k < 2 ^ 29"
  then have "(of_nat j :: 29 word) = of_nat k \<longleftrightarrow> j = k"
    by (simp add: word_unat_eq_iff unsigned_of_nat take_bit_nat_eq_self)
  then show ?thesis by (simp add: cell_add)
qed

lemma store_words_other:
  "(\<And>k. k < length vs \<Longrightarrow> c \<noteq> cell (a + 8 * of_nat k)) \<Longrightarrow> store_words m a vs c = m c"
proof (induction vs arbitrary: m a)
  case (Cons v vs)
  have "c \<noteq> cell (a + 8 + 8 * of_nat k)" if "k < length vs" for k
    using Cons.prems [of "Suc k"] that by (simp add: algebra_simps)
  moreover have "c \<noteq> cell a" using Cons.prems [of 0] by simp
  then have "(m(cell a := v)) c = m c" by (simp add: fun_upd_apply)
  ultimately show ?case using Cons.IH [of "a + 8" "m(cell a := v)"] by simp
qed simp

lemma store_words_nth:
  "length vs \<le> 2 ^ 29 \<Longrightarrow> k < length vs \<Longrightarrow> store_words m a vs (cell (a + 8 * of_nat k)) = vs ! k"
proof (induction vs arbitrary: m a k)
  case (Cons v vs)
  have shift: "a + 8 * of_nat (Suc j) = a + 8 + 8 * of_nat j" for j by (simp add: algebra_simps)
  show ?case
  proof (cases k)
    case 0
    have "cell a \<noteq> cell (a + 8 + 8 * of_nat j)" if "j < length vs" for j
      using cell_inj [of 0 "Suc j" a] that Cons.prems(1) unfolding shift by simp
    then have "store_words (m(cell a := v)) (a + 8) vs (cell a) = (m(cell a := v)) (cell a)"
      by (intro store_words_other) auto
    with 0 show ?thesis by (simp add: fun_upd_apply)
  next
    case (Suc j)
    with Cons.IH [of j "m(cell a := v)" "a + 8"] Cons.prems show ?thesis by (simp add: shift del: of_nat_Suc)
  qed
qed simp

lemma fetch_store_words: "length vs \<le> 2 ^ 29 \<Longrightarrow> fetch_words (store_words m a vs) a (length vs) = vs"
  by (rule nth_equalityI) (simp_all add: fetch_words_def store_words_nth)


lemma fetch_words_Suc: "fetch_words m a (Suc n) = m (cell a) # fetch_words m (a + 8) n"
proof -
  have "[0..<Suc n] = 0 # map Suc [0..<n]" by (metis upt_conv_Cons map_Suc_upt zero_less_Suc)
  then show ?thesis by (simp add: fetch_words_def algebra_simps comp_def del: upt_Suc)
qed

lemma fetch_words_0 [simp]: "fetch_words m a 0 = []"
  by (simp add: fetch_words_def)

lemma length_fetch_words [simp]: "length (fetch_words m a n) = n"
  by (simp add: fetch_words_def)

text \<open>What \<open>mem_read\<close> prints for the words from an address on.\<close>

fun dump_text :: "u64 \<Rightarrow> u64 list \<Rightarrow> string" where
  "dump_text a [] = []"
| "dump_text a (v # vs) = mem_line a v @ dump_text (a + 8) vs"

section \<open>The memory window\<close>

locale wb_target = dmi_target +
  fixes mode :: "'a \<Rightarrow> bool"
    and adr :: "'a \<Rightarrow> u64"
    and words :: "'a \<Rightarrow> 29 word \<Rightarrow> u64"
  assumes set_ctrl: "mode (wr DBG_WB_CTRL 0x7ff s)" "words (wr DBG_WB_CTRL 0x7ff s) = words s"
    and set_addr: "mode (wr DBG_WB_ADDR a s) = mode s" "adr (wr DBG_WB_ADDR a s) = a"
      "words (wr DBG_WB_ADDR a s) = words s"
    and put_data: "mode s \<Longrightarrow> mode (wr DBG_WB_DATA d s)" "mode s \<Longrightarrow> adr (wr DBG_WB_DATA d s) = adr s + 8"
      "mode s \<Longrightarrow> words (wr DBG_WB_DATA d s) = (words s)(cell (adr s) := d)"
    and get_data: "mode s \<Longrightarrow> mode (snd (rd DBG_WB_DATA s))" "mode s \<Longrightarrow> adr (snd (rd DBG_WB_DATA s)) = adr s + 8"
      "mode s \<Longrightarrow> words (snd (rd DBG_WB_DATA s)) = words s"
      "mode s \<Longrightarrow> fst (rd DBG_WB_DATA s) = words s (cell (adr s))"
begin

lemmas window = set_ctrl set_addr put_data get_data

lemma mem_write_ok:
  assumes "ready (db_target st)"
  shows "\<exists>t. mem_write b a v st = Some (Done (), st\<lparr>db_target := t\<rparr>) \<and> ready t \<and>
    words t = (words (db_target st))(cell a := v)"
  using assms
  by (intro exI [of _ "wr DBG_WB_DATA v (wr DBG_WB_ADDR a (wr DBG_WB_CTRL 0x7ff (db_target st)))"])
    (simp add: mem_write_def run_simps access_ok window)

lemma mem_read_loop_ok:
  "ready (db_target st) \<Longrightarrow> mode (db_target st) \<Longrightarrow> i + int n \<le> INT_MAX \<Longrightarrow>
   \<exists>t. mem_read_loop b a d i n st = Some (Done (), st\<lparr>db_target := t,
        db_out := db_out st @ dump_text a (fetch_words (words (db_target st)) (adr (db_target st)) n)\<rparr>) \<and>
     ready t \<and> words t = words (db_target st)"
proof (induction n arbitrary: a d i st)
  case 0
  then show ?case by (intro exI [of _ "db_target st"]) (simp add: run_simps)
next
  case (Suc n)
  let ?s = "db_target st"
  let ?st = "st\<lparr>db_target := snd (rd DBG_WB_DATA ?s), db_out := db_out st @ mem_line a (words ?s (cell (adr ?s)))\<rparr>"
  have "mem_read_loop b a d i (Suc n) st = mem_read_loop b (a + 8) (words ?s (cell (adr ?s))) (i + 1) n ?st"
    using Suc.prems by (simp add: run_simps access_ok window)
  moreover obtain t where "mem_read_loop b (a + 8) (words ?s (cell (adr ?s))) (i + 1) n ?st =
      Some (Done (), ?st\<lparr>db_target := t,
        db_out := db_out ?st @ dump_text (a + 8) (fetch_words (words ?s) (adr ?s + 8) n)\<rparr>)" "ready t" "words t = words ?s"
    using Suc.IH [of ?st "i + 1" "a + 8" "words ?s (cell (adr ?s))"] Suc.prems
    by (auto simp: access_ok window)
  ultimately show ?case by (intro exI [of _ t]) (simp add: fetch_words_Suc)
qed

lemma mem_read_ok:
  assumes "ready (db_target st)" and "uint n \<le> INT_MAX"
  shows "\<exists>t. mem_read b a n st = Some (Done (), st\<lparr>db_target := t,
        db_out := db_out st @ dump_text a (fetch_words (words (db_target st)) a (unat n))\<rparr>) \<and>
     ready t \<and> words t = words (db_target st)"
proof -
  let ?st = "st\<lparr>db_target := wr DBG_WB_ADDR a (wr DBG_WB_CTRL 0x7ff (db_target st))\<rparr>"
  have "mem_read b a n st = mem_read_loop b a (db_junk st ''u'') 0 (unat n) ?st"
    using assms(1) by (simp add: mem_read_def run_simps access_ok uninit_def)
  moreover have "0 + int (unat n) \<le> INT_MAX" using assms(2) by simp
  ultimately show ?thesis
    using mem_read_loop_ok [of ?st 0 "unat n" a "db_junk st ''u''"] assms(1) by (simp add: access_ok window)
qed

lemma progress_ok: "\<exists>txt1. progress n st = Some (Done (), st\<lparr>db_out := db_out st @ txt1\<rparr>)"
  by (auto simp: progress_def run_simps intro: exI [of _ "[]"])

lemma load_loop_ok:
  "ready (db_target st) \<Longrightarrow> mode (db_target st) \<Longrightarrow> [] \<notin> set cs \<Longrightarrow> count + 8 * int (length cs) \<le> INT_MAX \<Longrightarrow>
   rest = [] \<or> hd rest = [] \<Longrightarrow>
   \<exists>t txt1. load_loop b (cs @ rest) count st =
       Some (Done (count + 8 * int (length cs)), st\<lparr>db_target := t, db_out := db_out st @ txt1\<rparr>) \<and> ready t \<and>
     words t = store_words (words (db_target st)) (adr (db_target st)) (map (\<lambda>c. le_val (take 8 c)) cs)"
proof (induction cs arbitrary: count st)
  case Nil
  then have "load_loop b rest count st = Some (Done count, st)" by (cases rest) (auto simp: run_simps)
  then show ?case using Nil by (intro exI [of _ "db_target st"] exI [of _ "[]"]) simp
next
  case (Cons c cs)
  let ?s = "wr DBG_WB_DATA (le_val (take 8 c)) (db_target st)"
  obtain txt1 where p: "progress (count + 8) (st\<lparr>db_target := ?s\<rparr>) =
      Some (Done (), st\<lparr>db_target := ?s, db_out := db_out st @ txt1\<rparr>)"
    using progress_ok [of "count + 8" "st\<lparr>db_target := ?s\<rparr>"] by auto
  let ?st = "st\<lparr>db_target := ?s, db_out := db_out st @ txt1\<rparr>"
  have step: "load_loop b ((c # cs) @ rest) count st = load_loop b (cs @ rest) (count + 8) ?st"
  proof -
    have "c \<noteq> []" using Cons.prems(3) by auto
    with Cons.prems p show ?thesis by (simp add: run_simps access_ok)
  qed
  obtain t txt2 where "load_loop b (cs @ rest) (count + 8) ?st =
       Some (Done (count + 8 + 8 * int (length cs)), ?st\<lparr>db_target := t, db_out := db_out ?st @ txt2\<rparr>)" "ready t"
     "words t = store_words (words ?s) (adr ?s) (map (\<lambda>c. le_val (take 8 c)) cs)"
    using Cons.IH [of ?st "count + 8"] Cons.prems by (auto simp: access_ok window)
  with step Cons.prems show ?case
    by (intro exI [of _ t] exI [of _ "txt1 @ txt2"]) (simp add: window algebra_simps)
qed

lemma load_ok:
  assumes "ready (db_target st)" and "hf_open fs name = Some (cs @ rest)" and "[] \<notin> set cs"
    and "8 * int (length cs) \<le> INT_MAX" and "rest = [] \<or> hd rest = []"
  shows "\<exists>t txt1. load fs b name a st = Some (Done (), st\<lparr>db_target := t, db_out := db_out st @ txt1\<rparr>) \<and> ready t \<and>
    words t = store_words (words (db_target st)) a (map (\<lambda>c. le_val (take 8 c)) cs)"
proof -
  let ?st = "st\<lparr>db_target := wr DBG_WB_ADDR a (wr DBG_WB_CTRL 0x7ff (db_target st))\<rparr>"
  obtain t txt1 where t: "load_loop b (cs @ rest) 0 ?st =
       Some (Done (8 * int (length cs)), ?st\<lparr>db_target := t, db_out := db_out ?st @ txt1\<rparr>)" "ready t"
     "words t = store_words (words (db_target st)) a (map (\<lambda>c. le_val (take 8 c)) cs)"
    using load_loop_ok [of ?st cs 0 rest] assms by (auto simp: access_ok window)
  have "load fs b name a st = Some (Done (), st\<lparr>db_target := t,
      db_out := db_out st @ txt1 @ hex (of_int (8 * int (length cs))) @ '' done.'' @ [CHR 0x0A]\<rparr>)"
    using assms(1,2) t(1) by (simp add: load_def run_simps access_ok)
  with t(2,3) show ?thesis by blast
qed

lemma save_step:
  assumes "ready (db_target st)" and "mode (db_target st)" and "\<And>k. hf_write fs k = 8" and "8 * int (Suc k) \<le> INT_MAX"
  obtains t txt1 where "ready t" "mode t" "words t = words (db_target st)" "adr t = adr (db_target st) + 8"
    "\<And>sz. save_loop fs b sz d (8 * int k) st =
      (let v = words (db_target st) (cell (adr (db_target st)));
           st' = st\<lparr>db_target := t, db_file := put_bytes (le_bytes 8 v) (db_file st), db_out := db_out st @ txt1\<rparr>
       in if sz \<le> of_nat (8 * Suc k) then Some (Done (8 * int (Suc k)), st') else save_loop fs b sz v (8 * int (Suc k)) st')"
proof -
  let ?s = "snd (rd DBG_WB_DATA (db_target st))" and ?v = "words (db_target st) (cell (adr (db_target st)))"
  let ?st = "st\<lparr>db_target := ?s, db_file := put_bytes (le_bytes 8 ?v) (db_file st)\<rparr>"
  obtain txt1 where p: "progress (8 * int (Suc k)) ?st = Some (Done (), ?st\<lparr>db_out := db_out st @ txt1\<rparr>)"
    using progress_ok [of "8 * int (Suc k)" ?st] by auto
  have c: "8 * int k + 8 = 8 * int (Suc k)" by simp
  have w: "8 + 8 * of_nat k = (8 * of_nat (Suc k) :: u64)" by simp
  have "save_loop fs b sz d (8 * int k) st =
      (let st' = st\<lparr>db_target := ?s, db_file := put_bytes (le_bytes 8 ?v) (db_file st), db_out := db_out st @ txt1\<rparr>
       in if sz \<le> of_nat (8 * Suc k) then Some (Done (8 * int (Suc k)), st') else save_loop fs b sz ?v (8 * int (Suc k)) st')" for sz
    using assms p
    by (subst save_loop.simps) (simp add: c w run_simps access_ok window put_file_def Let_def del: of_nat_Suc le_bytes_numeral)
  with assms that [of ?s txt1] show thesis by (simp add: access_ok window Let_def)
qed

lemma save_loop_ok:
  assumes "\<And>k. hf_write fs k = 8"
  shows "ready (db_target st) \<Longrightarrow> mode (db_target st) \<Longrightarrow> 8 * int (k + Suc m) \<le> INT_MAX \<Longrightarrow>
   \<exists>t txt1. save_loop fs b (of_nat (8 * (k + Suc m))) d (8 * int k) st =
       Some (Done (8 * int (k + Suc m)), st\<lparr>db_target := t, db_file := put_bytes
         (concat (map (le_bytes 8) (fetch_words (words (db_target st)) (adr (db_target st)) (Suc m)))) (db_file st),
         db_out := db_out st @ txt1\<rparr>) \<and>
     ready t \<and> words t = words (db_target st)"
proof (induction m arbitrary: k d st)
  case 0
  have "8 * int (Suc k) \<le> INT_MAX" using 0(3) by simp
  from save_step [OF 0(1,2) assms this, of d] obtain t txt1 where "ready t" "words t = words (db_target st)"
    "\<And>sz. save_loop fs b sz d (8 * int k) st =
      (let v = words (db_target st) (cell (adr (db_target st)));
           st' = st\<lparr>db_target := t, db_file := put_bytes (le_bytes 8 v) (db_file st), db_out := db_out st @ txt1\<rparr>
       in if sz \<le> of_nat (8 * Suc k) then Some (Done (8 * int (Suc k)), st') else save_loop fs b sz v (8 * int (Suc k)) st')"
    by blast
  then show ?case
    by (intro exI [of _ t] exI [of _ txt1]) (simp add: Let_def fetch_words_Suc del: le_bytes_numeral)
next
  case (Suc m)
  have "8 * int (Suc k) \<le> INT_MAX" using Suc.prems(3) by simp
  from save_step [OF Suc.prems(1,2) assms this, of d] obtain t txt1 where
    t: "ready t" "mode t" "words t = words (db_target st)" "adr t = adr (db_target st) + 8"
    and step: "\<And>sz. save_loop fs b sz d (8 * int k) st =
      (let v = words (db_target st) (cell (adr (db_target st)));
           st' = st\<lparr>db_target := t, db_file := put_bytes (le_bytes 8 v) (db_file st), db_out := db_out st @ txt1\<rparr>
       in if sz \<le> of_nat (8 * Suc k) then Some (Done (8 * int (Suc k)), st') else save_loop fs b sz v (8 * int (Suc k)) st')"
    by blast
  define v where "v = words (db_target st) (cell (adr (db_target st)))"
  define st1 where "st1 = st\<lparr>db_target := t, db_file := put_bytes (le_bytes 8 v) (db_file st), db_out := db_out st @ txt1\<rparr>"
  define sz where "sz = (of_nat (8 * (k + Suc (Suc m))) :: u64)"
  have lt: "\<not> sz \<le> of_nat (8 * Suc k)"
  proof -
    have "8 * (k + Suc (Suc m)) < 2 ^ 64" using Suc.prems(3) by (simp add: INT_MAX_def)
    then show ?thesis unfolding sz_def
      by (simp add: word_le_nat_alt unsigned_of_nat take_bit_nat_eq_self del: of_nat_Suc of_nat_add of_nat_mult)
  qed
  have st1t: "db_target st1 = t" by (simp add: st1_def)
  have eq: "of_nat (8 * (Suc k + Suc m)) = sz" unfolding sz_def by simp
  have "8 * int (Suc k + Suc m) \<le> INT_MAX" using Suc.prems(3) by simp
  then obtain t2 txt2 where r: "save_loop fs b sz v (8 * int (Suc k)) st1 =
       Some (Done (8 * int (Suc k + Suc m)), st1\<lparr>db_target := t2, db_file := put_bytes
         (concat (map (le_bytes 8) (fetch_words (words (db_target st)) (adr (db_target st) + 8) (Suc m)))) (db_file st1),
         db_out := db_out st1 @ txt2\<rparr>)" "ready t2" "words t2 = words (db_target st)"
    using Suc.IH [of st1 "Suc k" v, unfolded st1t t(3,4) eq, OF t(1,2)] by blast
  have "save_loop fs b sz d (8 * int k) st = save_loop fs b sz v (8 * int (Suc k)) st1"
    using step [of sz] lt by (simp add: Let_def v_def st1_def del: of_nat_Suc of_nat_mult le_bytes_numeral)
  with r show ?case unfolding sz_def [symmetric]
    by (intro exI [of _ t2] exI [of _ "txt1 @ txt2"])
      (simp add: st1_def v_def fetch_words_Suc [of _ _ "Suc m"] del: le_bytes_numeral)
qed

lemma save_ok:
  assumes "ready (db_target st)" and "hf_create fs name = Some old" and "\<And>k. hf_write fs k = 8"
    and "0 < n" and "8 * int n \<le> INT_MAX"
  shows "\<exists>t txt1. save fs b name a (of_nat (8 * n)) st = Some (Done (), st\<lparr>db_target := t, db_file :=
         put_bytes (concat (map (le_bytes 8) (fetch_words (words (db_target st)) a n))) ([], old), db_out := db_out st @ txt1\<rparr>) \<and>
     ready t \<and> words t = words (db_target st)"
proof -
  obtain m where n: "n = Suc m" using assms(4) by (cases n) auto
  let ?st = "st\<lparr>db_file := ([], old), db_target := wr DBG_WB_ADDR a (wr DBG_WB_CTRL 0x7ff (db_target st))\<rparr>"
  obtain t txt1 where t: "save_loop fs b (of_nat (8 * n)) (db_junk st ''data'') 0 ?st =
       Some (Done (8 * int n), ?st\<lparr>db_target := t, db_file :=
         put_bytes (concat (map (le_bytes 8) (fetch_words (words (db_target st)) a n))) ([], old), db_out := db_out ?st @ txt1\<rparr>)"
     "ready t" "words t = words (db_target st)"
    using save_loop_ok [of fs ?st 0 m "db_junk st ''data''"] assms n by (auto simp: access_ok window simp del: le_bytes_numeral)
  have "save fs b name a (of_nat (8 * n)) st = Some (Done (), st\<lparr>db_target := t, db_file :=
      put_bytes (concat (map (le_bytes 8) (fetch_words (words (db_target st)) a n))) ([], old),
      db_out := db_out st @ txt1 @ hex (of_int (8 * int n)) @ '' done.'' @ [CHR 0x0A]\<rparr>)"
    using assms(1,2) t(1)
    by (simp add: save_def open_file_def run_simps access_ok uninit_def del: le_bytes_numeral of_nat_mult)
  with t(2,3) show ?thesis by blast
qed

end
end
