(* ===== verification/Dmi_Target.thy ===== *)
theory Dmi_Target
  imports Mw_Memory
begin

text \<open>
  The far side of the debug connection in a simulation, so that the debug tool can be verified from end
  to end: the packets of \<open>sim_jtag_socket_c.c\<close>, the shift register of the debug transport module
  (\<open>dmi_dtm_xilinx.vhdl\<close>) at the granularity of one scan (capture, shift, update), and the wishbone debug
  master (\<open>wishbone_debug_master.vhdl\<close>) at the granularity of one register access.

  The number of scans for which an access stays busy is a parameter, as is what the debug registers of
  the cores do.  The memory on the bus is a plain memory of 64-bit words.

  The interpretations \<open>dtm\<close> and \<open>soc\<close> show that the simulation backend of the debug tool over this link
  fulfils the contracts \<open>dmi_target\<close> and \<open>wb_target\<close> of the tool.
\<close>

section \<open>The debug transport module\<close>

record 'd dtm =
  dt_op :: "2 word"
  dt_addr :: byte
  dt_data :: u64
  dt_wait :: nat
  dt_dev :: 'd

record 'd dev_ops =
  dv_rd :: "byte \<Rightarrow> 'd \<Rightarrow> u64 \<times> 'd"
  dv_wr :: "byte \<Rightarrow> u64 \<Rightarrow> 'd \<Rightarrow> 'd"
  dv_delay :: "'d \<Rightarrow> nat"

definition dtm_complete :: "'d dev_ops \<Rightarrow> 'd dtm \<Rightarrow> 'd dtm" where
  "dtm_complete dv s =
     (if dt_op s = 1
      then let (v, d') = dv_rd dv (dt_addr s) (dt_dev s) in s\<lparr>dt_data := v, dt_wait := 0, dt_dev := d'\<rparr>
      else s\<lparr>dt_wait := 0, dt_dev := dv_wr dv (dt_addr s) (dt_data s) (dt_dev s)\<rparr>)"

text \<open>The time between two captures.\<close>

definition dtm_tick :: "'d dev_ops \<Rightarrow> 'd dtm \<Rightarrow> 'd dtm" where
  "dtm_tick dv s =
     (if dt_wait s = 0 then s else if dt_wait s = 1 then dtm_complete dv s else s\<lparr>dt_wait := dt_wait s - 1\<rparr>)"

definition dtm_latch :: "'d dev_ops \<Rightarrow> 2 word \<Rightarrow> byte \<Rightarrow> u64 \<Rightarrow> 'd dtm \<Rightarrow> 'd dtm" where
  "dtm_latch dv op a d s =
     (if (op = 1 \<or> op = 2) \<and> dt_wait s = 0
      then s\<lparr>dt_op := op, dt_addr := a, dt_data := d, dt_wait := Suc (dv_delay dv (dt_dev s))\<rparr> else s)"

definition dtm_status :: "'d dtm \<Rightarrow> u64" where
  "dtm_status s = (if dt_wait s = 0 then 0 else 3)"

definition dtm_scan :: "'d dev_ops \<Rightarrow> bool list \<Rightarrow> 'd dtm \<Rightarrow> bool list \<times> 'd dtm" where
  "dtm_scan dv bits s =
     (map (bit (dtm_status s)) [0..<2] @ map (bit (dt_data s)) [0..<64] @ map (bit (dt_addr s)) [0..<8],
      dtm_tick dv (dtm_latch dv (horner_sum of_bool 2 (take 2 bits)) (horner_sum of_bool 2 (take 8 (drop 66 bits)))
        (horner_sum of_bool 2 (take 64 (drop 2 bits))) s))"

section \<open>The link\<close>

text \<open>One round of the loop of \<open>sim_jtag.vhdl\<close>: a message is received, its bits go through the shift
  register, and the bits that come out are sent back.\<close>

definition sim_link :: "vhpi_codes \<Rightarrow> 'd dev_ops \<Rightarrow> 'd dtm link" where
  "sim_link vh dv req s =
     (case decode_packet vh req (replicate 248 (vhpi0 vh)) of
        Done (n, msg) \<Rightarrow>
          if n = 74 then
            (let (rsp, s') = dtm_scan dv (map (\<lambda>x. x = vhpi1 vh) (take 74 msg)) s
             in case sim_jtag_write_msg vh (replicate MAX_PACKET 0)
                       (map (\<lambda>x. if x then vhpi1 vh else vhpi0 vh) rsp @ replicate 174 (vhpi0 vh)) (slv_enc vh 8 74) of
                  Done reply \<Rightarrow> (int (length req), Some reply, s')
                | _ \<Rightarrow> (- 1, None, s))
          else (- 1, None, s)
      | _ \<Rightarrow> (- 1, None, s))"

lemma horner_bits: "horner_sum of_bool 2 (map (bit w) [0..<LENGTH('a)]) = w" for w :: "'a::len word"
  by (rule bit_word_eqI) (simp add: bit_horner_sum_bit_word_iff)

text \<open>A command over the link is one scan.\<close>

lemma sim_link_command:
  fixes s :: "'d dtm"
  assumes "vhpi0 vh \<noteq> vhpi1 vh"
  shows "sim_command (sim_link vh dv) op addr data s =
    Done (uint (dtm_status s), map_option (\<lambda>_. dt_data s) data,
          dtm_tick dv (dtm_latch dv (ucast op) addr (case data of None \<Rightarrow> 0 | Some v \<Rightarrow> v) s))"
proof -
  let ?d = "case data of None \<Rightarrow> 0 | Some v \<Rightarrow> v" and ?enc = "\<lambda>x. if x then vhpi1 vh else vhpi0 vh"
  let ?bits = "map (bit op) [0..<2] @ map (bit ?d) [0..<64] @ map (bit addr) [0..<8]"
  define s' where "s' = dtm_tick dv (dtm_latch dv (ucast op) addr ?d s)"
  define rsp where "rsp = map (bit (dtm_status s)) [0..<2] @ map (bit (dt_data s)) [0..<64] @ map (bit (dt_addr s)) [0..<8]"
  define in_msg where "in_msg = map ?enc rsp @ replicate 174 (vhpi0 vh)"
  obtain buf where buf: "sim_request op addr ?d = Done (buf, 11)" "length buf = 16"
    and dec: "decode_packet vh (take 11 buf) (replicate 248 (vhpi0 vh)) =
      Done (74, map ?enc ?bits @ drop 74 (replicate 248 (vhpi0 vh)))"
    using decode_request [of "replicate 248 (vhpi0 vh)" op addr ?d vh] by (auto simp del: upt_rec_numeral replicate_numeral)
  have enc: "map (\<lambda>x. x = vhpi1 vh) (take 74 (map ?enc ?bits @ drop 74 (replicate 248 (vhpi0 vh)))) = ?bits"
    using assms by (simp add: comp_def del: upt_rec_numeral replicate_numeral)
  have fields: "take 2 ?bits = map (bit (ucast op :: 2 word)) [0..<2]" "take 64 (drop 2 ?bits) = map (bit ?d) [0..<64]"
    "take 8 (drop 66 ?bits) = map (bit addr) [0..<8]"
    by (auto simp: bit_simps simp del: upt_rec_numeral)
  define bits where "bits = ?bits"
  define msg where "msg = map ?enc ?bits @ drop 74 (replicate 248 (vhpi0 vh))"
  have "dtm_scan dv bits s = (rsp, s')" unfolding bits_def
    unfolding dtm_scan_def fields rsp_def s'_def
    using horner_bits [of "ucast op :: 2 word"] horner_bits [of ?d] horner_bits [of addr] by (simp del: upt_rec_numeral)
  moreover obtain reply where reply: "sim_jtag_write_msg vh (replicate MAX_PACKET 0) in_msg (slv_enc vh 8 74) = Done reply"
    using sim_jtag_write_msg_bits [OF assms, of "replicate MAX_PACKET 0" 74 in_msg]
    by (auto simp: in_msg_def rsp_def simp del: replicate_numeral upt_rec_numeral)
  ultimately have lnk: "sim_link vh dv (take 11 buf) s = (11, Some reply, s')"
    using dec [folded msg_def] enc [folded msg_def bits_def] buf(2)
    by (simp add: sim_link_def in_msg_def del: replicate_numeral)
  have "take 66 in_msg = map ?enc (map (bit (dtm_status s)) [0..<2] @ map (bit (dt_data s)) [0..<64])"
    by (simp add: in_msg_def rsp_def del: upt_rec_numeral replicate_numeral)
  from decode_reply [where lnk = "sim_link vh dv" and s = s, OF assms _ _ _ this reply buf lnk]
  show ?thesis unfolding s'_def
    by (simp add: in_msg_def rsp_def dtm_status_def del: upt_rec_numeral replicate_numeral)
qed


section \<open>The transport module keeps the contract\<close>

definition dtm_ready :: "'d dtm \<Rightarrow> bool" where
  "dtm_ready s \<longleftrightarrow> dt_wait s = 0"

definition dtm_rd :: "'d dev_ops \<Rightarrow> byte \<Rightarrow> 'd dtm \<Rightarrow> u64 \<times> 'd dtm" where
  "dtm_rd dv a s =
     (let (v, d') = dv_rd dv a (dt_dev s)
      in (v, s\<lparr>dt_op := 1, dt_addr := a, dt_data := v, dt_wait := 0, dt_dev := d'\<rparr>))"

definition dtm_wr :: "'d dev_ops \<Rightarrow> byte \<Rightarrow> u64 \<Rightarrow> 'd dtm \<Rightarrow> 'd dtm" where
  "dtm_wr dv a d s = s\<lparr>dt_op := 2, dt_addr := a, dt_data := d, dt_wait := 0, dt_dev := dv_wr dv a d (dt_dev s)\<rparr>"

definition dtm_pending :: "'d dev_ops \<Rightarrow> nat \<Rightarrow> u64 \<Rightarrow> 'd dtm \<Rightarrow> 'd dtm \<Rightarrow> bool" where
  "dtm_pending dv n v t s \<longleftrightarrow>
     dt_wait s = n \<and> t = (if n = 0 then s else dtm_complete dv s) \<and> v = dt_data t"

lemma dtm_complete_wait [simp]:
  "dt_wait (dtm_complete dv s) = 0"
  "dtm_complete dv (s\<lparr>dt_wait := n\<rparr>) = dtm_complete dv s"
  by (simp_all add: dtm_complete_def split: prod.split)

lemma dtm_tick_pending:
  "dt_wait s = Suc n \<Longrightarrow> dtm_pending dv n (dt_data (dtm_complete dv s)) (dtm_complete dv s) (dtm_tick dv s)"
  by (simp add: dtm_pending_def dtm_tick_def)

lemma dtm_complete_latch:
  "dt_wait s = 0 \<Longrightarrow> dtm_complete dv (dtm_latch dv 1 a d s) = snd (dtm_rd dv a s)"
  "dt_wait s = 0 \<Longrightarrow> dtm_complete dv (dtm_latch dv 2 a d s) = dtm_wr dv a d s"
  by (simp_all add: dtm_complete_def dtm_latch_def dtm_rd_def dtm_wr_def split: prod.split)

lemma dtm_rd_data: "dt_data (snd (dtm_rd dv a s)) = fst (dtm_rd dv a s)"
  by (simp add: dtm_rd_def split: prod.split)

lemma sim_dmi_target:
  fixes dv :: "'d dev_ops"
  assumes "vhpi0 vh \<noteq> vhpi1 vh"
  shows "dmi_target (sim_backend net (sim_link vh dv)) dtm_ready (dtm_rd dv) (dtm_wr dv) (dtm_pending dv)"
proof
  fix s :: "'d dtm" and a d
  assume r: "dtm_ready s"
  have w: "dt_wait s = 0" "dtm_status s = 0" using r by (simp_all add: dtm_ready_def dtm_status_def)
  have start: "dt_wait (dtm_latch dv op a d s) = Suc (dv_delay dv (dt_dev s))" if "op = 1 \<or> op = 2" for op
    using that w by (simp add: dtm_latch_def)
  show "\<exists>n rc d' s'. be_command (sim_backend net (sim_link vh dv)) 1 a (Some d) s = Done (rc, d', s') \<and> 0 \<le> rc \<and>
      dtm_pending dv n (fst (dtm_rd dv a s)) (snd (dtm_rd dv a s)) s'"
    using dtm_tick_pending [OF start [of 1], of dv] w dtm_complete_latch(1) [OF w(1), of dv a d] dtm_rd_data [of dv a s]
    by (auto simp: sim_backend_def sim_link_command [OF assms])
  show "\<exists>n v rc d' s'. be_command (sim_backend net (sim_link vh dv)) 2 a (Some d) s = Done (rc, d', s') \<and> 0 \<le> rc \<and>
      dtm_pending dv n v (dtm_wr dv a d s) s'"
    using dtm_tick_pending [OF start [of 2], of dv] w dtm_complete_latch(2) [OF w(1), of dv a d]
    by (auto simp: sim_backend_def sim_link_command [OF assms])
  show "dtm_ready (snd (dtm_rd dv a s))" "dtm_ready (dtm_wr dv a d s)"
    by (simp_all add: dtm_ready_def dtm_rd_def dtm_wr_def split: prod.split)
next
  fix n v and t s :: "'d dtm" and data
  assume p: "dtm_pending dv (Suc n) v t s"
  then have "dtm_latch dv 0 0 x s = s" "dtm_status s = 3" for x by (simp_all add: dtm_latch_def dtm_pending_def dtm_status_def)
  then show "\<exists>d' s'. be_command (sim_backend net (sim_link vh dv)) 0 0 data s = Done (3, d', s') \<and> dtm_pending dv n v t s'"
    using p dtm_tick_pending [of s n dv] by (auto simp: sim_backend_def sim_link_command [OF assms] dtm_pending_def)
next
  fix v and t s :: "'d dtm" and data
  assume p: "dtm_pending dv 0 v t s"
  then have "dtm_latch dv 0 0 x s = s" "dtm_status s = 0" "dtm_tick dv s = s" for x
    by (simp_all add: dtm_latch_def dtm_pending_def dtm_status_def dtm_tick_def)
  with p show "be_command (sim_backend net (sim_link vh dv)) 0 0 data s = Done (0, map_option (\<lambda>_. v) data, t)"
    by (simp add: sim_backend_def sim_link_command [OF assms] dtm_pending_def)
qed

definition ghdl_codes :: vhpi_codes where
  "ghdl_codes = \<lparr>vhpi0 = 2, vhpi1 = 3\<rparr>"

interpretation dtm: dmi_target "sim_backend net (sim_link ghdl_codes dv)" dtm_ready "dtm_rd dv" "dtm_wr dv" "dtm_pending dv"
  for net dv
  by (rule sim_dmi_target) (simp add: ghdl_codes_def)

section \<open>The wishbone debug master\<close>

record 'c wbdm =
  wb_reg_addr :: u64
  wb_reg_ctrl :: "11 word"
  wb_data_latch :: u64
  wb_memory :: "29 word \<Rightarrow> u64"
  wb_core :: 'c

definition decode_autoinc :: "11 word \<Rightarrow> u64" where
  "decode_autoinc ctrl = push_bit (unat (drop_bit 9 ctrl)) 1"

definition wb_advance :: "'c wbdm \<Rightarrow> 'c wbdm" where
  "wb_advance s =
     (if bit (wb_reg_ctrl s) 8 then s\<lparr>wb_reg_addr := wb_reg_addr s + decode_autoinc (wb_reg_ctrl s)\<rparr> else s)"

text \<open>The bytes that the select lines enable.\<close>

definition sel_mask :: "11 word \<Rightarrow> u64" where
  "sel_mask ctrl = foldr (\<lambda>i m. if bit ctrl i then m OR push_bit (8 * i) 0xff else m) [0..<8] 0"

definition wb_read :: "(byte \<Rightarrow> 'c \<Rightarrow> u64 \<times> 'c) \<Rightarrow> byte \<Rightarrow> 'c wbdm \<Rightarrow> u64 \<times> 'c wbdm" where
  "wb_read core_rd a s =
     (if a = 0 then (wb_reg_addr s, s)
      else if a = 1
      then let v = wb_memory s (cell (wb_reg_addr s)) in (v, wb_advance (s\<lparr>wb_data_latch := v\<rparr>))
      else if a = 2 then (ucast (wb_reg_ctrl s), s)
      else if a = 3 then (0, s)
      else let (v, c) = core_rd a (wb_core s) in (v, s\<lparr>wb_core := c\<rparr>))"

definition wb_write :: "(byte \<Rightarrow> u64 \<Rightarrow> 'c \<Rightarrow> 'c) \<Rightarrow> byte \<Rightarrow> u64 \<Rightarrow> 'c wbdm \<Rightarrow> 'c wbdm" where
  "wb_write core_wr a d s =
     (if a = 0 then s\<lparr>wb_reg_addr := d\<rparr>
      else if a = 1
      then let m = sel_mask (wb_reg_ctrl s); c = cell (wb_reg_addr s)
           in wb_advance (s\<lparr>wb_memory := (wb_memory s)(c := (d AND m) OR (wb_memory s c AND NOT m))\<rparr>)
      else if a = 2 then s\<lparr>wb_reg_ctrl := ucast d\<rparr>
      else if a = 3 then s
      else s\<lparr>wb_core := core_wr a d (wb_core s)\<rparr>)"

record 'c core_ops =
  co_rd :: "byte \<Rightarrow> 'c \<Rightarrow> u64 \<times> 'c"
  co_wr :: "byte \<Rightarrow> u64 \<Rightarrow> 'c \<Rightarrow> 'c"
  co_delay :: "'c wbdm \<Rightarrow> nat"

definition soc_ops :: "'c core_ops \<Rightarrow> 'c wbdm dev_ops" where
  "soc_ops co = \<lparr>dv_rd = wb_read (co_rd co), dv_wr = wb_write (co_wr co), dv_delay = co_delay co\<rparr>"

definition soc_mode :: "'c wbdm dtm \<Rightarrow> bool" where
  "soc_mode s \<longleftrightarrow> wb_reg_ctrl (dt_dev s) = 0x7ff"

definition soc_adr :: "'c wbdm dtm \<Rightarrow> u64" where
  "soc_adr s = wb_reg_addr (dt_dev s)"

definition soc_words :: "'c wbdm dtm \<Rightarrow> 29 word \<Rightarrow> u64" where
  "soc_words s = wb_memory (dt_dev s)"

lemma full_access:
  "sel_mask 0x7ff = - 1" "decode_autoinc 0x7ff = 8" "bit (0x7ff :: 11 word) 8"
proof -
  show "sel_mask 0x7ff = - 1"
    by (simp add: sel_mask_def upt_conv_Cons bit_numeral_rec)
  show "decode_autoinc 0x7ff = 8" by code_simp
  show "bit (0x7ff :: 11 word) 8" by (simp add: bit_numeral_rec)
qed

lemma sim_wb_target:
  fixes co :: "'c core_ops"
  assumes "vhpi0 vh \<noteq> vhpi1 vh"
  shows "wb_target (sim_backend net (sim_link vh (soc_ops co))) dtm_ready (dtm_rd (soc_ops co)) (dtm_wr (soc_ops co))
    (dtm_pending (soc_ops co)) soc_mode soc_adr soc_words"
proof (intro wb_target.intro wb_target_axioms.intro sim_dmi_target [OF assms])
qed (auto simp: dtm_rd_def dtm_wr_def soc_ops_def soc_mode_def soc_adr_def soc_words_def wb_read_def wb_write_def
    wb_advance_def full_access DBG_WB_CTRL_def DBG_WB_ADDR_def DBG_WB_DATA_def Let_def split: prod.split)

interpretation soc: wb_target "sim_backend net (sim_link ghdl_codes (soc_ops co))" dtm_ready "dtm_rd (soc_ops co)"
  "dtm_wr (soc_ops co)" "dtm_pending (soc_ops co)" soc_mode soc_adr soc_words
  for net co
  by (rule sim_wb_target) (simp add: ghdl_codes_def)

section \<open>Properties\<close>

text \<open>C4: The debug tool reads and writes the registers of a simulated target from end to end: over the
  packets, the socket and the shift register, for every device and however many scans an access stays
  busy, \<open>dmi_read\<close> returns status 0 and the value of the register, \<open>dmi_write\<close> returns status 0 after the
  effect of the write, the device sees the access exactly once, and nothing is printed.\<close>

theorem dmi_access_over_simulator:
  assumes "vhpi0 vh \<noteq> vhpi1 vh" and "dt_wait (db_target st) = 0"
  shows "(\<exists>t. dmi_read (sim_backend net (sim_link vh dv)) a d st =
        Some (Done (0, fst (dv_rd dv a (dt_dev (db_target st)))), st\<lparr>db_target := t\<rparr>) \<and>
      dt_wait t = 0 \<and> dt_dev t = snd (dv_rd dv a (dt_dev (db_target st)))) \<and>
    (\<exists>t. dmi_write (sim_backend net (sim_link vh dv)) a d st = Some (Done 0, st\<lparr>db_target := t\<rparr>) \<and>
      dt_wait t = 0 \<and> dt_dev t = dv_wr dv a d (dt_dev (db_target st)))"
proof -
  note T = sim_dmi_target [OF assms(1), of net dv]
  have r: "dtm_ready (db_target st)" using assms(2) by (simp add: dtm_ready_def)
  show ?thesis
    using dmi_target.dmi_read_ok [OF T r, of a d] dmi_target.dmi_write_ok [OF T r, of a d]
    by (auto simp: dtm_rd_def dtm_wr_def split: prod.split)
qed

text \<open>A memory of zeros behind a core whose registers read as their number, busy for two scans.\<close>

definition demo_ops :: "unit core_ops" where
  "demo_ops = \<lparr>co_rd = \<lambda>a c. (ucast a, c), co_wr = \<lambda>a d c. c, co_delay = \<lambda>_. 2\<rparr>"

definition demo_run :: "unit wbdm dtm dbg" where
  "demo_run = \<lparr>db_core = 0, db_debug = False, db_out = [], db_err = [], db_file = ([], []), db_junk = \<lambda>_. 0,
     db_target = \<lparr>dt_op = 0, dt_addr = 0, dt_data = 0, dt_wait = 0,
       dt_dev = \<lparr>wb_reg_addr = 0, wb_reg_ctrl = 0, wb_data_latch = 0, wb_memory = \<lambda>_. 0, wb_core = ()\<rparr>\<rparr>\<rparr>"

definition demo_net :: sim_net where
  "demo_net = \<lparr>sn_socket = 3, sn_gethostbyname = \<lambda>_. True, sn_connect = \<lambda>_ _. 0, sn_strerror = []\<rparr>"

lemma demo_ready: "dt_wait (db_target demo_run) = 0"
  by (simp add: demo_run_def)

theorem dmi_access_over_simulator_witness:
  "\<exists>t. dmi_read (sim_backend demo_net (sim_link \<lparr>vhpi0 = 2, vhpi1 = 3\<rparr> (soc_ops demo_ops))) 0x12 7 demo_run =
     Some (Done (0, 0x12), demo_run\<lparr>db_target := t\<rparr>) \<and> dt_wait t = 0"
  using dmi_access_over_simulator [of "\<lparr>vhpi0 = 2, vhpi1 = 3\<rparr>" demo_run demo_net "soc_ops demo_ops" "0x12" 7, OF _ demo_ready]
  by (auto simp: soc_ops_def demo_ops_def wb_read_def demo_run_def)

text \<open>C22: What \<open>mem_write\<close> stores is what \<open>mem_read\<close> shows: over a simulated target both return, and the
  lines printed are those of the old memory with the new word at the address written.\<close>

theorem mem_write_then_read:
  assumes "vhpi0 vh \<noteq> vhpi1 vh" and "dt_wait (db_target st) = 0" and "uint n \<le> INT_MAX"
    and "b = sim_backend net (sim_link vh (soc_ops co))"
  shows "\<exists>st1 st2. mem_write b a v st = Some (Done (), st1) \<and> mem_read b a n st1 = Some (Done (), st2) \<and>
    db_out st2 = db_out st @ dump_text a (fetch_words ((wb_memory (dt_dev (db_target st)))(cell a := v)) a (unat n)) \<and>
    wb_memory (dt_dev (db_target st2)) = (wb_memory (dt_dev (db_target st)))(cell a := v)"
proof -
  note T = sim_wb_target [OF assms(1), of net co, folded assms(4)]
  have r: "dtm_ready (db_target st)" using assms(2) by (simp add: dtm_ready_def)
  obtain t where t: "mem_write b a v st = Some (Done (), st\<lparr>db_target := t\<rparr>)" "dtm_ready t"
    "soc_words t = (soc_words (db_target st))(cell a := v)"
    using wb_target.mem_write_ok [OF T r, of a v] by blast
  obtain t2 where t2: "mem_read b a n (st\<lparr>db_target := t\<rparr>) = Some (Done (), st\<lparr>db_target := t2,
      db_out := db_out st @ dump_text a (fetch_words (soc_words t) a (unat n))\<rparr>)" "soc_words t2 = soc_words t"
    using wb_target.mem_read_ok [OF T, of "st\<lparr>db_target := t\<rparr>" n a] t(2) assms(3) by auto
  show ?thesis
    using t(1,3) t2 by (intro exI [of _ "st\<lparr>db_target := t\<rparr>"] exI [of _ "st\<lparr>db_target := t2,
      db_out := db_out st @ dump_text a (fetch_words (soc_words t) a (unat n))\<rparr>"]) (simp add: soc_words_def)
qed

theorem mem_write_then_read_witness:
  "\<exists>st1 st2. mem_write (sim_backend demo_net (sim_link \<lparr>vhpi0 = 2, vhpi1 = 3\<rparr> (soc_ops demo_ops))) 0x1000 5 demo_run = Some (Done (), st1) \<and>
     mem_read (sim_backend demo_net (sim_link \<lparr>vhpi0 = 2, vhpi1 = 3\<rparr> (soc_ops demo_ops))) 0x1000 1 st1 = Some (Done (), st2) \<and>
     db_out st2 = mem_line 0x1000 5"
  using mem_write_then_read [of "\<lparr>vhpi0 = 2, vhpi1 = 3\<rparr>" demo_run 1 "sim_backend demo_net (sim_link \<lparr>vhpi0 = 2, vhpi1 = 3\<rparr> (soc_ops demo_ops))"
      demo_net demo_ops "0x1000" 5, OF _ demo_ready]
  by (auto simp: INT_MAX_def fetch_words_Suc [of _ _ 0, simplified] fun_upd_apply demo_run_def)

text \<open>C3: Loading a file into the memory of a simulated target and saving as many bytes from the same
  address gives the bytes of the file back: for a file of whole words of eight bytes, each of which is read by one call, both
  commands return, and the saved file starts with the contents of the loaded one.  It has nothing else unless it existed before and was
  longer: \<open>save\<close> does not truncate it, so that its old bytes remain after those that were written.\<close>

theorem load_save_roundtrip:
  assumes "vhpi0 vh \<noteq> vhpi1 vh" and "dt_wait (db_target st) = 0"
    and "hf_open fs name = Some (cs @ rest)" and "\<forall>c \<in> set cs. length c = 8" and "cs \<noteq> []"
    and "rest = [] \<or> hd rest = []" and "8 * int (length cs) \<le> INT_MAX"
    and "hf_create fs name2 = Some old" and "\<And>k. hf_write fs k = 8"
    and "b = sim_backend net (sim_link vh (soc_ops co))"
  shows "\<exists>st1 st2. load fs b name a st = Some (Done (), st1) \<and>
    save fs b name2 a (of_nat (8 * length cs)) st1 = Some (Done (), st2) \<and> file_bytes (db_file st2) = concat cs @ drop (8 * length cs) old"
proof -
  note T = sim_wb_target [OF assms(1), of net co, folded assms(10)]
  have r: "dtm_ready (db_target st)" using assms(2) by (simp add: dtm_ready_def)
  let ?vs = "map (\<lambda>c. le_val (take 8 c)) cs"
  have ne: "[] \<notin> set cs" using assms(4) by auto
  obtain t txt1 where t: "load fs b name a st = Some (Done (), st\<lparr>db_target := t, db_out := db_out st @ txt1\<rparr>)" "dtm_ready t"
    "soc_words t = store_words (soc_words (db_target st)) a ?vs"
    using wb_target.load_ok [OF T r assms(3) ne assms(7,6)] by blast
  let ?st = "st\<lparr>db_target := t, db_out := db_out st @ txt1\<rparr>"
  obtain t2 txt2 where t2: "save fs b name2 a (of_nat (8 * length cs)) ?st = Some (Done (), ?st\<lparr>db_target := t2,
      db_file := put_bytes (concat (map (le_bytes 8) (fetch_words (soc_words t) a (length cs)))) ([], old), db_out := db_out ?st @ txt2\<rparr>)"
    using wb_target.save_ok [OF T, of ?st fs name2 old "length cs" a] t(2) assms(5,7,8,9) by auto
  have "fetch_words (soc_words t) a (length cs) = ?vs"
    using fetch_store_words [of ?vs "soc_words (db_target st)" a] assms(7) t(3) by (simp add: INT_MAX_def)
  moreover have "map (le_bytes 8) ?vs = cs"
  proof -
    have "le_bytes 8 (le_val (take 8 c)) = c" if "c \<in> set cs" for c
      using assms(4) that le_bytes_le_val [of c] by (auto simp del: le_bytes_numeral)
    then show ?thesis by (simp add: map_idI del: le_bytes_numeral)
  qed
  moreover have "length (concat cs) = 8 * length cs" using assms(4) by (simp add: length_concat sum_list_triv cong: map_cong)
  ultimately show ?thesis using t(1) t2 put_bytes_start [of "concat cs" old] by auto
qed

definition demo_fs :: host_fs where
  "demo_fs = \<lparr>hf_open = \<lambda>_. Some [[1, 2, 3, 4, 5, 6, 7, 8], [9, 10, 11, 12, 13, 14, 15, 16], []], hf_create = \<lambda>_. Some (replicate 17 0xff),
     hf_write = \<lambda>_. 8, hf_fwrite = \<lambda>_. 1, hf_strerror = []\<rparr>"

theorem load_save_roundtrip_witness:
  "\<exists>st1 st2. load demo_fs (sim_backend demo_net (sim_link \<lparr>vhpi0 = 2, vhpi1 = 3\<rparr> (soc_ops demo_ops))) ''in'' 0x2000 demo_run =
       Some (Done (), st1) \<and>
     save demo_fs (sim_backend demo_net (sim_link \<lparr>vhpi0 = 2, vhpi1 = 3\<rparr> (soc_ops demo_ops))) ''out'' 0x2000 16 st1 =
       Some (Done (), st2) \<and> file_bytes (db_file st2) = [1, 2, 3, 4, 5, 6, 7, 8, 9, 10, 11, 12, 13, 14, 15, 16, 0xff]"
  using load_save_roundtrip [of "\<lparr>vhpi0 = 2, vhpi1 = 3\<rparr>" demo_run demo_fs "''in''" "[[1, 2, 3, 4, 5, 6, 7, 8], [9, 10, 11, 12, 13, 14, 15, 16]]"
      "[[]]" "''out''" "replicate 17 0xff" "sim_backend demo_net (sim_link \<lparr>vhpi0 = 2, vhpi1 = 3\<rparr> (soc_ops demo_ops))" demo_net demo_ops "0x2000",
      OF _ demo_ready]
  by (auto simp: INT_MAX_def demo_fs_def demo_run_def)
end
