(* ===== verification/Jtag_Cable.thy ===== *)
theory Jtag_Cable
  imports Dmi_Target
begin

text \<open>
  The JTAG backends of the debug tool over a cable.  The locale \<open>jtag_cable\<close> is what \<open>jtag_command\<close> needs of the JTAG library while the
  debug register of 74 bits is selected: ranges of its input bits can be set, shifting exchanges the input bits for those of the
  transport module (\<open>dmi_dtm_xilinx.vhdl\<close>, whose shift register \<open>dmi_dtm_ecp5.vhdl\<close> shares), and ranges of the bits that came out can be
  read.  A register access over the cable then has the effect that it has in a simulation.

  The record \<open>cable\<close> is an instance: a chain with one part, on which the two initialisations select the debug register.
\<close>

section \<open>The contract of the library\<close>

locale jtag_cable =
  fixes uj :: "'s urj"
    and dv :: "'d dev_ops"
    and linked :: "'s \<Rightarrow> bool"
    and bits_in :: "'s \<Rightarrow> bool list"
    and bits_out :: "'s \<Rightarrow> bool list"
    and module_of :: "'s \<Rightarrow> 'd dtm"
  assumes selected: "linked s \<Longrightarrow> uj_active_part uj s \<and> uj_has_instruction uj s \<and> uj_has_register uj s"
    and length_in: "linked s \<Longrightarrow> length (bits_in s) = 74"
    and set_bits: "linked s \<Longrightarrow> lsb \<le> msb \<Longrightarrow> msb < 74 \<Longrightarrow>
      \<exists>s'. uj_set_bits uj v (int msb) (int lsb) s = (0, s') \<and> linked s' \<and> module_of s' = module_of s \<and>
        bits_in s' = take lsb (bits_in s) @ map (bit v) [0..<Suc msb - lsb] @ drop (Suc msb) (bits_in s)"
    and shift_data: "linked s \<Longrightarrow>
      \<exists>s'. uj_shift_data uj s = (0, s') \<and> linked s' \<and> (bits_out s', module_of s') = dtm_scan dv (bits_in s) (module_of s)"
    and get_bits: "linked s \<Longrightarrow> lsb \<le> msb \<Longrightarrow> msb < 74 \<Longrightarrow>
      uj_get_bits uj (int msb) (int lsb) s = horner_sum of_bool 2 (take (Suc msb - lsb) (drop lsb (bits_out s)))"

lemma horner_two: "horner_sum of_bool 2 (map (bit (dtm_status s)) [0..<2]) = dtm_status s"
  by (simp add: dtm_status_def upt_rec bit_numeral_rec)

context jtag_cable
begin

text \<open>A command is one scan, as over the simulated link.\<close>

lemma command_scan:
  assumes "linked s"
  shows "\<exists>s'. jtag_command uj op addr data s = Done (uint (dtm_status (module_of s)), map_option (\<lambda>_. dt_data (module_of s)) data, s') \<and>
    linked s' \<and> module_of s' = dtm_tick dv (dtm_latch dv (ucast op) addr (case data of None \<Rightarrow> 0 | Some v \<Rightarrow> v) (module_of s))"
proof -
  let ?d = "case data of None \<Rightarrow> 0 | Some v \<Rightarrow> v" and ?m = "module_of s"
  let ?bits = "map (bit (ucast op :: u64)) [0..<2] @ map (bit ?d) [0..<64] @ map (bit (ucast addr :: u64)) [0..<8]"
  obtain s1 where s1: "uj_set_bits uj (ucast op) 1 0 s = (0, s1)" "linked s1" "module_of s1 = ?m"
    "bits_in s1 = map (bit (ucast op :: u64)) [0..<2] @ drop 2 (bits_in s)"
    using set_bits [OF assms, of 0 1 "ucast op"] by (auto simp: numeral_2_eq_2 simp del: upt_Suc upt_rec_numeral)
  obtain s2 where s2: "uj_set_bits uj ?d 65 2 s1 = (0, s2)" "linked s2" "module_of s2 = ?m"
    "bits_in s2 = map (bit (ucast op :: u64)) [0..<2] @ map (bit ?d) [0..<64] @ drop 66 (bits_in s1)"
    using set_bits [OF s1(2), of 2 65 ?d] s1(3,4) by (auto simp del: upt_Suc upt_rec_numeral)
  obtain s3 where s3: "uj_set_bits uj (ucast addr) 73 66 s2 = (0, s3)" "linked s3" "module_of s3 = ?m" "bits_in s3 = ?bits"
    using set_bits [OF s2(2), of 66 73 "ucast addr"] s2(3,4) length_in [OF s1(2)] by (auto simp del: upt_Suc upt_rec_numeral)
  obtain s4 where s4: "uj_shift_data uj s3 = (0, s4)" "linked s4" "(bits_out s4, module_of s4) = dtm_scan dv ?bits ?m"
    using shift_data [OF s3(2)] s3(3,4) by auto
  have fields: "take 2 ?bits = map (bit (ucast op :: 2 word)) [0..<2]" "take 64 (drop 2 ?bits) = map (bit ?d) [0..<64]"
    "take 8 (drop 66 ?bits) = map (bit addr) [0..<8]"
    by (auto simp: bit_simps simp del: upt_rec_numeral)
  have scan: "module_of s4 = dtm_tick dv (dtm_latch dv (ucast op) addr ?d ?m)"
    "bits_out s4 = map (bit (dtm_status ?m)) [0..<2] @ map (bit (dt_data ?m)) [0..<64] @ map (bit (dt_addr ?m)) [0..<8]"
    using s4(3) horner_bits [of "ucast op :: 2 word"] horner_bits [of ?d] horner_bits [of addr]
    unfolding dtm_scan_def fields by (simp_all del: upt_rec_numeral)
  have "uj_get_bits uj 1 0 s4 = dtm_status ?m"
    using get_bits [OF s4(2), of 0 1] horner_two [of ?m] by (simp add: scan(2) numeral_2_eq_2 del: upt_Suc upt_rec_numeral)
  moreover have "uj_get_bits uj 65 2 s4 = dt_data ?m"
    using get_bits [OF s4(2), of 2 65] horner_bits [of "dt_data ?m"] by (simp add: scan(2) del: upt_Suc upt_rec_numeral)
  moreover have "sint (ucast (dtm_status ?m) :: u32) = uint (dtm_status ?m)" by (simp add: dtm_status_def)
  ultimately show ?thesis
    using selected [OF assms] s1(1) s2(1) s3(1) s4(1,2) scan(1) by (simp add: jtag_command_def)
qed

end

section \<open>Register accesses\<close>

text \<open>The transport module between two polls: while it is busy a poll brings it one step nearer to the end, and then returns its data.\<close>

lemma poll_module:
  assumes "dtm_pending dv n v t s"
  shows "n = 0 \<Longrightarrow> dtm_status s = 0 \<and> dt_data s = v \<and> dtm_tick dv (dtm_latch dv 0 a d s) = t"
    and "n = Suc k \<Longrightarrow> dtm_status s = 3 \<and> dtm_pending dv k v t (dtm_tick dv (dtm_latch dv 0 a d s))"
  using assms dtm_tick_pending [of s k dv] by (auto simp: dtm_pending_def dtm_status_def dtm_latch_def dtm_tick_def)

lemma start_module:
  assumes "dt_wait s = 0" and "op = 1 \<or> op = 2"
  shows "dtm_status s = 0"
    and "\<exists>n. dtm_pending dv n (dt_data (dtm_complete dv (dtm_latch dv op a d s))) (dtm_complete dv (dtm_latch dv op a d s))
           (dtm_tick dv (dtm_latch dv op a d s))"
  using assms dtm_tick_pending [of "dtm_latch dv op a d s" "dv_delay dv (dt_dev s)" dv]
  by (auto simp: dtm_status_def dtm_latch_def)

context jtag_cable
begin

lemma read_poll_cable:
  assumes "be_command b = jtag_command uj"
  shows "linked (db_target st) \<Longrightarrow> dtm_pending dv n v t (module_of (db_target st)) \<Longrightarrow>
    \<exists>s'. dmi_read_poll b d st = Some (Done (0, v), st\<lparr>db_target := s'\<rparr>) \<and> linked s' \<and> module_of s' = t"
proof (induction n arbitrary: d st)
  case 0
  then show ?case
    using command_scan [OF 0(1), of 0 0 "Some d"] poll_module(1) [OF 0(2) refl, of 0 d]
    by (subst dmi_read_poll.simps) (auto simp: assms stored_def)
next
  case (Suc n)
  obtain s' where s': "jtag_command uj 0 0 (Some d) (db_target st) = Done (3, Some (dt_data (module_of (db_target st))), s')" "linked s'"
    "dtm_pending dv n v t (module_of s')"
    using command_scan [OF Suc.prems(1), of 0 0 "Some d"] poll_module(2) [OF Suc.prems(2) refl, of 0 d] by auto
  from Suc.IH [of "st\<lparr>db_target := s'\<rparr>"] s' show ?case
    by (subst dmi_read_poll.simps) (simp add: assms)
qed

lemma write_poll_cable:
  assumes "be_command b = jtag_command uj"
  shows "linked (db_target st) \<Longrightarrow> dtm_pending dv n v t (module_of (db_target st)) \<Longrightarrow>
    \<exists>s'. dmi_write_poll b st = Some (Done 0, st\<lparr>db_target := s'\<rparr>) \<and> linked s' \<and> module_of s' = t"
proof (induction n arbitrary: st)
  case 0
  then show ?case
    using command_scan [OF 0(1), of 0 0 None] poll_module(1) [OF 0(2) refl, of 0 0]
    by (subst dmi_write_poll.simps) (auto simp: assms)
next
  case (Suc n)
  obtain s' where s': "jtag_command uj 0 0 None (db_target st) = Done (3, None, s')" "linked s'" "dtm_pending dv n v t (module_of s')"
    using command_scan [OF Suc.prems(1), of 0 0 None] poll_module(2) [OF Suc.prems(2) refl, of 0 0] by auto
  from Suc.IH [of "st\<lparr>db_target := s'\<rparr>"] s' show ?case
    by (subst dmi_write_poll.simps) (simp add: assms)
qed

lemma access_cable:
  assumes "be_command b = jtag_command uj" "linked (db_target st)" "dt_wait (module_of (db_target st)) = 0"
  shows "\<exists>s'. dmi_read b a d st = Some (Done (0, fst (dtm_rd dv a (module_of (db_target st)))), st\<lparr>db_target := s'\<rparr>) \<and>
      linked s' \<and> module_of s' = snd (dtm_rd dv a (module_of (db_target st)))"
    and "\<exists>s'. dmi_write b a d st = Some (Done 0, st\<lparr>db_target := s'\<rparr>) \<and> linked s' \<and>
      module_of s' = dtm_wr dv a d (module_of (db_target st))"
proof -
  let ?m = "module_of (db_target st)"
  note fin = dtm_complete_latch [OF assms(3), of dv a d]
  obtain s1 where s1: "jtag_command uj 1 a (Some d) (db_target st) = Done (0, Some (dt_data ?m), s1)" "linked s1"
    "module_of s1 = dtm_tick dv (dtm_latch dv 1 a d ?m)"
    using command_scan [OF assms(2), of 1 a "Some d"] start_module(1) [OF assms(3), of 1] by auto
  obtain n where n: "dtm_pending dv n (dt_data (snd (dtm_rd dv a ?m))) (snd (dtm_rd dv a ?m)) (module_of s1)"
    using start_module(2) [OF assms(3), of 1 dv a d] s1(3) fin by auto
  show "\<exists>s'. dmi_read b a d st = Some (Done (0, fst (dtm_rd dv a ?m)), st\<lparr>db_target := s'\<rparr>) \<and>
      linked s' \<and> module_of s' = snd (dtm_rd dv a ?m)"
    using read_poll_cable [OF assms(1), of "st\<lparr>db_target := s1\<rparr>" n _ _ "dt_data ?m"] n s1(1,2)
    by (auto simp: dmi_read_def assms(1) stored_def dtm_rd_data)
  obtain s2 where s2: "jtag_command uj 2 a (Some d) (db_target st) = Done (0, Some (dt_data ?m), s2)" "linked s2"
    "module_of s2 = dtm_tick dv (dtm_latch dv 2 a d ?m)"
    using command_scan [OF assms(2), of 2 a "Some d"] start_module(1) [OF assms(3), of 2] by auto
  obtain k where k: "dtm_pending dv k (dt_data (dtm_wr dv a d ?m)) (dtm_wr dv a d ?m) (module_of s2)"
    using start_module(2) [OF assms(3), of 2 dv a d] s2(3) fin by auto
  show "\<exists>s'. dmi_write b a d st = Some (Done 0, st\<lparr>db_target := s'\<rparr>) \<and> linked s' \<and> module_of s' = dtm_wr dv a d ?m"
    using write_poll_cable [OF assms(1), of "st\<lparr>db_target := s2\<rparr>" k] k s2(1,2) by (auto simp: dmi_write_def assms(1))
qed

end

section \<open>A chain with one part\<close>

text \<open>The part behind the cable: its registers and instructions as the tool defined them, the instruction that is set and the
  code of the one that was shifted in, the bits of the data register, and the transport module.\<close>

record 'd cable =
  cb_open :: bool
  cb_parts :: nat
  cb_active :: int
  cb_regs :: "string \<rightharpoonup> int"
  cb_insns :: "string \<rightharpoonup> string \<times> string"
  cb_set :: "string option"
  cb_loaded :: "string option"
  cb_in :: "bool list"
  cb_out :: "bool list"
  cb_idcode :: u32
  cb_module :: "'d dtm"

definition cable_urj :: "string \<Rightarrow> 'd dev_ops \<Rightarrow> 'd cable urj" where
  "cable_urj user2 dv =
     \<lparr>uj_chain_alloc = (\<lambda>s. (True, s)),
      uj_usb_probe = (\<lambda>s. (0, ''usb'', s)),
      uj_chain_connect = (\<lambda>name params s. (0, s\<lparr>cb_open := True\<rparr>)),
      uj_set_frequency = (\<lambda>f s. s),
      uj_manual_add = (\<lambda>n s. if cb_open s then (0, s\<lparr>cb_parts := Suc (cb_parts s)\<rparr>) else (- 1, s)),
      uj_parts_len = (\<lambda>s. Some (cb_parts s)),
      uj_parts_set_instruction = (\<lambda>i s. s\<lparr>cb_set := Some i\<rparr>),
      uj_set_active_part = (\<lambda>n s. s\<lparr>cb_active := n\<rparr>),
      uj_active_part = (\<lambda>s. 0 \<le> cb_active s \<and> cb_active s < int (cb_parts s)),
      uj_register_define = (\<lambda>r n s. (0, s\<lparr>cb_regs := (cb_regs s)(r := Some n), cb_in := replicate (nat n) False\<rparr>)),
      uj_instruction_define = (\<lambda>i code r s.
        if cb_regs s r = None then (False, s) else (True, s\<lparr>cb_insns := (cb_insns s)(i := Some (code, r))\<rparr>)),
      uj_set_instruction = (\<lambda>i s. s\<lparr>cb_set := Some i\<rparr>),
      uj_shift_instructions = (\<lambda>s. s\<lparr>cb_loaded := Option.bind (cb_set s) (\<lambda>i. map_option fst (cb_insns s i))\<rparr>),
      uj_shift_data = (\<lambda>s. if cb_loaded s = Some user2
        then let (q, m) = dtm_scan dv (cb_in s) (cb_module s) in (0, s\<lparr>cb_out := q, cb_module := m\<rparr>)
        else (0, s\<lparr>cb_out := map (bit (cb_idcode s)) [0..<32]\<rparr>)),
      uj_get_value = (\<lambda>s. horner_sum of_bool 2 (cb_out s)),
      uj_has_instruction = (\<lambda>s. Option.bind (cb_set s) (cb_insns s) \<noteq> None),
      uj_has_register = (\<lambda>s. Option.bind (Option.bind (cb_set s) (cb_insns s)) (\<lambda>(code, r). cb_regs s r) \<noteq> None),
      uj_set_bits = (\<lambda>v msb lsb s. (0, s\<lparr>cb_in := take (nat lsb) (cb_in s) @ map (bit v) [0..<Suc (nat msb) - nat lsb] @
        drop (Suc (nat msb)) (cb_in s)\<rparr>)),
      uj_get_bits = (\<lambda>msb lsb s. horner_sum of_bool 2 (take (Suc (nat msb) - nat lsb) (drop (nat lsb) (cb_out s)))),
      uj_error = (\<lambda>s. ''error'')\<rparr>"

definition cable_linked :: "string \<Rightarrow> 'd cable \<Rightarrow> bool" where
  "cable_linked user2 s \<longleftrightarrow> 0 \<le> cb_active s \<and> cb_active s < int (cb_parts s) \<and> cb_set s = Some ''USER2'' \<and> cb_loaded s = Some user2 \<and>
     cb_insns s ''USER2'' = Some (user2, ''USER2_REG'') \<and> cb_regs s ''USER2_REG'' = Some 74 \<and> length (cb_in s) = 74"

interpretation part: jtag_cable "cable_urj user2 dv" dv "cable_linked user2" cb_in cb_out cb_module
  for user2 dv
  by unfold_locales (auto simp: cable_urj_def cable_linked_def split: prod.split simp del: upt_Suc upt_rec_numeral replicate_numeral)

text \<open>Connecting to the cable, which the initialisation of both backends starts with.\<close>

definition cable_params :: "string option \<Rightarrow> string list" where
  "cable_params target = split_spaces (dropWhile (\<lambda>ch. ch \<noteq> CHR '' '') (case target of None \<Rightarrow> ''probe'' | Some t \<Rightarrow> t))"

lemma connect_cable:
  assumes "length (cable_params target) \<le> max_params" "\<not> db_debug st"
  shows "common_jtag_init (cable_urj user2 dv) target freq st = Some (Done 0, st\<lparr>db_target := (db_target st)\<lparr>cb_open := True\<rparr>\<rparr>)"
  using assms unfolding common_jtag_init_def Let_def cable_params_def
  by (simp add: run_simps urj_call_def urj_do_def cable_urj_def not_less split_def)

text \<open>With the part at the cable the initialisation of either backend reports its identification and selects the debug register;
  the transport module sees no access.\<close>

lemma urj_steps [run_simps]:
  "f (db_target st) = (r, t) \<Longrightarrow> urj_call f st = Some (Done r, st\<lparr>db_target := t\<rparr>)"
  "urj_do g st = Some (Done (), st\<lparr>db_target := g (db_target st)\<rparr>)"
  "urj_get h st = Some (Done (h (db_target st)), st)"
  by (simp_all add: urj_call_def urj_do_def urj_get_def)

definition id_text :: "u32 \<Rightarrow> string" where
  "id_text v = ''Found device ID: 0x'' @ zero_pad 8 (hex (take_bit 32 (horner_sum of_bool 2 (map (bit v) [0..<32])))) @ [CHR 0x0A]"

definition cable_selected :: "string \<Rightarrow> string \<Rightarrow> 'd cable \<Rightarrow> 'd cable" where
  "cable_selected user2 idcode s =
     s\<lparr>cb_open := True, cb_parts := Suc (cb_parts s), cb_active := 0,
       cb_regs := (cb_regs s)(''IDCODE_REG'' := Some 32, ''USER2_REG'' := Some 74),
       cb_insns := (cb_insns s)(''IDCODE'' := Some (idcode, ''IDCODE_REG''), ''USER2'' := Some (user2, ''USER2_REG'')),
       cb_set := Some ''USER2'', cb_loaded := Some user2, cb_in := replicate 74 False, cb_out := map (bit (cb_idcode s)) [0..<32]\<rparr>"

lemma selected_linked: "cable_linked user2 (cable_selected user2 idcode s)" "cb_module (cable_selected user2 idcode s) = cb_module s"
  by (simp_all add: cable_linked_def cable_selected_def fun_upd_apply)

lemma init_cable:
  assumes "length (cable_params target) \<le> max_params" "\<not> db_debug st"
  shows "bscane2_init (cable_urj ''000011'' dv) target freq st =
      Some (Done 0, st\<lparr>db_target := cable_selected ''000011'' ''001001'' (db_target st),
        db_out := db_out st @ id_text (cb_idcode (db_target st))\<rparr>)"
    and "ecp5_init (cable_urj ''00110010'' dv) target freq st =
      Some (Done 0, st\<lparr>db_target := cable_selected ''00110010'' ''11100000'' (db_target st),
        db_out := db_out st @ id_text (cb_idcode (db_target st))\<rparr>)"
proof -
  have con: "seq (common_jtag_init (cable_urj user2 dv) target freq) f st = f 0 (st\<lparr>db_target := (db_target st)\<lparr>cb_open := True\<rparr>\<rparr>)"
    for user2 f by (rule seq_Done, rule connect_cable [OF assms(1,2)])
  show "bscane2_init (cable_urj ''000011'' dv) target freq st =
      Some (Done 0, st\<lparr>db_target := cable_selected ''000011'' ''001001'' (db_target st),
        db_out := db_out st @ id_text (cb_idcode (db_target st))\<rparr>)"
    unfolding bscane2_init_def con select_user2_def
    by (simp add: run_simps cable_urj_def cable_selected_def id_text_def fun_upd_apply del: upt_rec_numeral replicate_numeral)
  show "ecp5_init (cable_urj ''00110010'' dv) target freq st =
      Some (Done 0, st\<lparr>db_target := cable_selected ''00110010'' ''11100000'' (db_target st),
        db_out := db_out st @ id_text (cb_idcode (db_target st))\<rparr>)"
    unfolding ecp5_init_def con select_user2_def
    by (simp add: run_simps cable_urj_def cable_selected_def id_text_def fun_upd_apply del: upt_rec_numeral replicate_numeral)
qed

section \<open>Properties\<close>

text \<open>The debug tool reads and writes the registers of a target behind a JTAG cable: with either backend, for every JTAG library that
  keeps the contract and however many scans an access stays busy, \<open>dmi_read\<close> returns status 0 and the value of the register,
  \<open>dmi_write\<close> returns status 0 after the effect of the write, the device sees the access exactly once, the debug register stays
  selected, and nothing is printed.\<close>

theorem dmi_access_over_cable:
  assumes "jtag_cable uj dv linked bits_in bits_out module_of" and "b = bscane2_backend uj \<or> b = ecp5_backend uj"
    and "linked (db_target st)" and "dt_wait (module_of (db_target st)) = 0"
  shows "(\<exists>t. dmi_read b a d st = Some (Done (0, fst (dv_rd dv a (dt_dev (module_of (db_target st))))), st\<lparr>db_target := t\<rparr>) \<and>
      linked t \<and> dt_wait (module_of t) = 0 \<and> dt_dev (module_of t) = snd (dv_rd dv a (dt_dev (module_of (db_target st))))) \<and>
    (\<exists>t. dmi_write b a d st = Some (Done 0, st\<lparr>db_target := t\<rparr>) \<and>
      linked t \<and> dt_wait (module_of t) = 0 \<and> dt_dev (module_of t) = dv_wr dv a d (dt_dev (module_of (db_target st))))"
proof -
  have "be_command b = jtag_command uj" using assms(2) by (auto simp: bscane2_backend_def ecp5_backend_def)
  from jtag_cable.access_cable [OF assms(1) this assms(3,4), of a d] show ?thesis
    by (auto simp: dtm_rd_def dtm_wr_def split: prod.split)
qed

text \<open>A part with the demonstration target, as the tool finds it.\<close>

definition demo_cable :: "unit wbdm cable" where
  "demo_cable = \<lparr>cb_open = False, cb_parts = 0, cb_active = 7, cb_regs = \<lambda>_. None, cb_insns = \<lambda>_. None, cb_set = None, cb_loaded = None,
     cb_in = [], cb_out = [], cb_idcode = 0x0362d093, cb_module = db_target demo_run\<rparr>"

definition demo_jtag :: "unit wbdm cable dbg" where
  "demo_jtag = \<lparr>db_core = 0, db_debug = False, db_out = [], db_err = [], db_file = ([], []), db_junk = \<lambda>_. 0, db_target = demo_cable\<rparr>"

theorem dmi_access_over_cable_witness:
  "\<exists>st t. bscane2_init (cable_urj ''000011'' (soc_ops demo_ops)) None 0 demo_jtag = Some (Done 0, st) \<and>
     dmi_read (bscane2_backend (cable_urj ''000011'' (soc_ops demo_ops))) 0x12 7 st = Some (Done (0, 0x12), st\<lparr>db_target := t\<rparr>) \<and>
     dt_wait (cb_module t) = 0"
proof -
  let ?st = "demo_jtag\<lparr>db_target := cable_selected ''000011'' ''001001'' demo_cable, db_out := id_text 0x0362d093\<rparr>"
  have init: "bscane2_init (cable_urj ''000011'' (soc_ops demo_ops)) None 0 demo_jtag = Some (Done 0, ?st)"
    using init_cable(1) [of None demo_jtag] by (simp add: cable_params_def demo_jtag_def demo_cable_def)
  have "dt_wait (cb_module (db_target ?st)) = 0" "cable_linked ''000011'' (db_target ?st)"
    using demo_ready by (simp_all add: selected_linked demo_cable_def)
  from dmi_access_over_cable [OF part.jtag_cable_axioms disjI1 [OF refl] this(2,1), of "soc_ops demo_ops" "0x12" 7]
  show ?thesis using init
    by (auto simp: soc_ops_def demo_ops_def wb_read_def selected_linked demo_cable_def demo_run_def)
qed

end
