(* ===== verification/Mw_Main.thy ===== *)
theory Mw_Main
  imports Mw_Debug
begin

text \<open>
  The debug tool (\<open>scripts/mw_debug/mw_debug.c\<close>), third part: the options and the commands of the
  command line.

  \<open>getopt_long\<close> is not modelled: its successive results (the option character and \<open>optarg\<close>, \<open>None\<close> for
  a null pointer) and the arguments that are left from \<open>optind\<close> on are arguments of \<open>mw_main\<close>.
\<close>

section \<open>Usage\<close>

definition usage_lines :: "string \<Rightarrow> string list" where
  "usage_lines cmd =
    [''Usage: '' @ cmd @ '' -b <jtag|ecp5|sim> [-c core#] <command> <args>'',
     '''',
     '' CPU core:'',
     ''  start'',
     ''  stop'',
     ''  step'',
     ''  creset'' @ [CHR 0x09, CHR 0x09, CHR 0x09] @ ''core reset'',
     ''  icreset'' @ [CHR 0x09, CHR 0x09, CHR 0x09] @ ''icache reset'',
     '''',
     '' Memory:'',
     ''  mr <hex addr> [count]'',
     ''  mw <hex addr> <hex value>'',
     ''  load <file> [addr]'' @ [CHR 0x09, CHR 0x09] @ ''If omitted address is 0'',
     ''  save <file> <addr> <size>'',
     '''',
     '' Registers:'',
     ''  gpr <reg> [count]'',
     ''  status'',
     '''',
     '' Core logging:'',
     ''  lstart'' @ [CHR 0x09, CHR 0x09, CHR 0x09] @ ''start logging'',
     ''  lstop'' @ [CHR 0x09, CHR 0x09, CHR 0x09] @ ''stop logging'',
     ''  ldump <file>'' @ [CHR 0x09, CHR 0x09, CHR 0x09] @ ''dump log to file'',
     ''  ltrig '' @ [CHR 0x09, CHR 0x09, CHR 0x09] @ ''show logging stop trigger status'',
     ''  ltrig off '' @ [CHR 0x09, CHR 0x09, CHR 0x09] @ ''clear logging stop trigger address'',
     ''  ltrig <addr>'' @ [CHR 0x09, CHR 0x09, CHR 0x09] @ ''set logging stop trigger address'',
     ''  mtrig '' @ [CHR 0x09, CHR 0x09, CHR 0x09] @ ''show logging stop trigger status'',
     ''  mtrig off '' @ [CHR 0x09, CHR 0x09, CHR 0x09] @ ''clear logging stop trigger address'',
     ''  mtrig <addr>'' @ [CHR 0x09, CHR 0x09, CHR 0x09] @ ''set logging stop trigger address'',
     '''',
     '' JTAG:'',
     ''  dmiread <hex addr>'',
     ''  dmiwrite <hex addr> <hex value>'',
     ''  quit'']"

definition usage :: "string \<Rightarrow> ('s, 'a) prog" where
  "usage cmd = seq (err (concat (map (\<lambda>l. l @ [CHR 0x0A]) (usage_lines cmd)))) (\<lambda>_. halt 1)"

section \<open>Options\<close>

datatype backend_kind = Sim_Backend | Bscane2_Backend | Ecp5_Backend

record mw_opts =
  mo_backend :: "backend_kind option"
  mo_target :: "string option"
  mo_freq :: int

definition set_core :: "u32 \<Rightarrow> ('s, unit) prog" where
  "set_core n st = Some (Done (), st\<lparr>db_core := n\<rparr>)"

definition set_debug :: "('s, unit) prog" where
  "set_debug st = Some (Done (), st\<lparr>db_debug := True\<rparr>)"

definition backend_of_name :: "string \<Rightarrow> backend_kind option" where
  "backend_of_name s =
     (if s = ''sim'' then Some Sim_Backend
      else if s = ''jtag'' \<or> s = ''bscane2'' then Some Bscane2_Backend
      else if s = ''ecp5'' then Some Ecp5_Backend
      else None)"

definition option_step :: "string \<Rightarrow> char \<Rightarrow> string option \<Rightarrow> mw_opts \<Rightarrow> ('s, mw_opts) prog" where
  "option_step progname ch optarg mo =
     (if ch = CHR ''c'' then
        (case optarg of None \<Rightarrow> undef
         | Some a \<Rightarrow> seq (set_core (host_atoi a)) (\<lambda>_.
             if host_atoi a \<ge> 15
             then seq (err (''Core number out of range (max 14)'' @ [CHR 0x0A])) (\<lambda>_. halt 1) else ret mo))
      else if ch = CHR ''h'' then usage progname
      else if ch = CHR ''b'' then
        (case optarg of None \<Rightarrow> undef
         | Some a \<Rightarrow> (case backend_of_name a of
               None \<Rightarrow> seq (err (''Unknown backend '' @ a @ [CHR 0x0A])) (\<lambda>_. halt 1)
             | Some k \<Rightarrow> ret (mo\<lparr>mo_backend := Some k\<rparr>)))
      else if ch = CHR ''t'' then ret (mo\<lparr>mo_target := optarg\<rparr>)
      else if ch = CHR ''s'' then
        (case optarg of None \<Rightarrow> undef
         | Some a \<Rightarrow> if host_atoi a = 0
             then seq (err (''Bad frequency '' @ a @ [CHR 0x0A])) (\<lambda>_. halt 1)
             else ret (mo\<lparr>mo_freq := sint (host_atoi a)\<rparr>))
      else if ch = CHR ''d'' then seq set_debug (\<lambda>_. ret mo)
      else ret mo)"

fun run_options :: "string \<Rightarrow> (char \<times> string option) list \<Rightarrow> mw_opts \<Rightarrow> ('s, mw_opts) prog" where
  "run_options progname [] mo = ret mo"
| "run_options progname ((ch, a) # rest) mo = seq (option_step progname ch a mo) (\<lambda>mo'. run_options progname rest mo')"

section \<open>Commands\<close>

text \<open>A test of the first character of an argument, which is NUL for the empty one.\<close>

definition first_is :: "(char \<Rightarrow> bool) \<Rightarrow> string \<Rightarrow> bool" where
  "first_is P s \<longleftrightarrow> s \<noteq> [] \<and> P (hd s)"

fun run_commands :: "host_fs \<Rightarrow> 's backend \<Rightarrow> string \<Rightarrow> string list \<Rightarrow> ('s, unit) prog" where
  "run_commands fs b argv0 [] = ret ()"
| "run_commands fs b argv0 (cmd # args) =
     (if cmd = ''dmiread'' then
        (case args of [] \<Rightarrow> usage argv0
         | a # rest \<Rightarrow>
             let addr = ucast (host_strtoul 16 a) :: byte
             in seq (uninit ''data'') (\<lambda>j. seq (dmi_read b addr j) (\<lambda>(_, v).
                seq (out (zero_pad 2 (hex (ucast addr)) @ '': '' @ zero_pad 16 (hex v) @ [CHR 0x0A])) (\<lambda>_.
                run_commands fs b argv0 rest))))
      else if cmd = ''dmiwrite'' then
        (case args of
           a # v # rest \<Rightarrow> seq (dmi_write b (ucast (host_strtoul 16 a)) (host_strtoul 16 v)) (\<lambda>_.
             run_commands fs b argv0 rest)
         | _ \<Rightarrow> usage argv0)
      else if cmd = ''creset'' then seq (core_reset b) (\<lambda>_. run_commands fs b argv0 args)
      else if cmd = ''icreset'' then seq (icache_reset b) (\<lambda>_. run_commands fs b argv0 args)
      else if cmd = ''stop'' then seq (core_stop b) (\<lambda>_. run_commands fs b argv0 args)
      else if cmd = ''start'' then seq (core_start b) (\<lambda>_. run_commands fs b argv0 args)
      else if cmd = ''step'' then seq (core_step b) (\<lambda>_. run_commands fs b argv0 args)
      else if cmd = ''quit'' then seq (dmi_write b 0xff 0) (\<lambda>_. run_commands fs b argv0 args)
      else if cmd = ''status'' then run_commands fs b argv0 args
      else if cmd = ''mr'' then
        (case args of [] \<Rightarrow> usage argv0
         | a # rest \<Rightarrow>
             (case rest of
                n # rest' \<Rightarrow>
                  if first_is host_isxdigit n
                  then seq (mem_read b (host_strtoul 16 a) (host_strtoul 16 n)) (\<lambda>_. run_commands fs b argv0 rest')
                  else seq (mem_read b (host_strtoul 16 a) 1) (\<lambda>_. run_commands fs b argv0 rest)
              | [] \<Rightarrow> seq (mem_read b (host_strtoul 16 a) 1) (\<lambda>_. run_commands fs b argv0 rest)))
      else if cmd = ''mw'' then
        (case args of
           a # v # rest \<Rightarrow> seq (mem_write b (host_strtoul 16 a) (host_strtoul 16 v)) (\<lambda>_. run_commands fs b argv0 rest)
         | _ \<Rightarrow> usage argv0)
      else if cmd = ''load'' then
        (case args of [] \<Rightarrow> usage argv0
         | name # rest \<Rightarrow>
             (case rest of
                a # rest' \<Rightarrow>
                  if first_is host_isxdigit a
                  then seq (load fs b name (host_strtoul 16 a)) (\<lambda>_. run_commands fs b argv0 rest')
                  else seq (load fs b name 0) (\<lambda>_. run_commands fs b argv0 rest)
              | [] \<Rightarrow> seq (load fs b name 0) (\<lambda>_. run_commands fs b argv0 rest)))
      else if cmd = ''save'' then
        (case args of
           name # a # n # rest \<Rightarrow> seq (save fs b name (host_strtoul 16 a) (host_strtoul 16 n)) (\<lambda>_.
             run_commands fs b argv0 rest)
         | _ \<Rightarrow> usage argv0)
      else if cmd = ''gpr'' then
        (case args of [] \<Rightarrow> usage argv0
         | r # rest \<Rightarrow>
             (case rest of
                n # rest' \<Rightarrow>
                  if first_is host_isdigit n
                  then seq (gpr_read b (host_strtoul 10 r) (host_strtoul 10 n)) (\<lambda>_. run_commands fs b argv0 rest')
                  else seq (gpr_read b (host_strtoul 10 r) 1) (\<lambda>_. run_commands fs b argv0 rest)
              | [] \<Rightarrow> seq (gpr_read b (host_strtoul 10 r) 1) (\<lambda>_. run_commands fs b argv0 rest)))
      else if cmd = ''lstart'' then seq (log_start b) (\<lambda>_. run_commands fs b argv0 args)
      else if cmd = ''lstop'' then seq (log_stop b) (\<lambda>_. run_commands fs b argv0 args)
      else if cmd = ''ldump'' then
        (case args of [] \<Rightarrow> usage argv0
         | name # rest \<Rightarrow> seq (log_dump fs b name) (\<lambda>_. run_commands fs b argv0 rest))
      else if cmd = ''ltrig'' then
        (case args of [] \<Rightarrow> seq (ltrig_show b) (\<lambda>_. run_commands fs b argv0 [])
         | a # rest \<Rightarrow>
             if a = ''off'' then seq (ltrig_off b) (\<lambda>_. run_commands fs b argv0 rest)
             else seq (ltrig_set b (host_strtoul 16 a)) (\<lambda>_. run_commands fs b argv0 rest))
      else if cmd = ''mtrig'' then
        (case args of [] \<Rightarrow> seq (mtrig_show b) (\<lambda>_. run_commands fs b argv0 [])
         | a # rest \<Rightarrow>
             if a = ''off'' then seq (mtrig_off b) (\<lambda>_. run_commands fs b argv0 rest)
             else seq (mtrig_set b (host_strtoul 16 a)) (\<lambda>_. run_commands fs b argv0 rest))
      else seq (err (''Unknown command '' @ cmd @ [CHR 0x0A])) (\<lambda>_. usage argv0))"

declare run_commands.simps(2) [simp del]

section \<open>The program\<close>

definition mw_main ::
  "host_fs \<Rightarrow> (backend_kind \<Rightarrow> 's backend) \<Rightarrow> string \<Rightarrow> (char \<times> string option) list \<Rightarrow> string list \<Rightarrow> ('s, int) prog" where
  "mw_main fs bes progname opts args =
     seq (run_options progname opts \<lparr>mo_backend = None, mo_target = None, mo_freq = 0\<rparr>) (\<lambda>mo.
     let b = bes (case mo_backend mo of None \<Rightarrow> Bscane2_Backend | Some k \<Rightarrow> k)
     in seq (be_init b (mo_target mo) (mo_freq mo)) (\<lambda>rc.
        if rc < 0 then halt 1
        else seq (run_commands fs b progname args) (\<lambda>_.
             seq (core_status b) (\<lambda>_. ret 0))))"


section \<open>Options and registers\<close>

lemma seq_Done_iff:
  "seq p f st = Some (Done y, st'') \<longleftrightarrow> (\<exists>x st'. p st = Some (Done x, st') \<and> f x st' = Some (Done y, st''))"
  by (auto simp: seq_def split: option.split outcome.split prod.split)

lemma option_step_core:
  "option_step progname ch a mo st = Some (Done mo', st') \<Longrightarrow> db_core st < 15 \<Longrightarrow> db_core st' < 15"
  by (auto simp: option_step_def seq_Done_iff set_core_def set_debug_def usage_def run_simps
      split: if_splits option.splits)

lemma run_options_core:
  "run_options progname opts mo st = Some (Done mo', st') \<Longrightarrow> db_core st < 15 \<Longrightarrow> db_core st' < 15"
proof (induction progname opts mo arbitrary: st rule: run_options.induct)
  case (2 progname ch a rest mo)
  then show ?case by (auto simp: seq_Done_iff dest: option_step_core)
qed (simp add: run_simps)

lemma core_register:
  fixes core :: u32
  assumes "core < 15" and "i < 16"
  shows "unat (ucast (of_nat (16 + i) + push_bit 4 core) :: byte) = 16 + 16 * unat core + i"
proof -
  have c: "unat core < 15" using assms(1) by (simp add: word_less_nat_alt)
  have "unat (of_nat (16 + i) + push_bit 4 core) = 16 + i + 16 * unat core"
    using c assms(2) by (simp add: unat_word_ariths push_bit_eq_mult unsigned_of_nat take_bit_nat_eq_self)
  then show ?thesis
    using c assms(2) by (simp add: unsigned_ucast_eq take_bit_nat_eq_self algebra_simps)
qed

text \<open>C27: The options keep the number of the core in range, and then the registers of the core have the
  addresses \<open>16 + 16 * core\<close> to \<open>25 + 16 * core\<close> of the debug bus: no address is truncated, two cores never
  share a register, and none is a register of the memory window or the address that ends a simulation.\<close>

theorem options_keep_core_in_range:
  assumes "run_options progname opts mo st = Some (Done mo', st')" and "db_core st < 15"
  shows "db_core st' < 15 \<and>
    map (\<lambda>reg. unat (reg (db_core st')))
      [DBG_CORE_CTRL, DBG_CORE_STAT, DBG_CORE_NIA, DBG_CORE_MSR, DBG_CORE_GSPR_INDEX, DBG_CORE_GSPR_DATA,
       DBG_LOG_ADDR, DBG_LOG_DATA, DBG_LOG_TRIGGER, DBG_LOG_MTRIGGER] =
    map (\<lambda>i. 16 + 16 * unat (db_core st') + i) [0..<10]"
proof -
  have c: "db_core st' < 15" using run_options_core [OF assms] .
  note R = core_register [OF c, of 0] core_register [OF c, of 1] core_register [OF c, of 2] core_register [OF c, of 3]
    core_register [OF c, of 4] core_register [OF c, of 5] core_register [OF c, of 6] core_register [OF c, of 7]
    core_register [OF c, of 8] core_register [OF c, of 9]
  show ?thesis using c R
    by (simp add: upt_conv_Cons DBG_CORE_CTRL_def DBG_CORE_STAT_def DBG_CORE_NIA_def DBG_CORE_MSR_def
        DBG_CORE_GSPR_INDEX_def DBG_CORE_GSPR_DATA_def DBG_LOG_ADDR_def DBG_LOG_DATA_def DBG_LOG_TRIGGER_def
        DBG_LOG_MTRIGGER_def)
qed

theorem options_keep_core_in_range_witness:
  "(\<exists>mo' st'. run_options ''mw_debug'' [(CHR ''c'', Some ''3'')] \<lparr>mo_backend = None, mo_target = None, mo_freq = 0\<rparr>
      \<lparr>db_core = 0, db_debug = False, db_out = [], db_err = [], db_file = ([], []), db_junk = \<lambda>_. 0, db_target = ()\<rparr> =
      Some (Done mo', st') \<and> db_core st' = 3 \<and> unat (DBG_CORE_NIA (db_core st')) = 66)"
proof -
  let ?mo = "\<lparr>mo_backend = None, mo_target = None, mo_freq = 0\<rparr>"
  let ?st = "\<lparr>db_core = 0, db_debug = False, db_out = [], db_err = [], db_file = ([], []), db_junk = \<lambda>_. 0, db_target = ()\<rparr>"
  have "host_atoi ''3'' = 3"
    by (simp add: host_atoi_def scan_number_def digits_val_def in_base_def digit_val_def host_isspace_def)
  then have "run_options ''mw_debug'' [(CHR ''c'', Some ''3'')] ?mo ?st = Some (Done ?mo, ?st\<lparr>db_core := 3\<rparr>)"
    by (simp add: option_step_def set_core_def run_simps)
  with options_keep_core_in_range [OF this] show ?thesis by (auto simp: upt_conv_Cons)
qed
end
