(* ===== verification/Mw_Session.thy ===== *)
theory Mw_Session
  imports Jtag_Cable Mw_Main
begin

text \<open>
  Whole sessions of the debug tool do not depend on the way to the target.  \<open>same R p q\<close> says that two programs, run over targets
  related by \<open>R\<close>, both return, with the same outcome and the same texts and files, and with related targets again; it is a congruence
  for all statements of the tool.  The locale \<open>same_access\<close> asks for it for a register access only, and gives it for
  every command and every sequence of commands.  The simulated debug port and a JTAG cable in front of equal transport modules are an instance.
\<close>

section \<open>Runs that agree\<close>

definition agree :: "('s \<Rightarrow> 't \<Rightarrow> bool) \<Rightarrow> 's dbg \<Rightarrow> 't dbg \<Rightarrow> bool" where
  "agree R st st' \<longleftrightarrow> R (db_target st) (db_target st') \<and> db_core st = db_core st' \<and> db_debug st = db_debug st' \<and> db_out st = db_out st' \<and>
     db_err st = db_err st' \<and> db_file st = db_file st' \<and> db_junk st = db_junk st'"

definition same :: "('s \<Rightarrow> 't \<Rightarrow> bool) \<Rightarrow> ('s, 'a) prog \<Rightarrow> ('t, 'a) prog \<Rightarrow> bool" where
  "same R p q \<longleftrightarrow> (\<forall>st st'. agree R st st' \<longrightarrow> (\<exists>x s s'. p st = Some (x, s) \<and> q st' = Some (x, s') \<and> agree R s s'))"

named_theorems same_intros \<open>congruence rules for runs that agree\<close>

lemma same_basic [same_intros]:
  "same R (ret x) (ret x)" "same R (halt n) (halt n)" "same R undef undef" "same R (out t) (out t)" "same R (err t) (err t)"
  "same R get_core get_core" "same R (uninit v) (uninit v)" "same R (put_file k w) (put_file k w)"
  "same R (open_file old) (open_file old)"
  by (simp_all add: same_def agree_def run_simps get_core_def uninit_def put_file_def open_file_def)

lemma same_seq [same_intros]:
  assumes "same R p q" and "\<And>x. same R (f x) (g x)"
  shows "same R (seq p f) (seq q g)"
  unfolding same_def
proof (intro allI impI)
  fix st st' assume "agree R st st'"
  with assms(1) obtain x s s' where "p st = Some (x, s)" "q st' = Some (x, s')" "agree R s s'" unfolding same_def by blast
  with assms(2) show "\<exists>x s s'. seq p f st = Some (x, s) \<and> seq q g st' = Some (x, s') \<and> agree R s s'"
    by (cases x) (auto simp: seq_def same_def)
qed

lemma same_if [same_intros]:
  "(c \<Longrightarrow> same R p q) \<Longrightarrow> (\<not> c \<Longrightarrow> same R p' q') \<Longrightarrow> same R (if c then p else p') (if c then q else q')"
  by simp

lemma same_pair [same_intros]: "(\<And>x y. same R (f x y) (g x y)) \<Longrightarrow> same R (case z of (x, y) \<Rightarrow> f x y) (case z of (x, y) \<Rightarrow> g x y)"
  by (cases z) simp

lemma same_list [same_intros]:
  "(xs = [] \<Longrightarrow> same R p q) \<Longrightarrow> (\<And>y ys. xs = y # ys \<Longrightarrow> same R (f y ys) (g y ys)) \<Longrightarrow>
   same R (case xs of [] \<Rightarrow> p | y # ys \<Rightarrow> f y ys) (case xs of [] \<Rightarrow> q | y # ys \<Rightarrow> g y ys)"
  by (cases xs) simp_all

lemma same_option [same_intros]:
  "(z = None \<Longrightarrow> same R p q) \<Longrightarrow> (\<And>x. z = Some x \<Longrightarrow> same R (f x) (g x)) \<Longrightarrow>
   same R (case z of None \<Rightarrow> p | Some x \<Rightarrow> f x) (case z of None \<Rightarrow> q | Some x \<Rightarrow> g x)"
  by (cases z) simp_all

lemma same_helpers [same_intros]:
  "same R (check r t) (check r t)" "same R (open_failed fs w n) (open_failed fs w n)" "same R (progress c) (progress c)"
  "same R (usage t) (usage t)"
  unfolding check_def open_failed_def progress_def usage_def by (intro same_intros)+

section \<open>Commands\<close>

locale same_access =
  fixes R :: "'s \<Rightarrow> 't \<Rightarrow> bool" and b :: "'s backend" and b' :: "'t backend"
  assumes access_read [same_intros]: "same R (dmi_read b a d) (dmi_read b' a d)"
    and access_write [same_intros]: "same R (dmi_write b a d) (dmi_write b' a d)"
begin

lemma checked [same_intros]: "same R (check_read b a d t) (check_read b' a d t)" "same R (check_write b a d t) (check_write b' a d t)"
  unfolding check_read_def check_write_def by (intro same_intros)+

lemma core_commands [same_intros]:
  "same R (core_stop b) (core_stop b')" "same R (core_start b) (core_start b')" "same R (core_reset b) (core_reset b')"
  "same R (core_step b) (core_step b')" "same R (icache_reset b) (icache_reset b')"
  unfolding core_stop_def core_start_def core_reset_def core_step_def icache_reset_def by (intro same_intros)+

lemma gpr_loop_same [same_intros]: "same R (gpr_loop b r n) (gpr_loop b' r n)"
proof (induction n arbitrary: r)
  case (Suc n)
  then show ?case unfolding gpr_loop.simps gpr_step_def by (intro same_intros)
qed (simp add: same_intros)

lemma gpr_read_same [same_intros]: "same R (gpr_read b r n) (gpr_read b' r n)"
  unfolding gpr_read_def Let_def by (intro same_intros)

lemma mem_read_loop_same [same_intros]: "same R (mem_read_loop b a d i n) (mem_read_loop b' a d i n)"
proof (induction n arbitrary: a d i)
  case (Suc n)
  then show ?case unfolding mem_read_loop.simps by (intro same_intros)
qed (simp add: same_intros)

lemma memory_commands [same_intros]:
  "same R (mem_read b a n) (mem_read b' a n)" "same R (mem_write b a v) (mem_write b' a v)"
  unfolding mem_read_def mem_write_def by (intro same_intros)+

lemma load_loop_same [same_intros]: "same R (load_loop b cs n) (load_loop b' cs n)"
proof (induction cs arbitrary: n)
  case (Cons c cs)
  then show ?case unfolding load_loop.simps by (intro same_intros)
qed (simp add: same_intros)

lemma save_loop_same [same_intros]: "same R (save_loop fs b sz d n) (save_loop fs b' sz d n)"
proof (induction "nat (INT_MAX - n)" arbitrary: d n rule: less_induct)
  case less
  have "same R (save_loop fs b sz v (n + 8)) (save_loop fs b' sz v (n + 8))" if "\<not> INT_MAX < n + 8" for v
    using that by (intro less) simp
  then show ?case unfolding save_loop.simps [of _ _ _ d n] by (intro same_intros) simp
qed

end


text \<open>The report at the end depends on the debug option.\<close>

definition core_report :: "'s backend \<Rightarrow> bool \<Rightarrow> ('s, unit) prog" where
  "core_report b debug =
     seq get_core (\<lambda>core.
     seq (uninit ''stat'') (\<lambda>j1. seq (check_read b (DBG_CORE_STAT core) j1 ''reading core status'') (\<lambda>stat.
     seq (uninit ''nia'') (\<lambda>j2. seq (check_read b (DBG_CORE_NIA core) j2 ''reading core NIA'') (\<lambda>nia.
     seq (uninit ''msr'') (\<lambda>j3. seq (check_read b (DBG_CORE_MSR core) j3 ''reading core MSR'') (\<lambda>msr.
     seq (if debug then out (''Core status = 0x'' @ hex stat @ [CHR 0x0A]) else ret ()) (\<lambda>_.
     seq (out (''Core'' @ dec (ucast core) @ '': '' @ fst (status_text stat) @ snd (status_text stat) @ [CHR 0x0A])) (\<lambda>_.
     seq (out ('' NIA: '' @ zero_pad 16 (hex nia) @ [CHR 0x0A])) (\<lambda>_.
     out ('' MSR: '' @ zero_pad 16 (hex msr) @ [CHR 0x0A])))))))))))"

lemma core_status_report: "core_status b st = core_report b (db_debug st) st"
  by (simp add: core_status_def core_report_def)

lemma same_debug: "(\<And>d. same R (p d) (q d)) \<Longrightarrow> same R (\<lambda>st. p (db_debug st) st) (\<lambda>st. q (db_debug st) st)"
  by (auto simp: same_def agree_def)

context same_access
begin

lemma file_commands [same_intros]:
  "same R (load fs b name a) (load fs b' name a)" "same R (save fs b name a n) (save fs b' name a n)"
  unfolding load_def save_def by (intro same_intros)+

lemma dump_loop_same [same_intros]: "same R (dump_loop fs b name d i n) (dump_loop fs b' name d i n)"
proof (induction n arbitrary: d i)
  case (Suc n)
  then show ?case unfolding dump_loop.simps by (intro same_intros)
qed (simp add: same_intros)

lemma log_commands [same_intros]:
  "same R (log_start b) (log_start b')" "same R (log_stop b) (log_stop b')" "same R (log_dump fs b name) (log_dump fs b' name)"
  unfolding log_start_def log_stop_def log_dump_def Let_def by (intro same_intros)+

lemma trigger_commands [same_intros]:
  "same R (ltrig_show b) (ltrig_show b')" "same R (ltrig_off b) (ltrig_off b')" "same R (ltrig_set b a) (ltrig_set b' a)"
  "same R (mtrig_show b) (mtrig_show b')" "same R (mtrig_off b) (mtrig_off b')" "same R (mtrig_set b a) (mtrig_set b' a)"
  unfolding ltrig_show_def ltrig_off_def ltrig_set_def mtrig_show_def mtrig_off_def mtrig_set_def by (intro same_intros)+

lemma core_status_same [same_intros]: "same R (core_status b) (core_status b')"
proof -
  have "same R (core_report b d) (core_report b' d)" for d unfolding core_report_def by (intro same_intros)
  from same_debug [of R "core_report b" "core_report b'", OF this] show ?thesis by (simp add: core_status_report [abs_def])
qed

lemma run_commands_same [same_intros]: "same R (run_commands fs b argv0 args) (run_commands fs b' argv0 args)"
proof (induction args rule: length_induct)
  case (1 args)
  have ih: "same R (run_commands fs b argv0 ys) (run_commands fs b' argv0 ys)" if "length ys < length args" for ys
    using 1 that by blast
  show ?case
  proof (cases args)
    case (Cons cmd xs)
    show ?thesis unfolding Cons run_commands.simps(2) Let_def by (intro same_intros; rule ih; simp add: Cons)
  qed (simp add: same_intros)
qed

end

section \<open>The simulated debug port and a cable\<close>

definition same_module :: "('c \<Rightarrow> bool) \<Rightarrow> ('c \<Rightarrow> 'd dtm) \<Rightarrow> 'd dtm \<Rightarrow> 'c \<Rightarrow> bool" where
  "same_module linked module_of s c \<longleftrightarrow> dt_wait s = 0 \<and> linked c \<and> module_of c = s"

lemma same_accessI:
  assumes "jtag_cable uj dv linked bits_in bits_out module_of" and "be_command b = jtag_command uj" and "vhpi0 vh \<noteq> vhpi1 vh"
  shows "same_access (same_module linked module_of) (sim_backend net (sim_link vh dv)) b"
proof
  note sim = dmi_target.dmi_read_ok [OF sim_dmi_target [OF assms(3), of net dv]] dmi_target.dmi_write_ok [OF sim_dmi_target [OF assms(3), of net dv]]
  note cable = jtag_cable.access_cable [OF assms(1,2)]
  have ready: "dt_wait (snd (dtm_rd dv a s)) = 0" "dt_wait (dtm_wr dv a d s) = 0" for a d s
    by (simp_all add: dtm_rd_def dtm_wr_def split: prod.split)
  fix a d
  show "same (same_module linked module_of) (dmi_read (sim_backend net (sim_link vh dv)) a d) (dmi_read b a d)"
    unfolding same_def
  proof (intro allI impI)
    fix st st' assume "agree (same_module linked module_of) st st'"
    then show "\<exists>x s s'. dmi_read (sim_backend net (sim_link vh dv)) a d st = Some (x, s) \<and> dmi_read b a d st' = Some (x, s') \<and>
        agree (same_module linked module_of) s s'"
      using sim(1) [of st a d] cable(1) [of st' a d] ready(1) [of a "db_target st"] by (auto simp: agree_def same_module_def dtm_ready_def)
  qed
  show "same (same_module linked module_of) (dmi_write (sim_backend net (sim_link vh dv)) a d) (dmi_write b a d)"
    unfolding same_def
  proof (intro allI impI)
    fix st st' assume "agree (same_module linked module_of) st st'"
    then show "\<exists>x s s'. dmi_write (sim_backend net (sim_link vh dv)) a d st = Some (x, s) \<and> dmi_write b a d st' = Some (x, s') \<and>
        agree (same_module linked module_of) s s'"
      using sim(2) [of st a d] cable(2) [of st' a d] ready(2) [of a d "db_target st"] by (auto simp: agree_def same_module_def dtm_ready_def)
  qed
qed

interpretation wire: same_access "same_module (cable_linked user2) cb_module" "sim_backend net (sim_link ghdl_codes dv)" "bscane2_backend (cable_urj user2 dv)"
  for user2 net dv
  by (rule same_accessI [OF part.jtag_cable_axioms]) (simp_all add: bscane2_backend_def ghdl_codes_def)

section \<open>Property\<close>

text \<open>C5: A session of the debug tool is the same over a JTAG cable and over the simulated debug port: for every command line, the commands
  and the report at the end return over both, with the same outcome, the same texts on both streams and the same file, and leave
  transport modules with equal devices in equal states, whatever JTAG library keeps the contract and however long accesses stay busy.\<close>

theorem session_same_over_cable:
  assumes "jtag_cable uj dv linked bits_in bits_out module_of" and "b = bscane2_backend uj \<or> b = ecp5_backend uj"
    and "vhpi0 vh \<noteq> vhpi1 vh" and "c = sim_backend net (sim_link vh dv)" and "agree (same_module linked module_of) st st'"
  shows "\<exists>x s s'. seq (run_commands fs c progname args) (\<lambda>_. seq (core_status c) (\<lambda>_. ret (0 :: int))) st = Some (x, s) \<and>
    seq (run_commands fs b progname args) (\<lambda>_. seq (core_status b) (\<lambda>_. ret 0)) st' = Some (x, s') \<and>
    agree (same_module linked module_of) s s'"
proof -
  have "be_command b = jtag_command uj" using assms(2) by (auto simp: bscane2_backend_def ecp5_backend_def)
  note A = same_accessI [OF assms(1) this assms(3), of net, folded assms(4)]
  have "same (same_module linked module_of) (seq (run_commands fs c progname args) (\<lambda>_. seq (core_status c) (\<lambda>_. ret 0)))
      (seq (run_commands fs b progname args) (\<lambda>_. seq (core_status b) (\<lambda>_. ret (0 :: int))))"
    by (intro same_intros same_access.run_commands_same [OF A] same_access.core_status_same [OF A])
  with assms(5) show ?thesis unfolding same_def by blast
qed

lemma run_locals [run_simps]:
  "seq get_core f st = f (db_core st) st" "seq (uninit v) g st = g (db_junk st v) st"
  by (simp_all add: seq_def get_core_def uninit_def)

context dmi_target
begin

text \<open>The report of a core, for a target that is ready.\<close>

lemma core_status_ok:
  assumes "ready (db_target st)" "\<not> db_debug st" "c = db_core st"
    and "rd (DBG_CORE_STAT c) (db_target st) = (stat, s1)" "rd (DBG_CORE_NIA c) s1 = (nia, s2)" "rd (DBG_CORE_MSR c) s2 = (msr, s3)"
  shows "core_status b st = Some (Done (), st\<lparr>db_target := s3, db_out := db_out st @ ''Core'' @ dec (ucast c) @ '': '' @
    fst (status_text stat) @ snd (status_text stat) @ [CHR 0x0A] @ '' NIA: '' @ zero_pad 16 (hex nia) @ [CHR 0x0A] @
    '' MSR: '' @ zero_pad 16 (hex msr) @ [CHR 0x0A]\<rparr>)"
proof -
  have r: "ready s1" "ready s2" using assms(1,4,5) ready_rd by (metis snd_conv)+
  then show ?thesis
    using assms by (simp add: core_status_def run_simps access_ok)
qed

end

text \<open>Stopping the demonstration core over a cable, with the report.\<close>

theorem session_same_over_cable_witness:
  "\<exists>s. seq (run_commands demo_fs (bscane2_backend (cable_urj ''000011'' (soc_ops demo_ops))) ''mw_debug'' [''stop''])
        (\<lambda>_. seq (core_status (bscane2_backend (cable_urj ''000011'' (soc_ops demo_ops)))) (\<lambda>_. ret 0))
        (demo_jtag\<lparr>db_target := cable_selected ''000011'' ''001001'' demo_cable\<rparr>) = Some (Done (0 :: int), s) \<and>
     db_out s = ''Core0: stopping'' @ [CHR 0x0A] @ '' NIA: 0000000000000012'' @ [CHR 0x0A] @ '' MSR: 0000000000000013'' @ [CHR 0x0A]"
proof -
  let ?b = "bscane2_backend (cable_urj ''000011'' (soc_ops demo_ops))" and ?c = "sim_backend demo_net (sim_link ghdl_codes (soc_ops demo_ops))"
  let ?st = "demo_jtag\<lparr>db_target := cable_selected ''000011'' ''001001'' demo_cable\<rparr>"
  let ?R = "same_module (cable_linked ''000011'') cb_module"
  have codes: "vhpi0 ghdl_codes \<noteq> vhpi1 ghdl_codes" by (simp add: ghdl_codes_def)
  have ag: "agree ?R demo_run ?st"
    using demo_ready by (simp add: agree_def same_module_def selected_linked demo_jtag_def demo_cable_def) (simp add: demo_run_def)
  obtain x s s' where run: "seq (run_commands demo_fs ?c ''mw_debug'' [''stop'']) (\<lambda>_. seq (core_status ?c) (\<lambda>_. ret (0 :: int))) demo_run = Some (x, s)"
    "seq (run_commands demo_fs ?b ''mw_debug'' [''stop'']) (\<lambda>_. seq (core_status ?b) (\<lambda>_. ret 0)) ?st = Some (x, s')" "agree ?R s s'"
    using session_same_over_cable [OF part.jtag_cable_axioms disjI1 [OF refl] codes refl ag, where dv = "soc_ops demo_ops" and net = demo_net and fs = demo_fs
        and progname = "''mw_debug''" and args = "[''stop'']"] by blast
  have "x = Done 0 \<and> db_out s = ''Core0: stopping'' @ [CHR 0x0A] @ '' NIA: 0000000000000012'' @ [CHR 0x0A] @ '' MSR: 0000000000000013'' @ [CHR 0x0A]"
  proof -
    let ?t = "dtm_wr (soc_ops demo_ops) (DBG_CORE_CTRL 0) DBG_CORE_CTRL_STOP (db_target demo_run)"
    have "dtm_ready (db_target demo_run)" using demo_ready by (simp add: dtm_ready_def)
    then have stop: "core_stop ?c demo_run = Some (Done (), demo_run\<lparr>db_target := ?t\<rparr>)"
      using dtm.core_stop_ok [of demo_run demo_net "soc_ops demo_ops"] by (simp add: demo_run_def)
    have rd: "\<exists>t'. dtm_rd (soc_ops demo_ops) a t = (ucast a, t')" if "a \<notin> {0, 1, 2, 3}" for a t
      using that by (auto simp: dtm_rd_def soc_ops_def demo_ops_def wb_read_def)
    have regs: "DBG_CORE_STAT 0 = 0x11" "DBG_CORE_NIA 0 = 0x12" "DBG_CORE_MSR 0 = 0x13"
      by (simp_all add: DBG_CORE_STAT_def DBG_CORE_NIA_def DBG_CORE_MSR_def)
    obtain s1 where s1: "dtm_rd (soc_ops demo_ops) (DBG_CORE_STAT 0) ?t = (0x11, s1)" using rd [of "0x11" ?t] by (auto simp: regs)
    obtain s2 where s2: "dtm_rd (soc_ops demo_ops) (DBG_CORE_NIA 0) s1 = (0x12, s2)" using rd [of "0x12" s1] by (auto simp: regs)
    obtain s3 where s3: "dtm_rd (soc_ops demo_ops) (DBG_CORE_MSR 0) s2 = (0x13, s3)" using rd [of "0x13" s2] by (auto simp: regs)
    have dbg: "\<not> db_debug (demo_run\<lparr>db_target := ?t\<rparr>)" "0 = db_core (demo_run\<lparr>db_target := ?t\<rparr>)" by (simp_all add: demo_run_def)
    have texts: "dec (ucast (0 :: u32)) = ''0''" "zero_pad 16 (hex 0x12) = ''0000000000000012''" "zero_pad 16 (hex 0x13) = ''0000000000000013''"
      "status_text 0x11 = (''stopping'', [])" by code_simp+
    have rdy: "dtm_ready (db_target (demo_run\<lparr>db_target := ?t\<rparr>))" by (simp add: dtm_ready_def dtm_wr_def)
    have "dtm_rd (soc_ops demo_ops) (DBG_CORE_STAT 0) (db_target (demo_run\<lparr>db_target := ?t\<rparr>)) = (0x11, s1)" using s1 by simp
    note stat = dtm.core_status_ok [OF rdy dbg this s2 s3, of demo_net, unfolded texts]
    show ?thesis
      using run(1) by (simp add: run_commands.simps seq_assoc run_simps stop stat) (auto simp: demo_run_def)
  qed
  with run(2,3) show ?thesis by (auto simp: agree_def)
qed
end
