(* ===== verification/Uart_Verilator.thy ===== *)
theory Uart_Verilator
  imports Prelude
begin

text \<open>
  The serial line of the Verilator simulation (\<open>verilator/uart-verilator.c\<close>): a receiver that samples the
  line of the simulated processor once per clock and writes the characters to the terminal, and a
  transmitter that drives the line with the characters of the terminal.

  The static variables of each direction are a record.  \<open>bw\<close> is the number of clocks per bit.  The test
  \<open>is_error\<close> compares a quotient of two doubles with 0.05 and 0.95; for widths below \<open>2 ^ 40\<close> the rounded
  quotient compares as the exact one does, and the model compares the exact one.  The characters that
  \<open>write\<close> gets and the arguments of the error messages are lists; whether a character is there to read is
  an argument of each call of \<open>uart_rx\<close>.  \<open>Verilator_Tty\<close> adds the mode of the terminal.
\<close>

definition BAUD :: u64 where "BAUD = 115200"

definition BITWIDTH :: "u64 \<Rightarrow> u64" where
  "BITWIDTH clk_frequency = (clk_frequency + BAUD div 2) div BAUD"

datatype uart_state = IDLE | START_BIT | BITS | STOP_BIT | ERROR

section \<open>The receiver\<close>

record tx_line =
  tx_state :: uart_state
  tx_countbits :: u64
  tx_bits :: byte
  tx_byte :: byte
  tx_prev :: byte
  tx_written :: "byte list"
  tx_errors :: "(uart_state \<times> u64) list"

definition is_error :: "u64 \<Rightarrow> u64 \<Rightarrow> bool" where
  "is_error bw count \<longleftrightarrow> 20 * unat count \<le> 19 * unat bw \<and> unat bw \<le> 20 * unat count"

definition tx_error :: "u64 \<Rightarrow> uart_state \<Rightarrow> tx_line \<Rightarrow> tx_line" where
  "tx_error bw where_from s =
     s\<lparr>tx_errors := tx_errors s @ [(where_from, tx_countbits s)], tx_countbits := bw * 2, tx_state := ERROR\<rparr>"

definition tx_write :: "tx_line \<Rightarrow> tx_line" where
  "tx_write s = s\<lparr>tx_written := tx_written s @ [tx_byte s], tx_state := IDLE\<rparr>"

definition tx_start :: "u64 \<Rightarrow> byte \<Rightarrow> tx_line \<Rightarrow> tx_line" where
  "tx_start bw tx s =
     (let s1 = s\<lparr>tx_countbits := tx_countbits s - 1\<rparr>
      in if tx = 1 \<and> is_error bw (tx_countbits s1) then tx_error bw START_BIT s1
         else if tx_countbits s1 = 0 then s1\<lparr>tx_state := BITS, tx_countbits := bw\<rparr> else s1)"

definition tx_data :: "u64 \<Rightarrow> byte \<Rightarrow> tx_line \<Rightarrow> tx_line" where
  "tx_data bw tx s =
     (let s1 = s\<lparr>tx_countbits := tx_countbits s - 1\<rparr>;
          s2 = (if tx_countbits s1 = bw div 2
                then s1\<lparr>tx_byte := tx_byte s1 OR push_bit (unat (tx_bits s1)) tx, tx_bits := tx_bits s1 + 1\<rparr> else s1)
      in if tx \<noteq> tx_prev s2 \<and> is_error bw (tx_countbits s2) then tx_error bw BITS s2
         else if tx_countbits s2 = 0
         then s2\<lparr>tx_state := (if tx_bits s2 = 8 then STOP_BIT else BITS), tx_countbits := bw\<rparr> else s2)"

definition tx_stop :: "u64 \<Rightarrow> byte \<Rightarrow> tx_line \<Rightarrow> tx_line" where
  "tx_stop bw tx s =
     (let s1 = s\<lparr>tx_countbits := tx_countbits s - 1\<rparr>
      in if tx = 0 \<and> is_error bw (tx_countbits s1) then tx_error bw STOP_BIT s1
         else let s2 = (if tx = 0 then tx_write s1 else s1)
              in if tx_countbits s2 = 0 then tx_write s2 else s2)"

definition uart_tx :: "u64 \<Rightarrow> byte \<Rightarrow> tx_line \<Rightarrow> tx_line" where
  "uart_tx bw tx s =
     (let s' = (case tx_state s of
                  IDLE \<Rightarrow> if tx = 0 then s\<lparr>tx_state := START_BIT, tx_countbits := bw, tx_bits := 0, tx_byte := 0\<rparr> else s
                | START_BIT \<Rightarrow> tx_start bw tx s
                | BITS \<Rightarrow> tx_data bw tx s
                | STOP_BIT \<Rightarrow> tx_stop bw tx s
                | ERROR \<Rightarrow> (let s1 = s\<lparr>tx_countbits := tx_countbits s - 1\<rparr>
                             in if tx_countbits s1 = 0 then s1\<lparr>tx_state := IDLE\<rparr> else s1))
      in s'\<lparr>tx_prev := tx\<rparr>)"

section \<open>The transmitter\<close>

record rx_line =
  rx_state :: uart_state
  rx_char :: byte
  rx_countbits :: u64
  rx_bit :: byte
  rx_level :: byte
  rx_sometimes :: u64

definition RX_INTERVAL :: u64 where "RX_INTERVAL = 10000"

datatype 'a ended = Running 'a | Exited int

text \<open>The result of \<open>poll\<close> is whether it is not 0; the result of \<open>read\<close> is the byte, when one was read.\<close>

definition nonblocking_read :: "bool \<Rightarrow> byte option \<Rightarrow> byte option ended" where
  "nonblocking_read poll_ready inp =
     (if \<not> poll_ready then Running None else case inp of None \<Rightarrow> Exited 1 | Some c \<Rightarrow> Running (Some c))"

definition rx_idle :: "u64 \<Rightarrow> bool \<Rightarrow> byte option \<Rightarrow> rx_line \<Rightarrow> rx_line ended" where
  "rx_idle bw poll_ready inp s =
     (let s1 = s\<lparr>rx_sometimes := rx_sometimes s + 1\<rparr>
      in if rx_sometimes s \<ge> RX_INTERVAL
         then (case nonblocking_read poll_ready inp of
                 Exited n \<Rightarrow> Exited n
               | Running None \<Rightarrow> Running (s1\<lparr>rx_sometimes := 0\<rparr>)
               | Running (Some c) \<Rightarrow> Running (s1\<lparr>rx_sometimes := 0, rx_state := START_BIT, rx_char := c,
                   rx_countbits := bw, rx_bit := 0, rx_level := 0\<rparr>))
         else Running s1)"

definition uart_rx :: "u64 \<Rightarrow> bool \<Rightarrow> byte option \<Rightarrow> rx_line \<Rightarrow> rx_line ended" where
  "uart_rx bw poll_ready inp s =
     (let s1 = s\<lparr>rx_countbits := rx_countbits s - 1\<rparr>
      in case rx_state s of
           IDLE \<Rightarrow> rx_idle bw poll_ready inp s
         | START_BIT \<Rightarrow>
             Running (if rx_countbits s1 = 0 then s1\<lparr>rx_state := BITS, rx_countbits := bw, rx_level := rx_char s AND 1\<rparr> else s1)
         | BITS \<Rightarrow>
             Running (if rx_countbits s1 = 0
                      then let s2 = s1\<lparr>rx_bit := rx_bit s + 1, rx_countbits := bw\<rparr>
                           in if rx_bit s2 = 8 then s2\<lparr>rx_level := 1, rx_state := STOP_BIT\<rparr>
                              else s2\<lparr>rx_level := drop_bit (unat (rx_bit s2)) (rx_char s) AND 1\<rparr>
                      else s1)
         | STOP_BIT \<Rightarrow> Running (if rx_countbits s1 = 0 then s1\<lparr>rx_state := IDLE\<rparr> else s1)
         | ERROR \<Rightarrow> Running s)"


section \<open>Reachable states of the receiver\<close>

definition tx_init :: tx_line where
  "tx_init = \<lparr>tx_state = IDLE, tx_countbits = 0, tx_bits = 0, tx_byte = 0, tx_prev = 0, tx_written = [], tx_errors = []\<rparr>"

inductive tx_reachable :: "u64 \<Rightarrow> tx_line \<Rightarrow> bool" for bw where
  init: "tx_reachable bw tx_init"
| sample: "tx_reachable bw s \<Longrightarrow> tx_reachable bw (uart_tx bw tx s)"

text \<open>The counter is never 0 between two samples, so that it does not wrap around, and the number of
  bits received is at most eight, at most seven in the first half of a bit.  In \<open>IDLE\<close> and \<open>ERROR\<close> no bit is received; a start bit sets
  the number to 0.\<close>

definition tx_invariant :: "u64 \<Rightarrow> tx_line \<Rightarrow> bool" where
  "tx_invariant bw s =
     (case tx_state s of
        IDLE \<Rightarrow> True
      | START_BIT \<Rightarrow> 0 < unat (tx_countbits s) \<and> unat (tx_countbits s) \<le> unat bw \<and> unat (tx_bits s) = 0
      | BITS \<Rightarrow> 0 < unat (tx_countbits s) \<and> unat (tx_countbits s) \<le> unat bw \<and>
          (if unat (tx_countbits s) \<le> unat bw div 2 then 0 < unat (tx_bits s) \<and> unat (tx_bits s) \<le> 8 else unat (tx_bits s) \<le> 7)
      | STOP_BIT \<Rightarrow> 0 < unat (tx_countbits s) \<and> unat (tx_countbits s) \<le> unat bw \<and> unat (tx_bits s) = 8
      | ERROR \<Rightarrow> 0 < unat (tx_countbits s) \<and> unat (tx_countbits s) \<le> 2 * unat bw)"

lemma unat_double: "unat bw < 2 ^ 63 \<Longrightarrow> unat (bw * 2) = 2 * unat bw" for bw :: u64
  by (simp add: unat_word_ariths)

lemma unat_half: "unat (bw div 2) = unat bw div 2" for bw :: u64
  by (simp add: unat_div)

lemma count_down:
  fixes c :: u64
  assumes "0 < unat c"
  shows "unat (c - 1) = unat c - 1" and "c - 1 = 0 \<longleftrightarrow> unat c = 1" and "c = 1 \<longleftrightarrow> unat c = 1"
proof -
  show "unat (c - 1) = unat c - 1" using assms by (simp add: unat_pred unat_gt_0)
  show "c = 1 \<longleftrightarrow> unat c = 1" unfolding word_unat_eq_iff by simp
  then show "c - 1 = 0 \<longleftrightarrow> unat c = 1" by simp
qed

lemma tx_error_invariant:
  "1 < unat bw \<Longrightarrow> unat bw < 2 ^ 63 \<Longrightarrow> tx_invariant bw ((tx_error bw x s)\<lparr>tx_prev := p\<rparr>)"
  by (simp add: tx_invariant_def tx_error_def unat_double)

lemma tx_start_invariant:
  assumes "1 < unat bw" "unat bw < 2 ^ 63" "tx_invariant bw s" "tx_state s = START_BIT"
  shows "tx_invariant bw ((tx_start bw tx s)\<lparr>tx_prev := p\<rparr>)"
proof -
  have s: "0 < unat (tx_countbits s)" "unat (tx_countbits s) \<le> unat bw" "unat (tx_bits s) = 0"
    using assms by (simp_all add: tx_invariant_def)
  note c = count_down [OF s(1)]
  show ?thesis using s assms c
    by (simp add: tx_start_def Let_def tx_error_invariant) (auto simp: tx_invariant_def)
qed

lemma tx_data_invariant:
  assumes "1 < unat bw" "unat bw < 2 ^ 63" "tx_invariant bw s" "tx_state s = BITS"
  shows "tx_invariant bw ((tx_data bw tx s)\<lparr>tx_prev := p\<rparr>)"
proof -
  let ?n = "unat (tx_countbits s)" and ?w = "unat bw" and ?k = "unat (tx_bits s)"
  have s: "0 < ?n" "?n \<le> ?w" "if ?n \<le> ?w div 2 then 0 < ?k \<and> ?k \<le> 8 else ?k \<le> 7"
    using assms by (simp_all add: tx_invariant_def)
  note n = count_down(1) [OF s(1)] and zero = count_down(2,3) [OF s(1)]
  have half: "tx_countbits s - 1 = bw div 2 \<longleftrightarrow> ?n - 1 = ?w div 2"
    by (metis n unat_half word_unat_eq_iff)
  have k: "unat (tx_bits s + 1) = ?k + 1" if "?k \<le> 7" using that by (simp add: unat_word_ariths)
  have eight: "tx_bits s = 8 \<longleftrightarrow> ?k = 8" "tx_bits s + 1 = 8 \<longleftrightarrow> unat (tx_bits s + 1) = 8"
    by (simp_all add: word_unat_eq_iff)
  show ?thesis using assms(1,2,4) s n half zero k eight
    by (simp add: tx_data_def Let_def tx_error_invariant) (auto simp: tx_invariant_def split: if_splits)
qed

lemma tx_stop_invariant:
  assumes "1 < unat bw" "unat bw < 2 ^ 63" "tx_invariant bw s" "tx_state s = STOP_BIT"
  shows "tx_invariant bw ((tx_stop bw tx s)\<lparr>tx_prev := p\<rparr>)"
proof -
  have s: "0 < unat (tx_countbits s)" "unat (tx_countbits s) \<le> unat bw" "unat (tx_bits s) = 8"
    using assms by (simp_all add: tx_invariant_def)
  note c = count_down [OF s(1)]
  show ?thesis using s assms c
    by (simp add: tx_stop_def Let_def tx_error_invariant) (auto simp: tx_invariant_def tx_write_def)
qed

lemma uart_tx_step_invariant:
  assumes "1 < unat bw" "unat bw < 2 ^ 63" "tx_invariant bw s"
  shows "tx_invariant bw (uart_tx bw tx s)"
proof (cases "tx_state s")
  case IDLE
  with assms show ?thesis by (simp add: uart_tx_def tx_invariant_def)
next
  case ERROR
  then have s: "0 < unat (tx_countbits s)" "unat (tx_countbits s) \<le> 2 * unat bw"
    using assms(3) by (simp_all add: tx_invariant_def)
  with ERROR count_down [OF s(1)] show ?thesis by (auto simp: uart_tx_def tx_invariant_def Let_def)
qed (use assms in \<open>simp_all add: uart_tx_def tx_start_invariant tx_data_invariant tx_stop_invariant\<close>)

section \<open>One character on the line\<close>

text \<open>The level of bit \<open>k\<close> of a character, and the samples of a character: a start bit, eight data bits, least
  significant first, and a stop bit, each held for the width of a bit.\<close>

definition level :: "byte \<Rightarrow> nat \<Rightarrow> byte" where
  "level c k = drop_bit k c AND 1"

definition uart_frame :: "nat \<Rightarrow> byte \<Rightarrow> byte list" where
  "uart_frame w c = replicate w 0 @ concat (map (\<lambda>k. replicate w (level c k)) [0..<8]) @ replicate w 1"

abbreviation rcv :: "uart_state \<Rightarrow> u64 \<Rightarrow> nat \<Rightarrow> byte \<Rightarrow> byte \<Rightarrow> byte list \<Rightarrow> (uart_state \<times> u64) list \<Rightarrow> tx_line" where
  "rcv q n k b p ws es \<equiv> \<lparr>tx_state = q, tx_countbits = n, tx_bits = of_nat k, tx_byte = b, tx_prev = p,
     tx_written = ws, tx_errors = es\<rparr>"

text \<open>The counter with the value \<open>j\<close>.\<close>

definition cnt :: "nat \<Rightarrow> u64" where
  "cnt j = of_nat j"

lemma cnt_pred: "0 < j \<Longrightarrow> cnt j - 1 = cnt (j - 1)"
  by (simp add: cnt_def of_nat_diff)

lemma cnt_eq: "i < 2 ^ 63 \<Longrightarrow> j < 2 ^ 63 \<Longrightarrow> cnt i = cnt j \<longleftrightarrow> i = j"
  unfolding cnt_def word_unat_eq_iff by (simp add: unsigned_of_nat take_bit_nat_eq_self)

lemma cnt_zero: "j < 2 ^ 63 \<Longrightarrow> cnt j = 0 \<longleftrightarrow> j = 0"
  using cnt_eq [of j 0] by (simp add: cnt_def)

lemma cnt_half: "w < 2 ^ 63 \<Longrightarrow> cnt w div 2 = cnt (w div 2)"
  unfolding cnt_def word_unat_eq_iff by (simp add: unat_div unsigned_of_nat take_bit_nat_eq_self)

lemma cnt_1: "cnt 1 = 1"
  by (simp add: cnt_def)

lemma is_error_0: "0 < w \<Longrightarrow> w < 2 ^ 63 \<Longrightarrow> \<not> is_error (cnt w) 0"
  by (simp add: is_error_def cnt_def unsigned_of_nat take_bit_nat_eq_self)

text \<open>Single samples.\<close>

lemma idle_starts: "uart_tx bw 0 (rcv IDLE n k b p ws es) = rcv START_BIT bw 0 0 0 ws es"
  by (simp add: uart_tx_def)

lemma start_step: "n - 1 \<noteq> 0 \<Longrightarrow> uart_tx bw 0 (rcv START_BIT n k b p ws es) = rcv START_BIT (n - 1) k b 0 ws es"
  by (simp add: uart_tx_def tx_start_def Let_def)

lemma start_ends:
  "0 < w \<Longrightarrow> w < 2 ^ 63 \<Longrightarrow> uart_tx (cnt w) x (rcv START_BIT 1 k b p ws es) = rcv BITS (cnt w) k b x ws es"
  by (simp add: uart_tx_def tx_start_def Let_def is_error_0)

lemma data_step:
  "n - 1 \<noteq> 0 \<Longrightarrow> uart_tx bw x (rcv BITS n k b x ws es) =
     (if n - 1 = bw div 2 then rcv BITS (n - 1) (Suc k) (b OR push_bit (unat (of_nat k :: byte)) x) x ws es
      else rcv BITS (n - 1) k b x ws es)"
  by (simp add: uart_tx_def tx_data_def Let_def)

lemma data_ends:
  assumes "1 < w" and "w < 2 ^ 63"
  shows "uart_tx (cnt w) y (rcv BITS 1 k b x ws es) =
    rcv (if (of_nat k :: byte) = 8 then STOP_BIT else BITS) (cnt w) k b y ws es"
proof -
  have "cnt w div 2 \<noteq> 0" using assms by (simp add: cnt_half cnt_zero)
  with assms show ?thesis by (simp add: uart_tx_def tx_data_def Let_def is_error_0)
qed

lemma stop_step: "n - 1 \<noteq> 0 \<Longrightarrow> uart_tx bw 1 (rcv STOP_BIT n k b p ws es) = rcv STOP_BIT (n - 1) k b 1 ws es"
  by (simp add: uart_tx_def tx_stop_def Let_def)

lemma stop_ends: "uart_tx bw 1 (rcv STOP_BIT 1 k b p ws es) = rcv IDLE 0 k b 1 (ws @ [b]) es"
  by (simp add: uart_tx_def tx_stop_def tx_write_def Let_def)

text \<open>A level that is held for a while.\<close>

lemma start_samples:
  "j < w \<Longrightarrow> w < 2 ^ 63 \<Longrightarrow>
   fold (uart_tx bw) (replicate j 0) (rcv START_BIT (cnt w) k b 0 ws es) = rcv START_BIT (cnt (w - j)) k b 0 ws es"
proof (induction j)
  case (Suc j)
  have "replicate (Suc j) (0 :: byte) = replicate j 0 @ [0]" by (simp add: replicate_append_same)
  moreover have "cnt (w - j) - 1 = cnt (w - Suc j)" "cnt (w - Suc j) \<noteq> 0"
    using cnt_pred [of "w - j"] cnt_zero [of "w - Suc j"] Suc.prems by auto
  ultimately show ?case using Suc by (simp add: start_step del: replicate.simps)
qed simp

lemma stop_samples:
  "j < w \<Longrightarrow> w < 2 ^ 63 \<Longrightarrow>
   fold (uart_tx bw) (replicate j 1) (rcv STOP_BIT (cnt w) k b 1 ws es) = rcv STOP_BIT (cnt (w - j)) k b 1 ws es"
proof (induction j)
  case (Suc j)
  have "replicate (Suc j) (1 :: byte) = replicate j 1 @ [1]" by (simp add: replicate_append_same)
  moreover have "cnt (w - j) - 1 = cnt (w - Suc j)" "cnt (w - Suc j) \<noteq> 0"
    using cnt_pred [of "w - j"] cnt_zero [of "w - Suc j"] Suc.prems by auto
  ultimately show ?case using Suc by (simp add: stop_step del: replicate.simps)
qed simp

lemma data_samples:
  assumes "1 < w" and "w < 2 ^ 63" and "j < w"
  shows "fold (uart_tx (cnt w)) (replicate j x) (rcv BITS (cnt w) k b x ws es) =
     (if w - j \<le> w div 2 then rcv BITS (cnt (w - j)) (Suc k) (b OR push_bit (unat (of_nat k :: byte)) x) x ws es
      else rcv BITS (cnt (w - j)) k b x ws es)"
  using assms(3)
proof (induction j)
  case 0
  then show ?case using assms(1) by simp
next
  case (Suc j)
  have r: "replicate (Suc j) x = replicate j x @ [x]" by (simp add: replicate_append_same)
  have d: "cnt (w - j) - 1 = cnt (w - Suc j)" "cnt (w - Suc j) \<noteq> 0"
    using cnt_pred [of "w - j"] cnt_zero [of "w - Suc j"] Suc.prems assms(2) by auto
  have h: "cnt (w - Suc j) = cnt w div 2 \<longleftrightarrow> w - Suc j = w div 2"
    using cnt_eq [of "w - Suc j" "w div 2"] assms(2) by (simp add: cnt_half)
  show ?case
  proof (cases "w - j \<le> w div 2")
    case True
    then have "w - Suc j \<noteq> w div 2" "w - Suc j \<le> w div 2" using Suc.prems by auto
    with True Suc d h r show ?thesis by (simp add: data_step del: replicate.simps of_nat_Suc)
  next
    case False
    then have "w - Suc j \<le> w div 2 \<longleftrightarrow> w - Suc j = w div 2" by auto
    with False Suc d h r show ?thesis by (simp add: data_step del: replicate.simps of_nat_Suc)
  qed
qed

lemma cnt_Suc_0: "cnt (Suc 0) = 1"
  by (simp add: cnt_def)

text \<open>A whole character: the levels from bit \<open>k\<close> on, the stop bit being number 8.\<close>

definition lev :: "byte \<Rightarrow> nat \<Rightarrow> byte" where
  "lev c k = (if k < 8 then level c k else 1)"

definition levels_from :: "nat \<Rightarrow> byte \<Rightarrow> nat \<Rightarrow> byte list" where
  "levels_from w c k = concat (map (\<lambda>i. replicate w (lev c i)) [k..<9])"

lemma levels_from_step:
  "k < 9 \<Longrightarrow> levels_from w c k = replicate w (lev c k) @ levels_from w c (Suc k)"
  by (simp add: levels_from_def upt_conv_Cons)

lemma levels_from_9 [simp]: "levels_from w c 9 = []"
  by (simp add: levels_from_def)

lemma frame_levels: "uart_frame w c = replicate w 0 @ levels_from w c 0"
proof -
  have "[0..<9] = [0..<8] @ [8]" by (simp add: upt_rec)
  moreover have "map (\<lambda>i. replicate w (lev c i)) [0..<8] = map (\<lambda>i. replicate w (level c i)) [0..<8]"
    by (rule map_cong) (auto simp: lev_def)
  ultimately have "levels_from w c 0 = concat (map (\<lambda>i. replicate w (level c i)) [0..<8]) @ replicate w (lev c 8)"
    by (simp only: levels_from_def map_append concat_append) simp
  then show ?thesis by (simp add: uart_frame_def lev_def del: upt_rec_numeral)
qed

lemma take_bit_level: "k < 8 \<Longrightarrow> take_bit k c OR push_bit k (level c k) = take_bit (Suc k) c"
  by (rule bit_word_eqI) (auto simp: bit_simps level_def less_Suc_eq)

lemma unat_byte: "k < 256 \<Longrightarrow> unat (of_nat k :: byte) = k"
  by (simp add: unsigned_of_nat take_bit_nat_eq_self)

lemma cell_samples:
  assumes "1 < w" and "w < 2 ^ 63" and "k < 8"
  shows "fold (uart_tx (cnt w)) (replicate (w - 1) (lev c k) @ [y]) (rcv BITS (cnt w) k (take_bit k c) (lev c k) ws es) =
    rcv (if k = 7 then STOP_BIT else BITS) (cnt w) (Suc k) (take_bit (Suc k) c) y ws es"
proof -
  have "w - (w - 1) = 1" "1 \<le> w div 2" using assms(1) by auto
  moreover have "take_bit k c OR push_bit (unat (of_nat k :: byte)) (lev c k) = take_bit (Suc k) c"
    using assms(3) by (simp add: lev_def unat_byte take_bit_level)
  moreover have "(of_nat (Suc k) :: byte) = 8 \<longleftrightarrow> k = 7"
    using assms(3) unat_byte [of "Suc k"] unat_byte [of 8] by (auto simp: word_unat_eq_iff)
  ultimately have "fold (uart_tx (cnt w)) (replicate (w - 1) (lev c k)) (rcv BITS (cnt w) k (take_bit k c) (lev c k) ws es) =
      rcv BITS 1 (Suc k) (take_bit (Suc k) c) (lev c k) ws es" and st: "(of_nat (Suc k) :: byte) = 8 \<longleftrightarrow> k = 7"
    using data_samples [OF assms(1,2), of "w - 1" "lev c k" k "take_bit k c" ws es] assms(1)
    by (simp_all add: cnt_Suc_0 del: of_nat_Suc)
  then show ?thesis
    using data_ends [OF assms(1,2), of y "Suc k" "take_bit (Suc k) c" "lev c k" ws es, unfolded st]
    by (simp only: fold_append comp_apply fold_simps)
qed

lemma levels_samples:
  assumes "1 < w" and "w < 2 ^ 63"
  shows "k \<le> 8 \<Longrightarrow> fold (uart_tx (cnt w)) (tl (levels_from w c k))
      (rcv (if k = 8 then STOP_BIT else BITS) (cnt w) k (take_bit k c) (lev c k) ws es) =
    rcv STOP_BIT 1 8 c 1 ws es"
proof (induction "8 - k" arbitrary: k)
  case 0
  then have "k = 8" by simp
  moreover have "tl (levels_from w c 8) = replicate (w - 1) 1"
    using levels_from_step [of 8 w c] assms(1) by (cases w) (simp_all add: lev_def levels_from_def)
  moreover have "take_bit 8 c = c" by (rule bit_word_eqI) (auto simp: bit_simps)
  ultimately show ?case
    using stop_samples [of "w - 1" w "cnt w" 8 c ws es] assms by (simp add: lev_def cnt_Suc_0)
next
  case (Suc m)
  then have k: "k < 8" "m = 8 - Suc k" "Suc k \<le> 8" by auto
  have "levels_from w c k = replicate w (lev c k) @ levels_from w c (Suc k)" using k by (intro levels_from_step) simp
  moreover have "replicate w (lev c k) = lev c k # replicate (w - 1) (lev c k)" using assms(1) by (cases w) auto
  moreover have "levels_from w c (Suc k) = lev c (Suc k) # tl (levels_from w c (Suc k))"
    using levels_from_step [of "Suc k" w c] k assms(1) by (cases w) auto
  ultimately have "tl (levels_from w c k) = (replicate (w - 1) (lev c k) @ [lev c (Suc k)]) @ tl (levels_from w c (Suc k))"
    by simp
  with k cell_samples [OF assms k(1), of c "lev c (Suc k)" ws es] Suc.hyps(1) [OF k(2,3)] show ?case
    by (simp add: eval_nat_numeral split: if_splits)
qed

text \<open>The receiver writes exactly the character of a frame, when the line is idle afterwards.\<close>

lemma frame_received:
  assumes "1 < w" and "w < 2 ^ 63"
  shows "fold (uart_tx (cnt w)) (uart_frame w c @ [1]) (rcv IDLE n k b p ws es) = rcv IDLE 0 8 c 1 (ws @ [c]) es"
proof -
  have l: "levels_from w c 0 = lev c 0 # tl (levels_from w c 0)"
    using levels_from_step [of 0 w c] assms(1) by (cases w) auto
  have r: "replicate w 0 = 0 # replicate (w - 1) (0 :: byte)" using assms(1) by (cases w) auto
  have "fold (uart_tx (cnt w)) (uart_frame w c @ [1]) (rcv IDLE n k b p ws es) =
      fold (uart_tx (cnt w)) ((replicate (w - 1) 0 @ [lev c 0]) @ tl (levels_from w c 0) @ [1]) (rcv START_BIT (cnt w) 0 0 0 ws es)"
    unfolding frame_levels r by (subst l) (simp add: idle_starts)
  also have "\<dots> = fold (uart_tx (cnt w)) (tl (levels_from w c 0) @ [1]) (rcv BITS (cnt w) 0 0 (lev c 0) ws es)"
    using start_samples [of "w - 1" w "cnt w" 0 0 ws es] start_ends [of w "lev c 0" 0 0 0 ws es] assms
    by (simp add: cnt_Suc_0)
  also have "\<dots> = rcv IDLE 0 8 c 1 (ws @ [c]) es"
    using levels_samples [OF assms, of 0 c ws es] stop_ends [of "cnt w" 8 c 1 ws es] by simp
  finally show ?thesis .
qed

section \<open>The transmitter drives frames\<close>

text \<open>Successive calls of \<open>uart_rx\<close>: the levels returned and the state left.\<close>

fun rx_run :: "u64 \<Rightarrow> (bool \<times> byte option) list \<Rightarrow> rx_line \<Rightarrow> (byte list \<times> rx_line) ended" where
  "rx_run bw [] s = Running ([], s)"
| "rx_run bw ((p, i) # is) s =
     (case uart_rx bw p i s of
        Exited n \<Rightarrow> Exited n
      | Running s1 \<Rightarrow> (case rx_run bw is s1 of
            Exited n \<Rightarrow> Exited n
          | Running (ls, s2) \<Rightarrow> Running (rx_level s1 # ls, s2)))"

text \<open>Whatever there is to read, the next calls return these levels.\<close>

definition emits :: "u64 \<Rightarrow> rx_line \<Rightarrow> byte list \<Rightarrow> rx_line \<Rightarrow> bool" where
  "emits bw s ls s' \<longleftrightarrow> (\<forall>is. length is = length ls \<longrightarrow> rx_run bw is s = Running (ls, s'))"

lemma emits_Nil [simp]: "emits bw s [] s"
  by (simp add: emits_def)

lemma emits_Cons:
  assumes "\<And>p i. uart_rx bw p i s = Running sm" and "rx_level sm = l" and "emits bw sm ls s2"
  shows "emits bw s (l # ls) s2"
  unfolding emits_def
proof (intro allI impI)
  fix iss :: "(bool \<times> byte option) list"
  assume "length iss = length (l # ls)"
  then obtain p i is' where "iss = (p, i) # is'" "length is' = length ls" by (cases iss) auto
  with assms show "rx_run bw iss s = Running (l # ls, s2)" by (simp add: emits_def)
qed

lemma rx_run_append:
  "rx_run bw xs s = Running (ls, s1) \<Longrightarrow> rx_run bw ys s1 = Running (ms, s2) \<Longrightarrow> rx_run bw (xs @ ys) s = Running (ls @ ms, s2)"
proof (induction bw xs s arbitrary: ls rule: rx_run.induct)
  case (2 bw p i "is" s)
  then show ?case by (auto split: ended.splits prod.splits)
qed simp

lemma emits_append:
  assumes "emits bw s ls s1" and "emits bw s1 ms s2"
  shows "emits bw s (ls @ ms) s2"
  unfolding emits_def
proof (intro allI impI)
  fix iss :: "(bool \<times> byte option) list"
  assume l: "length iss = length (ls @ ms)"
  have "rx_run bw (take (length ls) iss) s = Running (ls, s1)" "rx_run bw (drop (length ls) iss) s1 = Running (ms, s2)"
    using assms l by (simp_all add: emits_def)
  from rx_run_append [OF this] show "rx_run bw iss s = Running (ls @ ms, s2)" by simp
qed

abbreviation snd_line :: "uart_state \<Rightarrow> byte \<Rightarrow> u64 \<Rightarrow> nat \<Rightarrow> byte \<Rightarrow> u64 \<Rightarrow> rx_line" where
  "snd_line q c n k l t \<equiv> \<lparr>rx_state = q, rx_char = c, rx_countbits = n, rx_bit = of_nat k, rx_level = l, rx_sometimes = t\<rparr>"

lemma hold_step:
  "q \<in> {START_BIT, BITS, STOP_BIT} \<Longrightarrow> n - 1 \<noteq> 0 \<Longrightarrow>
   uart_rx bw p i (snd_line q c n k l t) = Running (snd_line q c (n - 1) k l t)"
  by (auto simp: uart_rx_def Let_def)

lemma hold_samples:
  assumes "q \<in> {START_BIT, BITS, STOP_BIT}" and "w < 2 ^ 63"
  shows "j < w \<Longrightarrow> emits bw (snd_line q c (cnt w) k l t) (replicate j l) (snd_line q c (cnt (w - j)) k l t)"
proof (induction j)
  case (Suc j)
  have "cnt (w - j) - 1 = cnt (w - Suc j)" "cnt (w - Suc j) \<noteq> 0"
    using cnt_pred [of "w - j"] cnt_zero [of "w - Suc j"] Suc.prems assms(2) by auto
  then have "emits bw (snd_line q c (cnt (w - j)) k l t) [l] (snd_line q c (cnt (w - Suc j)) k l t)"
    using hold_step [OF assms(1), of "cnt (w - j)" bw _ _ c k l t]
    by (intro emits_Cons [where sm = "snd_line q c (cnt (w - Suc j)) k l t"]) simp_all
  from emits_append [OF Suc.IH this] Suc.prems show ?case by (simp add: replicate_append_same)
qed simp

lemma start_bit_ends: "uart_rx bw p i (snd_line START_BIT c 1 k 0 t) = Running (snd_line BITS c bw k (level c 0) t)"
  by (simp add: uart_rx_def Let_def level_def)

lemma bit_ends:
  assumes "k < 8"
  shows "uart_rx bw p i (snd_line BITS c 1 k l t) =
    Running (snd_line (if Suc k = 8 then STOP_BIT else BITS) c bw (Suc k) (lev c (Suc k)) t)"
proof -
  have u: "unat (of_nat (Suc k) :: byte) = Suc k" using assms by (intro unat_byte) simp
  then have e: "(of_nat (Suc k) :: byte) = 8 \<longleftrightarrow> Suc k = 8"
    using unat_byte [of 8] by (auto simp: word_unat_eq_iff)
  have "(of_nat k + 1 :: byte) = of_nat (Suc k)" by simp
  with e u show ?thesis using assms
    by (simp add: uart_rx_def Let_def lev_def level_def del: of_nat_Suc)
qed

lemma levels_emitted:
  assumes "1 < w" and "w < 2 ^ 63"
  shows "k \<le> 8 \<Longrightarrow> emits (cnt w) (snd_line (if k = 8 then STOP_BIT else BITS) c (cnt w) k (lev c k) t)
      (tl (levels_from w c k)) (snd_line STOP_BIT c 1 8 1 t)"
proof (induction "8 - k" arbitrary: k)
  case 0
  then have "k = 8" by simp
  moreover have "tl (levels_from w c 8) = replicate (w - 1) 1"
    using levels_from_step [of 8 w c] assms(1) by (cases w) (simp_all add: lev_def levels_from_def)
  ultimately show ?case
    using hold_samples [of STOP_BIT w "w - 1" "cnt w" c 8 1 t] assms by (simp add: lev_def cnt_Suc_0)
next
  case (Suc m)
  then have k: "k < 8" "m = 8 - Suc k" "Suc k \<le> 8" by auto
  have "levels_from w c k = replicate w (lev c k) @ levels_from w c (Suc k)" using k by (intro levels_from_step) simp
  moreover have "replicate w (lev c k) = lev c k # replicate (w - 1) (lev c k)" using assms(1) by (cases w) auto
  moreover have "levels_from w c (Suc k) = lev c (Suc k) # tl (levels_from w c (Suc k))"
    using levels_from_step [of "Suc k" w c] k assms(1) by (cases w) auto
  ultimately have t: "tl (levels_from w c k) = replicate (w - 1) (lev c k) @ lev c (Suc k) # tl (levels_from w c (Suc k))"
    by simp
  have "emits (cnt w) (snd_line BITS c (cnt w) k (lev c k) t) (replicate (w - 1) (lev c k)) (snd_line BITS c 1 k (lev c k) t)"
    using hold_samples [of BITS w "w - 1" "cnt w" c k "lev c k" t] assms by (simp add: cnt_Suc_0)
  moreover have "emits (cnt w) (snd_line BITS c 1 k (lev c k) t) (lev c (Suc k) # tl (levels_from w c (Suc k)))
      (snd_line STOP_BIT c 1 8 1 t)"
    using bit_ends [OF k(1)] Suc.hyps(1) [OF k(2,3)] by (intro emits_Cons) auto
  ultimately show ?case unfolding t using k(1) by (auto intro: emits_append)
qed

lemma frame_emitted:
  assumes "1 < w" and "w < 2 ^ 63" and "RX_INTERVAL \<le> rx_sometimes s" and "rx_state s = IDLE" and "length is = 10 * w"
  shows "\<exists>s'. rx_run (cnt w) ((True, Some c) # is) s = Running (uart_frame w c @ [1], s') \<and> rx_state s' = IDLE \<and> rx_sometimes s' = 0"
proof -
  have first: "uart_rx (cnt w) True (Some c) s = Running (snd_line START_BIT c (cnt w) 0 0 0)"
    using assms(3,4) by (cases s) (simp add: uart_rx_def rx_idle_def nonblocking_read_def Let_def)
  have l: "levels_from w c 0 = lev c 0 # tl (levels_from w c 0)"
    using levels_from_step [of 0 w c] assms(1) by (cases w) auto
  have r: "replicate w 0 = 0 # replicate (w - 1) (0 :: byte)" using assms(1) by (cases w) auto
  have "emits (cnt w) (snd_line START_BIT c (cnt w) 0 0 0) (replicate (w - 1) 0) (snd_line START_BIT c 1 0 0 0)"
    using hold_samples [of START_BIT w "w - 1" "cnt w" c 0 0 0] assms(1,2) by (simp add: cnt_Suc_0)
  moreover have "emits (cnt w) (snd_line START_BIT c 1 0 0 0) (lev c 0 # tl (levels_from w c 0)) (snd_line STOP_BIT c 1 8 1 0)"
    using levels_emitted [OF assms(1,2), of 0 c 0] start_bit_ends [of "cnt w" _ _ c 0 0]
    by (intro emits_Cons [where sm = "snd_line BITS c (cnt w) 0 (lev c 0) 0"]) (simp_all add: lev_def)
  moreover have "emits (cnt w) (snd_line STOP_BIT c 1 8 1 0) [1] (snd_line IDLE c 0 8 1 0)"
    by (rule emits_Cons [where sm = "snd_line IDLE c 0 8 1 0"]) (simp_all add: uart_rx_def Let_def)
  ultimately have e: "emits (cnt w) (snd_line START_BIT c (cnt w) 0 0 0)
      ((replicate (w - 1) 0 @ levels_from w c 0) @ [1]) (snd_line IDLE c 0 8 1 0)"
    using l by (auto intro: emits_append)
  have "length ((replicate (w - 1) 0 @ levels_from w c 0) @ [1]) = 10 * w"
    using assms(1) by (simp add: levels_from_def length_concat comp_def sum_list_triv)
  with e assms(5) have "rx_run (cnt w) is (snd_line START_BIT c (cnt w) 0 0 0) =
      Running ((replicate (w - 1) 0 @ levels_from w c 0) @ [1], snd_line IDLE c 0 8 1 0)"
    by (simp add: emits_def)
  then show ?thesis using first by (simp add: frame_levels r)
qed

section \<open>Properties\<close>

text \<open>C24: The receiver never miscounts: in every reachable state the bit counter is not 0 and at most twice
  the width of a bit, so that it does not wrap around, and at most eight bits have been received.\<close>

theorem uart_tx_counters_in_range:
  assumes "tx_reachable bw s" and "1 < unat bw" and "unat bw < 2 ^ 63"
  shows "tx_invariant bw s \<and> (tx_state s \<noteq> IDLE \<longrightarrow> 0 < unat (tx_countbits s) \<and> unat (tx_countbits s) \<le> 2 * unat bw)"
proof -
  from assms(1) have "tx_invariant bw s"
  proof (induction rule: tx_reachable.induct)
    case init
    then show ?case by (simp add: tx_init_def tx_invariant_def)
  next
    case (sample s tx)
    with assms(2,3) show ?case by (intro uart_tx_step_invariant)
  qed
  then show ?thesis by (cases "tx_state s") (auto simp: tx_invariant_def)
qed

theorem uart_tx_counters_in_range_witness:
  "tx_invariant 434 (uart_tx 434 0 tx_init) \<and> 0 < unat (tx_countbits (uart_tx 434 0 tx_init))"
  using uart_tx_counters_in_range [OF tx_reachable.sample [OF tx_reachable.init], of 434 0]
  by (simp add: uart_tx_def tx_init_def)

text \<open>C16: The two directions of the serial line agree: when \<open>uart_rx\<close> is idle and finds a character to read, the
  levels it returns over the next ten bit widths, fed to an idle \<open>uart_tx\<close>, make it write exactly that
  character and report no error, for every width of a bit from two clocks on; both ends are idle again.\<close>

theorem uart_loopback:
  assumes "1 < w" and "w < 2 ^ 63" and "RX_INTERVAL \<le> rx_sometimes s" and "rx_state s = IDLE" and "tx_state t = IDLE"
    and "length is = 10 * w"
  shows "\<exists>ls s'. rx_run (of_nat w) ((True, Some c) # is) s = Running (ls, s') \<and> rx_state s' = IDLE \<and>
    tx_state (fold (uart_tx (of_nat w)) ls t) = IDLE \<and>
    tx_written (fold (uart_tx (of_nat w)) ls t) = tx_written t @ [c] \<and>
    tx_errors (fold (uart_tx (of_nat w)) ls t) = tx_errors t"
proof -
  obtain s' where s': "rx_run (cnt w) ((True, Some c) # is) s = Running (uart_frame w c @ [1], s')" "rx_state s' = IDLE"
    using frame_emitted [OF assms(1-4,6)] by blast
  have t: "t = rcv IDLE (tx_countbits t) (unat (tx_bits t)) (tx_byte t) (tx_prev t) (tx_written t) (tx_errors t)"
    using assms(5) by simp
  have "fold (uart_tx (cnt w)) (uart_frame w c @ [1]) t = rcv IDLE 0 8 c 1 (tx_written t @ [c]) (tx_errors t)"
    by (subst t, rule frame_received [OF assms(1,2)])
  with s' show ?thesis unfolding cnt_def by (intro exI [of _ "uart_frame w c @ [1]"] exI [of _ s']) simp
qed

theorem uart_loopback_witness:
  "\<exists>ls s'. rx_run 434 ((True, Some 65) # replicate 4340 (False, None))
      \<lparr>rx_state = IDLE, rx_char = 0, rx_countbits = 0, rx_bit = 0, rx_level = 1, rx_sometimes = 10000\<rparr> = Running (ls, s') \<and>
    rx_state s' = IDLE \<and> tx_written (fold (uart_tx 434) ls tx_init) = [65] \<and> tx_errors (fold (uart_tx 434) ls tx_init) = []"
  using uart_loopback [of 434 "\<lparr>rx_state = IDLE, rx_char = 0, rx_countbits = 0, rx_bit = 0, rx_level = 1, rx_sometimes = 10000\<rparr>"
      tx_init "replicate 4340 (False, None)" 65]
  by (simp add: RX_INTERVAL_def tx_init_def del: replicate_numeral) blast

text \<open>A start bit that begins exactly at the end of a stop bit makes the receiver write the character twice
  and notice the start bit one clock late.\<close>

lemma back_to_back_written_twice:
  "0 < w \<Longrightarrow> w < 2 ^ 63 \<Longrightarrow> uart_tx (cnt w) 0 (rcv STOP_BIT 1 k b p ws es) = rcv IDLE 0 k b 0 (ws @ [b, b]) es"
  by (simp add: uart_tx_def tx_stop_def tx_write_def Let_def is_error_0)
end
