(* ===== verification/Verilator_Main.thy ===== *)
theory Verilator_Main
  imports Uart_Verilator
begin

text \<open>
  The main loop of the Verilator simulation (\<open>verilator/microwatt-verilator.cpp\<close>) with the two directions of the
  serial line.

  The simulated design is generated code: its function \<open>eval\<close>, and whether it has called \<open>$finish\<close>, are
  arguments; the model uses its four ports.  The list of inputs holds, for each iteration of the loop, what
  \<open>poll\<close> and \<open>read\<close> give to \<open>uart_rx\<close>; the loop is followed up to the end of the list.
\<close>

record 's vtop =
  ext_clk :: byte
  ext_rst :: byte
  uart0_txd :: byte
  uart0_rxd :: byte
  design :: 's

record 's verilated =
  v_top :: "'s vtop"
  v_time :: u64
  v_tx :: tx_line
  v_rx :: rx_line

definition tick :: "('s vtop \<Rightarrow> 's vtop) \<Rightarrow> 's verilated \<Rightarrow> 's verilated" where
  "tick eval s =
     (let s1 = s\<lparr>v_top := eval ((v_top s)\<lparr>ext_clk := 1\<rparr>), v_time := v_time s + 1\<rparr>
      in s1\<lparr>v_top := eval ((v_top s1)\<lparr>ext_clk := 0\<rparr>), v_time := v_time s1 + 1\<rparr>)"

definition sim_cycle ::
  "('s vtop \<Rightarrow> 's vtop) \<Rightarrow> u64 \<Rightarrow> bool \<times> byte option \<Rightarrow> 's verilated \<Rightarrow> 's verilated ended" where
  "sim_cycle eval bw i s =
     (let s1 = tick eval s; s2 = s1\<lparr>v_tx := uart_tx bw (uart0_txd (v_top s1)) (v_tx s1)\<rparr>
      in case uart_rx bw (fst i) (snd i) (v_rx s2) of
           Exited n \<Rightarrow> Exited n
         | Running r \<Rightarrow> Running (s2\<lparr>v_rx := r, v_top := (v_top s2)\<lparr>uart0_rxd := rx_level r\<rparr>\<rparr>))"

fun sim_loop ::
  "('s vtop \<Rightarrow> 's vtop) \<Rightarrow> ('s vtop \<Rightarrow> bool) \<Rightarrow> u64 \<Rightarrow> (bool \<times> byte option) list \<Rightarrow> 's verilated \<Rightarrow> 's verilated ended" where
  "sim_loop eval got_finish bw [] s = Running s"
| "sim_loop eval got_finish bw (i # is) s =
     (if got_finish (v_top s) then Running s
      else case sim_cycle eval bw i s of Exited n \<Rightarrow> Exited n | Running s1 \<Rightarrow> sim_loop eval got_finish bw is s1)"

definition sim_reset_phase :: "('s vtop \<Rightarrow> 's vtop) \<Rightarrow> 's verilated \<Rightarrow> 's verilated" where
  "sim_reset_phase eval s =
     (let s1 = (tick eval ^^ 5) (s\<lparr>v_top := (v_top s)\<lparr>ext_rst := 0\<rparr>\<rparr>)
      in s1\<lparr>v_top := (v_top s1)\<lparr>ext_rst := 1\<rparr>\<rparr>)"

definition verilator_main ::
  "('s vtop \<Rightarrow> 's vtop) \<Rightarrow> ('s vtop \<Rightarrow> bool) \<Rightarrow> u64 \<Rightarrow> (bool \<times> byte option) list \<Rightarrow> 's verilated \<Rightarrow> 's verilated ended" where
  "verilator_main eval got_finish bw is s = sim_loop eval got_finish bw is (sim_reset_phase eval s)"

section \<open>The design between the two directions\<close>

text \<open>A design alone, with a level for its input after each clock: the levels of its output after the clocks, and its state.\<close>

definition clocked :: "('s vtop \<Rightarrow> 's vtop) \<Rightarrow> 's vtop \<Rightarrow> 's vtop" where
  "clocked eval t = eval ((eval (t\<lparr>ext_clk := 1\<rparr>))\<lparr>ext_clk := 0\<rparr>)"

fun design_run :: "('s vtop \<Rightarrow> 's vtop) \<Rightarrow> byte list \<Rightarrow> 's vtop \<Rightarrow> byte list \<times> 's vtop" where
  "design_run eval [] t = ([], t)"
| "design_run eval (l # ls) t =
     (let t1 = clocked eval t; (xs, t2) = design_run eval ls (t1\<lparr>uart0_rxd := l\<rparr>) in (uart0_txd t1 # xs, t2))"

text \<open>It does not call \<open>$finish\<close> before the last of these clocks.\<close>

fun keeps_running :: "('s vtop \<Rightarrow> 's vtop) \<Rightarrow> ('s vtop \<Rightarrow> bool) \<Rightarrow> byte list \<Rightarrow> 's vtop \<Rightarrow> bool" where
  "keeps_running eval got_finish [] t \<longleftrightarrow> True"
| "keeps_running eval got_finish (l # ls) t \<longleftrightarrow>
     \<not> got_finish t \<and> keeps_running eval got_finish ls ((clocked eval t)\<lparr>uart0_rxd := l\<rparr>)"

lemma tick_lines [simp]: "v_tx (tick eval s) = v_tx s" "v_rx (tick eval s) = v_rx s" "v_time (tick eval s) = v_time s + 2"
  "v_top (tick eval s) = clocked eval (v_top s)"
  by (simp_all add: tick_def clocked_def Let_def)

text \<open>The main loop joins the design with the two directions: its input has the levels of the transmitter, and the receiver gets the levels of its
  output.\<close>

lemma sim_loop_joins:
  "rx_run bw is (v_rx s) = Running (ls, r) \<Longrightarrow> keeps_running eval got_finish ls (v_top s) \<Longrightarrow>
    \<exists>s'. sim_loop eval got_finish bw is s = Running s' \<and> v_rx s' = r \<and> v_time s' = v_time s + 2 * of_nat (length is) \<and>
      v_top s' = snd (design_run eval ls (v_top s)) \<and> v_tx s' = fold (uart_tx bw) (fst (design_run eval ls (v_top s))) (v_tx s)"
proof (induction "is" arbitrary: s ls)
  case (Cons i "is")
  obtain r1 ms where r1: "uart_rx bw (fst i) (snd i) (v_rx s) = Running r1" "rx_run bw is r1 = Running (ms, r)" "ls = rx_level r1 # ms"
    using Cons.prems by (cases i) (auto split: ended.splits prod.splits)
  define s1 where "s1 = (tick eval s)\<lparr>v_tx := uart_tx bw (uart0_txd (clocked eval (v_top s))) (v_tx s), v_rx := r1,
    v_top := (clocked eval (v_top s))\<lparr>uart0_rxd := rx_level r1\<rparr>\<rparr>"
  have s1: "sim_cycle eval bw i s = Running s1" "v_rx s1 = r1" "v_time s1 = v_time s + 2"
    "v_top s1 = (clocked eval (v_top s))\<lparr>uart0_rxd := rx_level r1\<rparr>" "v_tx s1 = uart_tx bw (uart0_txd (clocked eval (v_top s))) (v_tx s)"
    using r1(1) by (simp_all add: s1_def sim_cycle_def Let_def)
  from Cons.IH [of s1 ms] r1 s1 Cons.prems(2) show ?case by (auto simp: Let_def algebra_simps split: prod.splits)
qed simp

text \<open>The transmitter after a character: for the next \<open>RX_INTERVAL\<close> calls the line stays as it is.\<close>

lemma rx_run_idle:
  "rx_state r = IDLE \<Longrightarrow> unat (rx_sometimes r) + length is \<le> 10000 \<Longrightarrow>
   \<exists>r'. rx_run bw is r = Running (replicate (length is) (rx_level r), r') \<and> rx_state r' = IDLE"
proof (induction "is" arbitrary: r)
  case (Cons i "is")
  obtain p j where i: "i = (p, j)" by (cases i)
  have lt: "\<not> RX_INTERVAL \<le> rx_sometimes r" using Cons.prems(2) by (simp add: RX_INTERVAL_def word_le_nat_alt)
  have u: "unat (rx_sometimes r + 1) = Suc (unat (rx_sometimes r))" using Cons.prems(2) by (simp add: unat_word_ariths)
  have "uart_rx bw p j r = Running (r\<lparr>rx_sometimes := rx_sometimes r + 1\<rparr>)" using Cons.prems(1) lt by (simp add: uart_rx_def rx_idle_def Let_def)
  with Cons.IH [of "r\<lparr>rx_sometimes := rx_sometimes r + 1\<rparr>"] Cons.prems u i show ?case by auto
qed simp

lemma rx_run_last: "rx_run bw is s = Running (ls, r) \<Longrightarrow> ls \<noteq> [] \<Longrightarrow> rx_level r = last ls"
proof (induction "is" arbitrary: s ls)
  case (Cons i "is")
  obtain r1 ms where r1: "rx_run bw is r1 = Running (ms, r)" "ls = rx_level r1 # ms"
    using Cons.prems(1) by (cases i) (auto split: ended.splits prod.splits)
  show ?case
  proof (cases ms)
    case Nil
    then have "is = []" using r1(1) by (cases "is") (auto split: ended.splits prod.splits)
    then show ?thesis using r1 by simp
  next
    case (Cons m ms')
    then show ?thesis using Cons.IH [OF r1(1)] r1(2) by simp
  qed
qed simp

lemma idle_samples:
  "tx_state t = IDLE \<Longrightarrow> fold (uart_tx bw) (replicate k 1) t = t\<lparr>tx_prev := if k = 0 then tx_prev t else 1\<rparr>"
proof (induction k arbitrary: t)
  case (Suc k)
  have "uart_tx bw 1 t = t\<lparr>tx_prev := 1\<rparr>" using Suc.prems by (simp add: uart_tx_def)
  then show ?case using Suc.IH [of "t\<lparr>tx_prev := 1\<rparr>"] Suc.prems by simp
qed simp

text \<open>A frame between idle levels is received once, however long the line is idle before and after it.\<close>

lemma frame_among_idle:
  assumes "1 < w" and "w < 2 ^ 63" and "tx_state t = IDLE"
  shows "fold (uart_tx (cnt w)) (replicate a 1 @ uart_frame w d @ replicate (Suc k) 1) t =
    rcv IDLE 0 8 d 1 (tx_written t @ [d]) (tx_errors t)"
proof -
  have "t = rcv IDLE (tx_countbits t) (unat (tx_bits t)) (tx_byte t) (tx_prev t) (tx_written t) (tx_errors t)" using assms(3) by simp
  then obtain n i b p where t: "t = rcv IDLE n i b p (tx_written t) (tx_errors t)" by blast
  have before: "fold (uart_tx (cnt w)) (replicate a 1) t = rcv IDLE n i b (if a = 0 then p else 1) (tx_written t) (tx_errors t)"
    by (subst (1) t, subst idle_samples) simp_all
  have after: "fold (uart_tx (cnt w)) (replicate k 1) (rcv IDLE 0 8 d 1 ws es) = rcv IDLE 0 8 d 1 ws es" for ws es
    by (subst idle_samples) simp_all
  have parts: "replicate a 1 @ uart_frame w d @ replicate (Suc k) 1 = replicate a 1 @ (uart_frame w d @ [1]) @ replicate k 1" by simp
  show ?thesis by (simp only: parts fold_append [of _ "replicate a 1"] fold_append [of _ "uart_frame w d @ [1]"] o_apply
      before frame_received [OF assms(1,2)] after)
qed

section \<open>Properties\<close>


text \<open>A design that sends a stored frame of \<open>K\<close>, two clocks for a bit, while \<open>A\<close> is typed.\<close>

lemma keeps_running_always: "keeps_running eval (\<lambda>_. False) ls t"
  by (induction ls arbitrary: t) simp_all


text \<open>The reset is low for five clocks, ten steps of the simulation time.\<close>

lemma reset_phase_time: "v_time (sim_reset_phase eval s) = v_time s + 10" "ext_rst (v_top (sim_reset_phase eval s)) = 1"
proof -
  have "v_time ((tick eval ^^ n) s) = v_time s + 2 * of_nat n" for n s by (induction n) (simp_all add: algebra_simps)
  from this [of 5] show "v_time (sim_reset_phase eval s) = v_time s + 10" by (simp add: sim_reset_phase_def Let_def del: funpow.simps)
qed (simp add: sim_reset_phase_def Let_def)

end
