(* ===== verification/Verilator_Tty.thy ===== *)
theory Verilator_Tty
  imports Verilator_Main Terminal
begin

text \<open>
  The terminal of the Verilator simulation (\<open>uart-verilator.c\<close>): \<open>uart_rx\<close> looks for input once in \<open>RX_INTERVAL\<close> idle calls, and switches
  the terminal to raw mode before it does.  The main loop is followed together with the terminal.
\<close>

definition vl_disable_raw_mode :: "tty \<Rightarrow> tty" where
  "vl_disable_raw_mode t = t\<lparr>tty_now := oldt t\<rparr>"

definition vl_enable_raw_mode :: "tty \<Rightarrow> tty" where
  "vl_enable_raw_mode t =
     (if \<not> tty_initialized t
      then let old = tty_now t; newt = cfmakeraw old; newt' = newt\<lparr>c_lflag := c_lflag newt OR ISIG\<rparr>
           in t\<lparr>oldt := old, tty_now := newt', tty_initialized := True, tty_atexit := Suc (tty_atexit t)\<rparr>
      else t)"

text \<open>The two simulators have the same code.\<close>

lemma same_terminal_code: "vl_enable_raw_mode = enable_raw_mode" "vl_disable_raw_mode = disable_raw_mode"
  by (rule ext, simp add: vl_enable_raw_mode_def enable_raw_mode_def vl_disable_raw_mode_def disable_raw_mode_def)+

section \<open>The main loop with its terminal\<close>

definition looks_for_input :: "rx_line \<Rightarrow> bool" where
  "looks_for_input s \<longleftrightarrow> rx_state s = IDLE \<and> rx_sometimes s \<ge> RX_INTERVAL"

definition cycle_tty ::
  "('s vtop \<Rightarrow> 's vtop) \<Rightarrow> u64 \<Rightarrow> bool \<times> byte option \<Rightarrow> 's verilated \<times> tty \<Rightarrow> 's verilated ended \<times> tty" where
  "cycle_tty eval bw i s = (sim_cycle eval bw i (fst s), if looks_for_input (v_rx (fst s)) then vl_enable_raw_mode (snd s) else snd s)"

fun loop_tty ::
  "('s vtop \<Rightarrow> 's vtop) \<Rightarrow> ('s vtop \<Rightarrow> bool) \<Rightarrow> u64 \<Rightarrow> (bool \<times> byte option) list \<Rightarrow> 's verilated \<times> tty \<Rightarrow> 's verilated ended \<times> tty" where
  "loop_tty eval got_finish bw [] s = (Running (fst s), snd s)"
| "loop_tty eval got_finish bw (i # is) s =
     (if got_finish (v_top (fst s)) then (Running (fst s), snd s)
      else case cycle_tty eval bw i s of (Exited n, t) \<Rightarrow> (Exited n, t) | (Running s1, t) \<Rightarrow> loop_tty eval got_finish bw is (s1, t))"

text \<open>The terminal is only followed: the run is that of \<open>sim_loop\<close>.\<close>

lemma loop_tty_run: "fst (loop_tty eval got_finish bw is s) = sim_loop eval got_finish bw is (fst s)"
  by (induction "is" arbitrary: s) (auto simp: cycle_tty_def split: ended.split)

definition tty_act :: "('s vtop \<Rightarrow> 's vtop) \<Rightarrow> u64 \<Rightarrow> bool \<times> byte option \<Rightarrow> 's verilated \<times> tty \<Rightarrow> 's verilated \<times> tty" where
  "tty_act eval bw i s = (case cycle_tty eval bw i s of (Exited n, t) \<Rightarrow> (fst s, t) | (Running s1, t) \<Rightarrow> (s1, t))"

interpretation vl_tty: tty_user "tty_act eval bw" snd for eval bw
  by unfold_locales (auto simp: tty_act_def cycle_tty_def same_terminal_code split: ended.split)

lemma loop_acts: "\<exists>k. snd (loop_tty eval got_finish bw is s) = snd (fold (tty_act eval bw) (take k is) s)"
proof (induction "is" arbitrary: s)
  case (Cons i "is")
  obtain r t where r: "cycle_tty eval bw i s = (r, t)" by fastforce
  show ?case
  proof (cases "got_finish (v_top (fst s))")
    case True
    then show ?thesis by (intro exI [of _ 0]) simp
  next
    case False
    show ?thesis
    proof (cases r)
      case (Running s1)
      obtain k where "snd (loop_tty eval got_finish bw is (s1, t)) = snd (fold (tty_act eval bw) (take k is) (s1, t))" using Cons by blast
      moreover have "tty_act eval bw i s = (s1, t)" using r Running by (simp add: tty_act_def)
      ultimately show ?thesis using False r Running by (intro exI [of _ "Suc k"]) simp
    next
      case (Exited n)
      then show ?thesis using False r by (intro exI [of _ 1]) (simp add: tty_act_def)
    qed
  qed
qed simp

text \<open>When the simulation exits, whether the design finished it or a failing \<open>read\<close>, the terminal has its old settings.\<close>

lemma simulation_restores_terminal:
  "tty_start mode t \<Longrightarrow> tty_now (process_end By_Exit (snd (loop_tty eval got_finish bw is (s, t)))) = mode"
  using loop_acts [of eval got_finish bw "is" "(s, t)"] vl_tty.acts_restore [of mode "(s, t)" eval bw] by auto

text \<open>The terminal is left alone for the first \<open>RX_INTERVAL\<close> idle calls.\<close>

lemma first_look: "rx_sometimes (v_rx s) < RX_INTERVAL \<Longrightarrow> snd (cycle_tty eval bw i (s, t)) = t"
  by (auto simp: cycle_tty_def looks_for_input_def)

end
