(* ===== verification/Hello_World.thy ===== *)
theory Hello_World
  imports Console
begin

text \<open>
  The demonstration programs (\<open>hello_world/hello_world.c\<close> and \<open>rust_lib_demo/hello_world.c\<close>) on top of the
  serial console.

  The strings of the program lie in memory at addresses that are arguments.  \<open>main\<close> of the first program
  never returns; what it does is the start (\<open>hello_start\<close>) followed by the iterations of the endless loop
  (\<open>echo_loop\<close> for the first \<open>n\<close> of them).

  The locale \<open>board\<close> is a console on a system whose register with the revision can be read without a
  side effect.
\<close>

section \<open>The greeting\<close>

record strings =
  mw_logo1 :: addr
  mw_dirty :: addr
  mw_logo2 :: addr

definition git_digit :: "u64 \<Rightarrow> int" where
  "git_digit gitinfo =
     (let c = uint (drop_bit 52 gitinfo AND 0xf) in if c \<ge> 10 then 0x61 + c - 10 else 0x30 + c)"

text \<open>The loop over the digits; \<open>k\<close> iterations are left.\<close>

fun git_loop :: "'d bus \<Rightarrow> u64 \<Rightarrow> nat \<Rightarrow> 'd con \<Rightarrow> 'd con option" where
  "git_loop io gitinfo 0 s = Some s"
| "git_loop io gitinfo (Suc k) s =
     do { (_, s1) \<leftarrow> putchar io (git_digit gitinfo) s; git_loop io (push_bit 4 gitinfo) k s1 }"

definition hello_start :: "'d bus \<Rightarrow> mem \<Rightarrow> strings \<Rightarrow> 'd con \<Rightarrow> 'd con option" where
  "hello_start io m str s =
     do { (_, s1) \<leftarrow> puts io m (mw_logo1 str) (console_init io s);
          let (gitinfo, d) = readq io (SYSCON_BASE + SYS_REG_GIT_INFO) (dev s1);
          s2 \<leftarrow> git_loop io gitinfo 14 (s1\<lparr>dev := d\<rparr>);
          s3 \<leftarrow> (if drop_bit 63 gitinfo \<noteq> 0 then map_option snd (puts io m (mw_dirty str) s2) else Some s2);
          map_option snd (puts io m (mw_logo2 str) s3) }"

section \<open>The echo\<close>

definition echo_step :: "'d bus \<Rightarrow> 'd con \<Rightarrow> 'd con option" where
  "echo_step io s =
     do { (r, s1) \<leftarrow> getchar io s;
          let c = (of_int r :: byte);
          (_, s2) \<leftarrow> putchar io (uint c) s1;
          (if c = 13 then map_option snd (putchar io 10 s2) else Some s2) }"

fun echo_loop :: "'d bus \<Rightarrow> nat \<Rightarrow> 'd con \<Rightarrow> 'd con option" where
  "echo_loop io 0 s = Some s"
| "echo_loop io (Suc n) s = do { s1 \<leftarrow> echo_step io s; echo_loop io n s1 }"

text \<open>\<open>main\<close> up to the end of the \<open>n\<close>-th iteration.\<close>

definition hello_main :: "'d bus \<Rightarrow> mem \<Rightarrow> strings \<Rightarrow> nat \<Rightarrow> 'd con \<Rightarrow> 'd con option" where
  "hello_main io m str n s = do { s1 \<leftarrow> hello_start io m str s; echo_loop io n s1 }"

section \<open>Clearing the uninitialised data\<close>

text \<open>The loop of the second program stores 32-bit zeros while the pointer is below the end; \<open>k\<close> is the
  number of words left, the last of which may pass the end by up to three bytes.\<close>

fun bss_loop :: "mem \<Rightarrow> addr \<Rightarrow> nat \<Rightarrow> mem" where
  "bss_loop m p 0 = m"
| "bss_loop m p (Suc k) = bss_loop (mwrite m p [0, 0, 0, 0]) (p + 4) k"

definition init_bss :: "mem \<Rightarrow> addr \<Rightarrow> addr \<Rightarrow> mem" where
  "init_bss m bss ebss = bss_loop m bss ((unat ebss - unat bss + 3) div 4)"

text \<open>\<open>main\<close> of the second program up to the call of the Rust code.\<close>

definition rust_demo_start :: "'d bus \<Rightarrow> addr \<Rightarrow> addr \<Rightarrow> addr \<Rightarrow> mem \<Rightarrow> 'd con \<Rightarrow> (mem \<times> 'd con) option" where
  "rust_demo_start io bss ebss hello m s =
     (let m' = init_bss m bss ebss
      in do { (_, s') \<leftarrow> puts io m' hello (console_init io s); Some (m', s') })"

text \<open>The Rust code is a parameter that may not return; \<open>crash\<close> calls the code at an invalid address, which is where the program ends.\<close>

definition crash :: addr where "crash = 0xdeadbeef"

definition rust_demo_main ::
  "'d bus \<Rightarrow> addr \<Rightarrow> addr \<Rightarrow> addr \<Rightarrow> (mem \<Rightarrow> 'd con \<Rightarrow> (mem \<times> 'd con) option) \<Rightarrow> mem \<Rightarrow> 'd con \<Rightarrow> (addr \<times> mem \<times> 'd con) option" where
  "rust_demo_main io bss ebss hello rust_main m s =
     do { (m1, s1) \<leftarrow> rust_demo_start io bss ebss hello m s; (m2, s2) \<leftarrow> rust_main m1 s1; Some (crash, m2, s2) }"

lemma bss_loop_mwrite: "bss_loop m p k = mwrite m p (replicate (4 * k) 0)"
proof (induction k arbitrary: m p)
  case (Suc k)
  have "replicate (4 * Suc k) (0 :: byte) = [0, 0, 0, 0] @ replicate (4 * k) 0"
    by (simp only: mult_Suc_right replicate_add) simp
  with Suc show ?case by (simp only: bss_loop.simps mwrite_append) simp
qed simp

text \<open>All of the section is zero afterwards, when its length is a multiple of four.\<close>

lemma init_bss_clears:
  assumes "bss \<le> ebss" and "4 dvd unat ebss - unat bss"
  shows "init_bss m bss ebss = mwrite m bss (replicate (unat ebss - unat bss) 0)"
  using assms(2) by (auto simp: init_bss_def bss_loop_mwrite elim!: dvdE)

text \<open>When the console works after its initialisation, the second program greets, runs the Rust code with cleared data, and ends in the crash.\<close>

lemma rust_demo_ends:
  assumes "console io ok sent incoming" and "ok (console_init io s)" and "cstr (init_bss m bss ebss) hello t"
  shows "\<exists>s'. ok s' \<and> sent s' = sent (console_init io s) @ crlf t \<and>
    rust_demo_main io bss ebss hello rust_main m s =
      map_option (\<lambda>(m2, s2). (0xdeadbeef, m2, s2)) (rust_main (init_bss m bss ebss) s')"
proof -
  obtain s' where "puts io (init_bss m bss ebss) hello (console_init io s) = Some (0, s')" "ok s'" "sent s' = sent (console_init io s) @ crlf t"
    using console.puts_sends [OF assms] by blast
  then show ?thesis
    by (cases "rust_main (init_bss m bss ebss) s'") (auto simp: rust_demo_main_def rust_demo_start_def crash_def Let_def)
qed

section \<open>What a terminal sees\<close>

definition hex_digit :: "u64 \<Rightarrow> byte" where
  "hex_digit v = (let c = v AND 0xf in if c \<ge> 10 then 0x57 + ucast c else 0x30 + ucast c)"

definition git_text :: "u64 \<Rightarrow> byte list" where
  "git_text gitinfo = map (\<lambda>i. hex_digit (drop_bit (52 - 4 * i) gitinfo)) [0..<14]"

definition echo_text :: "byte list \<Rightarrow> byte list" where
  "echo_text cs = concat (map (\<lambda>c. if c = 13 then [13, 10] else [c]) cs)"


locale board = console io ok sent incoming
  for io :: "'d bus" and ok :: "'d con \<Rightarrow> bool" and sent :: "'d con \<Rightarrow> byte list" and incoming :: "'d con \<Rightarrow> byte list" +
  fixes git :: u64
  assumes git_info: "ok s \<Longrightarrow> readq io (SYSCON_BASE + SYS_REG_GIT_INFO) (dev s) = (v, d) \<Longrightarrow>
      v = git \<and> ok (s\<lparr>dev := d\<rparr>) \<and> sent (s\<lparr>dev := d\<rparr>) = sent s \<and> incoming (s\<lparr>dev := d\<rparr>) = incoming s"
begin

lemma git_loop_sends:
  "ok s \<Longrightarrow> \<exists>s'. git_loop io g k s = Some s' \<and> ok s' \<and> incoming s' = incoming s \<and>
     sent s' = sent s @ map (\<lambda>i. of_int (git_digit (push_bit (4 * i) g))) [0..<k]"
proof (induction k arbitrary: g s)
  case (Suc k)
  obtain s1 where s1: "putchar io (git_digit g) s = Some (git_digit g, s1)" "ok s1"
    "sent s1 = sent s @ [of_int (git_digit g)]" "incoming s1 = incoming s"
    using put [OF Suc.prems] by blast
  obtain s2 where s2: "git_loop io (push_bit 4 g) k s1 = Some s2" "ok s2" "incoming s2 = incoming s1"
    "sent s2 = sent s1 @ map (\<lambda>i. of_int (git_digit (push_bit (4 * i) (push_bit 4 g)))) [0..<k]"
    using Suc.IH [OF s1(2)] by blast
  have "[0..<Suc k] = 0 # map Suc [0..<k]" by (metis upt_conv_Cons map_Suc_upt zero_less_Suc)
  then have "map (\<lambda>i. of_int (git_digit (push_bit (4 * i) g)) :: byte) [0..<Suc k] =
      of_int (git_digit g) # map (\<lambda>i. of_int (git_digit (push_bit (4 * i) (push_bit 4 g)))) [0..<k]"
    by (simp add: comp_def push_bit_push_bit algebra_simps del: upt_Suc)
  with s1 s2 show ?case by (simp del: upt_Suc)
qed simp

lemma echo_step_sends:
  assumes "ok s" and "incoming s = c # cs"
  shows "\<exists>s'. echo_step io s = Some s' \<and> ok s' \<and> incoming s' = cs \<and> sent s' = sent s @ (if c = 13 then [13, 10] else [c])"
proof -
  obtain s1 where s1: "getchar io s = Some (uint c, s1)" "ok s1" "sent s1 = sent s" "incoming s1 = cs"
    using get [OF assms] by blast
  obtain s2 where s2: "putchar io (uint c) s1 = Some (uint c, s2)" "ok s2" "sent s2 = sent s1 @ [c]" "incoming s2 = incoming s1"
    using put [OF s1(2), of "uint c"] by auto
  obtain s3 where s3: "putchar io 10 s2 = Some (10, s3)" "ok s3" "sent s3 = sent s2 @ [10]" "incoming s3 = incoming s2"
    using put [OF s2(2), of 10] by auto
  show ?thesis using s1 s2 s3 by (cases "c = 13") (simp_all add: echo_step_def)
qed

lemma echo_loop_sends:
  "ok s \<Longrightarrow> incoming s = cs @ rest \<Longrightarrow> \<exists>s'. echo_loop io (length cs) s = Some s' \<and> ok s' \<and> incoming s' = rest \<and>
     sent s' = sent s @ echo_text cs"
proof (induction cs arbitrary: s)
  case (Cons c cs)
  then obtain s1 where s1: "echo_step io s = Some s1" "ok s1" "incoming s1 = cs @ rest"
    "sent s1 = sent s @ (if c = 13 then [13, 10] else [c])"
    using echo_step_sends [of s c "cs @ rest"] by auto
  with Cons.IH [OF s1(2,3)] show ?case by (auto simp: echo_text_def)
qed (simp add: echo_text_def)

lemma hello_start_sends:
  assumes "ok (console_init io s)" and "cstr m (mw_logo1 str) l1" and "cstr m (mw_dirty str) dt" and "cstr m (mw_logo2 str) l2"
  shows "\<exists>s'. hello_start io m str s = Some s' \<and> ok s' \<and> incoming s' = incoming (console_init io s) \<and>
    sent s' = sent (console_init io s) @ crlf l1 @ map (\<lambda>i. of_int (git_digit (push_bit (4 * i) git))) [0..<14] @
      (if bit git 63 then crlf dt else []) @ crlf l2"
proof -
  obtain s1 where s1: "puts io m (mw_logo1 str) (console_init io s) = Some (0, s1)" "ok s1"
    "sent s1 = sent (console_init io s) @ crlf l1" "incoming s1 = incoming (console_init io s)"
    using puts_sends [OF assms(1,2)] by blast
  obtain v d where v: "readq io (SYSCON_BASE + SYS_REG_GIT_INFO) (dev s1) = (v, d)" by fastforce
  note g = git_info [OF s1(2) v]
  obtain s2 where s2: "git_loop io git 14 (s1\<lparr>dev := d\<rparr>) = Some s2" "ok s2" "incoming s2 = incoming s1"
    "sent s2 = sent s1 @ map (\<lambda>i. of_int (git_digit (push_bit (4 * i) git))) [0..<14]"
    using git_loop_sends [of "s1\<lparr>dev := d\<rparr>" git 14] g by auto
  have dirty: "drop_bit 63 git \<noteq> 0 \<longleftrightarrow> bit git 63"
  proof -
    have "\<not> bit git (63 + n)" if "n \<noteq> 0" for n
      using that bit_imp_le_length [of git "63 + n"] by auto
    then have "bit (drop_bit 63 git) n = bit (of_bool (bit git 63) :: u64) n" for n
      by (cases "n = 0") (auto simp: bit_simps)
    then have "drop_bit 63 git = of_bool (bit git 63)" by (intro bit_word_eqI) simp
    then show ?thesis by simp
  qed
  obtain s3 where s3: "(if drop_bit 63 git \<noteq> 0 then map_option snd (puts io m (mw_dirty str) s2) else Some s2) = Some s3"
    "ok s3" "sent s3 = sent s2 @ (if bit git 63 then crlf dt else [])" "incoming s3 = incoming s2"
    using puts_sends [OF s2(2) assms(3)] s2(2) dirty by (cases "bit git 63") auto
  obtain s4 where s4: "puts io m (mw_logo2 str) s3 = Some (0, s4)" "ok s4" "sent s4 = sent s3 @ crlf l2" "incoming s4 = incoming s3"
    using puts_sends [OF s3(2) assms(4)] by blast
  from s1 s2 s3 s4 v g show ?thesis by (simp add: hello_start_def del: upt_rec_numeral)
qed

end

lemma git_digit_text: "i < 14 \<Longrightarrow> (of_int (git_digit (push_bit (4 * i) g)) :: byte) = hex_digit (drop_bit (52 - 4 * i) g)"
proof -
  assume i: "i < 14"
  have e: "drop_bit 52 (push_bit (4 * i) g) AND 15 = drop_bit (52 - 4 * i) g AND 15"
  proof (rule bit_word_eqI)
    fix n
    assume "n < LENGTH(64)"
    have "bit (15 :: u64) n \<longleftrightarrow> n < 4"
      using bit_mask_iff [of 4 n, where ?'a = u64] \<open>n < LENGTH(64)\<close> by (simp add: mask_eq_exp_minus_1)
    with i show "bit (drop_bit 52 (push_bit (4 * i) g) AND 15) n \<longleftrightarrow> bit (drop_bit (52 - 4 * i) g AND 15) n"
      by (cases "n < 4") (auto simp: bit_simps)
  qed
  have "drop_bit (52 - 4 * i) g AND 15 \<le> 15" by (rule word_and_le1)
  then show ?thesis unfolding git_digit_def hex_digit_def e Let_def
    by (auto simp: word_le_def)
qed

lemma git_text_loop: "map (\<lambda>i. of_int (git_digit (push_bit (4 * i) g))) [0..<14] = git_text g"
  unfolding git_text_def by (rule map_cong) (auto simp: git_digit_text simp del: upt_rec_numeral)

section \<open>Properties\<close>

lemma potato_board:
  "board (uart_potato_bus k) (\<lambda>s. uart_is_std s = False \<and> uart_base s = UART_BASE \<and> True) (\<lambda>s. ud_sent (dev s)) (\<lambda>s. ud_in (dev s)) 0"
proof (intro board.intro board_axioms.intro)
  show "console (uart_potato_bus k) (\<lambda>s. uart_is_std s = False \<and> uart_base s = UART_BASE \<and> True)
      (\<lambda>s. ud_sent (dev s)) (\<lambda>s. ud_in (dev s))"
    by (rule uart_potato.potato_console [OF potato_dev.uart_potato_axioms])
qed (auto simp: readq_def uart_potato_bus_def soc_consts)

interpretation demo_board: board "uart_potato_bus k" "\<lambda>s. uart_is_std s = False \<and> uart_base s = UART_BASE \<and> True"
  "\<lambda>s. ud_sent (dev s)" "\<lambda>s. ud_in (dev s)" 0 for k
  by (rule potato_board)

text \<open>C28: The demonstration program greets and echoes: on a board with a working console, \<open>main\<close> sends the first
  part of the logo, the 14 hexadecimal digits of the revision, the mark of a modified tree when bit 63 says so,
  and the rest of the logo, and then sends back every character it receives, with a line feed after each
  carriage return.\<close>

theorem hello_world_session:
  assumes "board io ok sent incoming git" and "ok (console_init io s)"
    and "cstr m (mw_logo1 str) l1" and "cstr m (mw_dirty str) dt" and "cstr m (mw_logo2 str) l2"
    and "incoming (console_init io s) = cs @ rest"
  shows "\<exists>s'. hello_main io m str (length cs) s = Some s' \<and> incoming s' = rest \<and>
    sent s' = sent (console_init io s) @ crlf l1 @ git_text git @ (if bit git 63 then crlf dt else []) @ crlf l2 @ echo_text cs"
proof -
  obtain s1 where s1: "hello_start io m str s = Some s1" "ok s1" "incoming s1 = cs @ rest"
    "sent s1 = sent (console_init io s) @ crlf l1 @ git_text git @ (if bit git 63 then crlf dt else []) @ crlf l2"
    using board.hello_start_sends [OF assms(1-5)] assms(6) unfolding git_text_loop by auto
  from board.echo_loop_sends [OF assms(1) s1(2,3)] s1 show ?thesis by (auto simp: hello_main_def)
qed

theorem hello_world_session_witness:
  "\<exists>s'. hello_main (uart_potato_bus 2) (mwrite (\<lambda>_. 0) 100 [77, 10]) \<lparr>mw_logo1 = 100, mw_dirty = 200, mw_logo2 = 101\<rparr> 2
      \<lparr>uart_is_std = False, uart_base = 0, dev = \<lparr>ud_busy = 0, ud_sent = [], ud_in = [65, 13, 66]\<rparr>\<rparr> = Some s' \<and>
    ud_in (dev s') = [66] \<and>
    ud_sent (dev s') = [77, 13, 10] @ replicate 14 48 @ [13, 10] @ [65, 13, 10]"
proof -
  let ?s = "\<lparr>uart_is_std = False, uart_base = 0, dev = \<lparr>ud_busy = 0, ud_sent = [], ud_in = [65, 13, 66]\<rparr>\<rparr>"
  have i: "console_init (uart_potato_bus 2) ?s = ?s\<lparr>uart_base := UART_BASE\<rparr>"
    by (simp add: console_init_def readq_def uart_potato_bus_def potato_uart_init_def potato_uart_reg_write_def writeq_def soc_consts)
  have g: "git_text 0 = replicate 14 48" by (simp add: git_text_def hex_digit_def map_replicate_const del: upt_rec_numeral)
  have n: "length [65, 13 :: byte] = 2" by simp
  show ?thesis
    using hello_world_session [OF potato_board [of 2], of ?s "mwrite (\<lambda>_. 0) 100 [77, 10]"
        "\<lparr>mw_logo1 = 100, mw_dirty = 200, mw_logo2 = 101\<rparr>" "[77, 10]" "[]" "[10]" "[65, 13]" "[66]"]
    unfolding i g n by (simp add: crlf_def echo_text_def)
qed
end
