(* ===== verification/Sim_Litedram.thy ===== *)
theory Sim_Litedram
  imports Vhpi
begin

text \<open>
  The connection between the VHDL simulation and the Verilator model of the memory controller
  (\<open>litedram/extras/sim_litedram_c.cpp\<close>), and its caller, the process of \<open>litedram/extras/sim_litedram.vhdl\<close>.

  The model of the controller is generated code that is not part of the repository: its function \<open>eval\<close> and
  the object that \<open>new\<close> gives are arguments.  What the functions use of it are its ports, whose types follow
  Verilator's rule (up to 8, 16 and 32 bits, and arrays of 32-bit words).  A call reads or writes its buffer
  through a pointer that advances; an access after the end of the buffer is \<open>Fault\<close>.  The warnings of
  \<open>check_size\<close> are a list of expected and actual sizes.  Wave traces are not modelled.
\<close>

record wide =
  word0 :: u32
  word1 :: u32
  word2 :: u32
  word3 :: u32

record 's vcore =
  clk :: byte
  wb_ctrl_cti :: byte
  wb_ctrl_bte :: byte
  wb_ctrl_sel :: byte
  wb_ctrl_we :: byte
  wb_ctrl_stb :: byte
  wb_ctrl_cyc :: byte
  wb_ctrl_adr :: u32
  wb_ctrl_dat_w :: u32
  init_error :: byte
  init_done :: byte
  wb_ctrl_err :: byte
  wb_ctrl_ack :: byte
  wb_ctrl_dat_r :: u32
  cmd_valid :: byte
  cmd_we :: byte
  wdata_valid :: byte
  rdata_ready :: byte
  cmd_addr :: u32
  wdata_we :: "16 word"
  wdata_data :: wide
  cmd_ready :: byte
  wdata_ready :: byte
  rdata_valid :: byte
  rdata_data :: wide
  inner :: 's

record 's litedram =
  ld_core :: "'s vcore option"
  ld_time :: u64
  ld_warnings :: "(nat \<times> nat) list"

section \<open>The core\<close>

definition check_init :: "'s vcore option \<Rightarrow> 's litedram \<Rightarrow> 's vcore outcome" where
  "check_init fresh st =
     (case ld_core st of
        Some v \<Rightarrow> Done v
      | None \<Rightarrow> (case fresh of None \<Rightarrow> Exit 1 | Some v \<Rightarrow> Done v))"

definition do_eval :: "('s vcore \<Rightarrow> 's vcore) \<Rightarrow> 's vcore \<Rightarrow> 's litedram \<Rightarrow> 's litedram" where
  "do_eval eval v st = st\<lparr>ld_core := Some (eval v), ld_time := ld_time st + 1\<rparr>"

definition check_size :: "nat \<Rightarrow> nat \<Rightarrow> 's litedram \<Rightarrow> 's litedram" where
  "check_size s e st = (if s \<noteq> e then st\<lparr>ld_warnings := ld_warnings st @ [(e, s)]\<rparr> else st)"

section \<open>Bits through an advancing pointer\<close>

fun get_bit :: "vhpi_codes \<Rightarrow> byte list \<Rightarrow> (byte \<times> byte list) outcome" where
  "get_bit vh [] = Fault"
| "get_bit vh (b # q) = Done (if b = vhpi1 vh then 1 else 0, q)"

fun get_loop :: "vhpi_codes \<Rightarrow> nat \<Rightarrow> u64 \<Rightarrow> byte list \<Rightarrow> (u64 \<times> byte list) outcome" where
  "get_loop vh 0 r p = Done (r, p)"
| "get_loop vh (Suc len) r p = obind (get_bit vh p) (\<lambda>(b, q). get_loop vh len (push_bit 1 r OR ucast b) q)"

definition get_bits :: "vhpi_codes \<Rightarrow> nat \<Rightarrow> byte list \<Rightarrow> (u64 \<times> byte list) outcome" where
  "get_bits vh len p = get_loop vh len 0 p"

text \<open>While a buffer is written it is the part before the pointer and the part from the pointer on.\<close>

fun set_bit_code :: "vhpi_codes \<Rightarrow> bool \<Rightarrow> byte list \<times> byte list \<Rightarrow> (byte list \<times> byte list) outcome" where
  "set_bit_code vh b (w, []) = Fault"
| "set_bit_code vh b (w, c # q) = Done (w @ [if b then vhpi1 vh else vhpi0 vh], q)"

fun set_bits :: "vhpi_codes \<Rightarrow> u64 \<Rightarrow> nat \<Rightarrow> byte list \<times> byte list \<Rightarrow> (byte list \<times> byte list) outcome" where
  "set_bits vh val 0 p = Done p"
| "set_bits vh val (Suc len) p = obind (set_bit_code vh (drop_bit len val AND 1 \<noteq> 0) p) (set_bits vh val len)"

section \<open>The functions that the simulator calls\<close>

definition litedram_set_wb ::
  "vhpi_codes \<Rightarrow> ('s vcore \<Rightarrow> 's vcore) \<Rightarrow> 's vcore option \<Rightarrow> byte list \<Rightarrow> 's litedram \<Rightarrow> 's litedram outcome" where
  "litedram_set_wb vh eval fresh req st =
     obind (check_init fresh st) (\<lambda>v.
     obind (get_bits vh 3 req) (\<lambda>(cti, p1).
     obind (get_bits vh 2 p1) (\<lambda>(bte, p2).
     obind (get_bits vh 4 p2) (\<lambda>(sel, p3).
     obind (get_bit vh p3) (\<lambda>(we, p4).
     obind (get_bit vh p4) (\<lambda>(stb, p5).
     obind (get_bit vh p5) (\<lambda>(cyc, p6).
     obind (get_bits vh 30 p6) (\<lambda>(adr, p7).
     obind (get_bits vh 32 p7) (\<lambda>(dat_w, p8).
     Done (do_eval eval
       (v\<lparr>wb_ctrl_cti := ucast cti, wb_ctrl_bte := ucast bte, wb_ctrl_sel := ucast sel, wb_ctrl_we := we,
          wb_ctrl_stb := stb, wb_ctrl_cyc := cyc, wb_ctrl_adr := ucast adr, wb_ctrl_dat_w := ucast dat_w\<rparr>)
       (check_size (length req - length p8) 74 st)))))))))))"

definition litedram_get_wb ::
  "vhpi_codes \<Rightarrow> 's vcore option \<Rightarrow> byte list \<Rightarrow> 's litedram \<Rightarrow> (byte list \<times> 's litedram) outcome" where
  "litedram_get_wb vh fresh req st =
     obind (check_init fresh st) (\<lambda>v.
     obind (set_bit_code vh (init_error v \<noteq> 0) ([], req)) (\<lambda>p1.
     obind (set_bit_code vh (init_done v \<noteq> 0) p1) (\<lambda>p2.
     obind (set_bit_code vh (wb_ctrl_err v \<noteq> 0) p2) (\<lambda>p3.
     obind (set_bit_code vh (wb_ctrl_ack v \<noteq> 0) p3) (\<lambda>p4.
     obind (set_bits vh (ucast (wb_ctrl_dat_r v)) 32 p4) (\<lambda>(w, q).
     Done (w @ q, check_size (length w) 36 (st\<lparr>ld_core := Some v\<rparr>))))))))"

definition litedram_set_user ::
  "vhpi_codes \<Rightarrow> ('s vcore \<Rightarrow> 's vcore) \<Rightarrow> 's vcore option \<Rightarrow> byte list \<Rightarrow> 's litedram \<Rightarrow> 's litedram outcome" where
  "litedram_set_user vh eval fresh req st =
     obind (check_init fresh st) (\<lambda>v.
     obind (get_bit vh req) (\<lambda>(valid, p1).
     obind (get_bit vh p1) (\<lambda>(we, p2).
     obind (get_bit vh p2) (\<lambda>(wvalid, p3).
     obind (get_bit vh p3) (\<lambda>(ready, p4).
     obind (get_bits vh 24 p4) (\<lambda>(adr, p5).
     obind (get_bits vh 16 p5) (\<lambda>(wwe, p6).
     obind (get_bits vh 32 p6) (\<lambda>(d3, p7).
     obind (get_bits vh 32 p7) (\<lambda>(d2, p8).
     obind (get_bits vh 32 p8) (\<lambda>(d1, p9).
     obind (get_bits vh 32 p9) (\<lambda>(d0, p10).
     Done (do_eval eval
       (v\<lparr>cmd_valid := valid, cmd_we := we, wdata_valid := wvalid, rdata_ready := ready, cmd_addr := ucast adr,
          wdata_we := ucast wwe,
          wdata_data := \<lparr>word0 = ucast d0, word1 = ucast d1, word2 = ucast d2, word3 = ucast d3\<rparr>\<rparr>)
       (check_size (length req - length p10) 172 st)))))))))))))"

definition litedram_get_user ::
  "vhpi_codes \<Rightarrow> 's vcore option \<Rightarrow> byte list \<Rightarrow> 's litedram \<Rightarrow> (byte list \<times> 's litedram) outcome" where
  "litedram_get_user vh fresh req st =
     obind (check_init fresh st) (\<lambda>v.
     obind (set_bit_code vh (cmd_ready v \<noteq> 0) ([], req)) (\<lambda>p1.
     obind (set_bit_code vh (wdata_ready v \<noteq> 0) p1) (\<lambda>p2.
     obind (set_bit_code vh (rdata_valid v \<noteq> 0) p2) (\<lambda>p3.
     obind (set_bits vh (ucast (word3 (rdata_data v))) 32 p3) (\<lambda>p4.
     obind (set_bits vh (ucast (word2 (rdata_data v))) 32 p4) (\<lambda>p5.
     obind (set_bits vh (ucast (word1 (rdata_data v))) 32 p5) (\<lambda>p6.
     obind (set_bits vh (ucast (word0 (rdata_data v))) 32 p6) (\<lambda>(w, q).
     Done (w @ q, check_size (length w) 131 (st\<lparr>ld_core := Some v\<rparr>))))))))))"

definition litedram_clock ::
  "('s vcore \<Rightarrow> 's vcore) \<Rightarrow> 's vcore option \<Rightarrow> 's litedram \<Rightarrow> 's litedram outcome" where
  "litedram_clock eval fresh st =
     obind (check_init fresh st) (\<lambda>v.
       let st1 = do_eval eval (v\<lparr>clk := 1\<rparr>) st
       in obind (check_init fresh st1) (\<lambda>v1. Done (do_eval eval (v1\<lparr>clk := 0\<rparr>) st1)))"

definition litedram_init :: "'s vcore option \<Rightarrow> 's litedram \<Rightarrow> 's litedram outcome" where
  "litedram_init fresh st = obind (check_init fresh st) (\<lambda>v. Done (st\<lparr>ld_core := Some v\<rparr>))"

section \<open>The process of the simulator\<close>

text \<open>The signals of the VHDL entity are codes and vectors of codes.\<close>

record dram_in =
  s_cti :: "byte list"
  s_bte :: "byte list"
  s_sel :: "byte list"
  s_we :: byte
  s_stb :: byte
  s_cyc :: byte
  s_adr :: "byte list"
  s_dat_w :: "byte list"
  s_cmd_valid :: byte
  s_cmd_we :: byte
  s_wdata_valid :: byte
  s_rdata_ready :: byte
  s_cmd_addr :: "byte list"
  s_wdata_we :: "byte list"
  s_wdata_data :: "byte list"

record dram_out =
  s_dat_r :: "byte list"
  s_ack :: byte
  s_err :: byte
  s_idone :: byte
  s_ierr :: byte
  s_cmd_ready :: byte
  s_wdata_ready :: byte
  s_rdata_valid :: byte
  s_rdata_data :: "byte list"

definition send_signals ::
  "vhpi_codes \<Rightarrow> ('s vcore \<Rightarrow> 's vcore) \<Rightarrow> 's vcore option \<Rightarrow> dram_in \<Rightarrow> 's litedram \<Rightarrow> 's litedram outcome" where
  "send_signals vh eval fresh i st =
     obind (litedram_set_wb vh eval fresh
       (s_cti i @ s_bte i @ s_sel i @ [s_we i] @ [s_stb i] @ [s_cyc i] @ s_adr i @ s_dat_w i) st)
     (litedram_set_user vh eval fresh
       ([s_cmd_valid i] @ [s_cmd_we i] @ [s_wdata_valid i] @ [s_rdata_ready i] @ s_cmd_addr i @ s_wdata_we i @ s_wdata_data i))"

text \<open>Element \<open>k\<close> of a vector declared \<open>n - 1 downto 0\<close> is at position \<open>n - 1 - k\<close>.\<close>

definition recv_signals :: "vhpi_codes \<Rightarrow> 's vcore option \<Rightarrow> 's litedram \<Rightarrow> (dram_out \<times> 's litedram) outcome" where
  "recv_signals vh fresh st =
     obind (litedram_get_wb vh fresh (replicate 36 0) st) (\<lambda>(wr, st1).
     obind (litedram_get_user vh fresh (replicate 131 0) st1) (\<lambda>(ur, st2).
     Done (\<lparr>s_dat_r = drop 4 wr, s_ack = wr ! 3, s_err = wr ! 2, s_idone = wr ! 1, s_ierr = wr ! 0,
            s_cmd_ready = ur ! 0, s_wdata_ready = ur ! 1, s_rdata_valid = ur ! 2, s_rdata_data = drop 3 ur\<rparr>, st2)))"

definition poll_rising ::
  "vhpi_codes \<Rightarrow> ('s vcore \<Rightarrow> 's vcore) \<Rightarrow> 's vcore option \<Rightarrow> dram_in \<Rightarrow> 's litedram \<Rightarrow> (dram_out \<times> 's litedram) outcome" where
  "poll_rising vh eval fresh i st =
     obind (send_signals vh eval fresh i st) (\<lambda>st1.
     obind (recv_signals vh fresh st1) (\<lambda>(_, st2).
     obind (litedram_clock eval fresh st2) (recv_signals vh fresh)))"

definition poll_falling ::
  "vhpi_codes \<Rightarrow> ('s vcore \<Rightarrow> 's vcore) \<Rightarrow> 's vcore option \<Rightarrow> dram_in \<Rightarrow> 's litedram \<Rightarrow> (dram_out \<times> 's litedram) outcome" where
  "poll_falling vh eval fresh i st = obind (send_signals vh eval fresh i st) (recv_signals vh fresh)"


section \<open>What the buffers hold\<close>

lemma get_loop_val:
  assumes "vhpi0 vh \<noteq> vhpi1 vh"
  shows "n \<le> length p \<Longrightarrow> get_loop vh n r p = Done (push_bit n r OR slv_val vh (take n p), drop n p)"
proof (induction n arbitrary: r p)
  case (Suc n)
  from Suc.prems obtain c q where p: "p = c # q" by (cases p) auto
  have "ucast (if c = vhpi1 vh then 1 else 0 :: byte) = slv_bit vh c" using assms by (simp add: slv_bit_def)
  with Suc p show ?case by (simp add: push_bit_or ac_simps or.assoc min_def)
qed simp

lemma get_bits_val [simp]:
  "vhpi0 vh \<noteq> vhpi1 vh \<Longrightarrow> n \<le> length p \<Longrightarrow> get_bits vh n p = Done (slv_val vh (take n p), drop n p)"
  by (simp add: get_bits_def get_loop_val)

lemma set_bits_enc [simp]:
  "n \<le> length q \<Longrightarrow> n \<le> 64 \<Longrightarrow> set_bits vh v n (w, q) = Done (w @ slv_enc vh n v, drop n q)"
proof (induction n arbitrary: w q)
  case (Suc n)
  from Suc.prems obtain c q' where q: "q = c # q'" by (cases q) auto
  have "drop_bit n v AND 1 \<noteq> 0 \<longleftrightarrow> bit v n"
    using and_exp_eq_0_iff_not_bit [of "drop_bit n v" 0] by (simp add: bit_drop_bit_eq)
  with Suc q show ?case by (simp add: slv_enc_Suc)
qed (simp add: slv_enc_def)

definition logic :: "vhpi_codes \<Rightarrow> bool \<Rightarrow> byte" where
  "logic vh b = (if b then vhpi1 vh else vhpi0 vh)"

lemma set_bit_code_nonempty [simp]: "0 < length q \<Longrightarrow> set_bit_code vh b (w, q) = Done (w @ [logic vh b], drop 1 q)"
  by (cases q) (simp_all add: logic_def)

section \<open>The ports that a signal stands for\<close>

definition dram_widths :: "dram_in \<Rightarrow> bool" where
  "dram_widths i \<longleftrightarrow> length (s_cti i) = 3 \<and> length (s_bte i) = 2 \<and> length (s_sel i) = 4 \<and> length (s_adr i) = 30 \<and>
     length (s_dat_w i) = 32 \<and> length (s_cmd_addr i) = 24 \<and> length (s_wdata_we i) = 16 \<and> length (s_wdata_data i) = 128"

definition port_bit :: "vhpi_codes \<Rightarrow> byte \<Rightarrow> byte" where
  "port_bit vh c = (if c = vhpi1 vh then 1 else 0)"

definition wb_driven :: "vhpi_codes \<Rightarrow> dram_in \<Rightarrow> 's vcore \<Rightarrow> 's vcore" where
  "wb_driven vh i v =
     v\<lparr>wb_ctrl_cti := ucast (slv_val vh (s_cti i)), wb_ctrl_bte := ucast (slv_val vh (s_bte i)),
       wb_ctrl_sel := ucast (slv_val vh (s_sel i)), wb_ctrl_we := port_bit vh (s_we i), wb_ctrl_stb := port_bit vh (s_stb i),
       wb_ctrl_cyc := port_bit vh (s_cyc i), wb_ctrl_adr := ucast (slv_val vh (s_adr i)),
       wb_ctrl_dat_w := ucast (slv_val vh (s_dat_w i))\<rparr>"

definition user_driven :: "vhpi_codes \<Rightarrow> dram_in \<Rightarrow> 's vcore \<Rightarrow> 's vcore" where
  "user_driven vh i v =
     (let part = (\<lambda>k. ucast (slv_val vh (take 32 (drop (96 - 32 * k) (s_wdata_data i)))))
      in v\<lparr>cmd_valid := port_bit vh (s_cmd_valid i), cmd_we := port_bit vh (s_cmd_we i),
           wdata_valid := port_bit vh (s_wdata_valid i), rdata_ready := port_bit vh (s_rdata_ready i),
           cmd_addr := ucast (slv_val vh (s_cmd_addr i)), wdata_we := ucast (slv_val vh (s_wdata_we i)),
           wdata_data := \<lparr>word0 = part 0, word1 = part 1, word2 = part 2, word3 = part 3\<rparr>\<rparr>)"

definition core_drive :: "vhpi_codes \<Rightarrow> ('s vcore \<Rightarrow> 's vcore) \<Rightarrow> dram_in \<Rightarrow> 's vcore \<Rightarrow> 's vcore" where
  "core_drive vh eval i v = eval (user_driven vh i (eval (wb_driven vh i v)))"

definition core_clock :: "('s vcore \<Rightarrow> 's vcore) \<Rightarrow> 's vcore \<Rightarrow> 's vcore" where
  "core_clock eval v = eval ((eval (v\<lparr>clk := 1\<rparr>))\<lparr>clk := 0\<rparr>)"

definition core_out :: "vhpi_codes \<Rightarrow> 's vcore \<Rightarrow> dram_out" where
  "core_out vh v =
     (let code = (\<lambda>b :: byte. logic vh (b \<noteq> 0)); enc = (\<lambda>w :: u32. slv_enc vh 32 (ucast w)); d = rdata_data v
      in \<lparr>s_dat_r = enc (wb_ctrl_dat_r v), s_ack = code (wb_ctrl_ack v), s_err = code (wb_ctrl_err v),
          s_idone = code (init_done v), s_ierr = code (init_error v), s_cmd_ready = code (cmd_ready v),
          s_wdata_ready = code (wdata_ready v), s_rdata_valid = code (rdata_valid v),
          s_rdata_data = enc (word3 d) @ enc (word2 d) @ enc (word1 d) @ enc (word0 d)\<rparr>)"

lemma set_wb_ports:
  assumes "vhpi0 vh \<noteq> vhpi1 vh" and "dram_widths i" and "check_init fresh st = Done v"
  shows "litedram_set_wb vh eval fresh
      (s_cti i @ s_bte i @ s_sel i @ [s_we i] @ [s_stb i] @ [s_cyc i] @ s_adr i @ s_dat_w i) st =
    Done (do_eval eval (wb_driven vh i v) st)"
  using assms by (simp add: litedram_set_wb_def dram_widths_def check_size_def wb_driven_def port_bit_def)

lemma set_user_ports:
  assumes "vhpi0 vh \<noteq> vhpi1 vh" and "dram_widths i" and "check_init fresh st = Done v"
  shows "litedram_set_user vh eval fresh
      ([s_cmd_valid i] @ [s_cmd_we i] @ [s_wdata_valid i] @ [s_rdata_ready i] @ s_cmd_addr i @ s_wdata_we i @ s_wdata_data i) st =
    Done (do_eval eval (user_driven vh i v) st)"
  using assms by (simp add: litedram_set_user_def dram_widths_def check_size_def user_driven_def port_bit_def Let_def)

lemma get_wb_vector:
  assumes "check_init fresh st = Done v" and "length req = 36"
  shows "litedram_get_wb vh fresh req st =
    Done ([logic vh (init_error v \<noteq> 0), logic vh (init_done v \<noteq> 0), logic vh (wb_ctrl_err v \<noteq> 0), logic vh (wb_ctrl_ack v \<noteq> 0)] @
      slv_enc vh 32 (ucast (wb_ctrl_dat_r v)), st\<lparr>ld_core := Some v\<rparr>)"
  using assms by (simp add: litedram_get_wb_def check_size_def)

lemma get_user_vector:
  assumes "check_init fresh st = Done v" and "length req = 131"
  shows "litedram_get_user vh fresh req st =
    Done ([logic vh (cmd_ready v \<noteq> 0), logic vh (wdata_ready v \<noteq> 0), logic vh (rdata_valid v \<noteq> 0)] @
      slv_enc vh 32 (ucast (word3 (rdata_data v))) @ slv_enc vh 32 (ucast (word2 (rdata_data v))) @
      slv_enc vh 32 (ucast (word1 (rdata_data v))) @ slv_enc vh 32 (ucast (word0 (rdata_data v))), st\<lparr>ld_core := Some v\<rparr>)"
  using assms by (simp add: litedram_get_user_def check_size_def)

lemma recv_ports:
  assumes "check_init fresh st = Done v"
  shows "recv_signals vh fresh st = Done (core_out vh v, st\<lparr>ld_core := Some v\<rparr>)"
proof -
  have i: "check_init fresh (st\<lparr>ld_core := Some v\<rparr>) = Done v" by (simp add: check_init_def)
  show ?thesis
    by (simp add: recv_signals_def get_wb_vector [OF assms] get_user_vector [OF i] core_out_def Let_def del: replicate_numeral)
qed

lemma check_init_eval [simp]: "check_init fresh (do_eval eval v st) = Done (eval v)"
  by (simp add: check_init_def do_eval_def)

lemma check_init_some [simp]: "check_init fresh (st\<lparr>ld_core := Some v\<rparr>) = Done v"
  by (simp add: check_init_def)

text \<open>The two conversions form a codec of the same kind as those of \<open>sim_vhpi_c.c\<close>.\<close>

definition ld_write :: "vhpi_codes \<Rightarrow> nat \<Rightarrow> u64 \<Rightarrow> byte list" where
  "ld_write vh n v = (case set_bits vh v n ([], replicate n 0) of Done (w, q) \<Rightarrow> w @ q | _ \<Rightarrow> [])"

definition ld_read :: "vhpi_codes \<Rightarrow> nat \<Rightarrow> byte list \<Rightarrow> u64" where
  "ld_read vh n p = (case get_bits vh n p of Done (v, q) \<Rightarrow> v | _ \<Rightarrow> 0)"

sublocale vhpi_distinct \<subseteq> ld: bit_codec 32 "ld_write vh 32" "ld_read vh 32" "\<lambda>c. c = vhpi0 vh \<or> c = vhpi1 vh"
proof
  have w: "ld_write vh 32 v = slv_enc vh 32 v" for v by (simp add: ld_write_def)
  have r: "ld_read vh 32 p = slv_val vh p" if "length p = 32" for p
    using that by (simp add: ld_read_def codes_differ)
  fix v
  show "length (ld_write vh 32 v) = 32" by (simp add: w)
  show "list_all (\<lambda>c. c = vhpi0 vh \<or> c = vhpi1 vh) (ld_write vh 32 v)"
    by (auto simp: w slv_enc_def list_all_iff)
  show "ld_read vh 32 (ld_write vh 32 v) = take_bit 32 v" by (simp add: w r slv_val_enc codes_differ)
  fix cs assume "length cs = 32" "list_all (\<lambda>c. c = vhpi0 vh \<or> c = vhpi1 vh) cs"
  then show "ld_write vh 32 (ld_read vh 32 cs) = cs"
    using slv_enc_val [of vh cs] by (simp add: w r codes_differ)
qed

section \<open>Properties\<close>

text \<open>The bit functions of the memory controller's connection are the vector conversions of the other
  helpers: for every width up to 64, \<open>get_bits\<close> reads the value that \<open>from_std_logic_vector\<close> reads and
  advances by the width, and \<open>set_bits\<close> leaves in the buffer what \<open>to_std_logic_vector\<close> leaves.\<close>

theorem litedram_bits_are_std_logic_vectors:
  assumes "vhpi0 vh \<noteq> vhpi1 vh" and "len \<le> 64" and "unat len \<le> length p"
  shows "obind (get_bits vh (unat len) p) (\<lambda>(v, q). Done v) = from_std_logic_vector vh p len \<and>
    obind (get_bits vh (unat len) p) (\<lambda>(v, q). Done q) = Done (drop (unat len) p) \<and>
    obind (set_bits vh v (unat len) ([], p)) (\<lambda>(w, q). Done (w @ q)) = to_std_logic_vector vh v p len"
  using assms by (simp add: from_slv_ok to_slv_ok word_le_nat_alt)

theorem litedram_bits_are_std_logic_vectors_witness:
  "obind (get_bits \<lparr>vhpi0 = 2, vhpi1 = 3\<rparr> 2 [3, 2, 3]) (\<lambda>(v, q). Done v) =
    from_std_logic_vector \<lparr>vhpi0 = 2, vhpi1 = 3\<rparr> [3, 2, 3] 2"
  using litedram_bits_are_std_logic_vectors [of "\<lparr>vhpi0 = 2, vhpi1 = 3\<rparr>" 2 "[3, 2, 3]" 0] by simp

text \<open>C13: One cycle of the simulated memory controller: with signals of the declared widths, a rising edge gives the
  controller exactly its input signals, then one clock, and gives its outputs back.  The controller is
  evaluated four times, every field of every vector reaches its own port, no size is wrong, and the
  controller is created at the first call.\<close>

theorem litedram_cycle_refines_core:
  assumes "vhpi0 vh \<noteq> vhpi1 vh" and "dram_widths i" and "check_init fresh st = Done v"
  shows "poll_rising vh eval fresh i st =
    Done (core_out vh (core_clock eval (core_drive vh eval i v)),
      st\<lparr>ld_time := ld_time st + 4, ld_core := Some (core_clock eval (core_drive vh eval i v))\<rparr>)"
proof -
  let ?d = "core_drive vh eval i v"
  have s: "send_signals vh eval fresh i st = Done (st\<lparr>ld_time := ld_time st + 2, ld_core := Some ?d\<rparr>)"
    unfolding send_signals_def set_wb_ports [OF assms] obind.simps set_user_ports [OF assms(1,2) check_init_eval]
    by (simp add: do_eval_def core_drive_def)
  have i: "check_init fresh (s\<lparr>ld_time := t, ld_core := Some c\<rparr>) = Done c" for s t c by (simp add: check_init_def)
  have c: "litedram_clock eval fresh (st\<lparr>ld_time := ld_time st + 2, ld_core := Some ?d\<rparr>) =
      Done (st\<lparr>ld_time := ld_time st + 4, ld_core := Some (core_clock eval ?d)\<rparr>)"
    by (simp add: litedram_clock_def i do_eval_def core_clock_def check_init_def Let_def)
  show ?thesis
    by (simp add: poll_rising_def s recv_ports [OF i] c)
qed

theorem litedram_cycle_refines_core_witness:
  "\<exists>o' st'. poll_rising \<lparr>vhpi0 = 2, vhpi1 = 3\<rparr> (\<lambda>v. v\<lparr>wb_ctrl_dat_r := wb_ctrl_dat_w v, wb_ctrl_ack := wb_ctrl_stb v\<rparr>)
      (Some \<lparr>clk = 0, wb_ctrl_cti = 0, wb_ctrl_bte = 0, wb_ctrl_sel = 0, wb_ctrl_we = 0, wb_ctrl_stb = 0, wb_ctrl_cyc = 0,
         wb_ctrl_adr = 0, wb_ctrl_dat_w = 0, init_error = 0, init_done = 0, wb_ctrl_err = 0, wb_ctrl_ack = 0, wb_ctrl_dat_r = 0,
         cmd_valid = 0, cmd_we = 0, wdata_valid = 0, rdata_ready = 0, cmd_addr = 0, wdata_we = 0,
         wdata_data = \<lparr>word0 = 0, word1 = 0, word2 = 0, word3 = 0\<rparr>, cmd_ready = 0, wdata_ready = 0, rdata_valid = 0,
         rdata_data = \<lparr>word0 = 0, word1 = 0, word2 = 0, word3 = 0\<rparr>, inner = ()\<rparr>)
      \<lparr>s_cti = replicate 3 2, s_bte = replicate 2 2, s_sel = replicate 4 3, s_we = 3, s_stb = 3, s_cyc = 3, s_adr = replicate 30 2,
        s_dat_w = replicate 31 2 @ [3], s_cmd_valid = 2, s_cmd_we = 2, s_wdata_valid = 2, s_rdata_ready = 2,
        s_cmd_addr = replicate 24 2, s_wdata_we = replicate 16 2, s_wdata_data = replicate 128 2\<rparr>
      \<lparr>ld_core = None, ld_time = 0, ld_warnings = []\<rparr> = Done (o', st') \<and>
    s_ack o' = 3 \<and> ld_time st' = 4 \<and> ld_warnings st' = []"
  by (subst litedram_cycle_refines_core)
    (simp_all add: dram_widths_def check_init_def core_out_def core_clock_def core_drive_def user_driven_def wb_driven_def
      port_bit_def logic_def Let_def del: replicate_numeral)
end
