(* ===== verification/Fmt_Log.thy ===== *)
theory Fmt_Log
  imports Mw_Backend
begin

text \<open>
  The formatter of processor logs (\<open>scripts/fmt_log/fmt_log.c\<close>): it reads 32-byte entries and prints a line for each.

  The bit-fields of \<open>struct log_entry\<close> are allocated from the least significant bit on, and the file holds
  little-endian words, as on the hosts the tool is built for; each group of bit-fields that fills a 64-bit
  unit is a record of its own.  The last element of the local array \<open>full_nia\<close> is not initialised, its first
  value is the argument \<open>junk\<close>.  The text of the quotient in the last line is given by an argument, since it is a
  formatted floating-point number.

  The last part describes where the VHDL design puts each signal of the log, and the properties compare
  the two.
\<close>

section \<open>An entry\<close>

record log_word0 =
  nia_lo :: u64
  nia_hi :: u64
  ic_ra_valid :: u64
  ic_access_ok :: u64
  ic_is_miss :: u64
  ic_is_hit :: u64
  ic_way :: u64
  ic_state :: u64
  ic_part_nia :: u64
  ic_fetch_failed :: u64
  ic_stall_out :: u64
  ic_wb_stall :: u64
  ic_wb_cyc :: u64
  ic_wb_stb :: u64
  ic_wb_adr :: u64
  ic_wb_ack :: u64

record log_word1 =
  ic_insn :: u64
  ic_valid :: u64
  d1_valid :: u64
  d1_unit :: u64
  d1_part_nia :: u64
  d1_insn_type :: u64
  d2_bypass_a :: u64
  d2_bypass_b :: u64
  d2_bypass_c :: u64
  d2_stall_out :: u64
  d2_stopped_out :: u64
  d2_valid :: u64
  d2_part_nia :: u64
  e1_flush_out :: u64
  e1_stall_out :: u64
  e1_redirect :: u64
  e1_valid :: u64

record log_word2 =
  e1_write_enable :: u64
  e1_irq_state :: u64
  e1_irq :: u64
  e1_exception :: u64
  e1_msr_dr :: u64
  e1_msr_ir :: u64
  e1_msr_pr :: u64
  e1_msr_ee :: u64
  pad1 :: u64
  ls_state :: u64
  ls_dw_done :: u64
  ls_min_done :: u64
  ls_do_valid :: u64
  ls_mo_valid :: u64
  ls_lo_valid :: u64
  ls_eo_except :: u64
  ls_stall_out :: u64
  pad2 :: u64
  dc_state :: u64
  dc_ra_valid :: u64
  dc_tlb_way :: u64
  dc_stall_out :: u64
  dc_op :: u64
  dc_do_valid :: u64
  dc_do_error :: u64
  dc_wb_cyc :: u64
  dc_wb_stb :: u64
  dc_wb_ack :: u64
  dc_wb_stall :: u64
  dc_wb_adr :: u64
  cr_wr_mask :: u64
  cr_wr_data :: u64
  cr_wr_enable :: u64
  reg_wr_reg :: u64
  reg_wr_enable :: u64

record log_entry =
  lw0 :: log_word0
  lw1 :: log_word1
  lw2 :: log_word2
  reg_wr_data :: u64

text \<open>\<open>w\<close> bits from bit \<open>n\<close> on.\<close>

definition bits :: "nat \<Rightarrow> nat \<Rightarrow> u64 \<Rightarrow> u64" where
  "bits n w x = take_bit w (drop_bit n x)"

definition unpack0 :: "u64 \<Rightarrow> log_word0" where
  "unpack0 x =
     \<lparr>nia_lo = bits 0 42 x, nia_hi = bits 42 1 x, ic_ra_valid = bits 43 1 x, ic_access_ok = bits 44 1 x,
      ic_is_miss = bits 45 1 x, ic_is_hit = bits 46 1 x, ic_way = bits 47 3 x, ic_state = bits 50 1 x,
      ic_part_nia = bits 51 4 x, ic_fetch_failed = bits 55 1 x, ic_stall_out = bits 56 1 x,
      ic_wb_stall = bits 57 1 x, ic_wb_cyc = bits 58 1 x, ic_wb_stb = bits 59 1 x, ic_wb_adr = bits 60 3 x,
      ic_wb_ack = bits 63 1 x\<rparr>"

definition unpack1 :: "u64 \<Rightarrow> log_word1" where
  "unpack1 x =
     \<lparr>ic_insn = bits 0 36 x, ic_valid = bits 36 1 x, d1_valid = bits 37 1 x, d1_unit = bits 38 2 x,
      d1_part_nia = bits 40 4 x, d1_insn_type = bits 44 6 x, d2_bypass_a = bits 50 1 x, d2_bypass_b = bits 51 1 x,
      d2_bypass_c = bits 52 1 x, d2_stall_out = bits 53 1 x, d2_stopped_out = bits 54 1 x, d2_valid = bits 55 1 x,
      d2_part_nia = bits 56 4 x, e1_flush_out = bits 60 1 x, e1_stall_out = bits 61 1 x, e1_redirect = bits 62 1 x,
      e1_valid = bits 63 1 x\<rparr>"

definition unpack2 :: "u64 \<Rightarrow> log_word2" where
  "unpack2 x =
     \<lparr>e1_write_enable = bits 0 1 x, e1_irq_state = bits 1 1 x, e1_irq = bits 2 1 x, e1_exception = bits 3 1 x,
      e1_msr_dr = bits 4 1 x, e1_msr_ir = bits 5 1 x, e1_msr_pr = bits 6 1 x, e1_msr_ee = bits 7 1 x,
      pad1 = bits 8 4 x, ls_state = bits 12 3 x, ls_dw_done = bits 15 1 x, ls_min_done = bits 16 1 x,
      ls_do_valid = bits 17 1 x, ls_mo_valid = bits 18 1 x, ls_lo_valid = bits 19 1 x, ls_eo_except = bits 20 1 x,
      ls_stall_out = bits 21 1 x, pad2 = bits 22 1 x, dc_state = bits 23 3 x, dc_ra_valid = bits 26 1 x,
      dc_tlb_way = bits 27 3 x, dc_stall_out = bits 30 1 x, dc_op = bits 31 3 x, dc_do_valid = bits 34 1 x,
      dc_do_error = bits 35 1 x, dc_wb_cyc = bits 36 1 x, dc_wb_stb = bits 37 1 x, dc_wb_ack = bits 38 1 x,
      dc_wb_stall = bits 39 1 x, dc_wb_adr = bits 40 3 x, cr_wr_mask = bits 43 8 x, cr_wr_data = bits 51 4 x,
      cr_wr_enable = bits 55 1 x, reg_wr_reg = bits 56 7 x, reg_wr_enable = bits 63 1 x\<rparr>"

text \<open>The eight bytes from position \<open>8 * k\<close> on, as a word.\<close>

definition entry_word :: "byte list \<Rightarrow> nat \<Rightarrow> u64" where
  "entry_word bs k = le_val (take 8 (drop (8 * k) bs))"

definition read_entry :: "byte list \<Rightarrow> log_entry" where
  "read_entry bs =
     \<lparr>lw0 = unpack0 (entry_word bs 0), lw1 = unpack1 (entry_word bs 1), lw2 = unpack2 (entry_word bs 2),
      reg_wr_data = entry_word bs 3\<rparr>"

section \<open>The columns\<close>

definition FLGA :: "u64 \<Rightarrow> char \<Rightarrow> char \<Rightarrow> char" where
  "FLGA i y z = (if i \<noteq> 0 then y else z)"

definition FLAG :: "u64 \<Rightarrow> char \<Rightarrow> char" where
  "FLAG i y = FLGA i y CHR '' ''"

definition PNIA :: "u64 list \<Rightarrow> u64 \<Rightarrow> u64" where
  "PNIA full_nia f = full_nia ! unat f AND 0xff"

definition blank_pad :: "nat \<Rightarrow> string \<Rightarrow> string" where
  "blank_pad w s = replicate (w - length s) CHR '' '' @ s"

definition units :: "string list" where
  "units = [''al'', ''ls'', ''fp'', ''3?'']"

definition ops :: "string list" where
  "ops =
     [''illegal'', ''nop    '', ''add    '', ''attn   '', ''b      '', ''bc     '', ''bcreg  '', ''bperm  '',
      ''bsort  '', ''cmp    '', ''compute'', ''countb '', ''darn   '', ''dcbf   '', ''dcbst  '', ''dcbz   '',
      ''icbi   '', ''icbt   '', ''fpcmp  '', ''fparith'', ''fpmove '', ''fpmisc '', ''div    '', ''dive   '',
      ''mod    '', ''isync  '', ''ld     '', ''st     '', ''mcrxrx '', ''mfmsr  '', ''mfspr  '', ''msg    '',
      ''mtcrf  '', ''mtmsr  '', ''mtspr  '', ''mull64 '', ''mulh64 '', ''mulh32 '', ''rfid   '', ''sc     '',
      ''sync   '', ''tlbie  '', ''trap   '', ''wait   '', ''ffail  '', ''?45    '', ''?46    '', ''?47    '',
      ''?48    '', ''?49    '', ''?50    '', ''?51    '', ''?52    '', ''?53    '', ''?54    '', ''?55    '',
      ''?56    '', ''?57    '', ''?58    '', ''?59    '', ''?60    '', ''?61    '', ''?62    '', ''?63    '']"

definition spr_names :: "string list" where
  "spr_names = [''lr '', ''ctr'', ''sr0'', ''sr1'', ''hr0'', ''hr1'', ''sg0'', ''sg1'', ''sg2'', ''sg3'', ''hg0'', ''hg1'', ''xer'']"

definition heading :: string where
  "heading =
     ''        fetch1 NIA      icache                             decode1       decode2   execute1         loadstore  dcache       CR   GSPR'' @ [CHR 0x0A] @
     ''     ----------------   TAHW S -WB-- pN  ic --insn--    pN un op         pN byp    FR IIE MSR  WC   SD MM CE   SRTO DE -WB-- c ms reg val'' @ [CHR 0x0A] @
     ''                        LdMy t csnSa IA                 IA it            IA abc    le srx EPID em   tw rd mx   tAwp vr csnSa 0 k'' @ [CHR 0x0A]"

definition fmt_fetch :: "nat \<Rightarrow> log_word0 \<Rightarrow> string" where
  "fmt_fetch lineno l =
     blank_pad 4 (num_str 10 lineno) @ '' '' @ [FLGA (nia_hi l) CHR ''c'' CHR ''0''] @ ''0000'' @
     zero_pad 11 (hex (push_bit 2 (nia_lo l))) @ '' '' @ [FLAG (ic_stall_out l) CHR ''|''] @ '' ''"

definition fmt_icache :: "u64 list \<Rightarrow> log_word0 \<Rightarrow> string" where
  "fmt_icache full_nia l =
     [FLGA (ic_ra_valid l) CHR '' '' CHR ''T'', FLGA (ic_access_ok l) CHR '' '' CHR ''X'',
      FLGA (ic_is_hit l) CHR ''H'' (FLGA (ic_is_miss l) CHR ''M'' CHR '' '')] @ dec (ic_way l) @ '' '' @
     [FLAG (ic_state l) CHR ''W''] @ '' '' @ [FLAG (ic_wb_cyc l) CHR ''c'', FLAG (ic_wb_stb l) CHR ''s''] @ dec (ic_wb_adr l) @
     [FLAG (ic_wb_stall l) CHR ''S'', FLAG (ic_wb_ack l) CHR ''a''] @ '' '' @ zero_pad 2 (hex (PNIA full_nia (ic_part_nia l))) @ '' ''"

definition fmt_insn :: "log_word0 \<Rightarrow> log_word1 \<Rightarrow> string" where
  "fmt_insn l0 l =
     (if ic_valid l \<noteq> 0 then
        if ic_insn l AND push_bit 35 1 \<noteq> 0 then ''ill '' @ zero_pad 8 (hex (ic_insn l AND 0xffffffff))
        else blank_pad 3 (dec (drop_bit 26 (ic_insn l))) @ '' x'' @ zero_pad 7 (hex (ic_insn l AND 0x3ffffff))
      else if ic_fetch_failed l0 \<noteq> 0 then ''    !!!!!!!!''
      else ''--- --------'')"

definition fmt_decode1 :: "u64 list \<Rightarrow> log_word1 \<Rightarrow> string" where
  "fmt_decode1 full_nia l =
     '' '' @ [FLAG (ic_valid l) CHR ''>'', FLAG (d2_stall_out l) CHR ''|''] @ '' '' @ zero_pad 2 (hex (PNIA full_nia (d1_part_nia l))) @ '' '' @
     (if d1_valid l \<noteq> 0 then units ! unat (d1_unit l) @ '' '' @ ops ! unat (d1_insn_type l) else ''-- -------'') @
     '' '' @ [FLAG (d1_valid l) CHR ''>'', FLAG (d2_stall_out l) CHR ''|''] @ '' ''"

definition fmt_decode2 :: "u64 list \<Rightarrow> log_word1 \<Rightarrow> string" where
  "fmt_decode2 full_nia l =
     zero_pad 2 (hex (PNIA full_nia (d2_part_nia l))) @ '' '' @
     [FLAG (d2_bypass_a l) CHR ''a'', FLAG (d2_bypass_b l) CHR ''b'', FLAG (d2_bypass_c l) CHR ''c''] @ '' '' @
     [FLAG (d2_valid l) CHR ''>'', FLAG (e1_stall_out l) CHR ''|''] @ '' ''"

definition fmt_execute1 :: "log_word1 \<Rightarrow> log_word2 \<Rightarrow> string" where
  "fmt_execute1 l1 l =
     [FLAG (e1_flush_out l1) CHR ''F'', FLAG (e1_redirect l1) CHR ''R''] @ '' '' @
     [FLAG (e1_irq_state l) CHR ''w'', FLAG (e1_irq l) CHR ''I'', FLAG (e1_exception l) CHR ''X''] @ '' '' @
     [FLAG (e1_msr_ee l) CHR ''E'', FLGA (e1_msr_pr l) CHR ''u'' CHR ''s'', FLAG (e1_msr_ir l) CHR ''I'', FLAG (e1_msr_dr l) CHR ''D''] @ '' '' @
     [FLAG (e1_write_enable l) CHR ''W'', FLAG (e1_valid l1) CHR ''C''] @ '' ''"

definition fmt_loadstore :: "log_word2 \<Rightarrow> string" where
  "fmt_loadstore l =
     [FLAG (ls_stall_out l) CHR ''|''] @ '' '' @ dec (ls_state l) @ dec (ls_dw_done l) @ '' '' @
     [FLAG (ls_mo_valid l) CHR ''M'', FLAG (ls_min_done l) CHR ''m''] @ '' '' @
     [FLAG (ls_lo_valid l) CHR ''C'', FLAG (ls_eo_except l) CHR ''X''] @ '' '' @ [FLAG (ls_do_valid l) CHR ''>''] @ '' ''"

definition fmt_dcache :: "log_word2 \<Rightarrow> string" where
  "fmt_dcache l =
     dec (dc_state l) @ [FLAG (dc_ra_valid l) CHR ''R''] @ dec (dc_tlb_way l) @ dec (dc_op l) @ '' '' @
     [FLAG (dc_do_valid l) CHR ''V'', FLAG (dc_do_error l) CHR ''E''] @ '' '' @
     [FLAG (dc_wb_cyc l) CHR ''c'', FLAG (dc_wb_stb l) CHR ''s''] @ dec (dc_wb_adr l) @
     [FLAG (dc_wb_stall l) CHR ''S'', FLAG (dc_wb_ack l) CHR ''a''] @ '' ''"

definition fmt_cr :: "log_word2 \<Rightarrow> string" where
  "fmt_cr l =
     (if cr_wr_enable l \<noteq> 0 then hex (cr_wr_data l) @ ''>'' @ zero_pad 2 (hex (cr_wr_mask l)) @ '' '' else ''     '')"

definition fmt_gspr :: "log_word2 \<Rightarrow> u64 \<Rightarrow> string" where
  "fmt_gspr l wr_data =
     (if reg_wr_enable l \<noteq> 0 then
        (if reg_wr_reg l < 32 \<or> reg_wr_reg l > 44 then ''r'' @ zero_pad 2 (dec (reg_wr_reg l))
         else spr_names ! unat (reg_wr_reg l - 32)) @ ''='' @ zero_pad 16 (hex wr_data)
      else [])"

definition fmt_columns :: "nat \<Rightarrow> u64 list \<Rightarrow> log_entry \<Rightarrow> string" where
  "fmt_columns lineno full_nia log =
     fmt_fetch lineno (lw0 log) @ fmt_icache full_nia (lw0 log) @ fmt_insn (lw0 log) (lw1 log) @
     fmt_decode1 full_nia (lw1 log) @ fmt_decode2 full_nia (lw1 log) @ fmt_execute1 (lw1 log) (lw2 log) @
     fmt_loadstore (lw2 log) @ fmt_dcache (lw2 log) @ fmt_cr (lw2 log)"

section \<open>The program\<close>

record fmt_state =
  full_nia :: "u64 list"
  lineno :: nat
  ncompl :: nat
  fmt_out :: string

definition update_nia :: "log_word0 \<Rightarrow> u64 list \<Rightarrow> u64 list" where
  "update_nia l fn =
     fn[unat (nia_lo l AND 0xf) := (if nia_hi l \<noteq> 0 then 0xc000000000000000 else 0) OR push_bit 2 (nia_lo l)]"

definition fmt_entry :: "log_entry \<Rightarrow> fmt_state \<Rightarrow> fmt_state" where
  "fmt_entry log s =
     (let fn = update_nia (lw0 log) (full_nia s)
      in \<lparr>full_nia = fn, lineno = lineno s + 1,
          ncompl = (if ls_lo_valid (lw2 log) \<noteq> 0 \<or> e1_valid (lw1 log) \<noteq> 0 then ncompl s + 1 else ncompl s),
          fmt_out = fmt_out s @ (if lineno s mod 20 = 1 then heading else []) @
            fmt_columns (lineno s) fn log @ fmt_gspr (lw2 log) (reg_wr_data log) @ [CHR 0x0A]\<rparr>)"

text \<open>\<open>fread\<close> gives one entry as long as 32 bytes are left.\<close>

fun fmt_loop :: "byte list \<Rightarrow> fmt_state \<Rightarrow> fmt_state" where
  "fmt_loop bs s = (if length bs < 32 then s else fmt_loop (drop 32 bs) (fmt_entry (read_entry (take 32 bs)) s))"

declare fmt_loop.simps [simp del]

definition fmt_init :: "u64 \<Rightarrow> fmt_state" where
  "fmt_init junk = \<lparr>full_nia = map (\<lambda>i. of_nat (4 * i)) [0..<15] @ [junk], lineno = 1, ncompl = 0, fmt_out = []\<rparr>"

text \<open>\<open>file\<close> is the content of the file that \<open>fopen\<close> opens, or of the standard input.\<close>

definition fmt_main :: "(nat \<Rightarrow> nat \<Rightarrow> string) \<Rightarrow> u64 \<Rightarrow> nat \<Rightarrow> byte list option \<Rightarrow> byte list \<Rightarrow> int \<times> string" where
  "fmt_main cpi_text junk ac file stdin =
     (if ac \<noteq> 1 \<and> ac \<noteq> 2 then (1, [])
      else case (if ac = 2 then file else Some stdin) of
             None \<Rightarrow> (1, [])
           | Some bs \<Rightarrow>
               (let s = fmt_loop bs (fmt_init junk)
                in (0, fmt_out s @ num_str 10 (ncompl s) @ '' instructions completed, '' @ cpi_text (lineno s - 1) (ncompl s) @
                       '' CPI'' @ [CHR 0x0A])))"


section \<open>The log of the design\<close>

text \<open>The VHDL design concatenates its signals, first the most significant one; a list of widths and values, first
  the least significant one, gives the vector.\<close>

fun vec :: "(nat \<times> u64) list \<Rightarrow> 256 word" where
  "vec [] = 0"
| "vec ((w, v) # xs) = take_bit w (ucast v) OR push_bit w (vec xs)"

text \<open>The signals of each unit in the order of its VHDL file.  A field of the record \<open>log_entry\<close> stands for the
  signal that it is named after; for example \<open>d2_bypass_a\<close> for the bypass of operand A.\<close>

definition fetch1_log :: "log_entry \<Rightarrow> (nat \<times> u64) list" where
  "fetch1_log e = (let l = lw0 e in [(1, nia_hi l), (42, nia_lo l)])"

definition icache_log :: "log_entry \<Rightarrow> (nat \<times> u64) list" where
  "icache_log e =
     (let l = lw0 e
      in [(1, ic_valid (lw1 e)), (36, ic_insn (lw1 e)), (1, ic_wb_ack l), (3, ic_wb_adr l), (1, ic_wb_stb l), (1, ic_wb_cyc l),
          (1, ic_wb_stall l), (1, ic_stall_out l), (1, ic_fetch_failed l), (4, ic_part_nia l), (1, ic_state l), (3, ic_way l),
          (1, ic_is_hit l), (1, ic_is_miss l), (1, 1), (1, 1)])"

definition decode1_log :: "log_entry \<Rightarrow> (nat \<times> u64) list" where
  "decode1_log e = (let l = lw1 e in [(6, d1_insn_type l), (4, d1_part_nia l), (2, d1_unit l), (1, d1_valid l)])"

definition decode2_log :: "log_entry \<Rightarrow> (nat \<times> u64) list" where
  "decode2_log e =
     (let l = lw1 e
      in [(4, d2_part_nia l), (1, d2_valid l), (1, d2_stopped_out l), (1, d2_stall_out l),
          (1, d2_bypass_a l), (1, d2_bypass_b l), (1, d2_bypass_c l)])"

definition execute1_log :: "log_entry \<Rightarrow> (nat \<times> u64) list" where
  "execute1_log e =
     (let l = lw2 e
      in [(1, e1_msr_ee l), (1, e1_msr_pr l), (1, e1_msr_ir l), (1, e1_msr_dr l), (1, e1_exception l), (1, e1_irq l),
          (1, e1_irq_state l), (1, e1_write_enable l), (1, e1_valid (lw1 e)), (1, e1_redirect (lw1 e)),
          (1, e1_stall_out (lw1 e)), (1, e1_flush_out (lw1 e))])"

text \<open>The three bits that the formatter calls \<open>ls_state\<close> are the bits for a valid request, for a wait for the data cache and for the state of
  the load-store unit; \<open>dc_op\<close> has one bit for each of the three groups of requests of the data cache.\<close>

definition loadstore1_log :: "log_entry \<Rightarrow> (nat \<times> u64) list" where
  "loadstore1_log e =
     (let l = lw2 e
      in [(1, ls_stall_out l), (1, ls_eo_except l), (1, ls_lo_valid l), (1, ls_mo_valid l), (1, ls_do_valid l), (1, ls_min_done l),
          (1, ls_dw_done l), (1, drop_bit 2 (ls_state l)), (1, drop_bit 1 (ls_state l)), (1, ls_state l)])"

definition dcache_log :: "log_entry \<Rightarrow> (nat \<times> u64) list" where
  "dcache_log e =
     (let l = lw2 e
      in [(3, dc_wb_adr l), (1, dc_wb_stall l), (1, dc_wb_ack l), (1, dc_wb_stb l), (1, dc_wb_cyc l), (1, dc_do_error l),
          (1, dc_do_valid l), (1, drop_bit 2 (dc_op l)), (1, drop_bit 1 (dc_op l)), (1, dc_op l), (1, dc_stall_out l),
          (3, dc_tlb_way l), (1, dc_ra_valid l), (3, dc_state l)])"

definition cr_file_log :: "log_entry \<Rightarrow> (nat \<times> u64) list" where
  "cr_file_log e = (let l = lw2 e in [(1, cr_wr_enable l), (4, cr_wr_data l), (8, cr_wr_mask l)])"

definition register_file_log :: "log_entry \<Rightarrow> (nat \<times> u64) list" where
  "register_file_log e = (let l = lw2 e in [(64, reg_wr_data e), (1, reg_wr_enable l), (1, 0), (6, reg_wr_reg l)])"

text \<open>The slices of \<open>core.vhdl\<close>, from bit 0 on.\<close>

definition core_log :: "log_entry \<Rightarrow> 256 word" where
  "core_log e =
     vec (concat (map rev [fetch1_log e, icache_log e, decode1_log e, decode2_log e, execute1_log e, [(4, 0)], loadstore1_log e,
       [(1, 0)], dcache_log e, cr_file_log e, register_file_log e]))"

definition log_bytes :: "256 word \<Rightarrow> byte list" where
  "log_bytes x = concat (map (\<lambda>k. le_bytes 8 (ucast (drop_bit (64 * k) x))) [0..<4])"

section \<open>Positions of the fields\<close>

definition slice :: "nat \<Rightarrow> nat \<Rightarrow> 256 word \<Rightarrow> u64" where
  "slice n w x = ucast (take_bit w (drop_bit n x))"

lemma slice_here [simp]: "w \<le> 64 \<Longrightarrow> slice 0 w (vec ((w, v) # xs)) = take_bit w v"
  by (rule bit_word_eqI) (auto simp: slice_def bit_simps)

lemma slice_next [simp]:
  "k \<le> n \<Longrightarrow> n + w \<le> 256 \<Longrightarrow> slice n w (vec ((k, v) # xs)) = slice (n - k) w (vec xs)"
  by (rule bit_word_eqI) (auto simp: slice_def bit_simps)

lemma entry_word_log_bytes:
  assumes "k < 4"
  shows "entry_word (log_bytes x) k = slice (64 * k) 64 x"
proof -
  have u: "[0..<4] = [0, 1, 2, 3 :: nat]" by (simp add: upt_rec)
  have "k = 0 \<or> k = 1 \<or> k = 2 \<or> k = 3" using assms by auto
  then have "entry_word (log_bytes x) k = le_val (le_bytes 8 (ucast (drop_bit (64 * k) x)))"
    by (elim disjE) (simp_all add: entry_word_def log_bytes_def u del: le_bytes_numeral)
  then have "entry_word (log_bytes x) k = ucast (drop_bit (64 * k) x)" using le_val_le_bytes [of 8] by simp
  then show ?thesis by (simp add: slice_def) (rule bit_word_eqI, auto simp: bit_simps)
qed

lemma bits_slice: "n + w \<le> 64 \<Longrightarrow> bits n w (slice m 64 x) = slice (m + n) w x"
  by (rule bit_word_eqI) (auto simp: bits_def slice_def bit_simps ac_simps)

lemma bit_vec: "bit (vec ((w, v) # xs)) n \<longleftrightarrow> n < 256 \<and> (if n < w then bit v n else bit (vec xs) (n - w))"
  by (auto simp: bit_simps)

lemma bit_slice: "bit (slice n w x) i \<longleftrightarrow> i < w \<and> i < 64 \<and> bit x (n + i)"
  by (auto simp: slice_def bit_simps)

lemma slice_three [simp]:
  "slice 0 3 (vec ((Suc 0, v) # (Suc 0, drop_bit (Suc 0) v) # (Suc 0, drop_bit 2 v) # xs)) = take_bit 3 v"
proof (rule bit_word_eqI)
  fix i :: nat
  consider "i = 0" | "i = 1" | "i = 2" | "3 \<le> i" by linarith
  then show "bit (slice 0 3 (vec ((Suc 0, v) # (Suc 0, drop_bit (Suc 0) v) # (Suc 0, drop_bit 2 v) # xs))) i \<longleftrightarrow> bit (take_bit 3 v) i"
    by cases (simp_all add: bit_slice bit_vec bit_take_bit_iff bit_drop_bit_eq del: vec.simps)
qed

lemma slice_seven [simp]: "slice 0 7 (vec ((6, v) # (Suc 0, 0) # xs)) = take_bit 6 v"
  by (rule bit_word_eqI) (auto simp: bit_slice bit_vec bit_take_bit_iff simp del: vec.simps)

lemma take_bit_bits [simp]: "take_bit w (bits n w x) = bits n w x"
  by (simp add: bits_def)

lemmas core_log_defs = core_log_def fetch1_log_def icache_log_def decode1_log_def decode2_log_def execute1_log_def
  loadstore1_log_def dcache_log_def cr_file_log_def register_file_log_def

lemma core_log_word0:
  assumes "lw0 e = unpack0 x" and "ic_ra_valid (lw0 e) = 1" and "ic_access_ok (lw0 e) = 1"
  shows "unpack0 (slice 0 64 (core_log e)) = lw0 e"
  using assms by (simp add: unpack0_def bits_slice core_log_defs Let_def del: vec.simps)

lemma core_log_word1:
  assumes "lw1 e = unpack1 x"
  shows "unpack1 (slice 64 64 (core_log e)) = (lw1 e)\<lparr>d2_bypass_a := d2_bypass_c (lw1 e), d2_bypass_c := d2_bypass_a (lw1 e)\<rparr>"
  using assms by (simp add: unpack1_def bits_slice core_log_defs Let_def del: vec.simps)

lemma core_log_word2:
  assumes "lw2 e = unpack2 x" and "pad1 (lw2 e) = 0" and "pad2 (lw2 e) = 0" and "reg_wr_reg (lw2 e) < 64"
  shows "unpack2 (slice 128 64 (core_log e)) = lw2 e"
proof -
  have "take_bit 6 (reg_wr_reg (lw2 e)) = reg_wr_reg (lw2 e)"
    using assms(4) by (simp add: take_bit_eq_mod word_arith_nat_mod word_less_nat_alt)
  with assms show ?thesis by (simp add: unpack2_def bits_slice core_log_defs Let_def del: vec.simps)
qed

lemma core_log_word3: "slice 192 64 (core_log e) = reg_wr_data e"
  by (simp add: core_log_defs Let_def del: vec.simps)

section \<open>The columns line up\<close>

lemma num_str_length: "2 \<le> b \<Longrightarrow> n < b ^ k \<Longrightarrow> 0 < k \<Longrightarrow> 0 < length (num_str b n) \<and> length (num_str b n) \<le> k"
proof (induction k arbitrary: n)
  case (Suc k)
  show ?case
  proof (cases "n < b")
    case False
    with Suc.prems have "0 < k" by (cases k) auto
    moreover have "n div b < b ^ k" using Suc.prems by (simp add: less_mult_imp_div_less mult.commute)
    ultimately have "length (num_str b (n div b)) \<le> k" using Suc by blast
    with False Suc.prems show ?thesis by (simp add: num_str.simps [of b n])
  qed (use Suc.prems in \<open>simp add: num_str.simps\<close>)
qed simp

lemma hex_field: "0 < k \<Longrightarrow> unat v < 16 ^ k \<Longrightarrow> length (zero_pad k (hex v)) = k"
  using num_str_length [of 16 "unat v" k] by (simp add: zero_pad_def hex_def)

lemma one_digit: "unat v < 10 \<Longrightarrow> length (dec v) = 1"
  by (simp add: dec_def num_str.simps)

lemma unat_bits: "unat (bits n w x) < 2 ^ w"
  by (simp add: bits_def unsigned_take_bit_eq)

definition entry_fits :: "log_entry \<Rightarrow> bool" where
  "entry_fits e \<longleftrightarrow> (\<exists>x y z. lw0 e = unpack0 x \<and> lw1 e = unpack1 y \<and> lw2 e = unpack2 z)"

lemma read_entry_fits: "entry_fits (read_entry bs)"
  by (auto simp: entry_fits_def read_entry_def)

lemma small_bits: "w \<le> 3 \<Longrightarrow> length (dec (bits n w x)) = 1"
proof -
  assume "w \<le> 3"
  then have "(2 :: nat) ^ w \<le> 2 ^ 3" by (intro power_increasing) auto
  with unat_bits [of n w x] show ?thesis by (intro one_digit) simp
qed

lemma pnia_width: "length (zero_pad 2 (hex (PNIA fn f))) = 2"
proof -
  have "fn ! unat f AND 0xff \<le> 0xff" by (rule word_and_le1)
  then show ?thesis by (intro hex_field) (simp_all add: PNIA_def word_le_nat_alt)
qed

lemma fetch_width: "n < 10000 \<Longrightarrow> length (fmt_fetch n (unpack0 x)) = 24"
proof -
  assume "n < 10000"
  then have "length (blank_pad 4 (num_str 10 n)) = 4" using num_str_length [of 10 n 4] by (simp add: blank_pad_def)
  moreover have "unat (push_bit 2 (bits 0 42 x)) < 16 ^ 11"
  proof -
    have "unat (push_bit 2 (bits 0 42 x)) \<le> 4 * unat (bits 0 42 x)"
      by (simp add: push_bit_eq_mult unat_word_ariths mult.commute)
    with unat_bits [of 0 42 x] show ?thesis by simp
  qed
  ultimately show ?thesis by (simp add: fmt_fetch_def unpack0_def hex_field)
qed

lemma icache_width: "length (fmt_icache fn (unpack0 x)) = 16"
  by (simp add: fmt_icache_def unpack0_def small_bits pnia_width)

lemma insn_width: "length (fmt_insn l0 (unpack1 x)) = 12"
proof -
  let ?i = "bits 0 36 x"
  have a: "?i AND 0xffffffff \<le> 0xffffffff" "?i AND 0x3ffffff \<le> 0x3ffffff" by (rule word_and_le1)+
  have "length (num_str 10 (unat (drop_bit 26 ?i))) \<le> 3" if "?i AND push_bit 35 1 = 0"
  proof -
    have "\<not> bit ?i 35" using that by (metis and_exp_eq_0_iff_not_bit push_bit_of_1)
    then have "drop_bit 26 ?i = take_bit 9 (drop_bit 26 ?i)"
    proof (intro bit_word_eqI)
      fix n
      show "bit (drop_bit 26 ?i) n \<longleftrightarrow> bit (take_bit 9 (drop_bit 26 ?i)) n" using \<open>\<not> bit ?i 35\<close>
        by (cases "n = 9") (auto simp: bits_def bit_simps)
    qed
    then have "drop_bit 26 ?i = bits 26 9 ?i" by (simp add: bits_def)
    with unat_bits [of 26 9 ?i] show ?thesis using num_str_length [of 10 "unat (drop_bit 26 ?i)" 3] by simp
  qed
  with a show ?thesis by (auto simp: fmt_insn_def unpack1_def hex_field word_le_nat_alt blank_pad_def dec_def)
qed

lemma table_widths: "n < 4 \<Longrightarrow> length (units ! n) = 2" "m < 64 \<Longrightarrow> length (ops ! m) = 7" "k < 13 \<Longrightarrow> length (spr_names ! k) = 3"
proof -
  have "list_all (\<lambda>s. length s = 2) units" "list_all (\<lambda>s. length s = 7) ops" "list_all (\<lambda>s. length s = 3) spr_names"
    and "length units = 4" "length ops = 64" "length spr_names = 13"
    by (simp_all add: units_def ops_def spr_names_def)
  then show "n < 4 \<Longrightarrow> length (units ! n) = 2" "m < 64 \<Longrightarrow> length (ops ! m) = 7" "k < 13 \<Longrightarrow> length (spr_names ! k) = 3"
    by (simp_all add: list_all_length)
qed

lemma decode1_width: "length (fmt_decode1 fn (unpack1 x)) = 21"
  using unat_bits [of 38 2 x] unat_bits [of 44 6 x] by (simp add: fmt_decode1_def unpack1_def pnia_width table_widths)

lemma decode2_width: "length (fmt_decode2 fn l) = 10"
  by (simp add: fmt_decode2_def pnia_width)

lemma execute1_width: "length (fmt_execute1 l1 l) = 15"
  by (simp add: fmt_execute1_def)

lemma loadstore_width: "length (fmt_loadstore (unpack2 x)) = 13"
  by (simp add: fmt_loadstore_def unpack2_def small_bits)

lemma dcache_width: "length (fmt_dcache (unpack2 x)) = 14"
  by (simp add: fmt_dcache_def unpack2_def small_bits)

lemma cr_width: "length (fmt_cr (unpack2 x)) = 5"
proof -
  have "length (hex (bits 51 4 x)) = 1" using unat_bits [of 51 4 x] by (simp add: hex_def num_str.simps)
  with unat_bits [of 43 8 x] show ?thesis by (simp add: fmt_cr_def unpack2_def hex_field)
qed

lemma fmt_columns_width: "n < 10000 \<Longrightarrow> entry_fits e \<Longrightarrow> length (fmt_columns n fn e) = 130"
  by (auto simp: entry_fits_def fmt_columns_def fetch_width icache_width insn_width decode1_width decode2_width execute1_width
      loadstore_width dcache_width cr_width)


text \<open>What the signals of a cycle satisfy, and what becomes of them when they are logged and read back.\<close>

definition logged :: "log_entry \<Rightarrow> bool" where
  "logged e \<longleftrightarrow> entry_fits e \<and> ic_ra_valid (lw0 e) = 1 \<and> ic_access_ok (lw0 e) = 1 \<and> pad1 (lw2 e) = 0 \<and> pad2 (lw2 e) = 0 \<and>
     reg_wr_reg (lw2 e) < 64"

definition as_read :: "log_entry \<Rightarrow> log_entry" where
  "as_read e = e\<lparr>lw1 := (lw1 e)\<lparr>d2_bypass_a := d2_bypass_c (lw1 e), d2_bypass_c := d2_bypass_a (lw1 e)\<rparr>\<rparr>"

lemma read_core_log: "logged e \<Longrightarrow> read_entry (log_bytes (core_log e)) = as_read e"
proof -
  assume l: "logged e"
  then obtain x y z where "lw0 e = unpack0 x" "lw1 e = unpack1 y" "lw2 e = unpack2 z"
    by (auto simp: entry_fits_def logged_def)
  with l show ?thesis
    by (simp add: logged_def as_read_def read_entry_def entry_word_log_bytes core_log_word0 core_log_word1 core_log_word2 core_log_word3)
qed

section \<open>What the program prints\<close>

fun entries :: "byte list \<Rightarrow> log_entry list" where
  "entries bs = (if length bs < 32 then [] else read_entry (take 32 bs) # entries (drop 32 bs))"

declare entries.simps [simp del]

definition completed :: "log_entry \<Rightarrow> bool" where
  "completed e \<longleftrightarrow> ls_lo_valid (lw2 e) \<noteq> 0 \<or> e1_valid (lw1 e) \<noteq> 0"

definition nia_addr :: "log_entry \<Rightarrow> u64" where
  "nia_addr e = (if nia_hi (lw0 e) \<noteq> 0 then 0xc000000000000000 else 0) OR push_bit 2 (nia_lo (lw0 e))"

text \<open>The address that was fetched last among those with the given low four bits of the instruction number.\<close>

definition known_nia :: "u64 \<Rightarrow> log_entry list \<Rightarrow> nat \<Rightarrow> u64" where
  "known_nia junk es i =
     (case find (\<lambda>e. unat (nia_lo (lw0 e) AND 0xf) = i) (rev es) of
        Some e \<Rightarrow> nia_addr e
      | None \<Rightarrow> if i < 15 then of_nat (4 * i) else junk)"

definition entry_text :: "u64 \<Rightarrow> log_entry list \<Rightarrow> nat \<Rightarrow> string" where
  "entry_text junk es k =
     (if k mod 20 = 0 then heading else []) @
     fmt_columns (Suc k) (map (known_nia junk (take (Suc k) es)) [0..<16]) (es ! k) @
     fmt_gspr (lw2 (es ! k)) (reg_wr_data (es ! k)) @ [CHR 0x0A]"

lemma fmt_loop_fold: "fmt_loop bs s = fold fmt_entry (entries bs) s"
proof (induction bs s rule: fmt_loop.induct)
  case (1 bs s)
  then show ?case by (subst fmt_loop.simps, subst entries.simps) simp
qed

lemma known_nia_snoc:
  "map (known_nia junk (es @ [e])) [0..<16] = update_nia (lw0 e) (map (known_nia junk es) [0..<16])"
  by (rule nth_equalityI) (auto simp: known_nia_def update_nia_def nia_addr_def nth_list_update simp del: upt_rec_numeral)

lemma entry_text_snoc: "k < length es \<Longrightarrow> entry_text junk (es @ [e]) k = entry_text junk es k"
  by (simp add: entry_text_def nth_append del: upt_rec_numeral)

lemma fmt_init_known: "full_nia (fmt_init junk) = map (known_nia junk []) [0..<16]"
  by (rule nth_equalityI) (auto simp: fmt_init_def known_nia_def nth_append not_less less_Suc_eq_le simp del: upt_rec_numeral)

lemma fmt_entry_step:
  "fmt_entry e \<lparr>full_nia = map (known_nia junk es) [0..<16], lineno = Suc (length es), ncompl = n, fmt_out = p\<rparr> =
    \<lparr>full_nia = map (known_nia junk (es @ [e])) [0..<16], lineno = Suc (length (es @ [e])),
     ncompl = (if completed e then n + 1 else n), fmt_out = p @ entry_text junk (es @ [e]) (length es)\<rparr>"
proof -
  have "Suc (length es) mod 20 = 1 \<longleftrightarrow> length es mod 20 = 0" by presburger
  then show ?thesis
    by (simp add: fmt_entry_def entry_text_def known_nia_snoc completed_def Let_def del: upt_rec_numeral)
qed

lemma fold_entries:
  "fold fmt_entry es (fmt_init junk) =
    \<lparr>full_nia = map (known_nia junk es) [0..<16], lineno = Suc (length es), ncompl = length (filter completed es),
     fmt_out = concat (map (entry_text junk es) [0..<length es])\<rparr>"
proof (induction es rule: rev_induct)
  case Nil
  show ?case using fmt_init_known [of junk] by (simp add: fmt_init_def)
next
  case (snoc e es)
  have t: "map (entry_text junk (es @ [e])) [0..<length es] = map (entry_text junk es) [0..<length es]"
    by (rule map_cong) (auto simp: entry_text_snoc)
  show ?case
    by (simp only: fold_append fold_simps comp_apply snoc fmt_entry_step) (simp add: t del: upt_rec_numeral)
qed

definition printed :: "(nat \<Rightarrow> nat \<Rightarrow> string) \<Rightarrow> u64 \<Rightarrow> log_entry list \<Rightarrow> string" where
  "printed cpi_text junk es =
     concat (map (entry_text junk es) [0..<length es]) @ num_str 10 (length (filter completed es)) @
     '' instructions completed, '' @ cpi_text (length es) (length (filter completed es)) @ '' CPI'' @ [CHR 0x0A]"

lemma fmt_main_prints: "fmt_main cpi_text junk (Suc 0) file bs = (0, printed cpi_text junk (entries bs))"
  by (simp add: fmt_main_def printed_def fmt_loop_fold fold_entries Let_def)

lemma entries_fit: "list_all entry_fits (entries bs)"
  by (induction bs rule: entries.induct) (subst entries.simps, simp add: read_entry_fits)

section \<open>Properties\<close>

text \<open>C29: The formatter prints a log in full: for every file (a trailing partial entry is ignored) the output is one line per
  entry in order, with the heading before every twentieth line, the number of the line, and next to each
  partial address the low byte of the address fetched last among those with the same low four bits; the last
  line counts the entries in which an instruction completed.  In the first 9999 lines the column of the written
  register is always at position 130.\<close>

theorem fmt_log_prints_entries:
  "fmt_main cpi_text junk 1 file bs = (0, printed cpi_text junk (entries bs)) \<and>
   (\<forall>k fn. k < length (entries bs) \<longrightarrow> k < 9999 \<longrightarrow> length (fmt_columns (Suc k) fn (entries bs ! k)) = 130)"
proof -
  have "k < length (entries bs) \<Longrightarrow> entry_fits (entries bs ! k)" for k
    using entries_fit [of bs] by (simp add: list_all_length)
  then show ?thesis by (simp add: fmt_main_prints fmt_columns_width)
qed

theorem fmt_log_prints_entries_witness:
  "length (fmt_columns 1 (replicate 16 0) (entries (replicate 40 0) ! 0)) = 130 \<and>
   fst (fmt_main (\<lambda>n c. []) 0 1 None (replicate 40 0)) = 0"
proof -
  have "length (entries (replicate 40 0)) = 1" by (simp add: entries.simps del: replicate_numeral)
  with fmt_log_prints_entries [of "\<lambda>n c. []" 0 None "replicate 40 0"] show ?thesis
    by (simp add: One_nat_def [symmetric] del: replicate_numeral One_nat_def)
qed

text \<open>C15: The formatter and the processor agree on the log except for two bits: reading back the entry that the design
  logs for a set of signals gives every field the value of the signal it is named after, but exchanges the
  bypass signals of operands A and C.\<close>

theorem core_log_read_back:
  assumes "entry_fits e" and "ic_ra_valid (lw0 e) = 1" and "ic_access_ok (lw0 e) = 1"
    and "pad1 (lw2 e) = 0" and "pad2 (lw2 e) = 0" and "reg_wr_reg (lw2 e) < 64"
  shows "read_entry (log_bytes (core_log e)) =
    e\<lparr>lw1 := (lw1 e)\<lparr>d2_bypass_a := d2_bypass_c (lw1 e), d2_bypass_c := d2_bypass_a (lw1 e)\<rparr>\<rparr>"
  using read_core_log [of e] assms by (simp add: logged_def as_read_def)

theorem core_log_read_back_witness:
  "\<exists>e. d2_bypass_a (lw1 e) = 1 \<and> d2_bypass_c (lw1 e) = 0 \<and> d2_bypass_a (lw1 (read_entry (log_bytes (core_log e)))) = 0 \<and>
    d2_bypass_c (lw1 (read_entry (log_bytes (core_log e)))) = 1"
proof -
  let ?e = "\<lparr>lw0 = unpack0 0x180000000000, lw1 = unpack1 0x4000000000000, lw2 = unpack2 0, reg_wr_data = 7\<rparr>"
  have "read_entry (log_bytes (core_log ?e)) =
      ?e\<lparr>lw1 := (lw1 ?e)\<lparr>d2_bypass_a := d2_bypass_c (lw1 ?e), d2_bypass_c := d2_bypass_a (lw1 ?e)\<rparr>\<rparr>"
  proof (rule core_log_read_back)
    show "entry_fits ?e" unfolding entry_fits_def by auto
  qed (simp_all add: unpack0_def unpack2_def bits_def)
  then show ?thesis by (intro exI [of _ ?e]) (simp add: unpack1_def bits_def)
qed

text \<open>Registers 32 to 63 are the floating-point registers of the design, but 32 to 44 are printed with the names of
  special registers.\<close>

lemma fpr_printed_as_spr:
  "reg_wr_enable l \<noteq> 0 \<Longrightarrow> reg_wr_reg l = 32 \<Longrightarrow> take 3 (fmt_gspr l v) = ''lr ''"
  by (simp add: fmt_gspr_def spr_names_def)
end
