(* ===== verification/Log_Dump.thy ===== *)
theory Log_Dump
  imports Dmi_Target Fmt_Log
begin

text \<open>
  Dumping the log of a core with the debug tool (\<open>log_dump\<close> of \<open>scripts/mw_debug/mw_debug.c\<close>), and the log buffer of the
  core (\<open>core_debug.vhdl\<close>) at the granularity of one register access.

  The locale \<open>log_target\<close> extends the contract of a debug target by what its log registers promise.  The
  log has \<open>2 ^ n\<close> entries of four words.  As long as the log runs, every access may find more entries in it; the
  entries that a core logs up to an access are an argument of the model of the buffer, as are its other registers.
\<close>

section \<open>The address register\<close>

lemma unat_times_4:
  fixes w :: u64
  assumes "n \<le> 29" and "unat w < 2 ^ n"
  shows "unat (push_bit 2 w) = 4 * unat w"
proof -
  have "unat w < 2 ^ 29" using assms power_increasing [of n 29 "2 :: nat"] by simp
  then show ?thesis by (simp add: push_bit_eq_mult unat_word_ariths)
qed

lemma stop_address:
  fixes w :: u64
  assumes "n \<le> 29" and "unat w < 2 ^ n"
  shows "(LOG_STOP OR push_bit 2 w) AND LOG_STOP \<noteq> 0" and "take_bit (n + 2) (LOG_STOP OR push_bit 2 w) = push_bit 2 w"
proof -
  have L: "LOG_STOP = 2 ^ 31" by (simp add: LOG_STOP_def)
  have "bit ((2 ^ 31 OR push_bit 2 w) AND 2 ^ 31 :: u64) 31" by (simp add: bit_simps)
  moreover have "x \<noteq> 0" if "bit x k" for x :: u64 and k using that by auto
  ultimately show "(LOG_STOP OR push_bit 2 w) AND LOG_STOP \<noteq> 0" unfolding L by blast
  have "take_bit n w = w" using assms by (simp add: word_unat_eq_iff unsigned_take_bit_eq take_bit_nat_eq_self)
  then have hi: "\<not> bit w i" if "n \<le> i" for i using that by (metis bit_take_bit_iff not_le)
  show "take_bit (n + 2) (LOG_STOP OR push_bit 2 w) = push_bit 2 w" unfolding L
  proof (rule bit_word_eqI)
    fix i
    have "\<not> bit (push_bit 2 w) i" if "n + 2 \<le> i" using hi [of "i - 2"] that by (simp add: bit_push_bit_iff)
    moreover have "\<not> bit (2 ^ 31 :: u64) i" if "i < n + 2" using assms(1) that unfolding bit_exp_iff by auto
    ultimately show "bit (take_bit (n + 2) (2 ^ 31 OR push_bit 2 w)) i \<longleftrightarrow> bit (push_bit 2 w) i"
      by (auto simp only: bit_take_bit_iff bit_or_iff not_less [symmetric])
  qed
qed

section \<open>What the log registers promise\<close>

locale log_target = dmi_target +
  fixes core :: u32 and n :: nat
    and stopped :: "'a \<Rightarrow> bool"
    and ix :: "'a \<Rightarrow> nat"
    and wptr :: "'a \<Rightarrow> nat"
    and ring :: "'a \<Rightarrow> u64 list"
  assumes size: "n \<le> 29" "length (ring s) = 4 * 2 ^ n" "wptr s < 2 ^ n"
    and get_addr: "drop_bit 32 (fst (rd (DBG_LOG_ADDR core) s)) = 2 ^ n + of_nat (wptr (snd (rd (DBG_LOG_ADDR core) s)))"
      "fst (rd (DBG_LOG_ADDR core) s) AND LOG_STOP = 0 \<longleftrightarrow> \<not> stopped s"
      "stopped (snd (rd (DBG_LOG_ADDR core) s)) = stopped s"
      "stopped s \<Longrightarrow> ring (snd (rd (DBG_LOG_ADDR core) s)) = ring s"
      "stopped s \<Longrightarrow> wptr (snd (rd (DBG_LOG_ADDR core) s)) = wptr s"
    and set_addr: "d AND LOG_STOP \<noteq> 0 \<Longrightarrow> stopped (wr (DBG_LOG_ADDR core) d s)"
      "stopped s \<Longrightarrow> ring (wr (DBG_LOG_ADDR core) d s) = ring s"
      "ix (wr (DBG_LOG_ADDR core) d s) = unat (take_bit (n + 2) d)"
    and get_data: "stopped s \<Longrightarrow> fst (rd (DBG_LOG_DATA core) s) = ring s ! ix s"
      "stopped (snd (rd (DBG_LOG_DATA core) s)) = stopped s"
      "stopped s \<Longrightarrow> ring (snd (rd (DBG_LOG_DATA core) s)) = ring s"
      "stopped s \<Longrightarrow> ix (snd (rd (DBG_LOG_DATA core) s)) = (ix s + 1) mod (4 * 2 ^ n)"
begin

lemma dump_loop_ok:
  assumes "\<And>k. hf_fwrite fs k = 1"
  shows "ready (db_target st) \<Longrightarrow> stopped (db_target st) \<Longrightarrow> db_core st = core \<Longrightarrow> ix (db_target st) < 4 * 2 ^ n \<Longrightarrow>
    \<exists>t txt1. dump_loop fs b name d i k st = Some (Done (), st\<lparr>db_target := t, db_file := put_bytes
        (concat (map (\<lambda>j. le_bytes 8 (ring (db_target st) ! ((ix (db_target st) + j) mod (4 * 2 ^ n)))) [0..<k])) (db_file st),
        db_out := db_out st @ txt1\<rparr>) \<and> ready t \<and> stopped t \<and> ring t = ring (db_target st)"
proof (induction k arbitrary: d i st)
  case 0
  then show ?case by (intro exI [of _ "db_target st"] exI [of _ "[]"]) (simp add: run_simps)
next
  case (Suc k)
  let ?M = "4 * 2 ^ n :: nat" and ?s = "db_target st"
  let ?t = "snd (rd (DBG_LOG_DATA core) ?s)" and ?v = "ring ?s ! ix ?s"
  define txt0 where "txt0 = (if i mod 128 = 0 then dec (i * 8) @ ''...'' @ [CHR 0x0D] else [])"
  let ?st = "st\<lparr>db_target := ?t, db_file := put_bytes (le_bytes 8 ?v) (db_file st), db_out := db_out st @ txt0\<rparr>"
  have step: "dump_loop fs b name d i (Suc k) st = dump_loop fs b name ?v (i + 1) k ?st"
    using Suc.prems assms
    by (cases "i mod 128 = 0") (simp_all add: run_simps access_ok get_core_def get_data put_file_def txt0_def del: le_bytes_numeral)
  obtain t txt1 where t: "dump_loop fs b name ?v (i + 1) k ?st = Some (Done (), ?st\<lparr>db_target := t, db_file := put_bytes
        (concat (map (\<lambda>j. le_bytes 8 (ring ?s ! ((ix ?t + j) mod ?M))) [0..<k])) (db_file ?st), db_out := db_out ?st @ txt1\<rparr>)"
      "ready t" "stopped t" "ring t = ring ?s"
    using Suc.IH [of ?st ?v "i + 1"] Suc.prems by (auto simp: access_ok get_data simp del: le_bytes_numeral)
  have "(ix ?t + j) mod ?M = (ix ?s + Suc j) mod ?M" for j
    using Suc.prems by (simp add: get_data mod_simps)
  moreover have "[0..<Suc k] = 0 # map Suc [0..<k]" by (metis upt_conv_Cons map_Suc_upt zero_less_Suc)
  ultimately have "concat (map (\<lambda>j. le_bytes 8 (ring ?s ! ((ix ?s + j) mod ?M))) [0..<Suc k]) =
      le_bytes 8 ?v @ concat (map (\<lambda>j. le_bytes 8 (ring ?s ! ((ix ?t + j) mod ?M))) [0..<k])"
    using Suc.prems by (simp add: comp_def del: upt_Suc le_bytes_numeral)
  with t step show ?case by (intro exI [of _ t] exI [of _ "txt0 @ txt1"]) (simp del: upt_Suc le_bytes_numeral)
qed

text \<open>The file gets the words of the stopped log, from the write pointer that was read before the log was stopped.\<close>

lemma log_dump_ok:
  assumes "\<And>k. hf_fwrite fs k = 1" and "hf_create fs name = Some old" and "ready (db_target st)" and "db_core st = core"
  defines "s1 \<equiv> snd (rd (DBG_LOG_ADDR core) (db_target st))"
  defines "s2 \<equiv> if stopped (db_target st) then s1 else wr (DBG_LOG_ADDR core) LOG_STOP s1"
  shows "\<exists>t txt1. log_dump fs b name st = Some (Done (), st\<lparr>db_target := t,
      db_file := put_bytes (concat (map (le_bytes 8) (rotate (4 * wptr s1) (ring s2)))) ([], []), db_out := db_out st @ txt1\<rparr>) \<and> ready t"
proof -
  let ?v = "fst (rd (DBG_LOG_ADDR core) (db_target st))" and ?w = "of_nat (wptr s1) :: u64"
  let ?d = "LOG_STOP OR push_bit 2 ?w" and ?M = "4 * 2 ^ n :: nat"
  have w: "wptr s1 < 2 ^ n" "unat ?w = wptr s1" "n < 32"
    using size(1) size(3) [of s1] le_less_trans [OF less_imp_le [OF size(3) [of s1]] power_strict_increasing [of n 64 "2 :: nat"]]
    by (simp_all add: unsigned_of_nat take_bit_nat_eq_self)
  have dec: "drop_bit 32 ?v = 2 ^ n + ?w" by (simp add: get_addr s1_def)
  have lg: "log_size (2 ^ n + ?w) = 2 ^ n" "log_wptr (2 ^ n + ?w) = ?w"
    using log_size_and_pointer [of n ?w] w by simp_all
  have st: "?d AND LOG_STOP \<noteq> 0" "take_bit (n + 2) ?d = push_bit 2 ?w"
    using stop_address [of n ?w] size(1) w by simp_all
  have s2: "ready s2" "stopped s2" using assms(3) by (auto simp: s2_def s1_def access_ok get_addr set_addr LOG_STOP_def)
  let ?s3 = "wr (DBG_LOG_ADDR core) ?d s2"
  have s3: "ready ?s3" "stopped ?s3" "ring ?s3 = ring s2" "ix ?s3 = 4 * wptr s1"
    using s2 st w size(1) unat_times_4 [of n ?w] by (simp_all add: access_ok set_addr)
  define txt0 where "txt0 = ''Log size = '' @ dec (2 ^ n) @ '' entries'' @ [CHR 0x0A]"
  let ?st3 = "st\<lparr>db_file := ([], []), db_out := db_out st @ txt0, db_target := ?s3\<rparr>"
  obtain t txt1 where t: "dump_loop fs b name (db_junk st ''ldata'') 0 ?M ?st3 = Some (Done (), ?st3\<lparr>db_target := t,
      db_file := put_bytes (concat (map (\<lambda>j. le_bytes 8 (ring s2 ! ((4 * wptr s1 + j) mod ?M))) [0..<?M])) ([], []), db_out := db_out ?st3 @ txt1\<rparr>)"
    "ready t"
    using dump_loop_ok [OF assms(1), of ?st3 name "db_junk st ''ldata''" 0 ?M] s3 w assms(4) by (auto simp del: le_bytes_numeral)
  have rot: "map (\<lambda>j. le_bytes 8 (ring s2 ! ((4 * wptr s1 + j) mod ?M))) [0..<?M] = map (le_bytes 8) (rotate (4 * wptr s1) (ring s2))"
    by (rule nth_equalityI) (simp_all add: size nth_rotate del: le_bytes_numeral)
  have cnt4: "unat (2 ^ n * 4 :: u64) = ?M"
    using unat_power_2 [of n] size(1) power_increasing [of n 29 "2 :: nat"] by (simp add: unat_word_ariths)
  have "log_dump fs b name st = Some (Done (), st\<lparr>db_target := wr (DBG_LOG_ADDR core) ?v t,
      db_file := put_bytes (concat (map (le_bytes 8) (rotate (4 * wptr s1) (ring s2)))) ([], []),
      db_out := db_out st @ txt0 @ txt1 @ dec (2 ^ n * 32) @ '' done'' @ [CHR 0x0A]\<rparr>)"
  proof -
    have j: "(if ?v AND LOG_STOP = 0 then check_write b (DBG_LOG_ADDR core) LOG_STOP ''writing LOG_ADDR'' else ret ()) (st\<lparr>db_file := ([], []), db_target := s1\<rparr>) =
        Some (Done (), st\<lparr>db_file := ([], []), db_target := s2\<rparr>)"
      using assms(3) by (simp add: get_addr s2_def run_simps access_ok s1_def)
    show ?thesis
      using assms(2,3,4) t s2(1) j unfolding rot
      by (simp add: log_dump_def open_file_def run_simps access_ok get_core_def uninit_def dec lg cnt4 txt0_def s1_def [symmetric] Let_def
          del: le_bytes_numeral)
  qed
  with t(2) show ?thesis by (blast intro: ready_wr)
qed

end


section \<open>The log buffer of a core\<close>

record 'c log_core =
  log_dmi_addr :: u32
  log_wr_ptr :: u32
  log_array :: "nat \<Rightarrow> 256 word"
  log_rest :: 'c

definition log_pos :: "nat \<Rightarrow> 'c log_core \<Rightarrow> nat" where
  "log_pos n s = unat (take_bit n (log_wr_ptr s))"

definition log_store :: "nat \<Rightarrow> 256 word \<Rightarrow> 'c log_core \<Rightarrow> 'c log_core" where
  "log_store n x s = s\<lparr>log_array := (log_array s)(log_pos n s := x), log_wr_ptr := log_wr_ptr s + 1\<rparr>"

text \<open>The entries that are logged up to an access, unless the top bit of the address has stopped the log.\<close>

definition log_run :: "nat \<Rightarrow> ('c log_core \<Rightarrow> 256 word list) \<Rightarrow> 'c log_core \<Rightarrow> 'c log_core" where
  "log_run n feed s = (if bit (log_dmi_addr s) 31 then s else fold (log_store n) (feed s) s)"

definition log_write_addr :: "nat \<Rightarrow> 'c log_core \<Rightarrow> u32" where
  "log_write_addr n s = 2 ^ n OR take_bit n (log_wr_ptr s)"

definition select_dword :: "256 word \<Rightarrow> u32 \<Rightarrow> u64" where
  "select_dword data a = ucast (drop_bit (64 * unat (take_bit 2 a)) data)"

text \<open>The low bits of the address are incremented, the others stay.\<close>

definition log_next :: "nat \<Rightarrow> u32 \<Rightarrow> u32" where
  "log_next n a = (a AND NOT (mask (n + 2))) OR take_bit (n + 2) (a + 1)"

definition log_rd ::
  "nat \<Rightarrow> u32 \<Rightarrow> ('c log_core \<Rightarrow> 256 word list) \<Rightarrow> (byte \<Rightarrow> 'c \<Rightarrow> u64 \<times> 'c) \<Rightarrow> byte \<Rightarrow> 'c log_core \<Rightarrow> u64 \<times> 'c log_core" where
  "log_rd n core feed rest_rd a s0 =
     (let s = log_run n feed s0
      in if a = DBG_LOG_ADDR core then (push_bit 32 (ucast (log_write_addr n s)) OR ucast (log_dmi_addr s), s)
         else if a = DBG_LOG_DATA core
         then (select_dword (log_array s (unat (take_bit n (drop_bit 2 (log_dmi_addr s))))) (log_dmi_addr s),
               s\<lparr>log_dmi_addr := log_next n (log_dmi_addr s)\<rparr>)
         else let (v, c) = rest_rd a (log_rest s) in (v, s\<lparr>log_rest := c\<rparr>))"

definition log_wr ::
  "nat \<Rightarrow> u32 \<Rightarrow> ('c log_core \<Rightarrow> 256 word list) \<Rightarrow> (byte \<Rightarrow> u64 \<Rightarrow> 'c \<Rightarrow> 'c) \<Rightarrow> byte \<Rightarrow> u64 \<Rightarrow> 'c log_core \<Rightarrow> 'c log_core" where
  "log_wr n core feed rest_wr a d s0 =
     (let s = log_run n feed s0
      in if a = DBG_LOG_ADDR core then s\<lparr>log_dmi_addr := ucast d\<rparr>
         else if a = DBG_LOG_DATA core then s\<lparr>log_dmi_addr := log_next n (log_dmi_addr s)\<rparr>
         else s\<lparr>log_rest := rest_wr a d (log_rest s)\<rparr>)"

definition log_ops :: "nat \<Rightarrow> u32 \<Rightarrow> ('c log_core \<Rightarrow> 256 word list) \<Rightarrow> 'c dev_ops \<Rightarrow> 'c log_core core_ops" where
  "log_ops n core feed rest =
     \<lparr>co_rd = log_rd n core feed (dv_rd rest), co_wr = log_wr n core feed (dv_wr rest), co_delay = (\<lambda>s. dv_delay rest (log_rest (wb_core s)))\<rparr>"

abbreviation the_core :: "'c log_core wbdm dtm \<Rightarrow> 'c log_core" where
  "the_core s \<equiv> wb_core (dt_dev s)"

definition log_words :: "nat \<Rightarrow> 'c log_core \<Rightarrow> u64 list" where
  "log_words n s = map (\<lambda>i. slice (64 * (i mod 4)) 64 (log_array s (i div 4))) [0..<4 * 2 ^ n]"

text \<open>The log is stopped by the debug interface when bit 31 of its address register is set.  The stops by the trigger and by the special
  purpose register of the processor are not part of this state.\<close>

definition log_stopped :: "'c log_core \<Rightarrow> bool" where
  "log_stopped s = bit (log_dmi_addr s) 31"

definition log_ix :: "nat \<Rightarrow> 'c log_core \<Rightarrow> nat" where
  "log_ix n s = unat (take_bit (n + 2) (log_dmi_addr s))"

lemma log_addresses:
  "DBG_LOG_ADDR core \<notin> {0, 1, 2, 3}" "DBG_LOG_DATA core \<notin> {0, 1, 2, 3}" "DBG_LOG_DATA core \<noteq> DBG_LOG_ADDR core"
proof -
  have t: "take_bit 4 (k + push_bit 4 core) = take_bit 4 k" for k :: u32
  proof -
    have "uint (k + push_bit 4 core) mod 16 = uint k mod 16"
      by (simp add: uint_word_ariths push_bit_eq_mult mod_mod_cancel mod_simps)
    then show ?thesis by (simp add: word_uint_eq_iff take_bit_eq_mod uint_mod_distrib)
  qed
  have u: "take_bit 4 (ucast x :: byte) = ucast (take_bit 4 x)" for x :: u32
    by (rule bit_word_eqI) (auto simp: bit_simps)
  have a: "take_bit 4 (DBG_LOG_ADDR core) = 6" "take_bit 4 (DBG_LOG_DATA core) = 7"
    by (simp_all add: DBG_LOG_ADDR_def DBG_LOG_DATA_def u t)
  then show "DBG_LOG_ADDR core \<notin> {0, 1, 2, 3}" "DBG_LOG_DATA core \<notin> {0, 1, 2, 3}" "DBG_LOG_DATA core \<noteq> DBG_LOG_ADDR core"
    by auto
qed

lemma log_run_addr [simp]: "log_dmi_addr (log_run n feed s) = log_dmi_addr s"
proof -
  have "log_dmi_addr (fold (log_store n) xs s) = log_dmi_addr s" for xs
    by (induction xs arbitrary: s) (simp_all add: log_store_def)
  then show ?thesis by (simp add: log_run_def)
qed

lemma log_run_stopped: "log_stopped s \<Longrightarrow> log_run n feed s = s"
  by (simp add: log_run_def log_stopped_def)

lemma LOG_STOP_bit: "d AND LOG_STOP = 0 \<longleftrightarrow> \<not> bit d 31"
  using and_exp_eq_0_iff_not_bit [of d 31] by (simp add: LOG_STOP_def)

lemma log_pos_less: "n \<le> 29 \<Longrightarrow> log_pos n s < 2 ^ n"
  by (simp add: log_pos_def unsigned_take_bit_eq)

lemma log_address_value:
  assumes "n \<le> 29"
  shows "drop_bit 32 (push_bit 32 (ucast (log_write_addr n s)) OR ucast (log_dmi_addr s) :: u64) = 2 ^ n + of_nat (log_pos n s)"
    and "bit (push_bit 32 (ucast (log_write_addr n s)) OR ucast (log_dmi_addr s) :: u64) 31 = bit (log_dmi_addr s) 31"
proof -
  let ?p = "take_bit n (log_wr_ptr s)"
  have "drop_bit 32 (push_bit 32 (ucast (log_write_addr n s)) OR ucast (log_dmi_addr s) :: u64) = ucast (log_write_addr n s)"
    by (rule bit_word_eqI) (auto simp: bit_simps dest: bit_imp_le_length)
  also have "\<dots> = 2 ^ n OR ucast ?p"
    using assms by (intro bit_word_eqI) (auto simp: log_write_addr_def bit_simps)
  also have "\<dots> = 2 ^ n + ucast ?p" by (rule disjunctive_add [symmetric]) (auto simp: bit_simps)
  finally show "drop_bit 32 (push_bit 32 (ucast (log_write_addr n s)) OR ucast (log_dmi_addr s) :: u64) = 2 ^ n + of_nat (log_pos n s)"
    by (simp add: log_pos_def)
  show "bit (push_bit 32 (ucast (log_write_addr n s)) OR ucast (log_dmi_addr s) :: u64) 31 = bit (log_dmi_addr s) 31"
    by (simp add: bit_simps)
qed

lemma log_ix_parts:
  fixes a :: u32
  assumes "n \<le> 29"
  shows "unat (take_bit (n + 2) a) mod 4 = unat (take_bit 2 a)"
    and "unat (take_bit (n + 2) a) div 4 = unat (take_bit n (drop_bit 2 a))"
proof -
  have "take_bit 2 (take_bit (n + 2) (unat a)) = take_bit 2 (unat a)" by (simp add: numeral_2_eq_2)
  then show "unat (take_bit (n + 2) a) mod 4 = unat (take_bit 2 a)"
    unfolding unsigned_take_bit_eq by (simp add: take_bit_eq_mod)
  have "take_bit 32 (unat a) = unat a" using unsigned_less [of a, where ?'a = nat] by (simp add: take_bit_nat_eq_self)
  have "drop_bit 2 (take_bit (n + 2) (unat a)) = take_bit n (drop_bit 2 (unat a))" by (simp add: drop_bit_take_bit)
  then show "unat (take_bit (n + 2) a) div 4 = unat (take_bit n (drop_bit 2 a))"
    unfolding unsigned_take_bit_eq unsigned_drop_bit_eq using \<open>take_bit 32 (unat a) = unat a\<close> by (simp add: drop_bit_eq_div)
qed

lemma log_word_read:
  assumes "n \<le> 29"
  shows "select_dword (log_array s (unat (take_bit n (drop_bit 2 (log_dmi_addr s))))) (log_dmi_addr s) = log_words n s ! log_ix n s"
proof -
  have "log_ix n s < 4 * 2 ^ n" using take_bit_nat_less_exp [of "n + 2" "unat (log_dmi_addr s)"] by (simp add: log_ix_def unsigned_take_bit_eq)
  then show ?thesis
    using log_ix_parts [OF assms, of "log_dmi_addr s"]
    by (simp add: log_words_def log_ix_def select_dword_def slice_def) (rule bit_word_eqI, auto simp: bit_simps)
qed

lemma log_next_parts:
  assumes "n \<le> 29"
  shows "unat (take_bit (n + 2) (log_next n a)) = (unat (take_bit (n + 2) a) + 1) mod (4 * 2 ^ n)" and "bit (log_next n a) 31 = bit a 31"
proof -
  have t: "take_bit (n + 2) (log_next n a) = take_bit (n + 2) (a + 1)"
    by (rule bit_word_eqI) (auto simp: log_next_def bit_simps)
  have "unat (take_bit (n + 2) (a + 1)) = (unat a + 1) mod (2 ^ 32) mod 2 ^ (n + 2)"
    unfolding unsigned_take_bit_eq unat_word_ariths by (simp add: take_bit_eq_mod)
  also have "\<dots> = (unat a + 1) mod 2 ^ (n + 2)" using assms by (intro mod_mod_cancel le_imp_power_dvd) simp
  also have "\<dots> = (unat (take_bit (n + 2) a) + 1) mod (4 * 2 ^ n)"
    unfolding unsigned_take_bit_eq by (simp add: take_bit_eq_mod mod_simps)
  finally show "unat (take_bit (n + 2) (log_next n a)) = (unat (take_bit (n + 2) a) + 1) mod (4 * 2 ^ n)" unfolding t .
  show "bit (log_next n a) 31 = bit a 31" using assms by (auto simp: log_next_def bit_simps)
qed

lemma log_device:
  fixes feed rest core n
  defines "dv \<equiv> soc_ops (log_ops n core feed rest)"
  shows "fst (dtm_rd dv (DBG_LOG_ADDR core) s) =
      push_bit 32 (ucast (log_write_addr n (log_run n feed (the_core s)))) OR ucast (log_dmi_addr (the_core s))"
    and "the_core (snd (dtm_rd dv (DBG_LOG_ADDR core) s)) = log_run n feed (the_core s)"
    and "the_core (dtm_wr dv (DBG_LOG_ADDR core) d s) = (log_run n feed (the_core s))\<lparr>log_dmi_addr := ucast d\<rparr>"
    and "fst (dtm_rd dv (DBG_LOG_DATA core) s) =
      select_dword (log_array (log_run n feed (the_core s)) (unat (take_bit n (drop_bit 2 (log_dmi_addr (the_core s))))))
        (log_dmi_addr (the_core s))"
    and "the_core (snd (dtm_rd dv (DBG_LOG_DATA core) s)) =
      (log_run n feed (the_core s))\<lparr>log_dmi_addr := log_next n (log_dmi_addr (the_core s))\<rparr>"
  using log_addresses [of core]
  by (simp_all add: dv_def dtm_rd_def dtm_wr_def soc_ops_def log_ops_def wb_read_def wb_write_def log_rd_def log_wr_def Let_def split: prod.split)

lemma sim_log_target:
  fixes feed :: "'c log_core \<Rightarrow> 256 word list" and rest core n
  assumes "vhpi0 vh \<noteq> vhpi1 vh" and "n \<le> 29"
  defines "dv \<equiv> soc_ops (log_ops n core feed rest)"
  shows "log_target (sim_backend net (sim_link vh dv)) dtm_ready (dtm_rd dv) (dtm_wr dv) (dtm_pending dv) core n
    (\<lambda>s. log_stopped (the_core s)) (\<lambda>s. log_ix n (the_core s)) (\<lambda>s. log_pos n (the_core s)) (\<lambda>s. log_words n (the_core s))"
proof (intro log_target.intro log_target_axioms.intro sim_dmi_target [OF assms(1)])
  note D = log_device [of n core feed rest, folded dv_def] and N = log_next_parts [OF assms(2)]
  show "n \<le> 29" by (rule assms)
  fix s :: "'c log_core wbdm dtm" and d
  let ?c = "the_core s"
  show "length (log_words n ?c) = 4 * 2 ^ n" by (simp add: log_words_def)
  show "log_pos n ?c < 2 ^ n" using assms(2) by (rule log_pos_less)
  have addr: "log_dmi_addr (log_run n feed ?c) = log_dmi_addr ?c" by simp
  show "drop_bit 32 (fst (dtm_rd dv (DBG_LOG_ADDR core) s)) = 2 ^ n + of_nat (log_pos n (the_core (snd (dtm_rd dv (DBG_LOG_ADDR core) s))))"
    unfolding D using log_address_value(1) [OF assms(2), of "log_run n feed ?c"] by simp
  show "fst (dtm_rd dv (DBG_LOG_ADDR core) s) AND LOG_STOP = 0 \<longleftrightarrow> \<not> log_stopped ?c"
    unfolding D LOG_STOP_bit log_stopped_def using log_address_value(2) [OF assms(2), of "log_run n feed ?c"] by simp
  show "log_stopped (the_core (snd (dtm_rd dv (DBG_LOG_ADDR core) s))) = log_stopped ?c" by (simp add: D log_stopped_def)
  show "log_stopped (the_core (dtm_wr dv (DBG_LOG_ADDR core) d s))" if "d AND LOG_STOP \<noteq> 0"
    using that by (simp add: D log_stopped_def LOG_STOP_bit bit_simps)
  show "log_ix n (the_core (dtm_wr dv (DBG_LOG_ADDR core) d s)) = unat (take_bit (n + 2) d)"
  proof -
    have "take_bit (n + 2) (ucast d :: u32) = ucast (take_bit (n + 2) d)" by (rule bit_word_eqI) (auto simp: bit_simps)
    then show ?thesis unfolding D log_ix_def using assms(2) by (simp add: unsigned_ucast_eq unsigned_take_bit_eq min_def)
  qed
  show "log_stopped (the_core (snd (dtm_rd dv (DBG_LOG_DATA core) s))) = log_stopped ?c" using N by (simp add: D log_stopped_def)
  assume st: "log_stopped ?c"
  note R = log_run_stopped [OF st]
  show "log_words n (the_core (snd (dtm_rd dv (DBG_LOG_ADDR core) s))) = log_words n ?c"
    "log_pos n (the_core (snd (dtm_rd dv (DBG_LOG_ADDR core) s))) = log_pos n ?c"
    "log_words n (the_core (dtm_wr dv (DBG_LOG_ADDR core) d s)) = log_words n ?c"
    "log_words n (the_core (snd (dtm_rd dv (DBG_LOG_DATA core) s))) = log_words n ?c"
    by (simp_all add: D R log_words_def)
  show "fst (dtm_rd dv (DBG_LOG_DATA core) s) = log_words n ?c ! log_ix n ?c" unfolding D R using assms(2) by (rule log_word_read)
  show "log_ix n (the_core (snd (dtm_rd dv (DBG_LOG_DATA core) s))) = (log_ix n ?c + 1) mod (4 * 2 ^ n)"
    unfolding D R log_ix_def using N(1) by simp
qed

interpretation sim_log: log_target "sim_backend net (sim_link ghdl_codes (soc_ops (log_ops 11 core feed rest)))" dtm_ready
  "dtm_rd (soc_ops (log_ops 11 core feed rest))" "dtm_wr (soc_ops (log_ops 11 core feed rest))"
  "dtm_pending (soc_ops (log_ops 11 core feed rest))" core 11 "\<lambda>s. log_stopped (the_core s)" "\<lambda>s. log_ix 11 (the_core s)"
  "\<lambda>s. log_pos 11 (the_core s)" "\<lambda>s. log_words 11 (the_core s)"
  for net core feed rest
  by (rule sim_log_target) (simp_all add: ghdl_codes_def)

section \<open>The entries of the file\<close>

lemma log_bytes_slices: "log_bytes x = concat (map (\<lambda>j. le_bytes 8 (slice (64 * j) 64 x)) [0..<4])"
proof -
  have "ucast (drop_bit m x) = slice m 64 x" for m
    unfolding slice_def by (rule bit_word_eqI) (auto simp: bit_simps)
  then show ?thesis by (simp add: log_bytes_def del: le_bytes_numeral upt_rec_numeral)
qed

lemma length_log_bytes: "length (log_bytes x) = 32"
  by (simp add: log_bytes_def length_concat comp_def sum_list_triv del: le_bytes_numeral)

lemma entries_log_bytes: "entries (concat (map log_bytes xs)) = map (\<lambda>x. read_entry (log_bytes x)) xs"
  by (induction xs) (simp_all add: entries.simps [of "[]"] entries.simps [of "_ @ _"] length_log_bytes)

lemma entries_logged: "list_all logged es \<Longrightarrow> entries (concat (map (log_bytes \<circ> core_log) es)) = map as_read es"
  using entries_log_bytes [of "map core_log es"] by (auto simp: read_core_log list_all_iff)

lemma words_of_blocks: "concat (map (\<lambda>i. g (i div 4) (i mod 4)) [0..<4 * L]) = concat (map (\<lambda>k. concat (map (g k) [0..<4])) [0..<L])"
proof (induction L)
  case (Suc L)
  have "[0..<4 * Suc L] = [0..<4 * L] @ map (\<lambda>j. 4 * L + j) [0..<4]"
    using upt_add_eq_append [of 0 "4 * L" 4] map_add_upt [of "4 * L" 4] by (simp add: add.commute del: upt_rec_numeral)
  then have "concat (map (\<lambda>i. g (i div 4) (i mod 4)) [0..<4 * Suc L]) =
      concat (map (\<lambda>i. g (i div 4) (i mod 4)) [0..<4 * L]) @ concat (map (\<lambda>j. g ((4 * L + j) div 4) ((4 * L + j) mod 4)) [0..<4])"
    by (simp add: comp_def)
  also have "map (\<lambda>j. g ((4 * L + j) div 4) ((4 * L + j) mod 4)) [0..<4] = map (g L) [0..<4]" by (rule map_cong) auto
  finally show ?case using Suc by simp
qed simp

lemma rotated_words:
  assumes "w < 2 ^ n"
  shows "concat (map (le_bytes 8) (rotate (4 * w) (log_words n s))) = concat (map log_bytes (rotate w (map (log_array s) [0..<2 ^ n])))"
proof -
  let ?L = "2 ^ n :: nat" and ?h = "\<lambda>k j. le_bytes 8 (slice (64 * j) 64 (log_array s ((w + k) mod 2 ^ n)))"
  have "map (le_bytes 8) (rotate (4 * w) (log_words n s)) = map (\<lambda>i. ?h (i div 4) (i mod 4)) [0..<4 * ?L]"
  proof (rule nth_equalityI)
    fix i assume "i < length (map (le_bytes 8) (rotate (4 * w) (log_words n s)))"
    then have i: "i < 4 * ?L" by (simp add: log_words_def)
    have "(4 * w + i) mod (4 * ?L) mod 4 = i mod 4" by (simp add: mod_mod_cancel)
    moreover have "(4 * w + i) mod (4 * ?L) div 4 = (w + i div 4) mod ?L"
      by (simp add: mod_mult2_eq)
    ultimately show "map (le_bytes 8) (rotate (4 * w) (log_words n s)) ! i = map (\<lambda>i. ?h (i div 4) (i mod 4)) [0..<4 * ?L] ! i"
      using i by (simp add: log_words_def nth_rotate del: le_bytes_numeral)
  qed (simp add: log_words_def)
  moreover have "rotate w (map (log_array s) [0..<?L]) = map (\<lambda>k. log_array s ((w + k) mod ?L)) [0..<?L]"
    by (rule nth_equalityI) (simp_all add: nth_rotate)
  ultimately show ?thesis
    using words_of_blocks [of ?h ?L] by (simp add: log_bytes_slices comp_def del: le_bytes_numeral upt_rec_numeral)
qed

text \<open>Dumping a log that is stopped writes its entries from the oldest one on, and leaves the log alone.\<close>

lemma stopped_log_file:
  fixes feed :: "'c log_core \<Rightarrow> 256 word list" and st :: "'c log_core wbdm dtm dbg"
  assumes "vhpi0 vh \<noteq> vhpi1 vh" and "n \<le> 29" and "\<And>k. hf_fwrite fs k = 1" and "hf_create fs name = Some old"
    and "dt_wait (db_target st) = 0" and "log_stopped (the_core (db_target st))"
  shows "\<exists>t txt1. log_dump fs (sim_backend net (sim_link vh (soc_ops (log_ops n (db_core st) feed rest)))) name st =
      Some (Done (), st\<lparr>db_target := t, db_file := put_bytes (concat (map log_bytes
        (rotate (log_pos n (the_core (db_target st))) (map (log_array (the_core (db_target st))) [0..<2 ^ n])))) ([], []), db_out := db_out st @ txt1\<rparr>)"
proof -
  let ?dv = "soc_ops (log_ops n (db_core st) feed rest)" and ?c = "the_core (db_target st)"
  note T = sim_log_target [OF assms(1,2), of net "db_core st" feed rest]
  have c: "the_core (snd (dtm_rd ?dv (DBG_LOG_ADDR (db_core st)) (db_target st))) = ?c"
    using assms(6) by (simp add: log_device log_run_stopped)
  show ?thesis
    using log_target.log_dump_ok [OF T assms(3,4), of st] assms(5,6) c
      rotated_words [OF log_pos_less [OF assms(2), of ?c], of ?c]
    by (auto simp: dtm_ready_def simp del: le_bytes_numeral)
qed

text \<open>While the log runs, the tool takes the write pointer before it stops the log: the file starts at the position
  where the log was written next at the first access, although the core may have logged further entries there by
  the time the log stops.\<close>

lemma running_log_file:
  fixes feed :: "'c log_core \<Rightarrow> 256 word list" and st :: "'c log_core wbdm dtm dbg"
  assumes "vhpi0 vh \<noteq> vhpi1 vh" and "n \<le> 29" and "\<And>k. hf_fwrite fs k = 1" and "hf_create fs name = Some old"
    and "dt_wait (db_target st) = 0" and "\<not> log_stopped (the_core (db_target st))"
  defines "c1 \<equiv> log_run n feed (the_core (db_target st))"
  defines "c2 \<equiv> log_run n feed c1"
  shows "\<exists>t txt1. log_dump fs (sim_backend net (sim_link vh (soc_ops (log_ops n (db_core st) feed rest)))) name st =
      Some (Done (), st\<lparr>db_target := t, db_file := put_bytes (concat (map log_bytes
        (rotate (log_pos n c1) (map (log_array c2) [0..<2 ^ n])))) ([], []), db_out := db_out st @ txt1\<rparr>)"
proof -
  note T = sim_log_target [OF assms(1,2), of net "db_core st" feed rest]
  have "log_words n (c2\<lparr>log_dmi_addr := a\<rparr>) = log_words n c2" for a by (simp add: log_words_def)
  then show ?thesis
    using log_target.log_dump_ok [OF T assms(3,4), of st] assms(5,6) rotated_words [OF log_pos_less [OF assms(2), of c1], of c2]
    by (auto simp: dtm_ready_def log_device c1_def c2_def simp del: le_bytes_numeral)
qed

end
