(* ===== verification/Lms_Model.thy ===== *)
theory Lms_Model
  imports Prelude
begin

text \<open>
  The compiled simulation model of the LMS filter peripheral (\<open>LMS_Periph/obj_dir\<close>), which Verilator made from \<open>wb_lms.v\<close> and
  \<open>LMS.v\<close>: its state, the function for the clock edges, the loops of the evaluation and the first evaluation.

  The state is the class \<open>VLMS___024root\<close>; fields of up to 8, 16 and 32 bits are words of that width.  The run-time library of
  Verilator is not part of the repository: its sign extension, its product and its vectors of triggers are the record
  \<open>vl_runtime\<close>, and the locale \<open>verilator_library\<close> states their documented meaning.  A loop that does not converge ends the
  program (\<open>VL_FATAL_MT\<close>), for which the model has \<open>None\<close>.  The functions \<open>eval_act\<close>, \<open>eval_initial\<close> and \<open>eval_final\<close> are empty, the
  local vector \<open>__VpreTriggered\<close> is never read, and messages that only exist in a debugging build are left out.
\<close>

section \<open>The state\<close>

type_synonym sdata = "16 word"

record lanes =
  lane0 :: sdata
  lane1 :: sdata
  lane2 :: sdata
  lane3 :: sdata

record 't vlms =
  Clk :: byte
  Rst :: byte
  wb_cyc_i :: byte
  wb_stb_i :: byte
  wb_we_i :: byte
  wb_ack_o :: byte
  irq_o :: byte
  mode_train_reg :: byte
  VstlFirstIteration :: byte
  prev_Clk :: byte
  prev_Rst :: byte
  VactContinue :: byte
  wb_dat_i :: sdata
  wb_dat_o :: sdata
  x_in_reg :: sdata
  d_in_reg :: sdata
  y_out :: sdata
  err_reg :: sdata
  wn_u :: lanes
  wb_adr_i :: u32
  VactIterCount :: u32
  wn :: lanes
  lms_x :: lanes
  VstlTriggered :: 't
  VactTriggered :: 't
  VnbaTriggered :: 't

record 't vl_runtime =
  vl_extends :: "u32 \<Rightarrow> u32"
  vl_muls :: "u32 \<Rightarrow> u32 \<Rightarrow> u32"
  tv_set :: "nat \<Rightarrow> bool \<Rightarrow> 't \<Rightarrow> 't"
  tv_any :: "'t \<Rightarrow> bool"
  tv_clear :: "'t \<Rightarrow> 't"
  tv_or :: "'t \<Rightarrow> 't \<Rightarrow> 't"
  tv_word :: "'t \<Rightarrow> u64"

section \<open>Combinational logic\<close>

definition lms_product :: "'t vl_runtime \<Rightarrow> sdata \<Rightarrow> sdata \<Rightarrow> u32" where
  "lms_product rt a b = vl_muls rt (vl_extends rt (ucast a)) (vl_extends rt (ucast b))"

definition lms_output :: "'t vl_runtime \<Rightarrow> lanes \<Rightarrow> lanes \<Rightarrow> sdata" where
  "lms_output rt w x =
     ucast (0xffff AND drop_bit 12 (lms_product rt (lane0 w) (lane0 x) + (lms_product rt (lane1 w) (lane1 x) +
       (lms_product rt (lane2 w) (lane2 x) + lms_product rt (lane3 w) (lane3 x)))))"

definition lms_updated :: "'t vl_runtime \<Rightarrow> sdata \<Rightarrow> sdata \<Rightarrow> sdata \<Rightarrow> sdata" where
  "lms_updated rt w e x =
     ucast (0xffff AND (ucast w + drop_bit 12 (vl_muls rt 0x800 (vl_extends rt (0xffff AND drop_bit 12 (lms_product rt e x))))))"

text \<open>The same assignments end the function for the clock edges and make up the one for the first settling.\<close>

definition lms_comb :: "'t vl_runtime \<Rightarrow> 't vlms \<Rightarrow> 't vlms" where
  "lms_comb rt s =
     s\<lparr>y_out := lms_output rt (wn s) (lms_x s),
       wn_u := \<lparr>lane0 = lms_updated rt (lane0 (wn s)) (err_reg s) (lane0 (lms_x s)),
                lane1 = lms_updated rt (lane1 (wn s)) (err_reg s) (lane1 (lms_x s)),
                lane2 = lms_updated rt (lane2 (wn s)) (err_reg s) (lane2 (lms_x s)),
                lane3 = lms_updated rt (lane3 (wn s)) (err_reg s) (lane3 (lms_x s))\<rparr>\<rparr>"

definition stl_sequent :: "'t vl_runtime \<Rightarrow> 't vlms \<Rightarrow> 't vlms" where
  "stl_sequent rt s = lms_comb rt s"

section \<open>Registers\<close>

definition lms_request :: "'t vlms \<Rightarrow> bool" where
  "lms_request s \<longleftrightarrow> ((ucast (wb_cyc_i s) :: u32) AND ucast (wb_stb_i s)) AND NOT (ucast (wb_ack_o s)) \<noteq> 0"

definition lms_write :: "'t vlms \<Rightarrow> 't vlms" where
  "lms_write s =
     (let a = 0xf AND drop_bit 2 (wb_adr_i s);
          s1 = (if a = 0 then s\<lparr>x_in_reg := wb_dat_i s\<rparr>
                else if a = 1 then s\<lparr>d_in_reg := wb_dat_i s\<rparr>
                else if a = 2 then s\<lparr>mode_train_reg := ucast (1 AND wb_dat_i s)\<rparr> else s)
      in s1\<lparr>irq_o := 1\<rparr>)"

definition lms_read :: "'t vlms \<Rightarrow> sdata" where
  "lms_read s =
     (let a = wb_adr_i s
      in if 0x20 AND a \<noteq> 0 then
           if 0x10 AND a \<noteq> 0 then 0 else if 8 AND a \<noteq> 0 then 0 else if 4 AND a \<noteq> 0 then 0 else lane3 (wn s)
         else if 0x10 AND a \<noteq> 0 then
           if 8 AND a \<noteq> 0 then if 4 AND a \<noteq> 0 then lane2 (wn s) else lane1 (wn s)
           else if 4 AND a \<noteq> 0 then lane0 (wn s) else err_reg s
         else if 8 AND a \<noteq> 0 then if 4 AND a \<noteq> 0 then y_out s else 0
         else 0)"

definition lms_access :: "'t vlms \<Rightarrow> 't vlms" where
  "lms_access s = (if wb_we_i s \<noteq> 0 then lms_write s else s\<lparr>wb_dat_o := lms_read s\<rparr>)"

text \<open>The values that the delayed assignments store at the end of the block.\<close>

definition dly_ack :: "'t vlms \<Rightarrow> byte" where
  "dly_ack s = (if Rst s \<noteq> 0 then 0 else if lms_request s then 1 else 0)"

definition dly_err :: "'t vlms \<Rightarrow> sdata" where
  "dly_err s =
     (if Rst s \<noteq> 0 then 0
      else if mode_train_reg s \<noteq> 0 then ucast (0xffff AND ((ucast (d_in_reg s) :: u32) - ucast (y_out s))) else 0)"

definition dly_x :: "'t vlms \<Rightarrow> lanes" where
  "dly_x s =
     (if Rst s \<noteq> 0 then \<lparr>lane0 = 0, lane1 = 0, lane2 = 0, lane3 = 0\<rparr>
      else \<lparr>lane0 = x_in_reg s, lane1 = lane0 (lms_x s), lane2 = lane1 (lms_x s), lane3 = lane2 (lms_x s)\<rparr>)"

definition dly_wn :: "'t vlms \<Rightarrow> lanes" where
  "dly_wn s =
     (if Rst s \<noteq> 0 then \<lparr>lane0 = 0, lane1 = 0, lane2 = 0, lane3 = 0\<rparr>
      else if mode_train_reg s \<noteq> 0 then wn_u s else wn s)"

definition nba_sequent :: "'t vl_runtime \<Rightarrow> 't vlms \<Rightarrow> 't vlms" where
  "nba_sequent rt s =
     (let s1 = (if Rst s \<noteq> 0
                then s\<lparr>wb_dat_o := 0, irq_o := 0, x_in_reg := 0, d_in_reg := 0, mode_train_reg := 0\<rparr>
                else let s2 = s\<lparr>irq_o := 0\<rparr> in if lms_request s2 then lms_access s2 else s2)
      in lms_comb rt (s1\<lparr>lms_x := dly_x s, wb_ack_o := dly_ack s, err_reg := dly_err s, wn := dly_wn s\<rparr>))"

section \<open>Evaluation\<close>

definition eval_triggers_act :: "'t vl_runtime \<Rightarrow> 't vlms \<Rightarrow> 't vlms" where
  "eval_triggers_act rt s =
     s\<lparr>VactTriggered :=
         tv_set rt 1 ((ucast (Rst s) :: u32) AND NOT (ucast (prev_Rst s)) \<noteq> 0)
           (tv_set rt 0 ((ucast (Clk s) :: u32) AND NOT (ucast (prev_Clk s)) \<noteq> 0) (VactTriggered s)),
       prev_Clk := Clk s, prev_Rst := Rst s\<rparr>"

definition eval_phase_act :: "'t vl_runtime \<Rightarrow> 't vlms \<Rightarrow> bool \<times> 't vlms" where
  "eval_phase_act rt s =
     (let s1 = eval_triggers_act rt s
      in if tv_any rt (VactTriggered s1)
         then (True, s1\<lparr>VnbaTriggered := tv_or rt (VnbaTriggered s1) (VactTriggered s1)\<rparr>) else (False, s1))"

definition eval_nba :: "'t vl_runtime \<Rightarrow> 't vlms \<Rightarrow> 't vlms" where
  "eval_nba rt s = (if 3 AND tv_word rt (VnbaTriggered s) \<noteq> 0 then nba_sequent rt s else s)"

definition eval_phase_nba :: "'t vl_runtime \<Rightarrow> 't vlms \<Rightarrow> bool \<times> 't vlms" where
  "eval_phase_nba rt s =
     (if tv_any rt (VnbaTriggered s)
      then let s1 = eval_nba rt s in (True, s1\<lparr>VnbaTriggered := tv_clear rt (VnbaTriggered s1)\<rparr>) else (False, s))"

lemma count_succ: "\<not> 0x64 < c \<Longrightarrow> 0x66 - unat (1 + c) < 0x66 - unat c" for c :: u32
  by (auto simp: word_less_nat_alt unat_word_ariths)

function act_loop :: "'t vl_runtime \<Rightarrow> 't vlms \<Rightarrow> 't vlms option" where
  "act_loop rt s =
     (if VactContinue s = 0 then Some s
      else if 0x64 < VactIterCount s then None
      else let (again, s1) = eval_phase_act rt (s\<lparr>VactIterCount := 1 + VactIterCount s, VactContinue := 0\<rparr>)
           in act_loop rt (if again then s1\<lparr>VactContinue := 1\<rparr> else s1))"
  by pat_completeness auto
termination
proof (relation "measure (\<lambda>(rt, s). 0x66 - unat (VactIterCount s))", goal_cases)
  case (2 rt s p again s1)
  have "VactIterCount s1 = 1 + VactIterCount s"
    using 2(3,4) by (auto simp: eval_phase_act_def eval_triggers_act_def Let_def split: if_splits)
  with count_succ [OF 2(2)] show ?case by simp
qed simp

declare act_loop.simps [simp del]

text \<open>The loop of \<open>eval\<close>; \<open>count\<close> is the local counter.\<close>

function nba_loop :: "'t vl_runtime \<Rightarrow> u32 \<Rightarrow> 't vlms \<Rightarrow> 't vlms option" where
  "nba_loop rt count s =
     (if 0x64 < count then None
      else case act_loop rt (s\<lparr>VactIterCount := 0, VactContinue := 1\<rparr>) of
             None \<Rightarrow> None
           | Some s1 \<Rightarrow> (let (again, s2) = eval_phase_nba rt s1 in if again then nba_loop rt (1 + count) s2 else Some s2))"
  by pat_completeness auto
termination
proof (relation "measure (\<lambda>(rt, count, s). 0x66 - unat count)", goal_cases)
  case (2 rt count s s1 p again s2)
  then show ?case using count_succ [of count] by simp
qed simp

declare nba_loop.simps [simp del]

definition vlms_eval :: "'t vl_runtime \<Rightarrow> 't vlms \<Rightarrow> 't vlms option" where
  "vlms_eval rt s = nba_loop rt 0 s"

section \<open>Construction and first evaluation\<close>

text \<open>\<open>rnd k n\<close> is what the \<open>k\<close>-th call of \<open>VL_RAND_RESET_I\<close> returns for \<open>n\<close> bits.  The members that the constructor does
  not set keep what the memory of the object holds.\<close>

definition ctor_var_reset :: "(nat \<Rightarrow> nat \<Rightarrow> u32) \<Rightarrow> 't vlms \<Rightarrow> 't vlms" where
  "ctor_var_reset rnd s =
     s\<lparr>Clk := ucast (rnd 0 1), Rst := ucast (rnd 1 1), wb_cyc_i := ucast (rnd 2 1), wb_stb_i := ucast (rnd 3 1),
       wb_we_i := ucast (rnd 4 1), wb_adr_i := rnd 5 32, wb_dat_i := ucast (rnd 6 16), wb_dat_o := ucast (rnd 7 16),
       wb_ack_o := ucast (rnd 8 1), irq_o := ucast (rnd 9 1), x_in_reg := ucast (rnd 10 16),
       d_in_reg := ucast (rnd 11 16), mode_train_reg := ucast (rnd 12 1), y_out := ucast (rnd 13 16),
       wn := \<lparr>lane0 = ucast (rnd 14 16), lane1 = ucast (rnd 15 16), lane2 = ucast (rnd 16 16), lane3 = ucast (rnd 17 16)\<rparr>,
       lms_x := \<lparr>lane0 = ucast (rnd 18 16), lane1 = ucast (rnd 19 16), lane2 = ucast (rnd 20 16), lane3 = ucast (rnd 21 16)\<rparr>,
       err_reg := ucast (rnd 22 16),
       wn_u := \<lparr>lane0 = ucast (rnd 23 16), lane1 = ucast (rnd 24 16), lane2 = ucast (rnd 25 16), lane3 = ucast (rnd 26 16)\<rparr>,
       prev_Clk := ucast (rnd 27 1), prev_Rst := ucast (rnd 28 1)\<rparr>"

definition eval_static :: "'t vlms \<Rightarrow> 't vlms" where
  "eval_static s = s\<lparr>prev_Clk := Clk s, prev_Rst := Rst s\<rparr>"

definition eval_triggers_stl :: "'t vl_runtime \<Rightarrow> 't vlms \<Rightarrow> 't vlms" where
  "eval_triggers_stl rt s = s\<lparr>VstlTriggered := tv_set rt 0 (VstlFirstIteration s \<noteq> 0) (VstlTriggered s)\<rparr>"

definition eval_stl :: "'t vl_runtime \<Rightarrow> 't vlms \<Rightarrow> 't vlms" where
  "eval_stl rt s = (if 1 AND tv_word rt (VstlTriggered s) \<noteq> 0 then stl_sequent rt s else s)"

definition eval_phase_stl :: "'t vl_runtime \<Rightarrow> 't vlms \<Rightarrow> bool \<times> 't vlms" where
  "eval_phase_stl rt s =
     (let s1 = eval_triggers_stl rt s in if tv_any rt (VstlTriggered s1) then (True, eval_stl rt s1) else (False, s1))"

function stl_loop :: "'t vl_runtime \<Rightarrow> u32 \<Rightarrow> 't vlms \<Rightarrow> 't vlms option" where
  "stl_loop rt count s =
     (if 0x64 < count then None
      else let (again, s1) = eval_phase_stl rt s; s2 = s1\<lparr>VstlFirstIteration := 0\<rparr>
           in if again then stl_loop rt (1 + count) s2 else Some s2)"
  by pat_completeness auto
termination
  by (relation "measure (\<lambda>(rt, count, s). 0x66 - unat count)") (auto intro: count_succ)

declare stl_loop.simps [simp del]

definition eval_settle :: "'t vl_runtime \<Rightarrow> 't vlms \<Rightarrow> 't vlms option" where
  "eval_settle rt s = stl_loop rt 0 (s\<lparr>VstlFirstIteration := 1\<rparr>)"

text \<open>What a debugging build checks before each evaluation: the names of the inputs with more bits than the design has.\<close>

definition eval_debug_assertions :: "'t vlms \<Rightarrow> string list" where
  "eval_debug_assertions s =
     (if Clk s AND 0xfe \<noteq> 0 then [''Clk''] else []) @ (if Rst s AND 0xfe \<noteq> 0 then [''Rst''] else []) @
     (if wb_cyc_i s AND 0xfe \<noteq> 0 then [''wb_cyc_i''] else []) @ (if wb_stb_i s AND 0xfe \<noteq> 0 then [''wb_stb_i''] else []) @
     (if wb_we_i s AND 0xfe \<noteq> 0 then [''wb_we_i''] else [])"

text \<open>The symbol table: the flag of the first evaluation and the design.\<close>

record 't vlms_syms =
  Vm_didInit :: bool
  TOP :: "'t vlms"

text \<open>The constructor of a vector of triggers clears it; those of the other members leave the memory as it is.\<close>

definition vlms_new :: "'t vl_runtime \<Rightarrow> (nat \<Rightarrow> nat \<Rightarrow> u32) \<Rightarrow> 't vlms \<Rightarrow> 't vlms_syms" where
  "vlms_new rt rnd raw =
     \<lparr>Vm_didInit = False,
      TOP = ctor_var_reset rnd (raw\<lparr>VstlTriggered := tv_clear rt (VstlTriggered raw),
        VactTriggered := tv_clear rt (VactTriggered raw), VnbaTriggered := tv_clear rt (VnbaTriggered raw)\<rparr>)\<rparr>"

definition eval_step :: "'t vl_runtime \<Rightarrow> 't vlms_syms \<Rightarrow> 't vlms_syms option" where
  "eval_step rt m =
     (case (if Vm_didInit m then Some (TOP m) else eval_settle rt (eval_static (TOP m))) of
        None \<Rightarrow> None
      | Some s \<Rightarrow> (case vlms_eval rt s of None \<Rightarrow> None | Some s' \<Rightarrow> Some \<lparr>Vm_didInit = True, TOP = s'\<rparr>))"

section \<open>The run-time library\<close>

lemma ucast_back16: "ucast (ucast a :: u32) = a" for a :: sdata
  by (auto intro!: bit_word_eqI simp: bit_ucast_iff)

lemma low16_widen: "0xffff AND v = ucast (ucast v :: sdata)" for v :: u32
proof -
  have "0xffff AND v = mask 16 AND v" by (simp add: mask_eq_exp_minus_1)
  then show ?thesis by (auto intro!: bit_word_eqI simp: bit_simps)
qed

text \<open>The documented meaning of the functions of Verilator: the sign extension of a 16-bit value, the product modulo
  \<open>2\<^sup>3\<^sup>2\<close>, and vectors of at most 64 triggers held in one word.\<close>

locale verilator_library =
  fixes rt :: "'t vl_runtime"
  assumes extends: "vl_extends rt (ucast a) = scast (a :: sdata)"
    and muls: "vl_muls rt v w = v * w"
    and word_set: "b < 64 \<Longrightarrow> bit (tv_word rt (tv_set rt b q t)) i \<longleftrightarrow> (if i = b then q else bit (tv_word rt t) i)"
    and any: "tv_any rt t \<longleftrightarrow> tv_word rt t \<noteq> 0"
    and word_clear: "tv_word rt (tv_clear rt t) = 0"
    and word_or: "tv_word rt (tv_or rt t u) = tv_word rt t OR tv_word rt u"

text \<open>The library itself for up to 64 triggers: the vector is its word of flags.\<close>

definition vl_word_runtime :: "u64 vl_runtime" where
  "vl_word_runtime =
     \<lparr>vl_extends = (\<lambda>v. scast (ucast v :: sdata)), vl_muls = (\<lambda>a b. a * b), tv_set = (\<lambda>b q t. if q then Bit_Operations.set_bit b t else unset_bit b t),
      tv_any = (\<lambda>t. t \<noteq> 0), tv_clear = (\<lambda>t. 0), tv_or = (\<lambda>t u. t OR u), tv_word = (\<lambda>t. t)\<rparr>"

interpretation word_rt: verilator_library vl_word_runtime
  by unfold_locales (auto simp: vl_word_runtime_def bit_set_bit_iff bit_unset_bit_iff ucast_back16)

section \<open>Fixed-point arithmetic\<close>

text \<open>Bits 27 to 12 of a product, as a signed number: the product of two numbers with 12 fractional bits.\<close>

definition q12 :: "int \<Rightarrow> int" where
  "q12 p = signed_take_bit 15 (p div 4096)"

lemma low16: "ucast (0xffff AND v) = (ucast v :: sdata)" for v :: u32
proof -
  have "0xffff AND v = take_bit 16 v"
    using take_bit_eq_mask [of 16 v] by (simp add: mask_eq_exp_minus_1 and.commute)
  then show ?thesis by (auto intro!: bit_word_eqI simp: bit_ucast_iff bit_take_bit_iff)
qed

lemma shift_of_int: "ucast (drop_bit 12 (of_int i :: u32)) = (of_int (i div 4096) :: sdata)"
proof (rule bit_word_eqI)
  fix n assume "n < LENGTH(16)"
  moreover have "i div 4096 = drop_bit 12 i" by (simp add: drop_bit_eq_div)
  ultimately show "bit (ucast (drop_bit 12 (of_int i :: u32)) :: sdata) n \<longleftrightarrow> bit (of_int (i div 4096) :: sdata) n"
    by (simp add: bit_ucast_iff bit_drop_bit_eq bit_word_of_int_iff)
qed

lemmas low16_shift = low16 shift_of_int

lemma sint_of_int16: "sint (of_int i :: sdata) = signed_take_bit 15 i"
  by (simp add: signed_of_int)

context verilator_library
begin

lemma product_of_int: "lms_product rt a b = of_int (sint a * sint b)"
  by (simp add: lms_product_def extends muls ucast_back16)

lemma output_value: "sint (lms_output rt w x) = q12 (sint (lane0 w) * sint (lane0 x) + sint (lane1 w) * sint (lane1 x)
    + sint (lane2 w) * sint (lane2 x) + sint (lane3 w) * sint (lane3 x))"
  by (simp add: lms_output_def product_of_int low16_shift q12_def sint_of_int16 add.assoc flip: of_int_add of_int_mult)

end

lemma ucast_add16: "(ucast (v + w) :: sdata) = ucast v + ucast w" for v w :: u32
proof -
  have "(of_nat (unat (v + w)) :: sdata) = of_nat (unat v + unat w)"
    unfolding unat_word_ariths word_of_nat_eq_iff take_bit_eq_mod by (simp add: mod_mod_cancel del: of_nat_add)
  then show ?thesis by (simp add: of_nat_unat)
qed

lemma unat_below: "unat a < 2 ^ 32" for a :: u32
  using unsigned_less [of a] by simp

lemma low_nibble: "take_bit 4 n = of_bool (bit n 0) + 2 * of_bool (bit n 1) + 4 * of_bool (bit n 2) + 8 * of_bool (bit n 3)"
  for n :: nat
proof -
  have "[0..<4] = [0, 1, 2, 3::nat]" by (simp add: upt_rec)
  then have "take_bit 4 n = horner_sum of_bool 2 (map (bit n) [0, 1, 2, 3])"
    by (simp only: horner_sum_bit_eq_take_bit [of n 4, symmetric])
  then show ?thesis by simp
qed

lemma register_number:
  "unat (0xf AND drop_bit 2 a) = of_bool (bit a 2) + 2 * of_bool (bit a 3) + 4 * of_bool (bit a 4) + 8 * of_bool (bit a 5)"
  for a :: u32
proof -
  have "0xf AND drop_bit 2 a = take_bit 4 (drop_bit 2 a)"
    using take_bit_eq_mask [of 4 "drop_bit 2 a"] by (simp add: mask_eq_exp_minus_1 and.commute)
  then have "unat (0xf AND drop_bit 2 a) = take_bit 4 (drop_bit 2 (unat a))"
    unfolding unsigned_drop_bit_eq unsigned_take_bit_eq by (simp add: unsigned_drop_bit_eq unsigned_take_bit_eq take_bit_nat_eq_self [OF unat_below])
  also have "\<dots> = of_bool (bit (unat a) 2) + 2 * of_bool (bit (unat a) 3) + 4 * of_bool (bit (unat a) 4) + 8 * of_bool (bit (unat a) 5)"
    by (simp add: low_nibble bit_drop_bit_eq)
  finally show ?thesis by (simp add: bit_unsigned_iff)
qed

lemma and_bit_test: "(2 ^ k AND a = 0) \<longleftrightarrow> \<not> bit a k" if "k < 32" for a :: u32
  using that and_exp_eq_0_iff_not_bit [of a k] by (simp add: and.commute)

context verilator_library
begin

lemma updated_value: "sint (lms_updated rt w e x) = signed_take_bit 15 (sint w + q12 (sint e * sint x) div 2)"
proof -
  have scast32: "(scast v :: u32) = of_int (sint v)" for v :: sdata by simp
  define p where "p = q12 (sint e * sint x)"
  have "vl_extends rt (0xffff AND drop_bit 12 (lms_product rt e x)) = of_int p"
    unfolding low16_widen extends product_of_int shift_of_int scast32 sint_of_int16 p_def q12_def by (rule refl)
  then have "lms_updated rt w e x = ucast ((ucast w :: u32) + drop_bit 12 (of_int (2048 * p)))"
    by (simp add: lms_updated_def muls low16)
  also have "\<dots> = ucast (ucast w :: u32) + ucast (drop_bit 12 (of_int (2048 * p) :: u32))"
    by (simp add: ucast_add16)
  also have "\<dots> = of_int (sint w + p div 2)"
    unfolding ucast_back16 shift_of_int by simp
  finally show ?thesis by (simp only: sint_of_int16 p_def)
qed

end

end
