(* ===== verification/Lms_Refine.thy ===== *)
theory Lms_Refine
  imports Lms_Model
begin

text \<open>
  The compiled model of the LMS filter against the Verilog design: a reference over signed integers written from \<open>wb_lms.v\<close> and
  \<open>LMS.v\<close>, the refinement of one clock edge, the convergence of the loops of the evaluation, and whole simulation runs.  The last section
  has two facts about the design itself: which samples an adaptation uses, and how often a sample enters the delay line.
\<close>

section \<open>Reference: the Verilog design over integers\<close>

text \<open>The registers of \<open>wb_lms.v\<close> and \<open>LMS.v\<close> with their signed values, the newest sample first.  One access of the bus is
  the register number, bits 5 to 2 of the address, and the data.\<close>

record lms_ref =
  r_x :: int
  r_d :: int
  r_train :: bool
  r_xs :: "int list"
  r_ws :: "int list"
  r_err :: int
  r_ack :: bool
  r_irq :: bool
  r_dat :: int

record lms_bus =
  b_cyc :: bool
  b_stb :: bool
  b_we :: bool
  b_reg :: nat
  b_dat :: int

definition ref_y :: "lms_ref \<Rightarrow> int" where
  "ref_y r = q12 (sum_list (map2 (*) (r_ws r) (r_xs r)))"

definition ref_adapt :: "lms_ref \<Rightarrow> int list" where
  "ref_adapt r = map2 (\<lambda>w x. signed_take_bit 15 (w + q12 (r_err r * x) div 2)) (r_ws r) (r_xs r)"

definition ref_read :: "lms_ref \<Rightarrow> nat \<Rightarrow> int" where
  "ref_read r a = (if a = 3 then ref_y r else if a = 4 then r_err r else if 5 \<le> a \<and> a \<le> 8 then r_ws r ! (a - 5) else 0)"

definition ref_access :: "lms_bus \<Rightarrow> lms_ref \<Rightarrow> bool" where
  "ref_access b r \<longleftrightarrow> b_cyc b \<and> b_stb b \<and> \<not> r_ack r"

definition ref_reset :: lms_ref where
  "ref_reset = \<lparr>r_x = 0, r_d = 0, r_train = False, r_xs = [0, 0, 0, 0], r_ws = [0, 0, 0, 0], r_err = 0,
     r_ack = False, r_irq = False, r_dat = 0\<rparr>"

definition ref_clock :: "lms_bus \<Rightarrow> lms_ref \<Rightarrow> lms_ref" where
  "ref_clock b r =
     (let req = ref_access b r; wr = req \<and> b_we b
      in \<lparr>r_x = (if wr \<and> b_reg b = 0 then b_dat b else r_x r),
          r_d = (if wr \<and> b_reg b = 1 then b_dat b else r_d r),
          r_train = (if wr \<and> b_reg b = 2 then odd (b_dat b) else r_train r),
          r_xs = r_x r # butlast (r_xs r),
          r_ws = (if r_train r then ref_adapt r else r_ws r),
          r_err = (if r_train r then signed_take_bit 15 (r_d r - ref_y r) else 0),
          r_ack = req,
          r_irq = wr,
          r_dat = (if req \<and> \<not> b_we b then ref_read r (b_reg b) else r_dat r)\<rparr>)"

section \<open>The compiled model implements the reference\<close>

definition lane_list :: "lanes \<Rightarrow> int list" where
  "lane_list l = [sint (lane0 l), sint (lane1 l), sint (lane2 l), sint (lane3 l)]"

definition lms_abs :: "'t vlms \<Rightarrow> lms_ref" where
  "lms_abs s = \<lparr>r_x = sint (x_in_reg s), r_d = sint (d_in_reg s), r_train = (mode_train_reg s \<noteq> 0), r_xs = lane_list (lms_x s),
     r_ws = lane_list (wn s), r_err = sint (err_reg s), r_ack = (wb_ack_o s \<noteq> 0), r_irq = (irq_o s \<noteq> 0),
     r_dat = sint (wb_dat_o s)\<rparr>"

definition lms_bus_of :: "'t vlms \<Rightarrow> lms_bus" where
  "lms_bus_of s = \<lparr>b_cyc = (wb_cyc_i s \<noteq> 0), b_stb = (wb_stb_i s \<noteq> 0), b_we = (wb_we_i s \<noteq> 0),
     b_reg = unat (0xf AND drop_bit 2 (wb_adr_i s)), b_dat = sint (wb_dat_i s)\<rparr>"

text \<open>The one-bit members hold 0 or 1, and the combinational results belong to the registers.\<close>

definition one_bit :: "byte \<Rightarrow> bool" where
  "one_bit v \<longleftrightarrow> v = 0 \<or> v = 1"

definition lms_typed :: "'t vlms \<Rightarrow> bool" where
  "lms_typed s \<longleftrightarrow> one_bit (Clk s) \<and> one_bit (Rst s) \<and> one_bit (wb_cyc_i s) \<and> one_bit (wb_stb_i s) \<and> one_bit (wb_we_i s) \<and>
     one_bit (wb_ack_o s) \<and> one_bit (irq_o s) \<and> one_bit (mode_train_reg s) \<and> one_bit (prev_Clk s) \<and> one_bit (prev_Rst s)"

definition lms_settled :: "'t vl_runtime \<Rightarrow> 't vlms \<Rightarrow> bool" where
  "lms_settled rt s \<longleftrightarrow> y_out s = lms_output rt (wn s) (lms_x s) \<and>
     wn_u s = \<lparr>lane0 = lms_updated rt (lane0 (wn s)) (err_reg s) (lane0 (lms_x s)),
                lane1 = lms_updated rt (lane1 (wn s)) (err_reg s) (lane1 (lms_x s)),
                lane2 = lms_updated rt (lane2 (wn s)) (err_reg s) (lane2 (lms_x s)),
                lane3 = lms_updated rt (lane3 (wn s)) (err_reg s) (lane3 (lms_x s))\<rparr>"

definition lms_quiet :: "'t vl_runtime \<Rightarrow> 't vlms \<Rightarrow> bool" where
  "lms_quiet rt s \<longleftrightarrow> tv_word rt (VactTriggered s) = 0 \<and> tv_word rt (VnbaTriggered s) = 0"

definition lms_edge :: "'t vlms \<Rightarrow> bool" where
  "lms_edge s \<longleftrightarrow> (Clk s \<noteq> 0 \<and> prev_Clk s = 0) \<or> (Rst s \<noteq> 0 \<and> prev_Rst s = 0)"

lemma and_not_bits: "one_bit a \<Longrightarrow> one_bit b \<Longrightarrow> ((ucast a :: u32) AND NOT (ucast b) \<noteq> 0) \<longleftrightarrow> a \<noteq> 0 \<and> b = 0"
  unfolding one_bit_def by (elim disjE) simp_all

lemma request_bits: "one_bit a \<Longrightarrow> one_bit b \<Longrightarrow> one_bit c \<Longrightarrow>
    (((ucast a :: u32) AND ucast b) AND NOT (ucast c) \<noteq> 0) \<longleftrightarrow> a \<noteq> 0 \<and> b \<noteq> 0 \<and> c = 0"
  unfolding one_bit_def by (elim disjE) simp_all

lemma request_access: "lms_typed s \<Longrightarrow> lms_request s \<longleftrightarrow> ref_access (lms_bus_of s) (lms_abs s)"
  by (simp add: lms_typed_def lms_request_def ref_access_def lms_bus_of_def lms_abs_def request_bits)

lemma dat_mode: "(ucast (1 AND d) :: byte) = of_bool (odd (sint d))" for d :: sdata
proof -
  have "odd d \<longleftrightarrow> odd (sint d)" using bit_sint_iff [of d 0] by (simp add: bit_0)
  then show ?thesis by (simp add: one_and_eq mod_2_eq_odd)
qed

context verilator_library
begin

lemma settled_y: "lms_settled rt s \<Longrightarrow> sint (y_out s) = ref_y (lms_abs s)"
  by (simp add: lms_settled_def output_value ref_y_def lms_abs_def lane_list_def add.assoc)

lemma settled_wn_u: "lms_settled rt s \<Longrightarrow> lane_list (wn_u s) = ref_adapt (lms_abs s)"
  by (simp add: lms_settled_def updated_value ref_adapt_def lms_abs_def lane_list_def)

lemma read_value: "lms_settled rt s \<Longrightarrow> sint (lms_read s) = ref_read (lms_abs s) (b_reg (lms_bus_of s))"
  using settled_y [of s] and_bit_test [of 2 "wb_adr_i s"] and_bit_test [of 3 "wb_adr_i s"]
    and_bit_test [of 4 "wb_adr_i s"] and_bit_test [of 5 "wb_adr_i s"]
  by (simp add: lms_read_def ref_read_def Let_def lms_bus_of_def register_number)
    (simp add: lms_abs_def lane_list_def)

end

lemma ucast_diff16: "(ucast (v - w) :: sdata) = ucast v - ucast w" for v w :: u32
  using ucast_add16 [of "v - w" w] by simp

lemma dly_err_value: "sint (dly_err s) =
    (if Rst s = 0 \<and> mode_train_reg s \<noteq> 0 then signed_take_bit 15 (sint (d_in_reg s) - sint (y_out s)) else 0)"
proof -
  have "sint (d - y) = signed_take_bit 15 (sint d - sint y)" for d y :: sdata
    using sint_of_int16 [of "sint d - sint y"] by simp
  then show ?thesis by (simp add: dly_err_def low16 ucast_diff16 ucast_back16)
qed

lemma settled_comb: "lms_settled rt (lms_comb rt s)"
  by (simp add: lms_settled_def lms_comb_def)

lemma nba_settled: "lms_settled rt (nba_sequent rt s)"
  by (simp only: nba_sequent_def Let_def settled_comb)

lemma abs_comb [simp]: "lms_abs (lms_comb rt s) = lms_abs s" "lms_typed (lms_comb rt s) = lms_typed s"
  by (simp_all add: lms_abs_def lms_comb_def lms_typed_def)

lemma one_bit_simps [simp]: "one_bit 0" "one_bit 1" "one_bit (of_bool q)"
  by (simp_all add: one_bit_def)

lemma nba_typed: "lms_typed s \<Longrightarrow> lms_typed (nba_sequent rt s)"
  by (simp add: nba_sequent_def Let_def lms_access_def lms_write_def dat_mode)
    (auto simp: lms_typed_def dly_ack_def)

lemma nba_inputs [simp]:
  "Clk (nba_sequent rt s) = Clk s" "Rst (nba_sequent rt s) = Rst s" "prev_Clk (nba_sequent rt s) = prev_Clk s"
  "prev_Rst (nba_sequent rt s) = prev_Rst s"
  by (simp_all add: nba_sequent_def lms_comb_def Let_def lms_access_def lms_write_def)

lemma register_eq: "(a :: u32) = 0 \<longleftrightarrow> unat a = 0" "a = 1 \<longleftrightarrow> unat a = 1" "a = 2 \<longleftrightarrow> unat a = 2"
  by (simp_all add: word_unat_eq_iff)

context verilator_library
begin

lemma nba_reset: "Rst s \<noteq> 0 \<Longrightarrow> lms_abs (nba_sequent rt s) = ref_reset"
  by (simp add: nba_sequent_def Let_def)
    (simp add: lms_abs_def ref_reset_def dly_err_def dly_x_def dly_wn_def dly_ack_def lane_list_def)

lemma dly_ref:
  assumes "lms_typed s" "lms_settled rt s" "Rst s = 0"
  shows "sint (dly_err s) = (if mode_train_reg s \<noteq> 0 then signed_take_bit 15 (sint (d_in_reg s) - ref_y (lms_abs s)) else 0)"
    and "lane_list (dly_x s) = sint (x_in_reg s) # butlast (lane_list (lms_x s))"
    and "lane_list (dly_wn s) = (if mode_train_reg s \<noteq> 0 then ref_adapt (lms_abs s) else lane_list (wn s))"
    and "(dly_ack s \<noteq> 0) \<longleftrightarrow> ref_access (lms_bus_of s) (lms_abs s)"
  using assms(3) settled_y [OF assms(2)] settled_wn_u [OF assms(2)] request_access [OF assms(1)]
  by (simp_all add: dly_err_value dly_wn_def dly_ack_def) (simp add: dly_x_def lane_list_def)

text \<open>The registers of the bus after an edge without reset.\<close>

lemma read_irq: "lms_read (s\<lparr>irq_o := q\<rparr>) = lms_read s"
  by (simp add: lms_read_def Let_def)

lemma access_ref:
  assumes "lms_typed s" "lms_settled rt s"
  defines "s1 \<equiv> if lms_request (s\<lparr>irq_o := 0\<rparr>) then lms_access (s\<lparr>irq_o := 0\<rparr>) else s\<lparr>irq_o := 0\<rparr>"
  defines "b \<equiv> lms_bus_of s" and "r \<equiv> lms_abs s"
  shows "sint (x_in_reg s1) = (if ref_access b r \<and> b_we b \<and> b_reg b = 0 then b_dat b else r_x r)"
    and "sint (d_in_reg s1) = (if ref_access b r \<and> b_we b \<and> b_reg b = 1 then b_dat b else r_d r)"
    and "(mode_train_reg s1 \<noteq> 0) = (if ref_access b r \<and> b_we b \<and> b_reg b = 2 then odd (b_dat b) else r_train r)"
    and "(irq_o s1 \<noteq> 0) = (ref_access b r \<and> b_we b)"
    and "sint (wb_dat_o s1) = (if ref_access b r \<and> \<not> b_we b then ref_read r (b_reg b) else r_dat r)"
proof -
  have req: "lms_request (s\<lparr>irq_o := 0\<rparr>) \<longleftrightarrow> ref_access b r"
    using request_access [OF assms(1)] by (simp add: lms_request_def b_def r_def)
  have read: "sint (lms_read (s\<lparr>irq_o := 0\<rparr>)) = ref_read r (b_reg b)"
    using read_value [OF assms(2)] by (simp add: read_irq b_def r_def)
  have bus: "b_we b = (wb_we_i s \<noteq> 0)" "b_dat b = sint (wb_dat_i s)" "b_reg b = unat (0xf AND drop_bit 2 (wb_adr_i s))"
    by (simp_all add: b_def lms_bus_of_def)
  have regs: "r_x r = sint (x_in_reg s)" "r_d r = sint (d_in_reg s)" "r_train r = (mode_train_reg s \<noteq> 0)"
    "r_dat r = sint (wb_dat_o s)"
    by (simp_all add: r_def lms_abs_def)
  show "sint (x_in_reg s1) = (if ref_access b r \<and> b_we b \<and> b_reg b = 0 then b_dat b else r_x r)"
    unfolding s1_def req bus regs lms_access_def lms_write_def Let_def register_eq by simp
  show "sint (d_in_reg s1) = (if ref_access b r \<and> b_we b \<and> b_reg b = 1 then b_dat b else r_d r)"
    unfolding s1_def req bus regs lms_access_def lms_write_def Let_def register_eq by simp
  show "(mode_train_reg s1 \<noteq> 0) = (if ref_access b r \<and> b_we b \<and> b_reg b = 2 then odd (b_dat b) else r_train r)"
    unfolding s1_def req bus regs lms_access_def lms_write_def Let_def register_eq dat_mode by simp
  show "(irq_o s1 \<noteq> 0) = (ref_access b r \<and> b_we b)"
    unfolding s1_def req bus lms_access_def lms_write_def Let_def by simp
  show "sint (wb_dat_o s1) = (if ref_access b r \<and> \<not> b_we b then ref_read r (b_reg b) else r_dat r)"
    using read unfolding s1_def req bus regs lms_access_def lms_write_def Let_def by simp
qed

lemma nba_clock:
  assumes "lms_typed s" "lms_settled rt s" "Rst s = 0"
  shows "lms_abs (nba_sequent rt s) = ref_clock (lms_bus_of s) (lms_abs s)"
proof -
  define s1 where "s1 = (if lms_request (s\<lparr>irq_o := 0\<rparr>) then lms_access (s\<lparr>irq_o := 0\<rparr>) else s\<lparr>irq_o := 0\<rparr>)"
  have "lms_abs (nba_sequent rt s) = lms_abs (s1\<lparr>lms_x := dly_x s, wb_ack_o := dly_ack s, err_reg := dly_err s, wn := dly_wn s\<rparr>)"
    using assms(3) by (simp add: nba_sequent_def Let_def s1_def)
  moreover have "lms_abs s = \<lparr>r_x = sint (x_in_reg s), r_d = sint (d_in_reg s), r_train = (mode_train_reg s \<noteq> 0),
     r_xs = lane_list (lms_x s), r_ws = lane_list (wn s), r_err = sint (err_reg s), r_ack = (wb_ack_o s \<noteq> 0),
     r_irq = (irq_o s \<noteq> 0), r_dat = sint (wb_dat_o s)\<rparr>"
    by (simp add: lms_abs_def)
  ultimately show ?thesis
    using dly_ref [OF assms] access_ref [OF assms(1,2), folded s1_def] unfolding ref_clock_def Let_def
    by (subst (asm) lms_abs_def) simp
qed

end

section \<open>Convergence\<close>

text \<open>The members that only the scheduling of the evaluation uses.\<close>

definition sched :: "byte \<Rightarrow> byte \<Rightarrow> byte \<Rightarrow> u32 \<Rightarrow> 't \<Rightarrow> 't \<Rightarrow> 't vlms \<Rightarrow> 't vlms" where
  "sched p q c k t n s = s\<lparr>prev_Clk := p, prev_Rst := q, VactContinue := c, VactIterCount := k, VactTriggered := t, VnbaTriggered := n\<rparr>"

lemma sched_simps [simp]:
  "VactContinue (sched p q c k t n s) = c" "VactIterCount (sched p q c k t n s) = k" "VactTriggered (sched p q c k t n s) = t"
  "VnbaTriggered (sched p q c k t n s) = n" "Clk (sched p q c k t n s) = Clk s" "Rst (sched p q c k t n s) = Rst s"
  "prev_Clk (sched p q c k t n s) = p" "prev_Rst (sched p q c k t n s) = q"
  "(sched p q c k t n s)\<lparr>VactIterCount := k'\<rparr> = sched p q c k' t n s"
  "(sched p q c k t n s)\<lparr>VactContinue := c'\<rparr> = sched p q c' k t n s"
  "(sched p q c k t n s)\<lparr>VnbaTriggered := n'\<rparr> = sched p q c k t n' s"
  "sched p' q' c' k' t' n' (sched p q c k t n s) = sched p' q' c' k' t' n' s"
  by (simp_all add: sched_def)

lemma sched_self: "s = sched (prev_Clk s) (prev_Rst s) (VactContinue s) (VactIterCount s) (VactTriggered s) (VnbaTriggered s) s"
  by (simp add: sched_def)

lemma sched_abs [simp]:
  "lms_abs (sched p q c k t n s) = lms_abs s" "lms_settled rt (sched p q c k t n s) = lms_settled rt s"
  "lms_bus_of (sched p q c k t n s) = lms_bus_of s"
  by (simp_all add: lms_abs_def lms_settled_def lms_bus_of_def sched_def)

lemma sched_fields [simp]:
  "irq_o (sched p q c k t n s) = irq_o s" "x_in_reg (sched p q c k t n s) = x_in_reg s"
  "d_in_reg (sched p q c k t n s) = d_in_reg s" "mode_train_reg (sched p q c k t n s) = mode_train_reg s"
  "wb_dat_o (sched p q c k t n s) = wb_dat_o s" "lms_x (sched p q c k t n s) = lms_x s"
  "wb_ack_o (sched p q c k t n s) = wb_ack_o s" "err_reg (sched p q c k t n s) = err_reg s"
  "wn (sched p q c k t n s) = wn s" "y_out (sched p q c k t n s) = y_out s" "wn_u (sched p q c k t n s) = wn_u s"
  "wb_cyc_i (sched p q c k t n s) = wb_cyc_i s" "wb_stb_i (sched p q c k t n s) = wb_stb_i s"
  "wb_we_i (sched p q c k t n s) = wb_we_i s" "wb_adr_i (sched p q c k t n s) = wb_adr_i s"
  "wb_dat_i (sched p q c k t n s) = wb_dat_i s"
  by (simp_all add: sched_def)

lemma sched_update [simp]:
  "(sched p q c k t n s)\<lparr>irq_o := a1\<rparr> = sched p q c k t n (s\<lparr>irq_o := a1\<rparr>)"
  "(sched p q c k t n s)\<lparr>x_in_reg := a2\<rparr> = sched p q c k t n (s\<lparr>x_in_reg := a2\<rparr>)"
  "(sched p q c k t n s)\<lparr>d_in_reg := a3\<rparr> = sched p q c k t n (s\<lparr>d_in_reg := a3\<rparr>)"
  "(sched p q c k t n s)\<lparr>mode_train_reg := a4\<rparr> = sched p q c k t n (s\<lparr>mode_train_reg := a4\<rparr>)"
  "(sched p q c k t n s)\<lparr>wb_dat_o := a5\<rparr> = sched p q c k t n (s\<lparr>wb_dat_o := a5\<rparr>)"
  "(sched p q c k t n s)\<lparr>lms_x := a6\<rparr> = sched p q c k t n (s\<lparr>lms_x := a6\<rparr>)"
  "(sched p q c k t n s)\<lparr>wb_ack_o := a7\<rparr> = sched p q c k t n (s\<lparr>wb_ack_o := a7\<rparr>)"
  "(sched p q c k t n s)\<lparr>err_reg := a8\<rparr> = sched p q c k t n (s\<lparr>err_reg := a8\<rparr>)"
  "(sched p q c k t n s)\<lparr>wn := a9\<rparr> = sched p q c k t n (s\<lparr>wn := a9\<rparr>)"
  "(sched p q c k t n s)\<lparr>y_out := a10\<rparr> = sched p q c k t n (s\<lparr>y_out := a10\<rparr>)"
  "(sched p q c k t n s)\<lparr>wn_u := a11\<rparr> = sched p q c k t n (s\<lparr>wn_u := a11\<rparr>)"
  by (simp_all add: sched_def)

lemma sched_request [simp]: "lms_request (sched p q c k t n s) = lms_request s"
  by (simp add: lms_request_def)

lemma sched_access [simp]: "lms_access (sched p q c k t n s) = sched p q c k t n (lms_access s)"
  unfolding lms_access_def lms_write_def lms_read_def Let_def by simp

lemma sched_nba: "nba_sequent rt (sched p q c k t n s) = sched p q c k t n (nba_sequent rt s)"
proof -
  have "dly_x (sched p q c k t n s) = dly_x s" "dly_ack (sched p q c k t n s) = dly_ack s"
    "dly_err (sched p q c k t n s) = dly_err s" "dly_wn (sched p q c k t n s) = dly_wn s"
    by (simp_all add: dly_x_def dly_ack_def dly_err_def dly_wn_def)
  then show ?thesis
    unfolding nba_sequent_def Let_def lms_comb_def by simp
qed

context verilator_library
begin

definition low2 :: "'t \<Rightarrow> bool" where
  "low2 t \<longleftrightarrow> (\<forall>i. bit (tv_word rt t) i \<longrightarrow> i < 2)"

lemma low2_zero: "tv_word rt t = 0 \<Longrightarrow> low2 t"
  by (simp add: low2_def)

definition edges :: "'t vlms \<Rightarrow> 't" where
  "edges s = VactTriggered (eval_triggers_act rt s)"

lemma triggers_sched: "eval_triggers_act rt (sched p q c k t n s) =
    sched (Clk s) (Rst s) c k (edges (sched p q c k t n s)) n s"
  by (simp add: eval_triggers_act_def edges_def sched_def)

lemma edges_word:
  assumes "lms_typed s" "low2 (VactTriggered s)"
  shows "low2 (edges s)" and "tv_word rt (edges s) \<noteq> 0 \<longleftrightarrow> lms_edge s" and "3 AND tv_word rt (edges s) = tv_word rt (edges s)"
proof -
  have bits: "bit (tv_word rt (edges s)) i \<longleftrightarrow>
      (if i = 1 then Rst s \<noteq> 0 \<and> prev_Rst s = 0 else if i = 0 then Clk s \<noteq> 0 \<and> prev_Clk s = 0 else False)" for i
    using assms by (auto simp: edges_def eval_triggers_act_def word_set and_not_bits lms_typed_def low2_def)
  then show "low2 (edges s)" by (auto simp: low2_def split: if_splits)
  show "tv_word rt (edges s) \<noteq> 0 \<longleftrightarrow> lms_edge s"
    unfolding bit_eq_iff [of "tv_word rt (edges s)"] bits lms_edge_def by (auto split: if_splits)
  have "bit (3 :: u64) i \<longleftrightarrow> i < 2" for i
    using bit_mask_iff [of 2 i, where 'a = u64] by (auto simp: mask_eq_exp_minus_1)
  then show "3 AND tv_word rt (edges s) = tv_word rt (edges s)"
    by (intro bit_word_eqI) (auto simp: bit_and_iff bits)
qed

end

context verilator_library
begin

lemma typed_sched: "lms_typed s \<Longrightarrow> one_bit p \<Longrightarrow> one_bit q \<Longrightarrow> lms_typed (sched p q c k t n s)"
  by (simp add: lms_typed_def)

lemma edge_sched: "lms_edge (sched p q c k t n s) \<longleftrightarrow> (Clk s \<noteq> 0 \<and> p = 0) \<or> (Rst s \<noteq> 0 \<and> q = 0)"
  by (simp add: lms_edge_def)

text \<open>A turn of the active region without an edge is the last one.\<close>

lemma act_idle:
  assumes "lms_typed s" "one_bit p" "one_bit q" "low2 t" "\<not> lms_edge (sched p q c k t n s)" "\<not> 0x64 < k" "c \<noteq> 0"
  shows "\<exists>t'. tv_word rt t' = 0 \<and> act_loop rt (sched p q c k t n s) = Some (sched (Clk s) (Rst s) 0 (1 + k) t' n s)"
proof -
  let ?s = "sched p q 0 (1 + k) t n s"
  have "lms_typed ?s" by (rule typed_sched [OF assms(1-3)])
  then have "tv_word rt (edges ?s) = 0"
    using edges_word(2) [of ?s] assms(4,5) by (auto simp: edge_sched)
  then show ?thesis
    using assms(6,7)
    by (subst act_loop.simps) (auto simp: eval_phase_act_def triggers_sched any act_loop.simps [of rt "sched _ _ 0 _ _ _ _"])
qed

lemma act_edge:
  assumes "lms_typed s" "one_bit p" "one_bit q" "low2 t" "tv_word rt n = 0" "lms_edge (sched p q c 0 t n s)" "c \<noteq> 0"
  shows "\<exists>t' n'. tv_word rt t' = 0 \<and> 3 AND tv_word rt n' \<noteq> 0 \<and>
    act_loop rt (sched p q c 0 t n s) = Some (sched (Clk s) (Rst s) 0 2 t' n' s)"
proof -
  let ?s = "sched p q 0 1 t n s" and ?n = "tv_or rt n (edges (sched p q 0 1 t n s))"
  have "lms_typed ?s" by (rule typed_sched [OF assms(1-3)])
  then have e: "tv_word rt (edges ?s) \<noteq> 0" "3 AND tv_word rt (edges ?s) = tv_word rt (edges ?s)" "low2 (edges ?s)"
    using edges_word [of ?s] assms(4,6) by (simp_all add: edge_sched)
  have step: "act_loop rt (sched p q c 0 t n s) = act_loop rt (sched (Clk s) (Rst s) 1 1 (edges ?s) ?n s)"
    using assms(7) e(1) by (subst act_loop.simps) (simp add: eval_phase_act_def triggers_sched any)
  have "one_bit (Clk s)" "one_bit (Rst s)" using assms(1) by (simp_all add: lms_typed_def)
  from act_idle [OF assms(1) this e(3), of 1 1 ?n]
  obtain t' where "tv_word rt t' = 0" "act_loop rt (sched (Clk s) (Rst s) 1 1 (edges ?s) ?n s) = Some (sched (Clk s) (Rst s) 0 2 t' ?n s)"
    by (auto simp: edge_sched)
  with e(1,2) step assms(5) show ?thesis by (metis word_or or.left_neutral)
qed

lemma nba_idle:
  assumes "lms_typed s" "one_bit p" "one_bit q" "low2 t" "tv_word rt n = 0" "\<not> lms_edge (sched p q c k t n s)" "\<not> 0x64 < count"
  shows "\<exists>t'. tv_word rt t' = 0 \<and> nba_loop rt count (sched p q c k t n s) = Some (sched (Clk s) (Rst s) 0 1 t' n s)"
proof -
  have "\<not> lms_edge (sched p q 1 0 t n s)" using assms(6) by (simp add: edge_sched)
  from act_idle [OF assms(1-4) this] obtain t' where
    "tv_word rt t' = 0" "act_loop rt (sched p q 1 0 t n s) = Some (sched (Clk s) (Rst s) 0 1 t' n s)" by auto
  then show ?thesis
    using assms(5,7) by (subst nba_loop.simps) (auto simp: eval_phase_nba_def any)
qed

text \<open>One evaluation: the function for the edges runs once when there is an edge, and the loops end.\<close>

lemma eval_result:
  assumes "lms_typed s" "lms_quiet rt s"
  shows "\<exists>t n. tv_word rt t = 0 \<and> tv_word rt n = 0 \<and>
    vlms_eval rt s = Some (sched (Clk s) (Rst s) 0 1 t n (if lms_edge s then nba_sequent rt s else s))"
proof -
  obtain p q c k t n where s: "s = sched p q c k t n s" and low: "low2 t" and n: "tv_word rt n = 0"
    and bits: "one_bit p" "one_bit q" and pq: "prev_Clk s = p" "prev_Rst s = q"
    using sched_self [of s] assms low2_zero unfolding lms_typed_def lms_quiet_def by metis
  have start: "vlms_eval rt s = nba_loop rt 0 (sched p q c k t n s)"
    using s by (simp add: vlms_eval_def)
  show ?thesis
  proof (cases "lms_edge s")
    case False
    then have "\<not> lms_edge (sched p q c k t n s)" using s by simp
    from nba_idle [OF assms(1) bits low n this, of 0] n start False show ?thesis by auto
  next
    case True
    then have "lms_edge (sched p q 1 0 t n s)" using pq by (simp add: lms_edge_def)
    from act_edge [OF assms(1) bits low n this] obtain t' n' where act: "tv_word rt t' = 0" "3 AND tv_word rt n' \<noteq> 0"
      "act_loop rt (sched p q 1 0 t n s) = Some (sched (Clk s) (Rst s) 0 2 t' n' s)" by auto
    then have any: "tv_any rt n'" using any [of n'] by auto
    define s1 where "s1 = nba_sequent rt s"
    have "nba_loop rt 0 (sched p q c k t n s) = nba_loop rt 1 (sched (Clk s) (Rst s) 0 2 t' (tv_clear rt n') s1)"
      using act any by (subst nba_loop.simps) (simp add: eval_phase_nba_def eval_nba_def sched_nba s1_def)
    moreover have "lms_typed s1" "Clk s1 = Clk s" "Rst s1 = Rst s"
      using nba_typed [OF assms(1)] by (simp_all add: s1_def)
    moreover have "one_bit (Clk s)" "one_bit (Rst s)" using assms(1) by (simp_all add: lms_typed_def)
    ultimately show ?thesis
      using nba_idle [of s1 "Clk s" "Rst s" t' "tv_clear rt n'" 0 2 1] act(1) start True low2_zero [of t'] word_clear [of n']
      by (auto simp: edge_sched s1_def)
  qed
qed

end

section \<open>Simulation runs\<close>

text \<open>What a test bench does for each step of time: it sets the inputs and evaluates the model.\<close>

record lms_in =
  i_clk :: bool
  i_rst :: bool
  i_cyc :: bool
  i_stb :: bool
  i_we :: bool
  i_adr :: u32
  i_dat :: sdata

definition set_inputs :: "lms_in \<Rightarrow> 't vlms \<Rightarrow> 't vlms" where
  "set_inputs i s = s\<lparr>Clk := of_bool (i_clk i), Rst := of_bool (i_rst i), wb_cyc_i := of_bool (i_cyc i),
     wb_stb_i := of_bool (i_stb i), wb_we_i := of_bool (i_we i), wb_adr_i := i_adr i, wb_dat_i := i_dat i\<rparr>"

definition lms_poke :: "lms_in \<Rightarrow> 't vlms_syms \<Rightarrow> 't vlms_syms" where
  "lms_poke i m = m\<lparr>TOP := set_inputs i (TOP m)\<rparr>"

fun lms_sim :: "'t vl_runtime \<Rightarrow> lms_in list \<Rightarrow> 't vlms_syms \<Rightarrow> 't vlms_syms option" where
  "lms_sim rt [] m = Some m"
| "lms_sim rt (i # ins) m = (case eval_step rt (lms_poke i m) of None \<Rightarrow> None | Some m' \<Rightarrow> lms_sim rt ins m')"

definition in_bus :: "lms_in \<Rightarrow> lms_bus" where
  "in_bus i = \<lparr>b_cyc = i_cyc i, b_stb = i_stb i, b_we = i_we i, b_reg = unat (0xf AND drop_bit 2 (i_adr i)), b_dat = sint (i_dat i)\<rparr>"

text \<open>The reference for one step of time; \<open>c\<close> and \<open>q\<close> are the clock and the reset of the step before.\<close>

definition ref_time :: "bool \<times> bool \<times> lms_ref \<Rightarrow> lms_in \<Rightarrow> bool \<times> bool \<times> lms_ref" where
  "ref_time = (\<lambda>(c, q, r) i. (i_clk i, i_rst i,
     if (i_clk i \<and> \<not> c) \<or> (i_rst i \<and> \<not> q) then if i_rst i then ref_reset else ref_clock (in_bus i) r else r))"

lemma set_inputs_simps [simp]:
  "lms_abs (set_inputs i s) = lms_abs s" "lms_settled rt (set_inputs i s) = lms_settled rt s"
  "lms_quiet rt (set_inputs i s) = lms_quiet rt s" "lms_bus_of (set_inputs i s) = in_bus i"
  "Clk (set_inputs i s) = of_bool (i_clk i)" "Rst (set_inputs i s) = of_bool (i_rst i)"
  "prev_Clk (set_inputs i s) = prev_Clk s" "prev_Rst (set_inputs i s) = prev_Rst s"
  "VstlTriggered (set_inputs i s) = VstlTriggered s"
  by (simp_all add: set_inputs_def lms_abs_def lms_settled_def lms_quiet_def lms_bus_of_def in_bus_def)

lemma set_inputs_typed: "lms_typed s \<Longrightarrow> lms_typed (set_inputs i s)"
  by (simp add: set_inputs_def lms_typed_def)

context verilator_library
begin

text \<open>The state between two evaluations.\<close>

definition lms_stable :: "'t vlms \<Rightarrow> bool" where
  "lms_stable s \<longleftrightarrow> lms_typed s \<and> lms_settled rt s \<and> lms_quiet rt s"

lemma eval_stable:
  assumes "lms_stable s"
  shows "\<exists>s'. vlms_eval rt s = Some s' \<and> lms_stable s' \<and> prev_Clk s' = Clk s \<and> prev_Rst s' = Rst s \<and>
    lms_abs s' = (if lms_edge s then if Rst s \<noteq> 0 then ref_reset else ref_clock (lms_bus_of s) (lms_abs s) else lms_abs s)"
proof -
  define s1 where "s1 = (if lms_edge s then nba_sequent rt s else s)"
  have s: "lms_typed s" "lms_settled rt s" "lms_quiet rt s" using assms by (simp_all add: lms_stable_def)
  have "lms_typed s1" "lms_settled rt s1" using s nba_typed nba_settled by (auto simp: s1_def)
  moreover have "lms_typed (sched (Clk s) (Rst s) 0 1 t n s1)" for t n
    using calculation s by (intro typed_sched) (simp_all add: lms_typed_def)
  moreover have "lms_abs s1 = (if lms_edge s then if Rst s \<noteq> 0 then ref_reset else ref_clock (lms_bus_of s) (lms_abs s) else lms_abs s)"
    using nba_reset [of s] nba_clock [OF s(1,2)] by (auto simp: s1_def)
  ultimately show ?thesis
    using eval_result [OF s(1,3), folded s1_def] by (auto simp: lms_stable_def lms_quiet_def simp del: split_paired_Ex)
qed

lemma settle_result:
  assumes "tv_word rt (VstlTriggered s) = 0"
  shows "\<exists>t. eval_settle rt s = Some ((lms_comb rt s)\<lparr>VstlFirstIteration := 0, VstlTriggered := t\<rparr>)"
proof -
  let ?t = "tv_set rt 0 True (VstlTriggered s)"
  have one: "1 AND tv_word rt ?t \<noteq> 0"
    using word_set [of 0 True "VstlTriggered s" 0] by (simp add: one_and_eq mod_2_eq_odd flip: bit_0)
  then have nz: "tv_word rt ?t \<noteq> 0" by auto
  have comb: "(lms_comb rt (s\<lparr>VstlFirstIteration := 1, VstlTriggered := ?t\<rparr>))\<lparr>VstlFirstIteration := 0\<rparr> =
      (lms_comb rt s)\<lparr>VstlFirstIteration := 0, VstlTriggered := ?t\<rparr>"
    by (simp add: lms_comb_def)
  have zero: "tv_word rt (tv_set rt 0 False ?t) = 0"
    using assms by (intro bit_word_eqI) (simp add: word_set)
  have "stl_loop rt 0 (s\<lparr>VstlFirstIteration := 1\<rparr>) = stl_loop rt 1 ((lms_comb rt s)\<lparr>VstlFirstIteration := 0, VstlTriggered := ?t\<rparr>)"
    using one nz by (subst stl_loop.simps)
      (simp add: eval_phase_stl_def eval_triggers_stl_def eval_stl_def stl_sequent_def comb any Let_def)
  also have "\<dots> = Some ((lms_comb rt s)\<lparr>VstlFirstIteration := 0, VstlTriggered := tv_set rt 0 False ?t\<rparr>)"
    using zero by (subst stl_loop.simps) (simp add: eval_phase_stl_def eval_triggers_stl_def any Let_def)
  finally show ?thesis by (auto simp: eval_settle_def)
qed

definition lms_ready :: "'t vlms_syms \<Rightarrow> bool" where
  "lms_ready m \<longleftrightarrow> (if Vm_didInit m then lms_stable (TOP m)
     else lms_typed (TOP m) \<and> lms_quiet rt (TOP m) \<and> tv_word rt (VstlTriggered (TOP m)) = 0)"

text \<open>The clock and the reset that the next evaluation compares with: the first one has nothing to compare with.\<close>

definition ref_state :: "lms_in \<Rightarrow> 't vlms_syms \<Rightarrow> bool \<times> bool \<times> lms_ref" where
  "ref_state i m = (if Vm_didInit m then (prev_Clk (TOP m) \<noteq> 0, prev_Rst (TOP m) \<noteq> 0, lms_abs (TOP m))
     else (i_clk i, i_rst i, lms_abs (TOP m)))"

lemma settle_stable:
  assumes "lms_typed s" "lms_quiet rt s" "tv_word rt (VstlTriggered s) = 0"
  shows "\<exists>s'. eval_settle rt (eval_static s) = Some s' \<and> lms_stable s' \<and> lms_abs s' = lms_abs s \<and>
    Clk s' = Clk s \<and> Rst s' = Rst s \<and> prev_Clk s' = Clk s \<and> prev_Rst s' = Rst s \<and> lms_bus_of s' = lms_bus_of s"
proof -
  let ?s = "eval_static s"
  obtain t where "eval_settle rt ?s = Some ((lms_comb rt ?s)\<lparr>VstlFirstIteration := 0, VstlTriggered := t\<rparr>)"
    using settle_result [of ?s] assms(3) by (auto simp: eval_static_def)
  moreover have "lms_typed ?s" "lms_quiet rt ?s" using assms by (simp_all add: eval_static_def lms_typed_def lms_quiet_def)
  ultimately show ?thesis
    by (simp add: lms_stable_def lms_comb_def eval_static_def)
      (simp add: lms_typed_def lms_quiet_def lms_settled_def lms_abs_def lms_bus_of_def)
qed

lemma step_ready:
  assumes "lms_ready m"
  shows "\<exists>m'. eval_step rt (lms_poke i m) = Some m' \<and> Vm_didInit m' \<and> lms_ready m' \<and> ref_state j m' = ref_time (ref_state i m) i"
proof -
  let ?s = "set_inputs i (TOP m)"
  have "\<exists>s. (if Vm_didInit m then Some ?s else eval_settle rt (eval_static ?s)) = Some s \<and> lms_stable s \<and>
      lms_abs s = lms_abs (TOP m) \<and> Clk s = of_bool (i_clk i) \<and> Rst s = of_bool (i_rst i) \<and> lms_bus_of s = in_bus i \<and>
      ref_state i m = (prev_Clk s \<noteq> 0, prev_Rst s \<noteq> 0, lms_abs s)"
    using assms settle_stable [of ?s] set_inputs_typed [of "TOP m" i]
    by (auto simp: lms_ready_def ref_state_def lms_stable_def)
  then obtain s where s: "(if Vm_didInit m then Some ?s else eval_settle rt (eval_static ?s)) = Some s" "lms_stable s"
      "Clk s = of_bool (i_clk i)" "Rst s = of_bool (i_rst i)" "lms_bus_of s = in_bus i"
      "ref_state i m = (prev_Clk s \<noteq> 0, prev_Rst s \<noteq> 0, lms_abs s)"
    by blast
  from eval_stable [OF s(2)] obtain s' where e: "vlms_eval rt s = Some s'" "lms_stable s'" "prev_Clk s' = Clk s" "prev_Rst s' = Rst s"
      "lms_abs s' = (if lms_edge s then if Rst s \<noteq> 0 then ref_reset else ref_clock (lms_bus_of s) (lms_abs s) else lms_abs s)"
    by blast
  then have "ref_state j \<lparr>Vm_didInit = True, TOP = s'\<rparr> = ref_time (ref_state i m) i"
    by (simp add: ref_state_def [of j] s(3-6) ref_time_def lms_edge_def)
  moreover have "eval_step rt (lms_poke i m) = Some \<lparr>Vm_didInit = True, TOP = s'\<rparr>"
    using s(1) e(1) by (cases "Vm_didInit m") (simp_all add: eval_step_def lms_poke_def)
  ultimately show ?thesis using e(2) by (simp add: lms_ready_def)
qed

end

text \<open>A random value of one bit is 0 or 1.\<close>

definition one_bit_random :: "(nat \<Rightarrow> nat \<Rightarrow> u32) \<Rightarrow> bool" where
  "one_bit_random rnd \<longleftrightarrow> (\<forall>k. rnd k 1 < 2)"

context verilator_library
begin

lemma sim_ready:
  "lms_ready m \<Longrightarrow> \<exists>m'. lms_sim rt (i # ins) m = Some m' \<and> Vm_didInit m' \<and> lms_ready m' \<and>
     ref_state j m' = foldl ref_time (ref_state i m) (i # ins)"
proof (induction ins arbitrary: i m)
  case Nil
  then show ?case using step_ready [of m i j] by auto
next
  case (Cons k ks)
  from step_ready [OF Cons.prems, of i k] obtain m1 where m1: "eval_step rt (lms_poke i m) = Some m1" "lms_ready m1"
    "ref_state k m1 = ref_time (ref_state i m) i" by blast
  from Cons.IH [OF m1(2), of k] m1 show ?case by auto
qed

lemma new_ready:
  assumes "one_bit_random rnd"
  shows "lms_ready (vlms_new rt rnd raw)"
proof -
  have "rnd k 1 = 0 \<or> rnd k 1 = 1" for k
    using assms [unfolded one_bit_random_def, rule_format, of k] by (auto simp: word_less_nat_alt word_unat_eq_iff)
  then have "one_bit (ucast (rnd k 1))" for k unfolding one_bit_def by (metis ucast_0 ucast_1)
  then show ?thesis
    by (simp add: lms_ready_def vlms_new_def ctor_var_reset_def lms_typed_def lms_quiet_def word_clear)
qed

lemma new_sim:
  assumes "one_bit_random rnd"
  shows "\<exists>m. lms_sim rt (i # ins) (vlms_new rt rnd raw) = Some m \<and> Vm_didInit m \<and> lms_stable (TOP m) \<and>
    foldl ref_time (i_clk i, i_rst i, lms_abs (TOP (vlms_new rt rnd raw))) ins = (prev_Clk (TOP m) \<noteq> 0, prev_Rst (TOP m) \<noteq> 0, lms_abs (TOP m))"
proof -
  from sim_ready [OF new_ready [OF assms], of i ins raw i] obtain m where m: "lms_sim rt (i # ins) (vlms_new rt rnd raw) = Some m"
    "Vm_didInit m" "lms_ready m" "ref_state i m = foldl ref_time (ref_state i (vlms_new rt rnd raw)) (i # ins)"
    by blast
  have "ref_state i (vlms_new rt rnd raw) = (i_clk i, i_rst i, lms_abs (TOP (vlms_new rt rnd raw)))"
    by (simp add: ref_state_def vlms_new_def)
  with m show ?thesis by (simp add: ref_state_def lms_ready_def ref_time_def)
qed

end

lemma sint_inj16: "v = w" if "sint v = sint w" for v w :: sdata
  using arg_cong [OF that, of "of_int :: int \<Rightarrow> sdata"] by simp

lemma ref_time_reset:
  assumes "\<not> i_rst a" "i_rst b"
  shows "foldl ref_time st (as @ a # b # bs) = foldl ref_time (i_clk b, True, ref_reset) bs"
  using assms by (simp add: ref_time_def split_def)

text \<open>The states that a model can be in, from its construction on.\<close>

inductive lms_reach :: "'t vl_runtime \<Rightarrow> (nat \<Rightarrow> nat \<Rightarrow> u32) \<Rightarrow> 't vlms_syms \<Rightarrow> bool" for rt rnd where
  lms_init: "lms_reach rt rnd (vlms_new rt rnd raw)"
| lms_step: "lms_reach rt rnd m \<Longrightarrow> eval_step rt (lms_poke i m) = Some m' \<Longrightarrow> lms_reach rt rnd m'"

text \<open>C14: Whatever the random values of the first state are, every sequence of inputs runs through the compiled model without a failure
  to converge, and the registers afterwards are those of the Verilog design over signed integers: samples, weights, error,
  bus registers, acknowledgement, interrupt and data.  The output of the filter is the scaled sum of products of the registers.  The first
  evaluation sees no edge, since it only notes the levels of clock and reset.\<close>

theorem lms_simulation_follows_design:
  assumes "verilator_library rt" and "one_bit_random rnd"
  shows "\<exists>m. lms_sim rt (i # ins) (vlms_new rt rnd raw) = Some m \<and> sint (y_out (TOP m)) = ref_y (lms_abs (TOP m)) \<and>
    foldl ref_time (i_clk i, i_rst i, lms_abs (TOP (vlms_new rt rnd raw))) ins
      = (prev_Clk (TOP m) \<noteq> 0, prev_Rst (TOP m) \<noteq> 0, lms_abs (TOP m))"
  using verilator_library.new_sim [OF assms] verilator_library.settled_y [OF assms(1)]
  by (fastforce simp: verilator_library.lms_stable_def [OF assms(1)])

text \<open>C26: A rising reset makes the model forget the random values that it started with: two models that see the same inputs,
  among them a step with the reset low followed by one with it high, agree in all registers and in the output.\<close>

theorem lms_reset_forgets_start:
  assumes "verilator_library rt" and "one_bit_random rnd" and "one_bit_random rnd'" and "\<not> i_rst a" and "i_rst b"
    and "lms_sim rt (as @ a # b # bs) (vlms_new rt rnd raw) = Some m"
    and "lms_sim rt (as @ a # b # bs) (vlms_new rt rnd' raw') = Some m'"
  shows "lms_abs (TOP m) = lms_abs (TOP m') \<and> y_out (TOP m) = y_out (TOP m')"
proof -
  have known: "lms_abs (TOP m) = snd (snd (foldl ref_time (i_clk b, True, ref_reset) bs)) \<and> sint (y_out (TOP m)) = ref_y (lms_abs (TOP m))"
    if "one_bit_random rnd" "lms_sim rt (as @ a # b # bs) (vlms_new rt rnd raw) = Some m" for rnd raw m
  proof -
    obtain i ins where inputs: "as @ a # b # bs = i # ins" by (cases as) auto
    have first: "ref_time (i_clk i, i_rst i, r) i = (i_clk i, i_rst i, r)" for r by (simp add: ref_time_def)
    have "foldl ref_time (i_clk i, i_rst i, r) ins = foldl ref_time (i_clk b, True, ref_reset) bs" for r
      using ref_time_reset [OF assms(4,5), where st = "(i_clk i, i_rst i, r)" and as = as and bs = bs, unfolded inputs]
      by (simp add: first)
    then show ?thesis
      using verilator_library.new_sim [OF assms(1) that(1), of i ins raw] that(2) verilator_library.settled_y [OF assms(1)]
      by (fastforce simp: inputs verilator_library.lms_stable_def [OF assms(1)])
  qed
  show ?thesis using known [OF assms(2,6)] known [OF assms(3,7)] by (simp add: sint_inj16)
qed

lemma typed_assertions: "lms_typed s \<Longrightarrow> eval_debug_assertions s = []"
proof -
  have "one_bit v \<Longrightarrow> v AND 0xfe = 0" for v by (auto simp: one_bit_def)
  then show "lms_typed s \<Longrightarrow> eval_debug_assertions s = []" by (simp add: lms_typed_def eval_debug_assertions_def)
qed

text \<open>C25: In every state that a model can reach, from its construction on, the one-bit members hold 0 or 1, the checks of a
  debugging build accept the inputs, and the next evaluation converges for all inputs.\<close>

theorem lms_reach_typed:
  assumes "verilator_library rt" and "one_bit_random rnd" and "lms_reach rt rnd m"
  shows "lms_typed (TOP m) \<and> eval_debug_assertions (TOP (lms_poke i m)) = [] \<and> (\<exists>m'. eval_step rt (lms_poke i m) = Some m')"
proof -
  from assms(3) have "verilator_library.lms_ready rt m"
  proof induction
    case (lms_init raw)
    show ?case by (rule verilator_library.new_ready [OF assms(1,2)])
  next
    case (lms_step m i m')
    then show ?case using verilator_library.step_ready [OF assms(1), of m i i] by auto
  qed
  moreover from this have typed: "lms_typed (TOP m)"
    by (auto simp: verilator_library.lms_ready_def [OF assms(1)] verilator_library.lms_stable_def [OF assms(1)] split: if_splits)
  ultimately show ?thesis
    using verilator_library.step_ready [OF assms(1), of m i i] typed_assertions [OF set_inputs_typed [OF typed]] by (auto simp: lms_poke_def)
qed

text \<open>Concrete inputs: a level of clock and reset without an access, and an access that writes a register at a rising clock.\<close>

definition lms_level :: "bool \<Rightarrow> bool \<Rightarrow> lms_in" where
  "lms_level c q = \<lparr>i_clk = c, i_rst = q, i_cyc = False, i_stb = False, i_we = False, i_adr = 0, i_dat = 0\<rparr>"

definition lms_store :: "u32 \<Rightarrow> sdata \<Rightarrow> lms_in" where
  "lms_store a d = \<lparr>i_clk = True, i_rst = False, i_cyc = True, i_stb = True, i_we = True, i_adr = a, i_dat = d\<rparr>"

definition vlms_zero :: "u64 vlms" where
  "vlms_zero = \<lparr>Clk = 0, Rst = 0, wb_cyc_i = 0, wb_stb_i = 0, wb_we_i = 0, wb_ack_o = 0, irq_o = 0, mode_train_reg = 0,
     VstlFirstIteration = 0, prev_Clk = 0, prev_Rst = 0, VactContinue = 0, wb_dat_i = 0, wb_dat_o = 0, x_in_reg = 0, d_in_reg = 0,
     y_out = 0, err_reg = 0, wn_u = \<lparr>lane0 = 0, lane1 = 0, lane2 = 0, lane3 = 0\<rparr>, wb_adr_i = 0, VactIterCount = 0,
     wn = \<lparr>lane0 = 0, lane1 = 0, lane2 = 0, lane3 = 0\<rparr>, lms_x = \<lparr>lane0 = 0, lane1 = 0, lane2 = 0, lane3 = 0\<rparr>,
     VstlTriggered = 7, VactTriggered = 7, VnbaTriggered = 7\<rparr>"

lemma constant_random: "one_bit_random (\<lambda>k n. 0)" "one_bit_random (\<lambda>k n. 1)"
  by (simp_all add: one_bit_random_def)

text \<open>With weights of one half, taken from the random values \<open>0x800\<close>, a sample of 1.0 that is written at one edge enters the delay line
  at the next one, and the output is 0.5.\<close>

definition half_random :: "nat \<Rightarrow> nat \<Rightarrow> u32" where
  "half_random k n = (if n = 16 \<and> 14 \<le> k \<and> k \<le> 17 then 0x800 else 0)"

theorem lms_simulation_follows_design_witness:
  "\<exists>m. lms_sim vl_word_runtime [lms_level False False, lms_store 0 0x1000, lms_level False False, lms_level True False]
       (vlms_new vl_word_runtime half_random vlms_zero) = Some m \<and>
     r_xs (lms_abs (TOP m)) = [4096, 0, 0, 0] \<and> r_ws (lms_abs (TOP m)) = [2048, 2048, 2048, 2048] \<and> sint (y_out (TOP m)) = 2048"
proof -
  let ?is = "[lms_store 0 0x1000, lms_level False False, lms_level True False]"
  have "one_bit_random half_random" by (simp add: one_bit_random_def half_random_def)
  from lms_simulation_follows_design [OF word_rt.verilator_library_axioms this, where i = "lms_level False False" and ins = ?is and raw = vlms_zero]
  obtain m where m: "lms_sim vl_word_runtime (lms_level False False # ?is) (vlms_new vl_word_runtime half_random vlms_zero) = Some m"
    "sint (y_out (TOP m)) = ref_y (lms_abs (TOP m))"
    "foldl ref_time (False, False, lms_abs (TOP (vlms_new vl_word_runtime half_random vlms_zero))) ?is
      = (prev_Clk (TOP m) \<noteq> 0, prev_Rst (TOP m) \<noteq> 0, lms_abs (TOP m))"
    by (auto simp: lms_level_def)
  have start: "lms_abs (TOP (vlms_new vl_word_runtime half_random vlms_zero)) = ref_reset\<lparr>r_ws := [2048, 2048, 2048, 2048]\<rparr>"
    by (simp add: vlms_new_def ctor_var_reset_def vlms_zero_def lms_abs_def half_random_def lane_list_def ref_reset_def)
  have "lms_abs (TOP m) = \<lparr>r_x = 4096, r_d = 0, r_train = False, r_xs = [4096, 0, 0, 0], r_ws = [2048, 2048, 2048, 2048], r_err = 0,
      r_ack = False, r_irq = False, r_dat = 0\<rparr>"
    using m(3) unfolding start
    by (simp add: ref_time_def lms_store_def lms_level_def ref_clock_def ref_access_def in_bus_def ref_reset_def)
  with m(1,2) show ?thesis by (auto simp: ref_y_def q12_def)
qed

theorem lms_reset_forgets_start_witness:
  "\<exists>m m'. lms_sim vl_word_runtime [lms_level False False, lms_level False True] (vlms_new vl_word_runtime (\<lambda>k n. 0) vlms_zero) = Some m \<and>
     lms_sim vl_word_runtime [lms_level False False, lms_level False True] (vlms_new vl_word_runtime (\<lambda>k n. 1) vlms_zero) = Some m' \<and>
     lms_abs (TOP m) = lms_abs (TOP m') \<and> y_out (TOP m) = y_out (TOP m')"
proof -
  obtain m where m: "lms_sim vl_word_runtime [lms_level False False, lms_level False True] (vlms_new vl_word_runtime (\<lambda>k n. 0) vlms_zero) = Some m"
    using word_rt.new_sim [OF constant_random(1)] by blast
  obtain m' where m': "lms_sim vl_word_runtime [lms_level False False, lms_level False True] (vlms_new vl_word_runtime (\<lambda>k n. 1) vlms_zero) = Some m'"
    using word_rt.new_sim [OF constant_random(2)] by blast
  show ?thesis
    using m m' lms_reset_forgets_start [OF word_rt.verilator_library_axioms constant_random, where as = "[]" and a = "lms_level False False"
        and b = "lms_level False True" and bs = "[]" and raw = vlms_zero and raw' = vlms_zero and m = m and m' = m']
    by (simp add: lms_level_def)
qed

theorem lms_reach_typed_witness:
  "lms_typed (TOP (vlms_new vl_word_runtime (\<lambda>k n. 1) vlms_zero)) \<and>
     eval_debug_assertions (TOP (lms_poke (lms_store 0 1) (vlms_new vl_word_runtime (\<lambda>k n. 1) vlms_zero))) = [] \<and>
     (\<exists>m'. eval_step vl_word_runtime (lms_poke (lms_store 0 1) (vlms_new vl_word_runtime (\<lambda>k n. 1) vlms_zero)) = Some m')"
  by (rule lms_reach_typed [OF word_rt.verilator_library_axioms constant_random(2) lms_init])

section \<open>The samples of the weight update\<close>

lemma clock_fields:
  "r_xs (ref_clock b r) = r_x r # butlast (r_xs r)"
  "r_ws (ref_clock b r) = (if r_train r then ref_adapt r else r_ws r)"
  "r_err (ref_clock b r) = (if r_train r then signed_take_bit 15 (r_d r - ref_y r) else 0)"
  "r_ack (ref_clock b r) \<longleftrightarrow> ref_access b r"
  by (simp_all add: ref_clock_def Let_def)

text \<open>Two training steps: the second one adapts the weights with the error of the samples before the first one, but multiplies it with
  the samples after it, which are one place further along the delay line.\<close>

lemma update_uses_shifted_samples:
  assumes "r_train r" and "r_train (ref_clock b r)"
  shows "r_ws (ref_clock b' (ref_clock b r)) =
    map2 (\<lambda>w x. signed_take_bit 15 (w + q12 (signed_take_bit 15 (r_d r - ref_y r) * x) div 2)) (ref_adapt r) (r_x r # butlast (r_xs r))"
  using assms(2) by (simp add: clock_fields assms(1) ref_adapt_def [of "ref_clock b r"])

text \<open>For a signal that alternates between 1.0 and \<open>-\<close>1.0 and is wanted at the output unchanged, the first adaptation therefore goes the wrong
  way: it takes the weight of the newest sample to \<open>-\<close>0.5.\<close>

lemma alternating_signal_adapts_wrong_way:
  assumes "r = ref_reset\<lparr>r_train := True, r_xs := [4096, -4096, 4096, -4096], r_d := 4096, r_x := -4096\<rparr>"
    and "\<not> b_cyc b"
  shows "hd (r_ws (ref_clock b (ref_clock b r))) = -2048"
  using assms by (simp add: ref_clock_def ref_access_def ref_adapt_def ref_y_def ref_reset_def q12_def)

text \<open>The delay line moves at every edge of the clock, and an access is never accepted at the edge after another one: each sample that is
  written over the bus enters the line at least twice.\<close>

lemma sample_enters_twice:
  assumes "ref_access b r" and "length (r_xs r) = 4"
  shows "take 2 (r_xs (ref_clock b'' (ref_clock b' (ref_clock b r)))) = [r_x (ref_clock b r), r_x (ref_clock b r)]"
proof -
  have "r_x (ref_clock b' (ref_clock b r)) = r_x (ref_clock b r)"
    using assms(1) by (simp add: ref_clock_def [of b'] Let_def ref_access_def [of b'] clock_fields)
  moreover have "butlast (r_xs r) \<noteq> []" using assms(2) by (cases "r_xs r" rule: rev_cases) auto
  ultimately show ?thesis by (simp add: clock_fields)
qed

end
