(* ===== verification/Spec2Isabelle.thy ===== *)
theory Spec2Isabelle
  imports Soc_Boot Elf64 Sim_Bram Sim_Console Mw_Session Verilator_Tty Hello_World Sim_Litedram Log_Dump Lms_Refine
begin

text \<open>
  A verification library for the C and C++ code of the Microwatt repository: the firmware that runs on the
  processor, the helpers of its simulators, and the tools that debug it.

  \<^bold>\<open>The parts of the program.\<close>  The firmware of the memory controller (\<open>litedram/gen-src/sdram_init\<close>) starts the
  system: it prints its progress on a serial console (\<open>lib/console.c\<close>) through the formatted printer of a small
  C library (\<open>libc/src\<close>), finds a flash chip and loads an ELF image from it.  \<open>hello_world\<close> is a program that such a
  system runs.  In a simulation, VHDL processes call C helpers: block memories (\<open>sim_bram_helpers_c.c\<close>), a terminal
  (\<open>sim_console_c.c\<close>), a debug port on a TCP socket (\<open>sim_jtag_socket_c.c\<close>) and the memory controller
  (\<open>litedram/extras/sim_litedram_c.cpp\<close>), with the value conversions of \<open>sim_vhpi_c.c\<close>.  The Verilator simulation has a
  main loop and a serial line of its own (\<open>verilator\<close>).  On the host, \<open>scripts/mw_debug\<close> reaches a target through the
  socket or a JTAG cable, and \<open>scripts/fmt_log\<close> prints the logs that it dumps.  An adaptive filter (\<open>LMS_Periph\<close>) comes with
  a simulation model that Verilator compiled to C++.

  \<^bold>\<open>Theories and sources.\<close>

  \<^item> \<open>Prelude\<close>: machine words, the flat byte memory, byte strings and little-endian values.
  \<^item> \<open>Libc_Ctype\<close>, \<open>Libc_Mem\<close>, \<open>Libc_String\<close>, \<open>Libc_Strtol\<close>, \<open>Libc_Printf\<close>: every function of \<open>libc/src\<close>, over memory.
    \<open>Libc_Printf_Total\<close> holds the proof that the printer returns and stays inside its buffer.
  \<^item> \<open>Soc_Io\<close>: the constants of \<open>include/microwatt_soc.h\<close> that drivers use and the accesses of \<open>include/io.h\<close> over a bus.  \<open>Soc_Map\<close>
    has the rest of that header, the accessors of \<open>system.h\<close> and the address decoders of \<open>soc.vhdl\<close>, \<open>Syscon\<close> the system controller of \<open>syscon.vhdl\<close> on that bus.
  \<^item> \<open>Console\<close>: \<open>lib/console.c\<close>.  The locale \<open>console_port\<close> is what the generic part needs of a UART driver and
    \<open>console\<close> what its clients need; the locales \<open>uart_16550\<close> and \<open>uart_potato\<close> are the contracts of the two devices.
  \<^item> \<open>Boot\<close>: \<open>sdram_init/main.c\<close>.  \<open>Boot_Load\<close> has the specification of the loader, \<open>Boot_Flash\<close> that of the detection of the
    flash chip, with the contract \<open>flash_port\<close> of the controller and the chip, and \<open>Boot_Main\<close> the whole start on a board, with the
    contract \<open>boot_board\<close>, which extends it by the system controller and the memory initialisation; \<open>Soc_Boot\<close> provides it with the controller of the design.
  \<^item> \<open>Elf64\<close>: the declarations of \<open>elf64.h\<close> and the general ones of \<open>elf_common.h\<close>, and the layout that C gives to the structures.
  \<^item> \<open>Hello_World\<close>: \<open>hello_world/hello_world.c\<close> and \<open>rust_lib_demo/hello_world.c\<close>.
  \<^item> \<open>Vhpi\<close>, \<open>Sim_Bram\<close>, \<open>Sim_Jtag\<close>, \<open>Sim_Console\<close>, \<open>Sim_Litedram\<close>: the helpers of the VHDL simulation, one theory per
    source file.  The locale \<open>bit_codec\<close> is the contract of a pair of conversions between words and vectors.
  \<^item> \<open>Uart_Verilator\<close> and \<open>Verilator_Main\<close>: \<open>uart-verilator.c\<close> and \<open>microwatt-verilator.cpp\<close>.
  \<^item> \<open>Terminal\<close>: the raw mode of the terminal, which both simulators switch on.  The locale \<open>tty_user\<close> is what they do to it;
    \<open>Sim_Console\<close> provides it for the VHDL simulation and \<open>Verilator_Tty\<close> for the Verilator one.
  \<^item> \<open>Dmi_Sim\<close>, \<open>Mw_Backend\<close>, \<open>Mw_Debug\<close>, \<open>Mw_Memory\<close>, \<open>Mw_Main\<close>: \<open>mw_debug.c\<close>, from the packing of bits up to \<open>main\<close>.  The locales
    \<open>dmi_target\<close> and \<open>wb_target\<close> are what the commands need of a target and of its memory window.
  \<^item> \<open>Dmi_Target\<close>: the far side of the debug port, from \<open>dmi_dtm_xilinx.vhdl\<close> and \<open>wishbone_debug_master.vhdl\<close>, joined to the
    packets of \<open>Sim_Jtag\<close>; it provides both contracts.  \<open>Jtag_Cable\<close> reaches the same module through the JTAG backends; the locale
    \<open>jtag_cable\<close> is what they need of the JTAG library.
  \<^item> \<open>Mw_Session\<close>: whole sessions of the debug tool.  The locale \<open>same_access\<close> says that two backends agree on register accesses, from
    which they agree on every command line.
  \<^item> \<open>Fmt_Log\<close>: \<open>fmt_log.c\<close>, and the layout of the log in the VHDL design.
  \<^item> \<open>Log_Dump\<close>: the ring buffer of the log in \<open>core_debug.vhdl\<close> behind the debug port.  The locale \<open>log_target\<close> is what
    \<open>log_dump\<close> needs of a core that logs.
  \<^item> \<open>Lms_Model\<close> and \<open>Lms_Refine\<close>: the compiled filter of \<open>LMS_Periph/obj_dir\<close>, and its reference, the Verilog design over integers.  The
    locale \<open>verilator_library\<close> is the contract of Verilator's run-time library.

  \<^bold>\<open>How code is translated.\<close>  Firmware state is passed explicitly: a memory from 64-bit addresses to bytes, the state of the
  devices behind a bus given by two functions, and the static variables as records.  Integers are words of the
  width of their type and wrap around; signed overflow and accesses outside an object have no result.  The
  helpers and the tools run on the host; a run ends with a value, with a call of \<open>exit\<close>, or in undefined behaviour
  (\<open>outcome\<close>), and what the operating system answers is an argument.  Loops are structural or computed recursion
  where they end for every input.  Loops that follow data of unknown length or poll a device are \<open>partial_function\<close>s,
  for which \<open>None\<close> means that the call does not return; the properties about them state the result, so that they
  include that it returns.  There is no other bound, except for three endless loops: the echo of \<open>hello_world\<close>
  is followed for a number of iterations that is an argument, the Verilator main loop for the length of the list
  of its inputs, and the samples of the serial line are a list.

  \<^bold>\<open>What is shown.\<close>

  \<^item> The C library: the block routines move, fill and compare memory for every overlap and length; the string
    routines meet specifications over lists of bytes; the parsers read the numbers that the printer prints; the
    printer returns on every well-formed format and stays inside its buffer unless a conversion is a \<open>%c\<close>, which can make it write one
    byte more.
  \<^item> The system: the addresses that the header gives to the devices select these devices in the design, and the firmware reads the configuration that the design
    was built with.
  \<^item> The console: with either device \<open>puts\<close> and \<open>getchar\<close> return and carry the text; the divisor is programmed from
    the clock of the configuration, and nothing else is written.
  \<^item> The boot loader: \<open>boot_flash\<close> refines the loading of an ELF image, up to the first header that is not loadable,
    and refuses other files; the detection of the flash chip returns and sets a supported chip up for fast reads; \<open>main\<close> as a
    whole returns the entry point of the image with the image in memory, or falls back to its payload.  The memory map is that of the firmware: its
    window on the flash ends where its own code, data and stack begin.  The loader reads the headers where the ELF declarations put their members, and members of the declared structures do not overlap.
  \<^item> The helpers of the simulation: conversions are inverse to each other, memories return what was written, a
    cycle of the memory controller refines its model, and packets are exchanged with their last byte missing.
    The terminal has its old settings again when the process exits; an end by a signal leaves it in raw mode.
  \<^item> The serial line of Verilator: an invariant of all reachable states, and that the main loop carries characters from the terminal
    to any design and from the design to the terminal.
  \<^item> The debug tool: over the simulated target and over a cable every register access returns after finitely many polls with its
    effect, memory that was written is read back, and saving a file that was loaded in whole words
    writes its bytes, after which the tail of a longer old file remains; a session over a cable
    is the same as over the simulated port; the options keep the core number in range.
  \<^item> The log formatter: what it prints, and that the fields agree with the signals that the design logs, except
    for two that are exchanged; a log that was stopped passes from the design through the debug port and the file to
    the printed lines.
  \<^item> The compiled filter: every run converges and has the registers of the Verilog design, members stay in their
    range, and a reset makes the random first state irrelevant.

  \<^bold>\<open>Assumptions.\<close>  The host is a little-endian 64-bit machine that allocates bit-fields from the least significant bit on.
  The bus of the console and of the flash, the Verilator models, the JTAG library, the Rust library of the demonstration and the LiteX code are arguments with named
  hypotheses, each shown to be satisfiable by an instance; the memory behind the debug port is a plain memory.  The floating-point
  test of the serial line is an exact comparison of fractions, the flags of terminals are those of Linux, and the results of \<open>getopt_long\<close> are an argument.

  \<^bold>\<open>Not modelled.\<close>  Messages of the simulator helpers on the standard error stream; wave traces; in the compiled filter, the registration
  with the library, names, and messages of debugging builds; the tables of architecture-specific constants in \<open>elf_common.h\<close>, which no code
  uses, and headers that only declare; the VHDL design beyond the parts named above; tests and build scripts.
\<close>

section \<open>Properties that span components\<close>

text \<open>C2: The log of a core passes from the design through the debug tool and the formatter: when the log is stopped and
  holds what the design logs for a list of signals, dumping it over the simulated debug port succeeds, and formatting
  the dumped file prints exactly those signals, from the oldest entry on, with the bypass bits of operands A
  and C exchanged.\<close>

theorem dumped_log_is_printed:
  fixes feed :: "'c log_core \<Rightarrow> 256 word list" and st :: "'c log_core wbdm dtm dbg"
  assumes "vhpi0 vh \<noteq> vhpi1 vh" and "n \<le> 29" and "\<And>k. hf_fwrite fs k = 1" and "hf_create fs name = Some old"
    and "dt_wait (db_target st) = 0" and "log_stopped (the_core (db_target st))"
    and "list_all logged es" and "map (log_array (the_core (db_target st))) [0..<2 ^ n] = map core_log es"
  shows "\<exists>st'. log_dump fs (sim_backend net (sim_link vh (soc_ops (log_ops n (db_core st) feed rest)))) name st = Some (Done (), st') \<and>
    fmt_main cpi_text junk 1 None (file_bytes (db_file st')) =
      (0, printed cpi_text junk (map as_read (rotate (log_pos n (the_core (db_target st))) es)))"
proof -
  have "list_all logged (rotate (log_pos n (the_core (db_target st))) es)" using assms(7) by (simp add: list_all_iff)
  then show ?thesis
    using stopped_log_file [OF assms(1-6), of net feed rest] unfolding assms(8)
    by (auto simp: put_bytes_start fmt_main_prints rotate_map entries_logged)
qed

theorem dumped_log_is_printed_witness:
  "\<exists>st'. log_dump \<lparr>hf_open = \<lambda>_. None, hf_create = \<lambda>_. Some [7], hf_write = \<lambda>_. 8, hf_fwrite = \<lambda>_. 1, hf_strerror = []\<rparr>
      (sim_backend \<lparr>sn_socket = 3, sn_gethostbyname = \<lambda>_. True, sn_connect = \<lambda>_ _. 0, sn_strerror = []\<rparr>
        (sim_link ghdl_codes (soc_ops (log_ops 1 0 (\<lambda>_. []) \<lparr>dv_rd = \<lambda>a c. (0, c), dv_wr = \<lambda>a d c. c, dv_delay = \<lambda>_. 2\<rparr>)))) ''log''
      \<lparr>db_core = 0, db_debug = False, db_out = [], db_err = [], db_file = ([], []), db_junk = \<lambda>_. 0,
        db_target = \<lparr>dt_op = 0, dt_addr = 0, dt_data = 0, dt_wait = 0, dt_dev =
          \<lparr>wb_reg_addr = 0, wb_reg_ctrl = 0, wb_data_latch = 0, wb_memory = \<lambda>_. 0, wb_core =
            \<lparr>log_dmi_addr = 0x80000000, log_wr_ptr = 1,
             log_array = (\<lambda>i. core_log (read_entry (le_bytes 8 0x180000000000 @ replicate 16 0 @ le_bytes 8 (of_nat i)))), log_rest = ()\<rparr>\<rparr>\<rparr>\<rparr> =
      Some (Done (), st') \<and>
    fmt_main (\<lambda>_ _. []) 0 1 None (file_bytes (db_file st')) =
      (0, printed (\<lambda>_ _. []) 0 (map as_read [read_entry (le_bytes 8 0x180000000000 @ replicate 16 0 @ le_bytes 8 1),
        read_entry (le_bytes 8 0x180000000000 @ replicate 16 0 @ le_bytes 8 0)]))"
proof -
  let ?e = "\<lambda>i. read_entry (le_bytes 8 0x180000000000 @ replicate 16 0 @ le_bytes 8 (of_nat i))"
  have l: "logged (?e i)" for i
  proof -
    have w: "entry_word (le_bytes 8 0x180000000000 @ replicate 16 0 @ le_bytes 8 x) 0 = 0x180000000000"
      "entry_word (le_bytes 8 0x180000000000 @ replicate 16 0 @ le_bytes 8 x) 2 = 0" for x
      by (simp_all add: entry_word_def le_val_le_bytes [of 8] del: le_bytes_numeral replicate_numeral)
        (simp add: numeral_eq_Suc)
    have "lw0 (?e i) = unpack0 0x180000000000" "lw2 (?e i) = unpack2 0" by (simp_all only: read_entry_def log_entry.simps w)
    then show ?thesis unfolding logged_def using read_entry_fits by (auto simp: unpack0_def unpack2_def bits_def)
  qed
  let ?a = "\<lambda>i. core_log (?e i)"
  let ?st = "\<lparr>db_core = 0, db_debug = False, db_out = [], db_err = [], db_file = ([], []), db_junk = \<lambda>_. 0,
        db_target = \<lparr>dt_op = 0, dt_addr = 0, dt_data = 0, dt_wait = 0, dt_dev =
          \<lparr>wb_reg_addr = 0, wb_reg_ctrl = 0, wb_data_latch = 0, wb_memory = \<lambda>_. 0, wb_core =
            \<lparr>log_dmi_addr = 0x80000000, log_wr_ptr = 1, log_array = ?a, log_rest = ()\<rparr>\<rparr>\<rparr>\<rparr>"
  define es where "es = [?e 0, ?e 1]"
  have es: "list_all logged es" by (simp only: es_def list.pred_inject l simp_thms)
  have "map ?a [0..<2 ^ 1] = map core_log es" by (simp only: es_def) (simp add: upt_rec)
  then have ar: "map (log_array (the_core (db_target ?st))) [0..<2 ^ 1] = map core_log es" by simp
  have stp: "log_stopped (the_core (db_target ?st))" by (simp add: log_stopped_def)
  have pos: "log_pos 1 (the_core (db_target ?st)) = 1" by (simp add: log_pos_def)
  have rot: "map as_read (rotate 1 es) = map as_read [?e 1, ?e 0]" by (simp only: es_def) simp
  have cd: "vhpi0 ghdl_codes \<noteq> vhpi1 ghdl_codes" by (simp add: ghdl_codes_def)
  show ?thesis
    using dumped_log_is_printed [where st = ?st and n = 1 and es = es and vh = ghdl_codes and name = "''log''" and junk = 0
        and cpi_text = "\<lambda>_ _. []" and feed = "\<lambda>_. []" and rest = "\<lparr>dv_rd = \<lambda>a c. (0, c), dv_wr = \<lambda>a d c. c, dv_delay = \<lambda>_. 2\<rparr>"
        and net = "\<lparr>sn_socket = 3, sn_gethostbyname = \<lambda>_. True, sn_connect = \<lambda>_ _. 0, sn_strerror = []\<rparr>"
        and fs = "\<lparr>hf_open = \<lambda>_. None, hf_create = \<lambda>_. Some [7], hf_write = \<lambda>_. 8, hf_fwrite = \<lambda>_. 1, hf_strerror = []\<rparr>",
        OF cd one_le_numeral _ _ _ stp es ar, unfolded pos rot]
    by (simp only: dbg.simps dtm.simps host_fs.simps semiring_1_class.of_nat_0 of_nat_1 simp_thms)
qed

end
